(* ===== verification/Prelude.thy ===== *)
theory Prelude
  imports Main "HOL-Library.Char_ord" "HOL-Library.List_Lexorder"
begin

text \<open>
  Shared vocabulary of the development: the exception classes the modules raise, the
  result type of a fallible operation and its sequencing, the three table statements the
  stores use (a single-row \<open>SELECT\<close>, \<open>UPDATE ... WHERE\<close>, \<open>INSERT\<close>), the
  Python string helpers (\<open>str.strip\<close>, the identifier patterns), and a locale for
  transition systems whose invariant lemma every component's state machine uses.

  An exception is represented by its class: that is what \<open>except\<close> clauses and the
  API's error mapping read. The text of a message is not modelled. \<open>SensitiveContent\<close> is
  \<open>ProgressSensitiveContent\<close>, a subclass of \<open>ValueError\<close>; \<open>TriggerException\<close> is what a
  \<open>RAISE EXCEPTION\<close> of a trigger becomes in the driver.
\<close>

named_theorems monad_simps \<open>sequencing of fallible operations\<close>
named_theorems table_simps \<open>table statements\<close>

section \<open>Exceptions and results\<close>

datatype exn =
    ValueError | SensitiveContent
  | UniqueViolation | ForeignKeyViolation | CheckViolation | DataError | TriggerException
  | DatabaseError
  | QueueNotFound | QueueConflict | QueueAuthorizationError | LeaseExpired
  | RoutingError | RoutingNotFound | RoutingConflict
  | HandoffError | HandoffNotFound | HandoffConflict | HandoffAuthorizationError
  | LifecycleError | LifecycleNotFound | LifecycleConflict | LifecycleAuthorizationError
  | FlowDefinitionError | FlowEngineError | FlowEngineNotFound | FlowEngineConflict
  | GovernanceError | GovernanceNotFound | GovernanceConflict
  | ReliabilityError | ReliabilityNotFound | ReliabilityConflict
  | RecoverySupervisorError | RecoveryAuthorizationError | RecoveryConflict
  | PackageResolutionError | ConfigRepositoryError | BehavioralGuardrailError
  | JSONDecodeError | UnicodeError | OSError | RecursionError | TypeError

text \<open>The classes derived from \<open>ValueError\<close>, which \<open>except ValueError\<close> catches.\<close>

definition value_error :: "exn \<Rightarrow> bool" where
  "value_error e = (e \<in> {ValueError, SensitiveContent, FlowDefinitionError, PackageResolutionError,
     ConfigRepositoryError, BehavioralGuardrailError, JSONDecodeError, UnicodeError})"

type_synonym 'a res = "exn + 'a"

definition bindR :: "'e + 'a \<Rightarrow> ('a \<Rightarrow> 'e + 'b) \<Rightarrow> 'e + 'b" where
  "bindR r f = (case r of Inl e \<Rightarrow> Inl e | Inr x \<Rightarrow> f x)"

lemma bindR_simps [simp]:
  "bindR (Inl e) f = Inl e"
  "bindR (Inr x) f = f x"
  by (simp_all add: bindR_def)

lemma bindR_Inr_iff [monad_simps]:
  "bindR r f = Inr y \<longleftrightarrow> (\<exists>x. r = Inr x \<and> f x = Inr y)"
  by (cases r) auto

lemma bindR_Inl_iff [monad_simps]:
  "bindR r f = Inl e \<longleftrightarrow> r = Inl e \<or> (\<exists>x. r = Inr x \<and> f x = Inl e)"
  by (cases r) auto

text \<open>\<open>ensure c e\<close> is the guard \<open>if not c: raise e\<close>.\<close>

definition ensure :: "bool \<Rightarrow> 'e \<Rightarrow> 'e + unit" where
  "ensure c e = (if c then Inr () else Inl e)"

lemma ensure_simps [simp]:
  "ensure True e = Inr ()"
  "ensure False e = Inl e"
  by (simp_all add: ensure_def)

lemma ensure_iff [monad_simps]:
  "ensure c e = Inr u \<longleftrightarrow> c"
  "ensure c e = Inl e' \<longleftrightarrow> \<not> c \<and> e' = e"
  by (auto simp: ensure_def)

text \<open>\<open>of_row e r\<close> is \<open>if row is None: raise e\<close>.\<close>

definition of_row :: "'e \<Rightarrow> 'a option \<Rightarrow> 'e + 'a" where
  "of_row e r = (case r of None \<Rightarrow> Inl e | Some x \<Rightarrow> Inr x)"

lemma of_row_simps [simp]:
  "of_row e None = Inl e"
  "of_row e (Some x) = Inr x"
  by (simp_all add: of_row_def)

lemma of_row_iff [monad_simps]:
  "of_row e r = Inr x \<longleftrightarrow> r = Some x"
  "of_row e r = Inl e' \<longleftrightarrow> r = None \<and> e' = e"
  by (auto simp: of_row_def split: option.splits)

text \<open>\<open>except_map f r\<close> is a \<open>try\<close> block whose \<open>except\<close> clauses turn an exception
  into another (\<open>f\<close> leaves alone what they let through).\<close>

definition except_map :: "('e \<Rightarrow> 'e) \<Rightarrow> 'e + 'a \<Rightarrow> 'e + 'a" where
  "except_map f r = (case r of Inl e \<Rightarrow> Inl (f e) | Inr x \<Rightarrow> Inr x)"

lemma except_map_simps [simp]:
  "except_map f (Inl e) = Inl (f e)"
  "except_map f (Inr x) = Inr x"
  by (simp_all add: except_map_def)

lemma except_map_iff [monad_simps]:
  "except_map f r = Inr y \<longleftrightarrow> r = Inr y"
  "except_map f r = Inl e' \<longleftrightarrow> (\<exists>e. r = Inl e \<and> e' = f e)"
  by (auto simp: except_map_def split: sum.splits)

text \<open>\<open>catching P e'\<close> is the clause that turns the exceptions of \<open>P\<close> into \<open>e'\<close>.\<close>

definition catching :: "(exn \<Rightarrow> bool) \<Rightarrow> exn \<Rightarrow> exn \<Rightarrow> exn" where
  "catching P e' e = (if P e then e' else e)"

text \<open>A validator applied to every element, stopping at the first error.\<close>

fun mapR :: "('a \<Rightarrow> 'e + 'b) \<Rightarrow> 'a list \<Rightarrow> 'e + 'b list" where
  "mapR f [] = Inr []"
| "mapR f (x # xs) = bindR (f x) (\<lambda>y. bindR (mapR f xs) (\<lambda>ys. Inr (y # ys)))"

lemma mapR_Inr_iff: "mapR f xs = Inr ys \<longleftrightarrow> list_all2 (\<lambda>x y. f x = Inr y) xs ys"
  by (induction xs arbitrary: ys) (auto simp: monad_simps list_all2_Cons1)

lemma mapR_member: "mapR f xs = Inr ys \<Longrightarrow> y \<in> set ys \<Longrightarrow> \<exists>x\<in>set xs. f x = Inr y"
  by (induction xs arbitrary: ys) (auto simp: monad_simps)

section \<open>Tables\<close>

text \<open>
  A table is the list of its rows. \<open>fetchone\<close> reads the row selected by a condition on
  a key, \<open>upd_where\<close> is \<open>UPDATE ... SET f WHERE P\<close>, and \<open>INSERT\<close> appends.
\<close>

definition fetchone :: "('r \<Rightarrow> bool) \<Rightarrow> 'r list \<Rightarrow> 'r option" where
  "fetchone P t = find P t"

definition upd_where :: "('r \<Rightarrow> bool) \<Rightarrow> ('r \<Rightarrow> 'r) \<Rightarrow> 'r list \<Rightarrow> 'r list" where
  "upd_where P f t = map (\<lambda>r. if P r then f r else r) t"

definition has_row :: "('r \<Rightarrow> bool) \<Rightarrow> 'r list \<Rightarrow> bool" where
  "has_row P t = list_ex P t"

lemma has_row_iff [table_simps]: "has_row P t \<longleftrightarrow> (\<exists>r\<in>set t. P r)"
  by (simp add: has_row_def list_ex_iff)

lemma fetchone_SomeD: "fetchone P t = Some r \<Longrightarrow> r \<in> set t \<and> P r"
  by (auto simp: fetchone_def find_Some_iff)

lemma fetchone_None_iff [table_simps]: "fetchone P t = None \<longleftrightarrow> (\<forall>r\<in>set t. \<not> P r)"
  by (auto simp: fetchone_def find_None_iff)

lemma fetchone_simps [simp]:
  "fetchone P [] = None"
  "fetchone P (r # t) = (if P r then Some r else fetchone P t)"
  by (simp_all add: fetchone_def)

lemma fetchone_append:
  "fetchone P (s @ t) = (case fetchone P s of None \<Rightarrow> fetchone P t | Some r \<Rightarrow> Some r)"
  by (induction s) auto

lemma fetchone_append_Some: "fetchone P s = Some r \<Longrightarrow> fetchone P (s @ t) = Some r"
  by (simp add: fetchone_append)

text \<open>An update that leaves the selecting condition of a read alone is seen by the read.\<close>

lemma fetchone_upd_where:
  assumes "\<And>r. r \<in> set t \<Longrightarrow> P r \<Longrightarrow> Q (f r) = Q r"
  shows "fetchone Q (upd_where P f t) = map_option (\<lambda>r. if P r then f r else r) (fetchone Q t)"
  using assms by (induction t) (auto simp: upd_where_def)

lemma distinct_map_eq:
  "distinct (map k t) \<Longrightarrow> r \<in> set t \<Longrightarrow> s \<in> set t \<Longrightarrow> k r = k s \<Longrightarrow> r = s"
  by (auto simp: distinct_map inj_on_def)

lemma fetchone_unique:
  assumes "distinct (map k t)" and "r \<in> set t" and "P r"
    and "\<And>s. s \<in> set t \<Longrightarrow> P s \<Longrightarrow> k s = k r"
  shows "fetchone P t = Some r"
proof (cases "fetchone P t")
  case None
  with assms(2,3) show ?thesis by (auto simp: fetchone_None_iff)
next
  case (Some s)
  then have "s \<in> set t" "P s" by (auto dest: fetchone_SomeD)
  with assms have "s = r" by (blast intro: distinct_map_eq)
  with Some show ?thesis by simp
qed

lemma set_upd_where [table_simps]:
  "r \<in> set (upd_where P f t) \<longleftrightarrow> (\<exists>s\<in>set t. r = (if P s then f s else s))"
  by (auto simp: upd_where_def)

lemma upd_where_Nil [simp]: "upd_where P f [] = []"
  by (simp add: upd_where_def)

lemma length_upd_where [simp]: "length (upd_where P f t) = length t"
  by (simp add: upd_where_def)

lemma map_upd_where_same:
  "(\<And>r. r \<in> set t \<Longrightarrow> P r \<Longrightarrow> k (f r) = k r) \<Longrightarrow> map k (upd_where P f t) = map k t"
  by (auto simp: upd_where_def)

lemma upd_where_none: "(\<And>r. r \<in> set t \<Longrightarrow> \<not> P r) \<Longrightarrow> upd_where P f t = t"
  by (simp add: upd_where_def map_idI)

lemma upd_where_other:
  assumes "\<not> P r" and "\<And>s. P s \<Longrightarrow> f s \<noteq> r"
  shows "r \<in> set (upd_where P f t) \<longleftrightarrow> r \<in> set t"
  using assms by (auto simp: upd_where_def image_iff split: if_splits)

text \<open>An update whose rows all leave \<open>Q\<close> removes exactly the rows it selects from \<open>Q\<close>.\<close>

lemma upd_where_out:
  assumes "\<And>s. \<not> Q (f s)"
  shows "r \<in> set (upd_where P f t) \<and> Q r \<longleftrightarrow> r \<in> set t \<and> Q r \<and> \<not> P r"
  using assms by (auto simp: upd_where_def split: if_splits)

section \<open>Python strings\<close>

text \<open>
  A \<open>str\<close> is a list of characters with code points below 256. \<open>py_space\<close> is
  \<open>str.isspace\<close> on that range, so \<open>strip\<close> removes what \<open>str.strip()\<close> removes.
\<close>

definition py_space :: "char \<Rightarrow> bool" where
  "py_space c = (let n = (of_char c :: nat) in
     9 \<le> n \<and> n \<le> 13 \<or> 28 \<le> n \<and> n \<le> 32 \<or> n = 133 \<or> n = 160)"

definition lstrip :: "string \<Rightarrow> string" where
  "lstrip s = dropWhile py_space s"

definition strip :: "string \<Rightarrow> string" where
  "strip s = rev (lstrip (rev (lstrip s)))"

lemma lstrip_id: "s = [] \<or> \<not> py_space (hd s) \<Longrightarrow> lstrip s = s"
  by (cases s) (auto simp: lstrip_def)

lemma strip_id: "(\<And>c. c \<in> set s \<Longrightarrow> \<not> py_space c) \<Longrightarrow> strip s = s"
proof -
  assume h: "\<And>c. c \<in> set s \<Longrightarrow> \<not> py_space c"
  have "lstrip s = s" "lstrip (rev s) = rev s"
    using h by (auto intro!: lstrip_id simp: hd_rev)
  then show ?thesis by (simp add: strip_def)
qed

lemma lstrip_head: "lstrip s \<noteq> [] \<Longrightarrow> \<not> py_space (hd (lstrip s))"
  by (simp add: lstrip_def hd_dropWhile)

lemma lstrip_rev_lstrip_head:
  "lstrip (rev t) \<noteq> [] \<Longrightarrow> t = [] \<or> \<not> py_space (hd t) \<Longrightarrow>
   \<not> py_space (last (lstrip (rev t)))"
  by (cases t) (auto simp: lstrip_def dropWhile_append split: if_splits)

lemma strip_idem [simp]: "strip (strip s) = strip s"
proof -
  have t: "lstrip s = [] \<or> \<not> py_space (hd (lstrip s))"
    using lstrip_head by blast
  let ?u = "lstrip (rev (lstrip s))"
  have "?u = [] \<or> \<not> py_space (last ?u)" "?u = [] \<or> \<not> py_space (hd ?u)"
    using lstrip_rev_lstrip_head [OF _ t] lstrip_head by blast+
  then have "lstrip (rev ?u) = rev ?u" "lstrip ?u = ?u"
    by (auto simp: hd_rev intro!: lstrip_id)
  then show ?thesis by (simp add: strip_def)
qed

text \<open>\<open>_required(value, field)\<close> of the stores: strip, then refuse the empty string.\<close>

definition required :: "string \<Rightarrow> string res" where
  "required v = (let n = strip v in if n = [] then Inl ValueError else Inr n)"

lemma required_iff [monad_simps]:
  "required v = Inr n \<longleftrightarrow> n = strip v \<and> strip v \<noteq> []"
  "required v = Inl e \<longleftrightarrow> e = ValueError \<and> strip v = []"
  by (auto simp: required_def Let_def)

text \<open>The same with a maximal length (\<open>_required\<close> of the handoffs, \<open>_bounded\<close>).\<close>

definition bounded :: "nat \<Rightarrow> string \<Rightarrow> string res" where
  "bounded m v = (let n = strip v in if n = [] \<or> length n > m then Inl ValueError else Inr n)"

lemma bounded_iff [monad_simps]:
  "bounded m v = Inr n \<longleftrightarrow> n = strip v \<and> strip v \<noteq> [] \<and> length (strip v) \<le> m"
  "bounded m v = Inl e \<longleftrightarrow> e = ValueError \<and> (strip v = [] \<or> m < length (strip v))"
  by (auto simp: bounded_def Let_def)

text \<open>The variant that measures the text before it strips it (\<open>_bounded\<close> of the supervisor,
  \<open>_required\<close> of governance).\<close>

definition bounded_raw :: "nat \<Rightarrow> string \<Rightarrow> string res" where
  "bounded_raw m v = (if strip v = [] \<or> m < length v then Inl ValueError else Inr (strip v))"

text \<open>\<open>str.replace\<close>: occurrences from left to right, not overlapping.\<close>

fun replace_from :: "string \<Rightarrow> string \<Rightarrow> nat \<Rightarrow> string \<Rightarrow> string" where
  "replace_from p r k [] = []"
| "replace_from p r (Suc k) (c # cs) = replace_from p r k cs"
| "replace_from p r 0 (c # cs) = (if take (length p) (c # cs) = p
     then r @ replace_from p r (length p - 1) cs else c # replace_from p r 0 cs)"

text \<open>The identifier pattern \<^verbatim>\<open>^[A-Za-z0-9._:-]{1,128}$\<close>, matched in full.\<close>

definition lower_char :: "char \<Rightarrow> bool" where
  "lower_char c = (let n = (of_char c :: nat) in 97 \<le> n \<and> n \<le> 122)"

definition upper_char :: "char \<Rightarrow> bool" where
  "upper_char c = (let n = (of_char c :: nat) in 65 \<le> n \<and> n \<le> 90)"

definition digit_char :: "char \<Rightarrow> bool" where
  "digit_char c = (let n = (of_char c :: nat) in 48 \<le> n \<and> n \<le> 57)"

definition ident_char :: "char \<Rightarrow> bool" where
  "ident_char c = (lower_char c \<or> upper_char c \<or> digit_char c \<or> c \<in> set ''._:-'')"

definition ident_ok :: "string \<Rightarrow> bool" where
  "ident_ok s = (1 \<le> length s \<and> length s \<le> 128 \<and> list_all ident_char s)"

text \<open>Evaluation reads the bits of a character rather than its number.\<close>

lemma py_space_code [code]: "py_space (Char b0 b1 b2 b3 b4 b5 b6 b7) =
    (\<not> b6 \<and> (if b7 then \<not> b4 \<and> \<not> b3 \<and> \<not> b1 \<and> (b5 \<and> \<not> b2 \<and> \<not> b0 \<or> \<not> b5 \<and> b2 \<and> b0)
       else if b5 then \<not> b4 \<and> \<not> b3 \<and> \<not> b2 \<and> \<not> b1 \<and> \<not> b0
       else b3 \<and> (if b4 then b2 else (b0 \<or> b1 \<or> b2) \<and> \<not> (b2 \<and> b1))))"
  by (cases b7; cases b6; cases b5; cases b4; cases b3; cases b2; cases b1; cases b0; simp add: py_space_def)

lemma lower_char_code [code]: "lower_char (Char b0 b1 b2 b3 b4 b5 b6 b7) =
    (b6 \<and> b5 \<and> \<not> b7 \<and> (b0 \<or> b1 \<or> b2 \<or> b3 \<or> b4) \<and> \<not> (b4 \<and> b3 \<and> (b2 \<or> b1 \<and> b0)))"
  by (cases b7; cases b6; cases b5; cases b4; cases b3; cases b2; cases b1; cases b0; simp add: lower_char_def)

lemma upper_char_code [code]: "upper_char (Char b0 b1 b2 b3 b4 b5 b6 b7) =
    (b6 \<and> \<not> b5 \<and> \<not> b7 \<and> (b0 \<or> b1 \<or> b2 \<or> b3 \<or> b4) \<and> \<not> (b4 \<and> b3 \<and> (b2 \<or> b1 \<and> b0)))"
  by (cases b7; cases b6; cases b5; cases b4; cases b3; cases b2; cases b1; cases b0; simp add: upper_char_def)

lemma digit_char_code [code]: "digit_char (Char b0 b1 b2 b3 b4 b5 b6 b7) =
    (b5 \<and> b4 \<and> \<not> b6 \<and> \<not> b7 \<and> \<not> (b3 \<and> (b2 \<or> b1)))"
  by (cases b7; cases b6; cases b5; cases b4; cases b3; cases b2; cases b1; cases b0; simp add: digit_char_def)

lemma ident_char_not_space: "ident_char c \<Longrightarrow> \<not> py_space c"
  by (auto simp: ident_char_def lower_char_def upper_char_def digit_char_def py_space_def Let_def)

lemma ident_ok_strip: "ident_ok s \<Longrightarrow> strip s = s"
  by (auto simp: ident_ok_def list_all_iff ident_char_not_space intro!: strip_id)

text \<open>\<open>_identifier\<close> of routing, handoffs and reliability: strip, then match.\<close>

definition ident :: "string \<Rightarrow> string res" where
  "ident v = (let s = strip v in if ident_ok s then Inr s else Inl ValueError)"

lemma ident_iff [monad_simps]:
  "ident v = Inr s \<longleftrightarrow> s = strip v \<and> ident_ok (strip v)"
  "ident v = Inl e \<longleftrightarrow> e = ValueError \<and> \<not> ident_ok (strip v)"
  by (auto simp: ident_def Let_def)

section \<open>Transition systems\<close>

text \<open>
  What every component's state machine promises: an invariant each step keeps. The
  invariant then holds after any run, and a relation between the two ends of a step that
  is reflexive and transitive holds between the ends of a run.
\<close>

locale invariant_system =
  fixes step :: "'s \<Rightarrow> 's \<Rightarrow> bool"
    and inv :: "'s \<Rightarrow> bool"
  assumes step_inv: "step s t \<Longrightarrow> inv s \<Longrightarrow> inv t"
begin

lemma runs_inv: "step\<^sup>*\<^sup>* s t \<Longrightarrow> inv s \<Longrightarrow> inv t"
  by (induction rule: rtranclp_induct) (auto intro: step_inv)

lemma runs_rel:
  assumes refl: "\<And>s. R s s" and trans: "\<And>s t u. R s t \<Longrightarrow> R t u \<Longrightarrow> R s u"
    and one: "\<And>s t. step s t \<Longrightarrow> inv s \<Longrightarrow> R s t"
    and run: "step\<^sup>*\<^sup>* s t" and start: "inv s"
  shows "R s t"
  using run
proof (induction rule: rtranclp_induct)
  case base
  show ?case by (rule refl)
next
  case (step t u)
  from step.hyps(1) start have "inv t" by (rule runs_inv)
  with step.hyps(2) have "R t u" by (rule one)
  with step.IH show ?case by (rule trans)
qed

end

text \<open>
  Requests that carry an idempotency key: running one records it, a recorded request runs
  again without writing and answers the same (\<open>same\<close> says what of the answer is stable),
  and no step forgets it.
\<close>

locale keyed_requests = invariant_system step inv
  for step :: "'s \<Rightarrow> 's \<Rightarrow> bool" and inv +
  fixes run :: "'t \<Rightarrow> 'r \<Rightarrow> 's \<Rightarrow> exn + 'o \<times> 's"
    and recorded :: "'r \<Rightarrow> 'o \<Rightarrow> 's \<Rightarrow> bool"
    and same :: "'o \<Rightarrow> 'o \<Rightarrow> bool"
  assumes run_inv: "run t r s = Inr (x, s') \<Longrightarrow> inv s \<Longrightarrow> inv s'"
    and records: "run t r s = Inr (x, s') \<Longrightarrow> inv s \<Longrightarrow> recorded r x s'"
    and replays: "recorded r x s \<Longrightarrow> inv s \<Longrightarrow> \<exists>y. run t r s = Inr (y, s) \<and> same x y"
    and keeps: "step s s' \<Longrightarrow> inv s \<Longrightarrow> recorded r x s \<Longrightarrow> recorded r x s'"
begin

lemma runs_keep: "step\<^sup>*\<^sup>* s s' \<Longrightarrow> inv s \<Longrightarrow> recorded r x s \<Longrightarrow> recorded r x s'"
  by (induction rule: rtranclp_induct) (auto intro: keeps dest: runs_inv)

lemma replay_after_runs:
  assumes "run t r s = Inr (x, s1)" and "inv s" and "step\<^sup>*\<^sup>* s1 s2"
  shows "\<exists>y. run t' r s2 = Inr (y, s2) \<and> same x y"
  using assms by (blast intro: replays runs_keep run_inv runs_inv records)

end

end
