(* ===== verification/PyJson.thy ===== *)
theory PyJson
  imports Prelude "HOL-Library.Multiset"
begin

text \<open>
  JSON values as the Python code sees them after \<open>json.loads\<close>, and the standard
  library's \<open>json.dumps\<close> in the forms the code calls. An object keeps its keys in
  insertion order, each once. A float is its \<open>repr\<close>.
\<close>

datatype json =
    JNull
  | JBool bool
  | JInt int
  | JFloat string
  | JStr string
  | JList "json list"
  | JObj "(string \<times> json) list"

text \<open>\<open>isinstance(value, Mapping)\<close>, \<open>isinstance(value, list)\<close>, \<open>isinstance(value, str)\<close>.\<close>

text \<open>Lists and objects cannot be looked up in a set: Python raises a \<open>TypeError\<close>.\<close>

fun hashable :: "json \<Rightarrow> bool" where
  "hashable (JList l) = False"
| "hashable (JObj m) = False"
| "hashable v = True"

fun as_obj :: "json \<Rightarrow> (string \<times> json) list option" where
  "as_obj (JObj o') = Some o'"
| "as_obj _ = None"

fun as_list :: "json \<Rightarrow> json list option" where
  "as_list (JList l) = Some l"
| "as_list _ = None"

fun as_str :: "json \<Rightarrow> string option" where
  "as_str (JStr s) = Some s"
| "as_str _ = None"

lemma as_obj_Some [simp]: "as_obj v = Some m \<longleftrightarrow> v = JObj m"
  by (cases v) auto

lemma as_list_Some [simp]: "as_list v = Some l \<longleftrightarrow> v = JList l"
  by (cases v) auto

lemma as_str_Some [simp]: "as_str v = Some s \<longleftrightarrow> v = JStr s"
  by (cases v) auto

text \<open>\<open>mapping.get(key)\<close> and \<open>mapping.get(key, default)\<close>: the absent key reads as the
  default, \<open>None\<close> when there is none, which compares equal to JSON null.\<close>

definition get_or :: "(string \<times> json) list \<Rightarrow> string \<Rightarrow> json \<Rightarrow> json" where
  "get_or m k v = (case map_of m k of None \<Rightarrow> v | Some w \<Rightarrow> w)"

definition get :: "(string \<times> json) list \<Rightarrow> string \<Rightarrow> json" where
  "get m k = get_or m k JNull"

text \<open>\<open>mapping[key] = value\<close> keeps the position of a key that is there, \<open>{**a, **b}\<close>
  assigns the members of \<open>b\<close> over \<open>a\<close>.\<close>

definition put :: "string \<Rightarrow> json \<Rightarrow> (string \<times> json) list \<Rightarrow> (string \<times> json) list" where
  "put k v m = (if map_of m k = None then m @ [(k, v)]
     else map (\<lambda>(k', w). (k', if k' = k then v else w)) m)"

definition merge :: "(string \<times> json) list \<Rightarrow> (string \<times> json) list \<Rightarrow> (string \<times> json) list" where
  "merge a b = fold (\<lambda>(k, v) m. put k v m) b a"

lemma map_of_put: "map_of (put k v m) = (map_of m)(k \<mapsto> v)"
proof (cases "map_of m k")
  case (Some w)
  have "map_of (map (\<lambda>(k', w). (k', if k' = k then v else w)) m) x
      = (if x = k \<and> map_of m k \<noteq> None then Some v else map_of m x)" for x
    by (induction m) auto
  with Some show ?thesis by (auto simp: put_def)
qed (auto simp: put_def map_add_def fun_eq_iff split: option.splits)

text \<open>Decimal text of integers, as \<open>str\<close> prints them.\<close>

fun dec_nat :: "nat \<Rightarrow> string" where
  "dec_nat n = (if n < 10 then [char_of (48 + n)] else dec_nat (n div 10) @ [char_of (48 + n mod 10)])"

declare dec_nat.simps [simp del]

definition dec_int :: "int \<Rightarrow> string" where
  "dec_int i = (if i < 0 then CHR ''-'' # dec_nat (nat (- i)) else dec_nat (nat i))"

text \<open>\<open>value == n\<close> for an integer literal \<open>n\<close>: in Python \<open>True == 1\<close> and \<open>1.0 == 1\<close>.\<close>

fun eq_int :: "json \<Rightarrow> int \<Rightarrow> bool" where
  "eq_int (JInt m) n = (m = n)"
| "eq_int (JBool b) n = ((if b then 1 else 0) = n)"
| "eq_int (JFloat s) n = (s = dec_int n @ ''.0'')"
| "eq_int _ _ = False"

section \<open>Serialisation\<close>

text \<open>String escapes: \<open>asc\<close> is \<open>ensure_ascii\<close>, which also escapes everything outside
  the range from space to tilde.\<close>

definition hex_digit :: "nat \<Rightarrow> char" where
  "hex_digit n = (if n < 10 then char_of (48 + n) else char_of (87 + n))"

definition esc_char :: "bool \<Rightarrow> char \<Rightarrow> string" where
  "esc_char asc c = (let n = (of_char c :: nat) in
     if n = 34 then [char_of (92::nat), char_of (34::nat)]
     else if n = 92 then [char_of (92::nat), char_of (92::nat)]
     else if n = 10 then char_of (92::nat) # ''n''
     else if n = 13 then char_of (92::nat) # ''r''
     else if n = 9 then char_of (92::nat) # ''t''
     else if n = 8 then char_of (92::nat) # ''b''
     else if n = 12 then char_of (92::nat) # ''f''
     else if n < 32 \<or> asc \<and> 126 < n
       then char_of (92::nat) # ''u00'' @ [hex_digit (n div 16), hex_digit (n mod 16)]
     else [c])"

text \<open>Most characters stand for themselves; evaluation decides that on their bits.\<close>

fun plain_char :: "bool \<Rightarrow> char \<Rightarrow> bool" where
  "plain_char asc (Char b0 b1 b2 b3 b4 b5 b6 b7) = (if b7 then \<not> asc
     else if b6 then \<not> (b4 \<and> b3 \<and> b2 \<and> (\<not> b5 \<and> \<not> b1 \<and> \<not> b0 \<or> asc \<and> b5 \<and> b1 \<and> b0))
     else b5 \<and> \<not> (b1 \<and> \<not> b0 \<and> \<not> b2 \<and> \<not> b3 \<and> \<not> b4))"

lemma esc_char_plain: "plain_char asc c \<Longrightarrow> esc_char asc c = [c]"
proof (cases c)
  case (Char b0 b1 b2 b3 b4 b5 b6 b7)
  assume "plain_char asc c"
  with Char show ?thesis
    by (cases b7; cases b6; cases b5; cases b4; cases b3; cases b2; cases b1; cases b0; simp add: esc_char_def)
qed

lemma esc_char_code [code]: "esc_char asc c = (if plain_char asc c then [c] else let n = (of_char c :: nat) in
     if n = 34 then [char_of (92::nat), char_of (34::nat)]
     else if n = 92 then [char_of (92::nat), char_of (92::nat)]
     else if n = 10 then char_of (92::nat) # ''n''
     else if n = 13 then char_of (92::nat) # ''r''
     else if n = 9 then char_of (92::nat) # ''t''
     else if n = 8 then char_of (92::nat) # ''b''
     else if n = 12 then char_of (92::nat) # ''f''
     else if n < 32 \<or> asc \<and> 126 < n
       then char_of (92::nat) # ''u00'' @ [hex_digit (n div 16), hex_digit (n mod 16)]
     else [c])"
  using esc_char_plain [of asc c] by (cases "plain_char asc c") (simp_all add: esc_char_def)

definition quote :: "bool \<Rightarrow> string \<Rightarrow> string" where
  "quote asc s = [char_of (34::nat)] @ concat (map (esc_char asc) s) @ [char_of (34::nat)]"

definition join :: "string \<Rightarrow> string list \<Rightarrow> string" where
  "join sep xs = (case xs of [] \<Rightarrow> [] | y # ys \<Rightarrow> y @ concat (map (\<lambda>z. sep @ z) ys))"

definition float_text :: "string \<Rightarrow> string" where
  "float_text s = (if s = ''nan'' then ''NaN'' else if s = ''inf'' then ''Infinity''
     else if s = ''-inf'' then ''-Infinity'' else s)"

text \<open>\<open>json.dumps(v, sort_keys=True, ensure_ascii=asc, separators=(isep, ksep))\<close>.\<close>

fun dumps :: "bool \<Rightarrow> string \<Rightarrow> string \<Rightarrow> json \<Rightarrow> string"
and dumps_items :: "bool \<Rightarrow> string \<Rightarrow> string \<Rightarrow> json list \<Rightarrow> string list"
and dumps_members :: "bool \<Rightarrow> string \<Rightarrow> string \<Rightarrow> (string \<times> json) list \<Rightarrow> (string \<times> string) list" where
  "dumps asc isep ksep JNull = ''null''"
| "dumps asc isep ksep (JBool b) = (if b then ''true'' else ''false'')"
| "dumps asc isep ksep (JInt i) = dec_int i"
| "dumps asc isep ksep (JFloat s) = float_text s"
| "dumps asc isep ksep (JStr s) = quote asc s"
| "dumps asc isep ksep (JList l) = ''['' @ join isep (dumps_items asc isep ksep l) @ '']''"
| "dumps asc isep ksep (JObj m) =
     ''{'' @ join isep (map (\<lambda>(k, v). quote asc k @ ksep @ v)
                          (sort_key fst (dumps_members asc isep ksep m))) @ ''}''"
| "dumps_items asc isep ksep [] = []"
| "dumps_items asc isep ksep (v # vs) = dumps asc isep ksep v # dumps_items asc isep ksep vs"
| "dumps_members asc isep ksep [] = []"
| "dumps_members asc isep ksep ((k, v) # m) = (k, dumps asc isep ksep v) # dumps_members asc isep ksep m"

text \<open>\<open>allow_nan=False\<close> refuses the floats JSON has no text for.\<close>

fun no_nan :: "json \<Rightarrow> bool"
and no_nan_items :: "json list \<Rightarrow> bool"
and no_nan_members :: "(string \<times> json) list \<Rightarrow> bool" where
  "no_nan (JFloat s) = (s \<notin> {''nan'', ''inf'', ''-inf''})"
| "no_nan (JList l) = no_nan_items l"
| "no_nan (JObj m) = no_nan_members m"
| "no_nan _ = True"
| "no_nan_items [] = True"
| "no_nan_items (v # vs) = (no_nan v \<and> no_nan_items vs)"
| "no_nan_members [] = True"
| "no_nan_members ((k, v) # m) = (no_nan v \<and> no_nan_members m)"

definition opt_str :: "string option \<Rightarrow> json" where
  "opt_str x = (case x of None \<Rightarrow> JNull | Some s \<Rightarrow> JStr s)"

text \<open>\<open>json.loads(json.dumps(v, sort_keys=True))\<close>: the same value with the members of every
  object in key order.\<close>

fun sorted_json :: "json \<Rightarrow> json"
and sorted_items :: "json list \<Rightarrow> json list"
and sorted_members :: "(string \<times> json) list \<Rightarrow> (string \<times> json) list" where
  "sorted_json (JList l) = JList (sorted_items l)"
| "sorted_json (JObj m) = JObj (sort_key fst (sorted_members m))"
| "sorted_json v = v"
| "sorted_items [] = []"
| "sorted_items (v # vs) = sorted_json v # sorted_items vs"
| "sorted_members [] = []"
| "sorted_members ((k, v) # m) = (k, sorted_json v) # sorted_members m"

text \<open>The compact canonical form the fingerprints hash.\<close>

definition canonical :: "json \<Rightarrow> string res" where
  "canonical v = (if no_nan v then Inr (dumps False '','' '':'' v) else Inl ValueError)"

lemma dumps_items_map: "dumps_items asc i k vs = map (dumps asc i k) vs"
  by (induction vs) auto

lemma dumps_members_map:
  "dumps_members asc i k m = map (\<lambda>(key, v). (key, dumps asc i k v)) m"
  by (induction m) auto

lemma map_fst_members: "map fst (dumps_members asc i k m) = map fst m"
  by (auto simp: dumps_members_map)

text \<open>Key order does not reach the text: two objects with the same members are written the
  same, so a fingerprint does not depend on the order a dictionary was built in.\<close>

lemma filter_key_single:
  "distinct (map f xs) \<Longrightarrow> x \<in> set xs \<Longrightarrow> filter (\<lambda>y. f y = f x) xs = [x]"
proof (induction xs)
  case Nil
  then show ?case by simp
next
  case (Cons a xs)
  then show ?case
    by (cases "x = a") (auto simp: filter_empty_conv image_iff)
qed

lemma sort_key_perm:
  assumes m: "mset xs = mset ys" and d: "distinct (map f xs)"
  shows "sort_key f xs = sort_key f ys"
proof (rule properties_for_sort_key)
  have s: "set xs = set ys" using m by (rule mset_eq_setD)
  have "mset (map f xs) = mset (map f ys)" using m by (simp only: mset_map)
  then have d': "distinct (map f ys)" using d by (metis mset_eq_imp_distinct_iff)
  show "mset (sort_key f ys) = mset xs" using m by simp
  show "filter (\<lambda>y. f k = f y) (sort_key f ys) = filter (\<lambda>y. f k = f y) xs" if k: "k \<in> set (sort_key f ys)" for k
  proof -
    from k s have that: "k \<in> set xs" by simp
    have "filter (\<lambda>y. f y = f k) (sort_key f ys) = filter (\<lambda>y. f y = f k) ys"
      by (rule sort_key_stable)
    with that s show ?thesis
      using filter_key_single [OF d that] filter_key_single [OF d', of k] by (simp add: eq_commute)
  qed
  show "sorted (map f (sort_key f ys))" by simp
qed

lemma dumps_obj_perm:
  assumes "mset m = mset m'" and "distinct (map fst m)"
  shows "dumps asc i k (JObj m) = dumps asc i k (JObj m')"
proof -
  have "sort_key fst (dumps_members asc i k m) = sort_key fst (dumps_members asc i k m')"
  proof (rule sort_key_perm)
    show "mset (dumps_members asc i k m) = mset (dumps_members asc i k m')"
      using assms(1) by (simp add: dumps_members_map)
    show "distinct (map fst (dumps_members asc i k m))"
      using assms(2) by (simp only: map_fst_members)
  qed
  then show ?thesis by simp
qed

text \<open>No object has a key twice: what \<open>json.loads\<close> answers.\<close>

fun keys_distinct :: "json \<Rightarrow> bool"
and items_distinct :: "json list \<Rightarrow> bool"
and members_distinct :: "(string \<times> json) list \<Rightarrow> bool" where
  "keys_distinct (JObj m) = (distinct (map fst m) \<and> members_distinct m)"
| "keys_distinct (JList l) = items_distinct l"
| "keys_distinct _ = True"
| "items_distinct [] = True"
| "items_distinct (v # vs) = (keys_distinct v \<and> items_distinct vs)"
| "members_distinct [] = True"
| "members_distinct ((k, v) # m) = (keys_distinct v \<and> members_distinct m)"

lemma members_distinct_member: "members_distinct m \<Longrightarrow> map_of m k = Some v \<Longrightarrow> keys_distinct v"
  by (induction m) (auto split: if_splits)

end
