(* ===== verification/Store.thy ===== *)
theory Store
  imports PyJson
begin

text \<open>
  The relational state the stores share: one record per row, one list per table, and the
  database as the record of its tables. A row record that the Python code also returns
  (\<open>QueueItemRecord\<close>, \<open>WorkItemRecord\<close>, \<open>FlowRun\<close>, ...) has exactly that class's
  fields, and the columns only SQL reads are added by extending it, so building the class
  from a row is \<open>truncate\<close>. Columns with a \<open>CHECK (... IN ...)\<close> constraint are
  datatypes; free \<open>text\<close> columns are strings. Times are microseconds since the epoch.
\<close>

type_synonym timestamp = int

section \<open>Roles, instances, work items\<close>

record role_row =
  ro_project :: string
  ro_id :: string
  ro_status :: string

record instance_row =
  in_project :: string
  in_id :: string
  in_role :: string
  in_status :: string

record work_item_record =
  wi_project :: string
  wi_id :: string
  wi_title :: string
  wi_status :: string
  wi_owner :: "string option"
  wi_version :: int
  wi_reason :: "string option"
  wi_evidence :: "(string \<times> json) list"

section \<open>Queues, leases, handoffs\<close>

record queue_row =
  qu_project :: string
  qu_id :: string
  qu_role :: string
  qu_capability :: "string option"
  qu_paused :: bool

datatype item_status = Ready | Leased | Finished

record queue_item_record =
  qi_project :: string
  qi_id :: string
  qi_queue :: string
  qi_work :: string
  qi_status :: item_status
  qi_priority :: int
  qi_attempts :: int
  qi_available :: timestamp
  qi_payload :: "(string \<times> json) list"
  qi_key :: string

record item_row = queue_item_record +
  qi_created :: timestamp
  qi_fingerprint :: "string option"

record lease_row =
  le_project :: string
  le_id :: string
  le_item :: string
  le_owner :: string
  le_token :: string
  le_acquired :: timestamp
  le_heartbeat :: timestamp
  le_expires :: timestamp
  le_released :: "timestamp option"
  le_reason :: "string option"

datatype handoff_status = Offered | Claimed | Accepted

record handoff_row =
  ho_project :: string
  ho_id :: string
  ho_work :: string
  ho_src_role :: string
  ho_src_instance :: "string option"
  ho_src_item :: "string option"
  ho_src_lease :: "string option"
  ho_tgt_role :: string
  ho_tgt_instance :: "string option"
  ho_item :: "string option"
  ho_tgt_lease :: "string option"
  ho_status :: handoff_status
  ho_summary :: string
  ho_key :: string
  ho_offered :: timestamp
  ho_queued :: timestamp
  ho_claimed :: "timestamp option"
  ho_accepted :: "timestamp option"
  ho_fingerprint :: "string option"

section \<open>Events, outbox, gates\<close>

record stored_event =
  ev_id :: int
  ev_project :: string
  ev_work :: string
  ev_actor :: string
  ev_correlation :: string
  ev_causation :: "string option"
  ev_agg_type :: string
  ev_agg_id :: string
  ev_type :: string
  ev_payload :: "(string \<times> json) list"
  ev_occurred :: timestamp

record outbox_row =
  ob_id :: int
  ob_project :: string
  ob_event :: int
  ob_topic :: string
  ob_payload :: "(string \<times> json) list"
  ob_key :: string
  ob_available :: timestamp
  ob_dispatched :: "timestamp option"
  ob_attempts :: int
  ob_error :: "string option"

datatype gate_status = GatePending | GateApproved | GateRejected | GateTimedOut

record gate_record =
  ga_project :: string
  ga_id :: string
  ga_work :: string
  ga_type :: string
  ga_status :: gate_status
  ga_requested_by :: string
  ga_correlation :: string
  ga_evidence :: "(string \<times> json) list"

text \<open>A gate that answers an obligation of a flow is linked to it and has a deadline.\<close>

record gate_link =
  gl_state :: string
  gl_entry :: int
  gl_obligation :: string
  gl_expires :: timestamp

record gate_row = gate_record +
  ga_link :: "gate_link option"
  ga_resolved :: "timestamp option"
  ga_timed_out :: "timestamp option"
  ga_operation :: "string option"
  ga_digest :: "string option"

datatype decision = Approved | Rejected

record approval_record =
  ap_project :: string
  ap_id :: string
  ap_gate :: string
  ap_approver :: string
  ap_decision :: "decision option"
  ap_rationale :: "string option"
  ap_evidence :: "(string \<times> json) list"
  ap_decided :: "timestamp option"

section \<open>Flow runs and governance evidence\<close>

datatype flow_status =
  FlowActive | HandoffPreparing | HandoffPending | CompletionPreparing | FlowCompleted

record flow_run =
  fr_project :: string
  fr_work :: string
  fr_flow :: string
  fr_digest :: string
  fr_state :: string
  fr_owner :: string
  fr_status :: flow_status
  fr_fields :: "(string \<times> json) list"
  fr_version :: int
  fr_route :: "string option"
  fr_target :: "string option"
  fr_target_role :: "string option"
  fr_handoff :: "string option"

record flow_row = flow_run +
  fr_snapshot :: json
  fr_operation :: "string option"
  fr_request :: "string option"

datatype obligation_kind = KArtifact | KConsult | KGate | KInform

datatype obligation_status = ObPending | ObDispatched | ObSatisfied

record flow_obligation =
  fo_project :: string
  fo_work :: string
  fo_state :: string
  fo_entry :: int
  fo_kind :: obligation_kind
  fo_id :: string
  fo_role :: string
  fo_payload :: "(string \<times> json) list"
  fo_status :: obligation_status
  fo_evidence :: "(string \<times> json) list"

record journal_row =
  jo_project :: string
  jo_work :: string
  jo_sequence :: int
  jo_operation :: string
  jo_digest :: string
  jo_action :: string
  jo_from :: "string option"
  jo_to :: string
  jo_route :: "string option"
  jo_handoff :: "string option"
  jo_actor :: string
  jo_evidence :: "(string \<times> json) list"

datatype gov_decision = Verified | Responded | GovApproved | GovRejected | GovException

record governance_record =
  go_project :: string
  go_work :: string
  go_id :: string
  go_state :: string
  go_entry :: int
  go_kind :: obligation_kind
  go_obligation :: string
  go_decision :: gov_decision
  go_actor :: string
  go_reason :: string
  go_evidence :: "(string \<times> json) list"
  go_path :: "string option"
  go_etag :: "string option"
  go_recorded :: timestamp

record governance_row = governance_record +
  go_digest :: string

record governance_context =
  gc_project :: string
  gc_work :: string
  gc_impact :: "string option"

section \<open>Failure incidents\<close>

datatype incident_status = IncActive | IncRecovered | IncEligible | IncTerminal

datatype stage = Technical | PmCorrection | Recovery | NoStage

datatype attempt_outcome = Succeeded | Failed

datatype request_status = RqPending | RqSucceeded | RqFailed

record failure_incident =
  fi_project :: string
  fi_id :: string
  fi_work :: string
  fi_owner :: string
  fi_category :: string
  fi_summary :: string
  fi_source :: string
  fi_status :: incident_status
  fi_stage :: stage
  fi_number :: "int option"
  fi_started_by :: string
  fi_started :: timestamp
  fi_resolved :: "timestamp option"

record incident_row = failure_incident +
  fi_key :: string
  fi_fingerprint :: string

record failure_attempt =
  fa_project :: string
  fa_id :: string
  fa_incident :: string
  fa_ordinal :: int
  fa_stage :: stage
  fa_number :: int
  fa_outcome :: attempt_outcome
  fa_correction :: "string option"
  fa_actor :: string
  fa_evidence :: "(string \<times> json) list"
  fa_recorded :: timestamp

record attempt_row = failure_attempt +
  fa_correction_digest :: "string option"
  fa_fingerprint :: string

record recovery_request =
  rr_project :: string
  rr_id :: string
  rr_incident :: string
  rr_work :: string
  rr_goal :: string
  rr_status :: request_status
  rr_requested :: timestamp
  rr_resolved :: "timestamp option"
  rr_evidence :: "(string \<times> json) list"

datatype run_status = Running | Reported

record supervisor_run =
  sr_project :: string
  sr_request :: string
  sr_id :: string
  sr_status :: run_status
  sr_claims :: int
  sr_owner :: string
  sr_token :: string
  sr_claimed :: timestamp
  sr_expires :: timestamp
  sr_deadline :: timestamp
  sr_minutes :: int
  sr_limit :: int
  sr_profile :: string
  sr_profile_digest :: string
  sr_outcome :: "attempt_outcome option"
  sr_summary :: "string option"
  sr_verification :: "string option"
  sr_usage :: "int option"
  sr_fingerprint :: "string option"
  sr_reported :: "timestamp option"
  sr_applied :: "timestamp option"

section \<open>The database\<close>

record db =
  db_projects :: "string list"
  db_sponsors :: "(string \<times> string) list"
  db_roles :: "role_row list"
  db_instances :: "instance_row list"
  db_works :: "work_item_record list"
  db_queues :: "queue_row list"
  db_items :: "item_row list"
  db_leases :: "lease_row list"
  db_handoffs :: "handoff_row list"
  db_events :: "stored_event list"
  db_outbox :: "outbox_row list"
  db_gates :: "gate_row list"
  db_approvals :: "approval_record list"
  db_runs :: "flow_row list"
  db_obligations :: "flow_obligation list"
  db_journal :: "journal_row list"
  db_governance :: "governance_row list"
  db_contexts :: "governance_context list"
  db_incidents :: "incident_row list"
  db_attempts :: "attempt_row list"
  db_requests :: "recovery_request list"
  db_supervisors :: "supervisor_run list"

definition empty_db :: db where
  "empty_db = \<lparr>db_projects = [], db_sponsors = [], db_roles = [], db_instances = [],
     db_works = [], db_queues = [], db_items = [], db_leases = [], db_handoffs = [],
     db_events = [], db_outbox = [], db_gates = [], db_approvals = [], db_runs = [],
     db_obligations = [], db_journal = [], db_governance = [], db_contexts = [],
     db_incidents = [], db_attempts = [], db_requests = [], db_supervisors = []\<rparr>"

text \<open>Primary keys.\<close>

definition item_key :: "('a queue_item_record_scheme) \<Rightarrow> string \<times> string" where
  "item_key i = (qi_project i, qi_id i)"

definition lease_key :: "lease_row \<Rightarrow> string \<times> string" where
  "lease_key l = (le_project l, le_id l)"

definition lease_item_key :: "lease_row \<Rightarrow> string \<times> string" where
  "lease_item_key l = (le_project l, le_item l)"

definition handoff_key :: "handoff_row \<Rightarrow> string \<times> string" where
  "handoff_key h = (ho_project h, ho_id h)"

definition work_key :: "work_item_record \<Rightarrow> string \<times> string" where
  "work_key w = (wi_project w, wi_id w)"

lemmas key_defs = item_key_def lease_key_def lease_item_key_def handoff_key_def work_key_def

text \<open>Lookups by primary key.\<close>

definition work_row :: "db \<Rightarrow> string \<Rightarrow> string \<Rightarrow> work_item_record option" where
  "work_row d p w = fetchone (\<lambda>r. wi_project r = p \<and> wi_id r = w) (db_works d)"

definition item_of :: "db \<Rightarrow> string \<Rightarrow> string \<Rightarrow> item_row option" where
  "item_of d p i = fetchone (\<lambda>r. qi_project r = p \<and> qi_id r = i) (db_items d)"

definition has_role :: "db \<Rightarrow> string \<Rightarrow> string \<Rightarrow> bool" where
  "has_role d p r = has_row (\<lambda>x. ro_project x = p \<and> ro_id x = r) (db_roles d)"

definition has_work :: "db \<Rightarrow> string \<Rightarrow> string \<Rightarrow> bool" where
  "has_work d p w = has_row (\<lambda>x. wi_project x = p \<and> wi_id x = w) (db_works d)"

text \<open>The range of an \<open>integer\<close> column.\<close>

definition int4 :: "int \<Rightarrow> bool" where
  "int4 n = (- 2147483648 \<le> n \<and> n \<le> 2147483647)"

end
