(* ===== verification/Queues.thy ===== *)
theory Queues
  imports Store "HOL-Library.Product_Lexorder"
begin

text \<open>
  \<open>queues.py\<close>: role queues, their items and the leases that hand an item to one role
  instance. Every public method is one transaction; \<open>complete\<close>, \<open>release\<close> and
  \<open>enqueue\<close> read the item back afterwards. A reading of \<open>clock_timestamp()\<close> is a
  parameter, one per statement that reads it; \<open>locked\<close> tells which rows other
  transactions hold (\<open>FOR UPDATE SKIP LOCKED\<close>); lease ids and tokens, which the code
  draws with \<open>uuid4\<close>, are parameters too.
\<close>

section \<open>Transactions\<close>

text \<open>A transaction that raises leaves the database as it was.\<close>

definition atomically :: "('a \<times> db) res \<Rightarrow> db \<Rightarrow> 'a res \<times> db" where
  "atomically r d = (case r of Inl e \<Rightarrow> (Inl e, d) | Inr (x, d') \<Rightarrow> (Inr x, d'))"

definition then_read :: "'a res \<times> db \<Rightarrow> ('a \<Rightarrow> db \<Rightarrow> 'b res) \<Rightarrow> 'b res \<times> db" where
  "then_read o' f = (case o' of (Inl e, d) \<Rightarrow> (Inl e, d) | (Inr x, d) \<Rightarrow> (f x d, d))"

lemma atomically_simps [simp]:
  "atomically (Inl e) d = (Inl e, d)"
  "atomically (Inr (x, d')) d = (Inr x, d')"
  by (simp_all add: atomically_def)

lemma then_read_simps [simp]:
  "then_read (Inl e, d) f = (Inl e, d)"
  "then_read (Inr x, d) f = (f x d, d)"
  by (simp_all add: then_read_def)

section \<open>Queues and items\<close>

definition capability_ok :: "string \<Rightarrow> bool" where
  "capability_ok s = ident_ok s"

definition optional_capability :: "string option \<Rightarrow> string option res" where
  "optional_capability v = (case v of
     None \<Rightarrow> Inr None
   | Some c \<Rightarrow> bindR (required c) (\<lambda>c.
       if capability_ok c then Inr (Some c) else Inl ValueError))"

text \<open>\<open>INSERT INTO role_queues\<close>: the primary key and the unique target index
  (\<open>COALESCE(capability, '')\<close>), then the foreign key to the role.\<close>

definition coalesce :: "string option \<Rightarrow> string" where
  "coalesce c = (case c of None \<Rightarrow> [] | Some s \<Rightarrow> s)"

definition insert_queue :: "queue_row \<Rightarrow> db \<Rightarrow> db res" where
  "insert_queue q d =
     (if has_row (\<lambda>r. qu_project r = qu_project q \<and> qu_id r = qu_id q) (db_queues d)
       \<or> has_row (\<lambda>r. qu_project r = qu_project q \<and> qu_role r = qu_role q
                    \<and> coalesce (qu_capability r) = coalesce (qu_capability q)) (db_queues d)
      then Inl UniqueViolation
      else if \<not> has_role d (qu_project q) (qu_role q) then Inl ForeignKeyViolation
      else Inr (d\<lparr>db_queues := db_queues d @ [q]\<rparr>))"

definition queue_violation :: "exn \<Rightarrow> exn" where
  "queue_violation e = (case e of
     UniqueViolation \<Rightarrow> QueueConflict | ForeignKeyViolation \<Rightarrow> QueueNotFound | _ \<Rightarrow> e)"

definition create_queue :: "string \<Rightarrow> string \<Rightarrow> string \<Rightarrow> string option \<Rightarrow> db \<Rightarrow> (unit \<times> db) res" where
  "create_queue p q r c d =
     bindR (required p) (\<lambda>p. bindR (required q) (\<lambda>q. bindR (required r) (\<lambda>r.
     bindR (optional_capability c) (\<lambda>c.
     bindR (except_map queue_violation (insert_queue
       \<lparr>qu_project = p, qu_id = q, qu_role = r, qu_capability = c, qu_paused = False\<rparr> d))
     (\<lambda>d'. Inr ((), d'))))))"

text \<open>\<open>INSERT INTO queue_items\<close>.\<close>

definition insert_item :: "item_row \<Rightarrow> db \<Rightarrow> db res" where
  "insert_item i d =
     (if \<not> int4 (qi_priority i) then Inl DataError
      else if has_row (\<lambda>r. qi_project r = qi_project i \<and> qi_id r = qi_id i) (db_items d)
       \<or> has_row (\<lambda>r. qi_project r = qi_project i \<and> qi_key r = qi_key i) (db_items d)
      then Inl UniqueViolation
      else if \<not> has_row (\<lambda>q. qu_project q = qi_project i \<and> qu_id q = qi_queue i) (db_queues d)
       \<or> \<not> has_work d (qi_project i) (qi_work i)
      then Inl ForeignKeyViolation
      else Inr (d\<lparr>db_items := db_items d @ [i]\<rparr>))"

definition item_record :: "item_row \<Rightarrow> queue_item_record" where
  "item_record i = queue_item_record.truncate i"

definition get_item :: "string \<Rightarrow> string \<Rightarrow> db \<Rightarrow> queue_item_record res" where
  "get_item p i d =
     bindR (required p) (\<lambda>p. bindR (required i) (\<lambda>i.
     bindR (of_row QueueNotFound (item_of d p i)) (\<lambda>r. Inr (item_record r))))"

definition enqueue_tx :: "timestamp \<Rightarrow> string \<Rightarrow> string \<Rightarrow> string \<Rightarrow> string \<Rightarrow> string \<Rightarrow>
    (string \<times> json) list \<Rightarrow> int \<Rightarrow> timestamp option \<Rightarrow> db \<Rightarrow> ((string \<times> string) \<times> db) res" where
  "enqueue_tx t p q i w k payload prio avail d =
     bindR (required p) (\<lambda>p. bindR (required q) (\<lambda>q. bindR (required i) (\<lambda>i.
     bindR (required w) (\<lambda>w. bindR (required k) (\<lambda>k.
     bindR (except_map queue_violation (insert_item
       \<lparr>qi_project = p, qi_id = i, qi_queue = q, qi_work = w, qi_status = Ready,
        qi_priority = prio, qi_attempts = 0,
        qi_available = (case avail of None \<Rightarrow> t | Some a \<Rightarrow> a), qi_payload = payload, qi_key = k,
        qi_created = t, qi_fingerprint = None\<rparr> d))
     (\<lambda>d'. Inr ((p, i), d')))))))"

definition enqueue :: "timestamp \<Rightarrow> string \<Rightarrow> string \<Rightarrow> string \<Rightarrow> string \<Rightarrow> string \<Rightarrow>
    (string \<times> json) list \<Rightarrow> int \<Rightarrow> timestamp option \<Rightarrow> db \<Rightarrow> queue_item_record res \<times> db" where
  "enqueue t p q i w k payload prio avail d =
     then_read (atomically (enqueue_tx t p q i w k payload prio avail d) d)
       (\<lambda>(p, i) d'. get_item p i d')"

section \<open>Leases\<close>

definition lease_seconds_ok :: "int \<Rightarrow> bool" where
  "lease_seconds_ok n = (1 \<le> n \<and> n \<le> 3600)"

definition seconds :: "int \<Rightarrow> timestamp" where
  "seconds n = n * 1000000"

definition queue_binding :: "string \<Rightarrow> string \<Rightarrow> string \<Rightarrow> db \<Rightarrow>
    (string \<times> bool \<times> string \<times> string) option" where
  "queue_binding p q inst d =
     (case fetchone (\<lambda>r. qu_project r = p \<and> qu_id r = q) (db_queues d) of None \<Rightarrow> None
      | Some r \<Rightarrow> (case fetchone (\<lambda>i. in_project i = p \<and> in_id i = inst) (db_instances d) of
          None \<Rightarrow> None
        | Some i \<Rightarrow> Some (qu_role r, qu_paused r, in_role i, in_status i)))"

text \<open>\<open>_reclaim_expired\<close>: every lapsed lease of the project is closed, and its item goes
  back to \<open>ready\<close>.\<close>

definition lapsed :: "timestamp \<Rightarrow> string \<Rightarrow> lease_row \<Rightarrow> bool" where
  "lapsed t p l = (le_project l = p \<and> le_released l = None \<and> le_expires l \<le> t)"

definition reclaim_expired :: "timestamp \<Rightarrow> string \<Rightarrow> db \<Rightarrow> db" where
  "reclaim_expired t p d =
     d\<lparr>db_leases := upd_where (lapsed t p)
          (\<lambda>l. l\<lparr>le_released := Some t, le_reason := Some ''expired''\<rparr>) (db_leases d),
       db_items := upd_where (\<lambda>i. qi_project i = p \<and> qi_status i = Leased
            \<and> has_row (\<lambda>l. lapsed t p l \<and> le_item l = qi_id i) (db_leases d))
          (\<lambda>i. i\<lparr>qi_status := Ready\<rparr>) (db_items d)\<rparr>"

text \<open>\<open>ORDER BY priority DESC, available_at, created_at, queue_item_id ... LIMIT 1\<close> over the
  ready, due, unlocked items of the queue.\<close>

definition claim_order :: "item_row \<Rightarrow> int \<times> int \<times> int \<times> string" where
  "claim_order i = (- qi_priority i, qi_available i, qi_created i, qi_id i)"

definition claimable :: "timestamp \<Rightarrow> (string \<Rightarrow> bool) \<Rightarrow> string \<Rightarrow> string \<Rightarrow> item_row \<Rightarrow> bool" where
  "claimable t locked p q i =
     (qi_project i = p \<and> qi_queue i = q \<and> qi_status i = Ready \<and> qi_available i \<le> t
      \<and> \<not> locked (qi_id i))"

definition next_item :: "timestamp \<Rightarrow> (string \<Rightarrow> bool) \<Rightarrow> string \<Rightarrow> string \<Rightarrow> db \<Rightarrow> item_row option" where
  "next_item t locked p q d =
     (case sort_key claim_order (filter (claimable t locked p q) (db_items d)) of
        [] \<Rightarrow> None | i # _ \<Rightarrow> Some i)"

text \<open>\<open>INSERT INTO leases\<close>: the expiry check, the primary key, the unique token and the
  index that allows one unreleased lease per item, then the foreign keys.\<close>

definition insert_lease :: "lease_row \<Rightarrow> db \<Rightarrow> db res" where
  "insert_lease l d =
     (if le_expires l \<le> le_acquired l then Inl CheckViolation
      else if has_row (\<lambda>m. lease_key m = lease_key l) (db_leases d)
       \<or> has_row (\<lambda>m. le_token m = le_token l) (db_leases d)
       \<or> has_row (\<lambda>m. le_released m = None \<and> lease_item_key m = lease_item_key l) (db_leases d)
      then Inl UniqueViolation
      else if \<not> has_row (\<lambda>i. item_key i = lease_item_key l) (db_items d)
       \<or> \<not> has_row (\<lambda>i. in_project i = le_project l \<and> in_id i = le_owner l) (db_instances d)
      then Inl ForeignKeyViolation
      else Inr (d\<lparr>db_leases := db_leases d @ [l]\<rparr>))"

record lease_claim =
  lc_project :: string
  lc_id :: string
  lc_token :: string
  lc_item :: queue_item_record
  lc_owner :: string
  lc_acquired :: timestamp
  lc_heartbeat :: timestamp
  lc_expires :: timestamp

definition set_leased :: "string \<Rightarrow> string \<Rightarrow> db \<Rightarrow> db" where
  "set_leased p i d = d\<lparr>db_items := upd_where (\<lambda>r. qi_project r = p \<and> qi_id r = i)
     (\<lambda>r. r\<lparr>qi_status := Leased, qi_attempts := qi_attempts r + 1\<rparr>) (db_items d)\<rparr>"

definition claim :: "timestamp \<Rightarrow> timestamp \<Rightarrow> timestamp \<Rightarrow> (string \<Rightarrow> bool) \<Rightarrow> string \<Rightarrow> string \<Rightarrow>
    string \<Rightarrow> string \<Rightarrow> string \<Rightarrow> int \<Rightarrow> db \<Rightarrow> (lease_claim option \<times> db) res" where
  "claim t1 t2 t3 locked lid tok p q inst secs d =
     bindR (required p) (\<lambda>p. bindR (required q) (\<lambda>q. bindR (required inst) (\<lambda>inst.
     bindR (ensure (lease_seconds_ok secs) ValueError) (\<lambda>_.
     bindR (of_row QueueNotFound (queue_binding p q inst d)) (\<lambda>(qrole, paused, irole, istatus).
     bindR (ensure (\<not> paused) QueueConflict) (\<lambda>_.
     bindR (ensure (qrole = irole \<and> istatus = ''running'') QueueAuthorizationError) (\<lambda>_.
     let d1 = reclaim_expired t1 p d in
     case next_item t2 locked p q d1 of
       None \<Rightarrow> Inr (None, d1)
     | Some row \<Rightarrow>
         bindR (insert_lease \<lparr>le_project = p, le_id = lid, le_item = qi_id row, le_owner = inst,
           le_token = tok, le_acquired = t3, le_heartbeat = t3, le_expires = t3 + seconds secs,
           le_released = None, le_reason = None\<rparr> d1) (\<lambda>d2.
         bindR (ensure (int4 (qi_attempts row + 1)) DataError) (\<lambda>_.
         Inr (Some \<lparr>lc_project = p, lc_id = lid, lc_token = tok,
           lc_item = (item_record row)\<lparr>qi_status := Leased, qi_attempts := qi_attempts row + 1\<rparr>,
           lc_owner = inst, lc_acquired = t3, lc_heartbeat = t3,
           lc_expires = t3 + seconds secs\<rparr>, set_leased p (qi_id row) d2))))))))))"

text \<open>\<open>_lock_active_lease\<close>: the unreleased lease with this id and token, and whether it has
  expired.\<close>

definition lock_active_lease :: "timestamp \<Rightarrow> string \<Rightarrow> string \<Rightarrow> string \<Rightarrow> db \<Rightarrow> (lease_row \<times> bool) res" where
  "lock_active_lease t p lid tok d =
     bindR (of_row QueueAuthorizationError (fetchone (\<lambda>l. le_project l = p \<and> le_id l = lid
       \<and> le_token l = tok \<and> le_released l = None) (db_leases d)))
     (\<lambda>l. Inr (l, le_expires l \<le> t))"

definition heartbeat :: "timestamp \<Rightarrow> timestamp \<Rightarrow> string \<Rightarrow> string \<Rightarrow> string \<Rightarrow> int \<Rightarrow> db \<Rightarrow>
    (timestamp \<times> db) res" where
  "heartbeat t1 t2 p lid tok secs d =
     bindR (required p) (\<lambda>p. bindR (required lid) (\<lambda>lid. bindR (required tok) (\<lambda>tok.
     bindR (ensure (lease_seconds_ok secs) ValueError) (\<lambda>_.
     bindR (lock_active_lease t1 p lid tok d) (\<lambda>(l, expired).
     bindR (ensure (\<not> expired) LeaseExpired) (\<lambda>_.
     bindR (ensure (le_acquired l < t2 + seconds secs) CheckViolation) (\<lambda>_.
     Inr (t2 + seconds secs,
       d\<lparr>db_leases := upd_where (\<lambda>m. le_project m = p \<and> le_id m = lid)
          (\<lambda>m. m\<lparr>le_heartbeat := t2, le_expires := t2 + seconds secs\<rparr>) (db_leases d)\<rparr>))))))))"

text \<open>\<open>_finish_lease\<close>: the lease is closed and the item gets its status; completing is
  refused while the item is the source of a handoff nobody has accepted.\<close>

definition open_handoff :: "string \<Rightarrow> string \<Rightarrow> db \<Rightarrow> bool" where
  "open_handoff p i d = has_row (\<lambda>h. ho_project h = p \<and> ho_src_item h = Some i
     \<and> ho_status h \<noteq> Accepted) (db_handoffs d)"

definition finish_tx :: "timestamp \<Rightarrow> timestamp \<Rightarrow> string \<Rightarrow> string \<Rightarrow> string \<Rightarrow> item_status \<Rightarrow> string \<Rightarrow>
    db \<Rightarrow> ((string \<times> string) \<times> db) res" where
  "finish_tx t1 t2 p lid tok st reason d =
     bindR (required p) (\<lambda>p. bindR (required lid) (\<lambda>lid. bindR (required tok) (\<lambda>tok.
     bindR (lock_active_lease t1 p lid tok d) (\<lambda>(l, expired).
     bindR (ensure (\<not> expired) LeaseExpired) (\<lambda>_.
     bindR (ensure (\<not> (st = Finished \<and> open_handoff p (le_item l) d)) QueueConflict) (\<lambda>_.
     Inr ((p, le_item l),
       d\<lparr>db_leases := upd_where (\<lambda>m. le_project m = p \<and> le_id m = lid)
            (\<lambda>m. m\<lparr>le_released := Some t2, le_reason := Some reason\<rparr>) (db_leases d),
         db_items := upd_where (\<lambda>i. qi_project i = p \<and> qi_id i = le_item l)
            (\<lambda>i. i\<lparr>qi_status := st\<rparr>) (db_items d)\<rparr>)))))))"

definition finish_lease :: "timestamp \<Rightarrow> timestamp \<Rightarrow> string \<Rightarrow> string \<Rightarrow> string \<Rightarrow> item_status \<Rightarrow> string \<Rightarrow>
    db \<Rightarrow> queue_item_record res \<times> db" where
  "finish_lease t1 t2 p lid tok st reason d =
     then_read (atomically (finish_tx t1 t2 p lid tok st reason d) d)
       (\<lambda>(p, i) d'. get_item p i d')"

definition complete_lease :: "timestamp \<Rightarrow> timestamp \<Rightarrow> string \<Rightarrow> string \<Rightarrow> string \<Rightarrow> db \<Rightarrow>
    queue_item_record res \<times> db" where
  "complete_lease t1 t2 p lid tok d = finish_lease t1 t2 p lid tok Finished ''completed'' d"

definition release_lease :: "timestamp \<Rightarrow> timestamp \<Rightarrow> string \<Rightarrow> string \<Rightarrow> string \<Rightarrow> db \<Rightarrow>
    queue_item_record res \<times> db" where
  "release_lease t1 t2 p lid tok d = finish_lease t1 t2 p lid tok Ready ''released'' d"

section \<open>Metrics\<close>

record queue_metrics =
  qm_project :: string
  qm_queue :: string
  qm_depth :: nat
  qm_ready :: nat
  qm_delayed :: nat
  qm_leased :: nat
  qm_oldest :: "timestamp option"
  qm_attempts :: int

definition metrics :: "timestamp \<Rightarrow> string \<Rightarrow> string \<Rightarrow> db \<Rightarrow> queue_metrics res" where
  "metrics t p q d =
     bindR (required p) (\<lambda>p. bindR (required q) (\<lambda>q.
     bindR (ensure (has_row (\<lambda>r. qu_project r = p \<and> qu_id r = q) (db_queues d)) QueueNotFound) (\<lambda>_.
     let rows = filter (\<lambda>i. qi_project i = p \<and> qi_queue i = q) (db_items d);
         due = filter (\<lambda>i. qi_status i = Ready \<and> qi_available i \<le> t) rows
     in Inr \<lparr>qm_project = p, qm_queue = q,
       qm_depth = length (filter (\<lambda>i. qi_status i = Ready \<or> qi_status i = Leased) rows),
       qm_ready = length due,
       qm_delayed = length (filter (\<lambda>i. qi_status i = Ready \<and> t < qi_available i) rows),
       qm_leased = length (filter (\<lambda>i. qi_status i = Leased) rows),
       qm_oldest = (case map qi_available due of [] \<Rightarrow> None | a # as \<Rightarrow> Some (t - fold min as a)),
       qm_attempts = sum_list (map qi_attempts rows)\<rparr>)))"

section \<open>The lease invariant\<close>

text \<open>
  An item is leased exactly while one unreleased lease points at it. This is what the
  three writers (claim, finish, reclaim) keep between the two tables.
\<close>

definition live :: "lease_row \<Rightarrow> bool" where
  "live l = (le_released l = None)"

definition lease_ok :: "lease_row \<Rightarrow> bool" where
  "lease_ok l = ((le_released l = None) = (le_reason l = None) \<and> le_acquired l < le_expires l)"

definition queue_inv :: "db \<Rightarrow> bool" where
  "queue_inv d =
     (distinct (map item_key (db_items d)) \<and> distinct (map lease_key (db_leases d))
      \<and> (\<forall>l\<in>set (db_leases d). lease_ok l)
      \<and> (\<forall>l\<in>set (db_leases d). live l \<longrightarrow>
            (\<exists>i\<in>set (db_items d). item_key i = lease_item_key l \<and> qi_status i = Leased))
      \<and> (\<forall>i\<in>set (db_items d). qi_status i = Leased \<longrightarrow>
            (\<exists>l\<in>set (db_leases d). live l \<and> lease_item_key l = item_key i))
      \<and> (\<forall>l\<in>set (db_leases d). \<forall>m\<in>set (db_leases d).
            live l \<longrightarrow> live m \<longrightarrow> lease_item_key l = lease_item_key m \<longrightarrow> l = m))"

lemma queue_invD:
  assumes "queue_inv d"
  shows "distinct (map item_key (db_items d))" "distinct (map lease_key (db_leases d))"
    "\<And>l. l \<in> set (db_leases d) \<Longrightarrow> lease_ok l"
    "\<And>l. l \<in> set (db_leases d) \<Longrightarrow> live l \<Longrightarrow>
       \<exists>i\<in>set (db_items d). item_key i = lease_item_key l \<and> qi_status i = Leased"
    "\<And>i. i \<in> set (db_items d) \<Longrightarrow> qi_status i = Leased \<Longrightarrow>
       \<exists>l\<in>set (db_leases d). live l \<and> lease_item_key l = item_key i"
    "\<And>l m. l \<in> set (db_leases d) \<Longrightarrow> m \<in> set (db_leases d) \<Longrightarrow> live l \<Longrightarrow> live m \<Longrightarrow>
       lease_item_key l = lease_item_key m \<Longrightarrow> l = m"
  using assms unfolding queue_inv_def by blast+

lemma queue_inv_cong:
  "db_items d' = db_items d \<Longrightarrow> db_leases d' = db_leases d \<Longrightarrow> queue_inv d' = queue_inv d"
  by (simp add: queue_inv_def)

lemma item_eq:
  "queue_inv d \<Longrightarrow> i \<in> set (db_items d) \<Longrightarrow> j \<in> set (db_items d) \<Longrightarrow> item_key i = item_key j \<Longrightarrow> i = j"
  by (blast dest: queue_invD(1) intro: distinct_map_eq)

lemma lease_eq:
  "queue_inv d \<Longrightarrow> l \<in> set (db_leases d) \<Longrightarrow> m \<in> set (db_leases d) \<Longrightarrow> lease_key l = lease_key m \<Longrightarrow> l = m"
  by (blast dest: queue_invD(2) intro: distinct_map_eq)

lemma item_key_upd [simp]:
  "item_key (i\<lparr>qi_status := s\<rparr>) = item_key i"
  "item_key (i\<lparr>qi_status := s, qi_attempts := n\<rparr>) = item_key i"
  by (simp_all add: item_key_def)

lemma lease_key_upd [simp]:
  "lease_key (l\<lparr>le_released := r, le_reason := x\<rparr>) = lease_key l"
  "lease_key (l\<lparr>le_heartbeat := h, le_expires := e\<rparr>) = lease_key l"
  "lease_item_key (l\<lparr>le_released := r, le_reason := x\<rparr>) = lease_item_key l"
  "lease_item_key (l\<lparr>le_heartbeat := h, le_expires := e\<rparr>) = lease_item_key l"
  by (simp_all add: lease_key_def lease_item_key_def)

lemma live_upd [simp]:
  "\<not> live (l\<lparr>le_released := Some t, le_reason := x\<rparr>)"
  "live (l\<lparr>le_heartbeat := h, le_expires := e\<rparr>) = live l"
  by (simp_all add: live_def)

text \<open>Closing a set of live leases and moving exactly their items out of \<open>leased\<close> keeps the
  invariant: both \<open>reclaim_expired\<close> and \<open>finish_tx\<close> do that.\<close>

lemma close_inv:
  assumes inv: "queue_inv d" and st: "st \<noteq> Leased"
    and CL: "\<And>l. l \<in> set (db_leases d) \<Longrightarrow> C l \<Longrightarrow> live l"
    and CI: "\<And>i. i \<in> set (db_items d) \<Longrightarrow> qi_status i = Leased \<Longrightarrow>
       D i \<longleftrightarrow> (\<exists>l\<in>set (db_leases d). C l \<and> lease_item_key l = item_key i)"
    and d': "d' = d\<lparr>db_leases := upd_where C (\<lambda>l. l\<lparr>le_released := Some t, le_reason := Some x\<rparr>) (db_leases d),
       db_items := upd_where D (\<lambda>i. i\<lparr>qi_status := st\<rparr>) (db_items d)\<rparr>"
  shows "queue_inv d'"
proof -
  note Q = queue_invD [OF inv]
  have items: "distinct (map item_key (db_items d'))"
    using Q(1) by (simp add: d' map_upd_where_same)
  have leases: "distinct (map lease_key (db_leases d'))"
    using Q(2) by (simp add: d' map_upd_where_same)
  have ok: "\<forall>l\<in>set (db_leases d'). lease_ok l"
    using Q(3) by (auto simp: d' table_simps lease_ok_def)
  have live': "l \<in> set (db_leases d') \<and> live l \<longleftrightarrow> l \<in> set (db_leases d) \<and> live l \<and> \<not> C l" for l
    by (simp add: d' upd_where_out)
  have held': "i \<in> set (db_items d') \<and> qi_status i = Leased \<longleftrightarrow>
     i \<in> set (db_items d) \<and> qi_status i = Leased \<and> \<not> D i" for i
    using st by (simp add: d' upd_where_out [where Q = "\<lambda>i. qi_status i = Leased"])
  have a: "\<forall>l\<in>set (db_leases d'). live l \<longrightarrow>
     (\<exists>i\<in>set (db_items d'). item_key i = lease_item_key l \<and> qi_status i = Leased)"
  proof (intro ballI impI)
    fix l assume "l \<in> set (db_leases d')" "live l"
    then have l: "l \<in> set (db_leases d)" "live l" "\<not> C l" using live' by blast+
    then obtain i where i: "i \<in> set (db_items d)" "item_key i = lease_item_key l" "qi_status i = Leased"
      using Q(4) by blast
    have "\<not> D i"
    proof
      assume "D i"
      then obtain m where "m \<in> set (db_leases d)" "C m" "lease_item_key m = item_key i"
        using CI i by blast
      with l i CL Q(6) [of l m] show False by metis
    qed
    with i held' show "\<exists>i\<in>set (db_items d'). item_key i = lease_item_key l \<and> qi_status i = Leased"
      by blast
  qed
  have b: "\<forall>i\<in>set (db_items d'). qi_status i = Leased \<longrightarrow>
     (\<exists>l\<in>set (db_leases d'). live l \<and> lease_item_key l = item_key i)"
  proof (intro ballI impI)
    fix i assume "i \<in> set (db_items d')" "qi_status i = Leased"
    then have i: "i \<in> set (db_items d)" "qi_status i = Leased" "\<not> D i" using held' by blast+
    with Q(5) CI live' show "\<exists>l\<in>set (db_leases d'). live l \<and> lease_item_key l = item_key i"
      by metis
  qed
  have c: "\<forall>l\<in>set (db_leases d'). \<forall>m\<in>set (db_leases d').
     live l \<longrightarrow> live m \<longrightarrow> lease_item_key l = lease_item_key m \<longrightarrow> l = m"
    using Q(6) live' by metis
  from items leases ok a b c show ?thesis unfolding queue_inv_def by blast
qed

lemma reclaim_inv:
  assumes "queue_inv d"
  shows "queue_inv (reclaim_expired t p d)"
  using assms
proof (rule close_inv)
  show "Ready \<noteq> Leased" by simp
  show "live l" if "lapsed t p l" for l using that by (simp add: lapsed_def live_def)
  show "(qi_project i = p \<and> qi_status i = Leased
      \<and> has_row (\<lambda>l. lapsed t p l \<and> le_item l = qi_id i) (db_leases d)) \<longleftrightarrow>
     (\<exists>l\<in>set (db_leases d). lapsed t p l \<and> lease_item_key l = item_key i)"
    if "qi_status i = Leased" for i
    using that by (auto simp: table_simps lapsed_def key_defs)
qed (simp add: reclaim_expired_def)

text \<open>Leasing a ready item: the new lease is the only live one of the item.\<close>

lemma insert_lease_Inr:
  "insert_lease l d = Inr d' \<longleftrightarrow>
     le_acquired l < le_expires l
     \<and> (\<forall>m\<in>set (db_leases d). lease_key m \<noteq> lease_key l \<and> le_token m \<noteq> le_token l
          \<and> (live m \<longrightarrow> lease_item_key m \<noteq> lease_item_key l))
     \<and> (\<exists>i\<in>set (db_items d). item_key i = lease_item_key l)
     \<and> has_row (\<lambda>i. in_project i = le_project l \<and> in_id i = le_owner l) (db_instances d)
     \<and> d' = d\<lparr>db_leases := db_leases d @ [l]\<rparr>"
  unfolding insert_lease_def live_def has_row_iff by (auto split: if_splits)

lemma take_inv:
  assumes inv: "queue_inv d" and ins: "insert_lease l d = Inr d2"
    and l: "live l" "le_reason l = None"
  shows "queue_inv (set_leased (le_project l) (le_item l) d2)" (is "queue_inv ?d'")
proof -
  note Q = queue_invD [OF inv]
  from ins have new: "le_acquired l < le_expires l"
    "\<And>m. m \<in> set (db_leases d) \<Longrightarrow> lease_key m \<noteq> lease_key l"
    "\<And>m. m \<in> set (db_leases d) \<Longrightarrow> live m \<Longrightarrow> lease_item_key m \<noteq> lease_item_key l"
    and ex: "\<exists>i\<in>set (db_items d). item_key i = lease_item_key l"
    and d2: "db_items d2 = db_items d" "db_leases d2 = db_leases d @ [l]"
    by (auto simp: insert_lease_Inr)
  let ?up = "\<lambda>r::item_row. r\<lparr>qi_status := Leased, qi_attempts := qi_attempts r + 1\<rparr>"
  have sel: "(qi_project r = le_project l \<and> qi_id r = le_item l) \<longleftrightarrow> item_key r = lease_item_key l"
    for r :: item_row by (simp add: key_defs)
  have its: "db_items ?d' = upd_where (\<lambda>r. item_key r = lease_item_key l) ?up (db_items d)"
    by (simp add: set_leased_def d2 sel)
  have les: "db_leases ?d' = db_leases d @ [l]" by (simp add: set_leased_def d2)
  have up: "\<exists>j\<in>set (db_items ?d'). item_key j = item_key i
      \<and> (qi_status i = Leased \<or> item_key i = lease_item_key l \<longrightarrow> qi_status j = Leased)"
    if "i \<in> set (db_items d)" for i
    using that by (intro bexI [where x = "if item_key i = lease_item_key l then ?up i else i"])
      (auto simp: its table_simps)
  have "distinct (map item_key (db_items ?d'))"
    using Q(1) by (simp add: its map_upd_where_same)
  moreover have "distinct (map lease_key (db_leases ?d'))"
    using Q(2) new(2) by (fastforce simp: les)
  moreover have "\<forall>m\<in>set (db_leases ?d'). lease_ok m"
    using Q(3) new(1) l by (auto simp: les lease_ok_def live_def)
  moreover have "\<forall>m\<in>set (db_leases ?d'). live m \<longrightarrow>
     (\<exists>i\<in>set (db_items ?d'). item_key i = lease_item_key m \<and> qi_status i = Leased)"
    using Q(4) ex up by (simp add: les) metis
  moreover have "\<forall>i\<in>set (db_items ?d'). qi_status i = Leased \<longrightarrow>
     (\<exists>m\<in>set (db_leases ?d'). live m \<and> lease_item_key m = item_key i)"
    using Q(5) l by (fastforce simp: its les table_simps split: if_splits)
  moreover have "\<forall>m\<in>set (db_leases ?d'). \<forall>n\<in>set (db_leases ?d').
     live m \<longrightarrow> live n \<longrightarrow> lease_item_key m = lease_item_key n \<longrightarrow> m = n"
    using Q(6) new(3) by (auto simp: les) metis+
  ultimately show ?thesis unfolding queue_inv_def by blast
qed

text \<open>What a successful claim did.\<close>

lemma claim_Inr:
  assumes "claim t1 t2 t3 locked lid tok p q inst secs d = Inr (r, d')"
  shows "(\<exists>role. queue_binding (strip p) (strip q) (strip inst) d = Some (role, False, role, ''running''))
    \<and> lease_seconds_ok secs
    \<and> (r = None \<and> d' = reclaim_expired t1 (strip p) d
        \<and> next_item t2 locked (strip p) (strip q) (reclaim_expired t1 (strip p) d) = None
     \<or> (\<exists>row d2. next_item t2 locked (strip p) (strip q) (reclaim_expired t1 (strip p) d) = Some row
          \<and> insert_lease \<lparr>le_project = strip p, le_id = lid, le_item = qi_id row, le_owner = strip inst,
              le_token = tok, le_acquired = t3, le_heartbeat = t3, le_expires = t3 + seconds secs,
              le_released = None, le_reason = None\<rparr> (reclaim_expired t1 (strip p) d) = Inr d2
          \<and> d' = set_leased (strip p) (qi_id row) d2
          \<and> r = Some \<lparr>lc_project = strip p, lc_id = lid, lc_token = tok,
              lc_item = (item_record row)\<lparr>qi_status := Leased, qi_attempts := qi_attempts row + 1\<rparr>,
              lc_owner = strip inst, lc_acquired = t3, lc_heartbeat = t3,
              lc_expires = t3 + seconds secs\<rparr>))"
  using assms
  by (auto simp: claim_def monad_simps Let_def split: prod.splits option.splits)

lemma next_item_Some:
  assumes "next_item t locked p q d = Some i"
  shows "i \<in> set (db_items d) \<and> claimable t locked p q i
    \<and> (\<forall>j\<in>set (db_items d). claimable t locked p q j \<longrightarrow> claim_order i \<le> claim_order j)"
proof -
  let ?xs = "filter (claimable t locked p q) (db_items d)"
  obtain ys where ys: "sort_key claim_order ?xs = i # ys"
    using assms by (auto simp: next_item_def split: list.splits)
  then have "set (i # ys) = set ?xs" by (metis set_sort)
  moreover have "sorted (map claim_order (i # ys))" by (metis ys sorted_sort_key)
  ultimately show ?thesis by auto
qed

lemma next_item_None:
  "next_item t locked p q d = None \<longleftrightarrow> (\<forall>i\<in>set (db_items d). \<not> claimable t locked p q i)"
proof -
  have "next_item t locked p q d = None \<longleftrightarrow>
      sort_key claim_order (filter (claimable t locked p q) (db_items d)) = []"
    by (simp add: next_item_def split: list.splits)
  also have "\<dots> \<longleftrightarrow> filter (claimable t locked p q) (db_items d) = []"
    by (metis length_0_conv length_sort)
  also have "\<dots> \<longleftrightarrow> (\<forall>i\<in>set (db_items d). \<not> claimable t locked p q i)"
    by (simp add: filter_empty_conv)
  finally show ?thesis .
qed

lemma claim_inv:
  assumes inv: "queue_inv d" and c: "claim t1 t2 t3 locked lid tok p q inst secs d = Inr (r, d')"
  shows "queue_inv d'"
  using claim_Inr [OF c] reclaim_inv [OF inv, of t1 "strip p"] take_inv
  by (auto simp: live_def) (fastforce simp: live_def dest: take_inv)

text \<open>The lease writers of the holder.\<close>

lemma lock_active_lease_Inr [monad_simps]:
  "lock_active_lease t p lid tok d = Inr (l, e) \<longleftrightarrow>
     fetchone (\<lambda>l. le_project l = p \<and> le_id l = lid \<and> le_token l = tok \<and> le_released l = None)
       (db_leases d) = Some l \<and> e = (le_expires l \<le> t)"
  by (auto simp: lock_active_lease_def monad_simps)

lemma finish_inv:
  assumes inv: "queue_inv d" and f: "finish_tx t1 t2 p lid tok st reason d = Inr (k, d')"
    and st: "st \<noteq> Leased"
  shows "queue_inv d'"
proof -
  note Q = queue_invD [OF inv]
  from f obtain l where l: "l \<in> set (db_leases d)" "le_project l = strip p" "le_id l = strip lid" "live l"
    and d': "d' = d\<lparr>db_leases := upd_where (\<lambda>m. le_project m = strip p \<and> le_id m = strip lid)
            (\<lambda>m. m\<lparr>le_released := Some t2, le_reason := Some reason\<rparr>) (db_leases d),
         db_items := upd_where (\<lambda>i. qi_project i = strip p \<and> qi_id i = le_item l)
            (\<lambda>i. i\<lparr>qi_status := st\<rparr>) (db_items d)\<rparr>"
    by (auto simp: finish_tx_def monad_simps live_def dest!: fetchone_SomeD)
  have only: "m = l" if "m \<in> set (db_leases d)" "le_project m = strip p" "le_id m = strip lid" for m
    using lease_eq [OF inv that(1) l(1)] that(2,3) l(2,3) by (simp add: lease_key_def)
  from inv st show ?thesis
  proof (rule close_inv)
    show "live m" if "m \<in> set (db_leases d)" "le_project m = strip p \<and> le_id m = strip lid" for m
      using that only l(4) by blast
    show "(qi_project i = strip p \<and> qi_id i = le_item l) \<longleftrightarrow>
        (\<exists>m\<in>set (db_leases d). (le_project m = strip p \<and> le_id m = strip lid) \<and> lease_item_key m = item_key i)"
      for i
      using l by (auto simp: key_defs dest: only)
  qed (rule d')
qed

lemma upd_lease_inv:
  assumes inv: "queue_inv d"
    and ok: "\<And>l. l \<in> set (db_leases d) \<Longrightarrow> P l \<Longrightarrow> le_acquired l < e"
    and d': "d' = d\<lparr>db_leases := upd_where P (\<lambda>m. m\<lparr>le_heartbeat := h, le_expires := e\<rparr>) (db_leases d)\<rparr>"
  shows "queue_inv d'"
proof -
  note Q = queue_invD [OF inv]
  have mem: "l \<in> set (db_leases d') \<Longrightarrow> \<exists>m\<in>set (db_leases d). live m = live l
      \<and> lease_item_key m = lease_item_key l \<and> lease_key m = lease_key l" for l
    by (force simp: d' table_simps)
  have mem': "\<exists>m\<in>set (db_leases d'). live m = live l \<and> lease_item_key m = lease_item_key l"
    if "l \<in> set (db_leases d)" for l
    using that by (intro bexI [where x = "if P l then l\<lparr>le_heartbeat := h, le_expires := e\<rparr> else l"])
      (auto simp: d' table_simps)
  have d1: "distinct (map lease_key (db_leases d'))"
    using Q(2) by (simp add: d' map_upd_where_same)
  have "l = m" if "l \<in> set (db_leases d')" "m \<in> set (db_leases d')" "live l" "live m"
      "lease_item_key l = lease_item_key m" for l m
  proof -
    from mem [OF that(1)] mem [OF that(2)] that(3-5) Q(6) have "lease_key l = lease_key m" by metis
    with d1 that(1,2) show ?thesis by (blast intro: distinct_map_eq)
  qed
  moreover have "\<forall>l\<in>set (db_leases d'). lease_ok l"
    using Q(3) ok by (auto simp: d' table_simps lease_ok_def split: if_splits)
  moreover have its: "db_items d' = db_items d" by (simp add: d')
  moreover have "\<forall>l\<in>set (db_leases d'). live l \<longrightarrow>
     (\<exists>i\<in>set (db_items d). item_key i = lease_item_key l \<and> qi_status i = Leased)"
    using Q(4) mem by metis
  moreover have "\<forall>i\<in>set (db_items d). qi_status i = Leased \<longrightarrow>
     (\<exists>l\<in>set (db_leases d'). live l \<and> lease_item_key l = item_key i)"
    using Q(5) mem' by metis
  ultimately show ?thesis
    using Q(1) d1 unfolding queue_inv_def by auto
qed

lemma heartbeat_inv:
  assumes inv: "queue_inv d" and h: "heartbeat t1 t2 p lid tok secs d = Inr (e, d')"
  shows "queue_inv d'"
proof -
  from h obtain l where l: "l \<in> set (db_leases d)" "le_project l = strip p" "le_id l = strip lid"
    "le_acquired l < t2 + seconds secs"
    and d': "d' = d\<lparr>db_leases := upd_where (\<lambda>m. le_project m = strip p \<and> le_id m = strip lid)
          (\<lambda>m. m\<lparr>le_heartbeat := t2, le_expires := t2 + seconds secs\<rparr>) (db_leases d)\<rparr>"
    by (auto simp: heartbeat_def monad_simps dest!: fetchone_SomeD)
  have "m = l" if "m \<in> set (db_leases d)" "le_project m = strip p \<and> le_id m = strip lid" for m
    using lease_eq [OF inv that(1) l(1)] that(2) l(2,3) by (simp add: lease_key_def)
  with l d' show ?thesis by (intro upd_lease_inv [OF inv _ d']) blast
qed

lemma insert_item_Inr:
  "insert_item i d = Inr d' \<longleftrightarrow> int4 (qi_priority i)
     \<and> (\<forall>r\<in>set (db_items d). item_key r \<noteq> item_key i
          \<and> (qi_project r = qi_project i \<longrightarrow> qi_key r \<noteq> qi_key i))
     \<and> has_row (\<lambda>q. qu_project q = qi_project i \<and> qu_id q = qi_queue i) (db_queues d)
     \<and> has_work d (qi_project i) (qi_work i) \<and> d' = d\<lparr>db_items := db_items d @ [i]\<rparr>"
  unfolding insert_item_def item_key_def has_row_iff by (auto split: if_splits)

lemma insert_item_inv:
  assumes "queue_inv d" and "insert_item i d = Inr d'" and "qi_status i = Ready"
  shows "queue_inv d'"
  using assms(2,3) queue_invD [OF assms(1)] unfolding queue_inv_def
  by (auto simp: insert_item_Inr)

lemma enqueue_inv:
  "queue_inv d \<Longrightarrow> enqueue_tx t p q i w k payload prio avail d = Inr (x, d') \<Longrightarrow> queue_inv d'"
  by (auto simp: enqueue_tx_def monad_simps elim!: insert_item_inv)

lemma create_queue_inv:
  "queue_inv d \<Longrightarrow> create_queue p q r c d = Inr (u, d') \<Longrightarrow> queue_inv d'"
  by (auto simp: create_queue_def insert_queue_def monad_simps queue_inv_def split: if_splits)

end
