(* ===== verification/Routing.thy ===== *)
theory Routing
  imports Queues
begin

text \<open>
  \<open>routing.py\<close>: an idempotent router that puts a work item on the queue of a role and
  capability. \<open>sha\<close> stands for \<open>hashlib.sha256(text.encode()).hexdigest()\<close>, a function
  of the text and nothing else. A request is known by its project and idempotency key, and
  carries the fingerprint of everything else it asks for.
\<close>

section \<open>Time stamps as text\<close>

text \<open>\<open>datetime.isoformat()\<close> of a time in UTC, from its microseconds since the epoch.\<close>

definition pad :: "nat \<Rightarrow> int \<Rightarrow> string" where
  "pad w n = (let s = dec_nat (nat n) in replicate (w - length s) CHR ''0'' @ s)"

definition civil :: "int \<Rightarrow> int \<times> int \<times> int" where
  "civil days = (let z = days + 719468; era = z div 146097; doe = z mod 146097;
     yoe = (doe - doe div 1460 + doe div 36524 - doe div 146096) div 365;
     doy = doe - (365 * yoe + yoe div 4 - yoe div 100);
     mp = (5 * doy + 2) div 153;
     dd = doy - (153 * mp + 2) div 5 + 1;
     mm = (if mp < 10 then mp + 3 else mp - 9)
     in (yoe + era * 400 + (if mm \<le> 2 then 1 else 0), mm, dd))"

definition isoformat :: "timestamp \<Rightarrow> string" where
  "isoformat t = (let (y, m, dd) = civil (t div 86400000000); u = t mod 86400000000;
     s = u div 1000000; f = u mod 1000000
     in pad 4 y @ ''-'' @ pad 2 m @ ''-'' @ pad 2 dd @ ''T'' @ pad 2 (s div 3600) @ '':''
        @ pad 2 (s div 60 mod 60) @ '':'' @ pad 2 (s mod 60)
        @ (if f = 0 then [] else ''.'' @ pad 6 f) @ ''+00:00'')"

section \<open>Drafts\<close>

record route_draft =
  rd_project :: string
  rd_work :: string
  rd_role :: string
  rd_key :: string
  rd_payload :: "(string \<times> json) list"
  rd_capability :: "string option"
  rd_priority :: int
  rd_available :: "timestamp option"

text \<open>\<open>__post_init__\<close>: the identifiers are normalised, the priority is an \<open>integer\<close>.\<close>

definition optional_identifier :: "string option \<Rightarrow> string option res" where
  "optional_identifier v = (case v of None \<Rightarrow> Inr None | Some c \<Rightarrow> bindR (ident c) (\<lambda>c. Inr (Some c)))"

definition make_route_draft :: "route_draft \<Rightarrow> route_draft res" where
  "make_route_draft r =
     bindR (ident (rd_project r)) (\<lambda>p. bindR (ident (rd_work r)) (\<lambda>w.
     bindR (ident (rd_role r)) (\<lambda>role. bindR (ident (rd_key r)) (\<lambda>k.
     bindR (optional_identifier (rd_capability r)) (\<lambda>c.
     bindR (ensure (int4 (rd_priority r)) ValueError) (\<lambda>_.
     Inr (r\<lparr>rd_project := p, rd_work := w, rd_role := role, rd_key := k, rd_capability := c\<rparr>)))))))"

definition draft_ok :: "route_draft \<Rightarrow> bool" where
  "draft_ok r = (make_route_draft r = Inr r)"

definition route_item_id :: "(string \<Rightarrow> string) \<Rightarrow> string \<Rightarrow> string \<Rightarrow> string" where
  "route_item_id sha p k = ''route-'' @ take 32 (sha (p @ [char_of (0::nat)] @ k))"

definition route_fingerprint :: "(string \<Rightarrow> string) \<Rightarrow> route_draft \<Rightarrow> string res" where
  "route_fingerprint sha r =
     bindR (canonical (JObj [
       (''work_item_id'', JStr (rd_work r)),
       (''target_role_id'', JStr (rd_role r)),
       (''capability'', opt_str (rd_capability r)),
       (''priority'', JInt (rd_priority r)),
       (''available_at'', opt_str (map_option isoformat (rd_available r))),
       (''payload'', JObj (rd_payload r))]))
     (\<lambda>c. Inr (sha c))"

section \<open>Routing\<close>

definition keyed_item :: "string \<Rightarrow> string \<Rightarrow> db \<Rightarrow> item_row option" where
  "keyed_item p k d = fetchone (\<lambda>i. qi_project i = p \<and> qi_key i = k
     \<and> has_row (\<lambda>q. qu_project q = qi_project i \<and> qu_id q = qi_queue i) (db_queues d)) (db_items d)"

text \<open>\<open>_existing\<close>: the item already routed under this key, refused when its fingerprint
  is another one (an item enqueued directly has none).\<close>

definition existing_route :: "string \<Rightarrow> route_draft \<Rightarrow> db \<Rightarrow> queue_item_record option res" where
  "existing_route fp r d = (case keyed_item (rd_project r) (rd_key r) d of
     None \<Rightarrow> Inr None
   | Some i \<Rightarrow> if qi_fingerprint i = Some fp then Inr (Some (item_record i)) else Inl RoutingConflict)"

text \<open>The unpaused queue of the active role with exactly this capability.\<close>

definition route_target :: "route_draft \<Rightarrow> db \<Rightarrow> queue_row option" where
  "route_target r d = fetchone (\<lambda>q. qu_project q = rd_project r \<and> qu_role q = rd_role r
     \<and> qu_capability q = rd_capability r \<and> \<not> qu_paused q
     \<and> has_row (\<lambda>x. ro_project x = qu_project q \<and> ro_id x = qu_role q \<and> ro_status x = ''active'')
         (db_roles d)) (db_queues d)"

definition routed_item :: "timestamp \<Rightarrow> (string \<Rightarrow> string) \<Rightarrow> string \<Rightarrow> route_draft \<Rightarrow> queue_row \<Rightarrow> item_row" where
  "routed_item t sha fp r q =
     \<lparr>qi_project = rd_project r, qi_id = route_item_id sha (rd_project r) (rd_key r),
      qi_queue = qu_id q, qi_work = rd_work r, qi_status = Ready, qi_priority = rd_priority r,
      qi_attempts = 0, qi_available = (case rd_available r of None \<Rightarrow> t | Some a \<Rightarrow> a),
      qi_payload = rd_payload r, qi_key = rd_key r, qi_created = t, qi_fingerprint = Some fp\<rparr>"

definition route_in_transaction :: "timestamp \<Rightarrow> (string \<Rightarrow> string) \<Rightarrow> route_draft \<Rightarrow> db \<Rightarrow>
    (queue_item_record \<times> db) res" where
  "route_in_transaction t sha r d =
     bindR (route_fingerprint sha r) (\<lambda>fp.
     bindR (existing_route fp r d) (\<lambda>existing. case existing of
       Some i \<Rightarrow> Inr (i, d)
     | None \<Rightarrow>
         bindR (ensure (has_work d (rd_project r) (rd_work r)) RoutingNotFound) (\<lambda>_.
         bindR (of_row RoutingNotFound (route_target r d)) (\<lambda>q.
         let i = routed_item t sha fp r q in
         bindR (insert_item i d) (\<lambda>d'. Inr (item_record i, d'))))))"

text \<open>\<open>route\<close>: one transaction of its own; constraint violations become routing errors.\<close>

definition routing_violation :: "exn \<Rightarrow> exn" where
  "routing_violation e = (case e of
     RoutingError \<Rightarrow> e | RoutingNotFound \<Rightarrow> e | RoutingConflict \<Rightarrow> e
   | ForeignKeyViolation \<Rightarrow> RoutingNotFound | UniqueViolation \<Rightarrow> RoutingConflict
   | _ \<Rightarrow> RoutingError)"

definition route :: "timestamp \<Rightarrow> (string \<Rightarrow> string) \<Rightarrow> route_draft \<Rightarrow> db \<Rightarrow> (queue_item_record \<times> db) res" where
  "route t sha r d = except_map routing_violation (route_in_transaction t sha r d)"

section \<open>Correctness of routing\<close>

definition item_unique_key :: "item_row \<Rightarrow> string \<times> string" where
  "item_unique_key i = (qi_project i, qi_key i)"

definition items_ok :: "db \<Rightarrow> bool" where
  "items_ok d = (distinct (map item_unique_key (db_items d))
     \<and> (\<forall>i\<in>set (db_items d). has_row (\<lambda>q. qu_project q = qi_project i \<and> qu_id q = qi_queue i) (db_queues d)))"

lemma items_ok_insert:
  "items_ok d \<Longrightarrow> insert_item i d = Inr d' \<Longrightarrow> items_ok d'"
  by (auto simp: items_ok_def insert_item_Inr item_unique_key_def)

lemma keyed_item_Some:
  "keyed_item p k d = Some i \<Longrightarrow> i \<in> set (db_items d) \<and> qi_project i = p \<and> qi_key i = k"
  by (auto simp: keyed_item_def dest: fetchone_SomeD)

lemma keyed_item_iff:
  assumes "items_ok d"
  shows "keyed_item p k d = Some i \<longleftrightarrow> i \<in> set (db_items d) \<and> qi_project i = p \<and> qi_key i = k"
proof
  assume "i \<in> set (db_items d) \<and> qi_project i = p \<and> qi_key i = k"
  with assms show "keyed_item p k d = Some i"
    unfolding keyed_item_def items_ok_def
    by (intro fetchone_unique [where k = item_unique_key]) (auto simp: item_unique_key_def)
qed (rule keyed_item_Some)

definition route_recorded :: "(string \<Rightarrow> string) \<Rightarrow> route_draft \<Rightarrow> db \<Rightarrow> bool" where
  "route_recorded sha r d = (\<exists>i fp. keyed_item (rd_project r) (rd_key r) d = Some i
     \<and> route_fingerprint sha r = Inr fp \<and> qi_fingerprint i = Some fp)"

lemma route_Inr:
  "route_in_transaction t sha r d = Inr (x, d') \<longleftrightarrow>
     (\<exists>fp. route_fingerprint sha r = Inr fp
       \<and> ((\<exists>i. keyed_item (rd_project r) (rd_key r) d = Some i \<and> qi_fingerprint i = Some fp
              \<and> x = item_record i \<and> d' = d)
         \<or> (\<exists>q. keyed_item (rd_project r) (rd_key r) d = None
              \<and> has_work d (rd_project r) (rd_work r) \<and> route_target r d = Some q
              \<and> insert_item (routed_item t sha fp r q) d = Inr d'
              \<and> x = item_record (routed_item t sha fp r q))))"
  by (cases "keyed_item (rd_project r) (rd_key r) d")
    (auto simp: route_in_transaction_def existing_route_def monad_simps Let_def)

lemma route_keyed_after:
  assumes "route_in_transaction t sha r d = Inr (x, d')"
  shows "\<exists>i fp. keyed_item (rd_project r) (rd_key r) d' = Some i
     \<and> route_fingerprint sha r = Inr fp \<and> qi_fingerprint i = Some fp \<and> x = item_record i"
proof -
  from assms obtain fp where fp: "route_fingerprint sha r = Inr fp"
    and c: "(\<exists>i. keyed_item (rd_project r) (rd_key r) d = Some i \<and> qi_fingerprint i = Some fp
              \<and> x = item_record i \<and> d' = d)
         \<or> (\<exists>q. keyed_item (rd_project r) (rd_key r) d = None
              \<and> insert_item (routed_item t sha fp r q) d = Inr d'
              \<and> x = item_record (routed_item t sha fp r q))"
    by (auto simp: route_Inr)
  from c show ?thesis
  proof
    assume "\<exists>q. keyed_item (rd_project r) (rd_key r) d = None
        \<and> insert_item (routed_item t sha fp r q) d = Inr d'
        \<and> x = item_record (routed_item t sha fp r q)"
    then obtain q where q: "keyed_item (rd_project r) (rd_key r) d = None"
      "insert_item (routed_item t sha fp r q) d = Inr d'" "x = item_record (routed_item t sha fp r q)"
      by blast
    then have "keyed_item (rd_project r) (rd_key r) d' = Some (routed_item t sha fp r q)"
      by (auto simp: insert_item_Inr keyed_item_def routed_item_def fetchone_append)
    with fp q(3) show ?thesis by (auto simp: routed_item_def)
  qed (use fp in auto)
qed

lemma route_records: "route_in_transaction t sha r d = Inr (x, d') \<Longrightarrow> route_recorded sha r d'"
  using route_keyed_after unfolding route_recorded_def by blast

lemma route_replays:
  "route_recorded sha r d \<Longrightarrow> \<exists>x. route_in_transaction t sha r d = Inr (x, d)"
  by (auto simp: route_recorded_def route_Inr)

lemma routed_item_simps [simp]:
  "qi_status (routed_item t sha fp r q) = Ready"
  "qi_project (routed_item t sha fp r q) = rd_project r"
  "qi_id (routed_item t sha fp r q) = route_item_id sha (rd_project r) (rd_key r)"
  "qi_work (routed_item t sha fp r q) = rd_work r"
  "qi_queue (routed_item t sha fp r q) = qu_id q"
  "qi_key (routed_item t sha fp r q) = rd_key r"
  "qi_created (routed_item t sha fp r q) = t"
  by (simp_all add: routed_item_def)

lemma route_queue_inv:
  "queue_inv d \<Longrightarrow> route_in_transaction t sha r d = Inr (x, d') \<Longrightarrow> queue_inv d'"
  by (auto simp: route_Inr) (metis insert_item_inv routed_item_simps(1))

lemma route_items_ok:
  "items_ok d \<Longrightarrow> route_in_transaction t sha r d = Inr (x, d') \<Longrightarrow> items_ok d'"
  by (auto simp: route_Inr intro: items_ok_insert)

text \<open>A key already used for different work is refused and nothing is written.\<close>

lemma route_conflict:
  assumes "keyed_item (rd_project r) (rd_key r) d = Some i" and "route_fingerprint sha r = Inr fp"
    and "qi_fingerprint i \<noteq> Some fp"
  shows "route_in_transaction t sha r d = Inl RoutingConflict"
  using assms by (simp add: route_in_transaction_def existing_route_def)

end
