(* ===== verification/Handoffs.thy ===== *)
theory Handoffs
  imports Routing
begin

text \<open>
  \<open>handoffs.py\<close>: the holder of a lease offers its work to another role; the router queues
  an item for that role; whoever leases the item claims and then accepts the handoff. The
  source item cannot be completed before acceptance (\<open>finish_tx\<close> in \<open>Queues\<close>).
\<close>

section \<open>Offers\<close>

record handoff_offer =
  hf_project :: string
  hf_lease :: string
  hf_token :: string
  hf_role :: string
  hf_key :: string
  hf_summary :: string
  hf_payload :: "(string \<times> json) list"
  hf_capability :: "string option"
  hf_priority :: int

definition make_offer :: "handoff_offer \<Rightarrow> handoff_offer res" where
  "make_offer r =
     bindR (ident (hf_project r)) (\<lambda>p. bindR (ident (hf_lease r)) (\<lambda>l.
     bindR (ident (hf_role r)) (\<lambda>role. bindR (ident (hf_key r)) (\<lambda>k.
     bindR (optional_identifier (hf_capability r)) (\<lambda>c.
     bindR (bounded 512 (hf_token r)) (\<lambda>tok. bindR (bounded 4000 (hf_summary r)) (\<lambda>s.
     bindR (ensure (int4 (hf_priority r)) ValueError) (\<lambda>_.
     Inr (r\<lparr>hf_project := p, hf_lease := l, hf_token := tok, hf_role := role, hf_key := k,
            hf_summary := s, hf_capability := c\<rparr>)))))))))"

definition handoff_id :: "(string \<Rightarrow> string) \<Rightarrow> string \<Rightarrow> string \<Rightarrow> string" where
  "handoff_id sha p k = ''handoff-'' @ take 32 (sha (p @ [char_of (0::nat)] @ k))"

text \<open>\<open>_source_lease\<close>: the lease with this id and token, joined with its item and its
  owner instance, and whether it is closed or has expired.\<close>

record source_row =
  so_item :: string
  so_work :: string
  so_instance :: string
  so_role :: string
  so_item_status :: item_status
  so_instance_status :: string
  so_released :: bool
  so_expired :: bool

definition source_lease :: "timestamp \<Rightarrow> handoff_offer \<Rightarrow> db \<Rightarrow> source_row option" where
  "source_lease t r d =
     (case fetchone (\<lambda>l. le_project l = hf_project r \<and> le_id l = hf_lease r \<and> le_token l = hf_token r)
        (db_leases d) of None \<Rightarrow> None
      | Some l \<Rightarrow> (case item_of d (le_project l) (le_item l) of None \<Rightarrow> None
        | Some i \<Rightarrow> (case fetchone (\<lambda>x. in_project x = le_project l \<and> in_id x = le_owner l)
            (db_instances d) of None \<Rightarrow> None
          | Some x \<Rightarrow> Some \<lparr>so_item = le_item l, so_work = qi_work i, so_instance = le_owner l,
              so_role = in_role x, so_item_status = qi_status i, so_instance_status = in_status x,
              so_released = (le_released l \<noteq> None), so_expired = (le_expires l \<le> t)\<rparr>)))"

definition handoff_fingerprint :: "(string \<Rightarrow> string) \<Rightarrow> handoff_offer \<Rightarrow> source_row \<Rightarrow> string res" where
  "handoff_fingerprint sha r s =
     bindR (canonical (JObj [
       (''source_queue_item_id'', JStr (so_item s)),
       (''source_lease_id'', JStr (hf_lease r)),
       (''source_instance_id'', JStr (so_instance s)),
       (''source_role_id'', JStr (so_role s)),
       (''target_role_id'', JStr (hf_role r)),
       (''capability'', opt_str (hf_capability r)),
       (''summary'', JStr (hf_summary r)),
       (''payload'', JObj (hf_payload r)),
       (''priority'', JInt (hf_priority r))]))
     (\<lambda>c. Inr (sha c))"

section \<open>Records\<close>

text \<open>\<open>HandoffRecord\<close>: the row with its latencies, the targets (10, 90 and 120 seconds)
  and the overdue flags, measured at the time of the read. Latencies are in microseconds.\<close>

record handoff_record =
  hr_row :: handoff_row
  hr_delivery_latency :: int
  hr_claim_latency :: "int option"
  hr_acceptance_latency :: "int option"
  hr_delivery_met :: bool
  hr_claim_met :: "bool option"
  hr_acceptance_met :: "bool option"
  hr_claim_overdue :: bool
  hr_acceptance_overdue :: bool

definition handoff_view :: "timestamp \<Rightarrow> handoff_row \<Rightarrow> handoff_record" where
  "handoff_view t h =
     \<lparr>hr_row = h,
      hr_delivery_latency = ho_queued h - ho_offered h,
      hr_claim_latency = map_option (\<lambda>c. c - ho_queued h) (ho_claimed h),
      hr_acceptance_latency = (case (ho_accepted h, ho_claimed h) of
          (Some a, Some c) \<Rightarrow> Some (a - c) | _ \<Rightarrow> None),
      hr_delivery_met = (ho_queued h \<le> ho_offered h + seconds 10),
      hr_claim_met = map_option (\<lambda>c. c \<le> ho_queued h + seconds 90) (ho_claimed h),
      hr_acceptance_met = (case (ho_accepted h, ho_claimed h) of
          (Some a, Some c) \<Rightarrow> Some (a \<le> c + seconds 120) | _ \<Rightarrow> None),
      hr_claim_overdue = (ho_claimed h = None \<and> ho_queued h + seconds 90 < t),
      hr_acceptance_overdue = (case ho_claimed h of None \<Rightarrow> False
          | Some c \<Rightarrow> ho_accepted h = None \<and> c + seconds 120 < t)\<rparr>"

definition handoff_row_of :: "string \<Rightarrow> string \<Rightarrow> db \<Rightarrow> handoff_row option" where
  "handoff_row_of p h d = fetchone (\<lambda>r. ho_project r = p \<and> ho_id r = h) (db_handoffs d)"

definition handoff_get_in :: "timestamp \<Rightarrow> string \<Rightarrow> string \<Rightarrow> db \<Rightarrow> handoff_record res" where
  "handoff_get_in t p h d = bindR (of_row HandoffNotFound (handoff_row_of p h d)) (\<lambda>r. Inr (handoff_view t r))"

definition handoff_get :: "timestamp \<Rightarrow> string \<Rightarrow> string \<Rightarrow> db \<Rightarrow> handoff_record res" where
  "handoff_get t p h d = bindR (ident p) (\<lambda>p. bindR (ident h) (\<lambda>h. handoff_get_in t p h d))"

text \<open>The table's \<open>CHECK\<close> constraints: ordered time stamps, and the columns each status has.\<close>

definition handoff_check :: "handoff_row \<Rightarrow> bool" where
  "handoff_check h =
     (ho_offered h \<le> ho_queued h
      \<and> (case ho_claimed h of None \<Rightarrow> True | Some c \<Rightarrow> ho_queued h \<le> c)
      \<and> (case (ho_accepted h, ho_claimed h) of (Some a, Some c) \<Rightarrow> c \<le> a | _ \<Rightarrow> True)
      \<and> (case ho_status h of
            Offered \<Rightarrow> ho_claimed h = None \<and> ho_accepted h = None
          | Claimed \<Rightarrow> ho_claimed h \<noteq> None \<and> ho_accepted h = None
          | Accepted \<Rightarrow> ho_claimed h \<noteq> None \<and> ho_accepted h \<noteq> None))"

definition insert_handoff :: "handoff_row \<Rightarrow> db \<Rightarrow> db res" where
  "insert_handoff h d =
     (if \<not> handoff_check h then Inl CheckViolation
      else if has_row (\<lambda>r. handoff_key r = handoff_key h) (db_handoffs d)
       \<or> has_row (\<lambda>r. ho_project r = ho_project h \<and> ho_key r = ho_key h) (db_handoffs d)
       \<or> ho_item h \<noteq> None
         \<and> has_row (\<lambda>r. ho_project r = ho_project h \<and> ho_item r = ho_item h) (db_handoffs d)
      then Inl UniqueViolation
      else if \<not> has_role d (ho_project h) (ho_src_role h) \<or> \<not> has_role d (ho_project h) (ho_tgt_role h)
      then Inl ForeignKeyViolation
      else Inr (d\<lparr>db_handoffs := db_handoffs d @ [h]\<rparr>))"

section \<open>Offering\<close>

definition handoff_violation :: "exn \<Rightarrow> exn" where
  "handoff_violation e = (case e of
     HandoffError \<Rightarrow> e | HandoffNotFound \<Rightarrow> e | HandoffConflict \<Rightarrow> e | HandoffAuthorizationError \<Rightarrow> e
   | RoutingNotFound \<Rightarrow> HandoffNotFound | RoutingConflict \<Rightarrow> HandoffConflict
   | ForeignKeyViolation \<Rightarrow> HandoffNotFound | UniqueViolation \<Rightarrow> HandoffConflict
   | _ \<Rightarrow> HandoffError)"

definition keyed_handoff :: "string \<Rightarrow> string \<Rightarrow> db \<Rightarrow> handoff_row option" where
  "keyed_handoff p k d = fetchone (\<lambda>h. ho_project h = p \<and> ho_key h = k) (db_handoffs d)"

definition offer_draft :: "string \<Rightarrow> handoff_offer \<Rightarrow> source_row \<Rightarrow> route_draft" where
  "offer_draft hid r s =
     \<lparr>rd_project = hf_project r, rd_work = so_work s, rd_role = hf_role r, rd_key = hf_key r,
      rd_payload = [
        (''handoff'', JObj [
           (''handoff_id'', JStr hid),
           (''source_role_id'', JStr (so_role s)),
           (''source_instance_id'', JStr (so_instance s)),
           (''summary'', JStr (hf_summary r))]),
        (''payload'', JObj (hf_payload r))],
      rd_capability = hf_capability r, rd_priority = hf_priority r, rd_available = None\<rparr>"

definition offered_row :: "string \<Rightarrow> string \<Rightarrow> handoff_offer \<Rightarrow> source_row \<Rightarrow> string \<Rightarrow> timestamp \<Rightarrow>
    timestamp \<Rightarrow> handoff_row" where
  "offered_row hid fp r s item offered queued =
     \<lparr>ho_project = hf_project r, ho_id = hid, ho_work = so_work s, ho_src_role = so_role s,
      ho_src_instance = Some (so_instance s), ho_src_item = Some (so_item s),
      ho_src_lease = Some (hf_lease r), ho_tgt_role = hf_role r, ho_tgt_instance = None,
      ho_item = Some item, ho_tgt_lease = None, ho_status = Offered, ho_summary = hf_summary r,
      ho_key = hf_key r, ho_offered = offered, ho_queued = queued, ho_claimed = None,
      ho_accepted = None, ho_fingerprint = Some fp\<rparr>"

definition source_active :: "source_row \<Rightarrow> bool" where
  "source_active s = (so_item_status s = Leased \<and> so_instance_status s = ''running''
     \<and> \<not> so_released s \<and> \<not> so_expired s)"

text \<open>The transaction. Times: the lease check, \<open>offered_at\<close>, the insertion of the routed
  item, the read back.\<close>

definition offer_tx :: "timestamp \<Rightarrow> timestamp \<Rightarrow> timestamp \<Rightarrow> timestamp \<Rightarrow> (string \<Rightarrow> string) \<Rightarrow>
    handoff_offer \<Rightarrow> db \<Rightarrow> (handoff_record \<times> db) res" where
  "offer_tx t1 t2 t3 t4 sha r d =
     bindR (of_row HandoffAuthorizationError (source_lease t1 r d)) (\<lambda>s.
     bindR (handoff_fingerprint sha r s) (\<lambda>fp.
     case keyed_handoff (hf_project r) (hf_key r) d of
       Some h \<Rightarrow>
         if ho_fingerprint h \<noteq> Some fp then Inl HandoffConflict
         else bindR (handoff_get_in t4 (hf_project r) (ho_id h) d) (\<lambda>v. Inr (v, d))
     | None \<Rightarrow>
         bindR (ensure (source_active s) HandoffAuthorizationError) (\<lambda>_.
         let hid = handoff_id sha (hf_project r) (hf_key r) in
         bindR (make_route_draft (offer_draft hid r s)) (\<lambda>draft.
         bindR (route_in_transaction t3 sha draft d) (\<lambda>(routed, d1).
         bindR (of_row HandoffError (map_option qi_created (item_of d1 (hf_project r) (qi_id routed))))
         (\<lambda>queued.
         bindR (ensure (t2 \<le> queued) HandoffConflict) (\<lambda>_.
         bindR (insert_handoff (offered_row hid fp r s (qi_id routed) t2 queued) d1) (\<lambda>d2.
         bindR (handoff_get_in t4 (hf_project r) hid d2) (\<lambda>v. Inr (v, d2))))))))))"

definition offer :: "timestamp \<Rightarrow> timestamp \<Rightarrow> timestamp \<Rightarrow> timestamp \<Rightarrow> (string \<Rightarrow> string) \<Rightarrow>
    handoff_offer \<Rightarrow> db \<Rightarrow> (handoff_record \<times> db) res" where
  "offer t1 t2 t3 t4 sha r d = except_map handoff_violation (offer_tx t1 t2 t3 t4 sha r d)"

section \<open>Claiming and accepting\<close>

text \<open>\<open>_active_target_lease\<close>: the lease is live, on the handoff's item, and its owner is a
  running instance of the target role.\<close>

definition active_target_lease :: "timestamp \<Rightarrow> handoff_row \<Rightarrow> string \<Rightarrow> string \<Rightarrow> db \<Rightarrow> lease_row option" where
  "active_target_lease t h lid tok d = fetchone (\<lambda>l. le_project l = ho_project h \<and> le_id l = lid
     \<and> le_token l = tok \<and> ho_item h = Some (le_item l) \<and> le_released l = None \<and> t < le_expires l
     \<and> has_row (\<lambda>x. in_project x = le_project l \<and> in_id x = le_owner l \<and> in_role x = ho_tgt_role h
          \<and> in_status x = ''running'') (db_instances d)) (db_leases d)"

definition historical_target_lease :: "handoff_row \<Rightarrow> string \<Rightarrow> string \<Rightarrow> db \<Rightarrow> unit res" where
  "historical_target_lease h lid tok d =
     bindR (ensure (ho_tgt_lease h = Some lid) HandoffAuthorizationError) (\<lambda>_.
     ensure (has_row (\<lambda>l. le_project l = ho_project h \<and> le_id l = lid \<and> le_token l = tok
       \<and> ho_item h = Some (le_item l)) (db_leases d)) HandoffAuthorizationError)"

definition update_handoff :: "string \<Rightarrow> string \<Rightarrow> (handoff_row \<Rightarrow> handoff_row) \<Rightarrow> db \<Rightarrow> db res" where
  "update_handoff p h f d =
     (let rows = upd_where (\<lambda>r. ho_project r = p \<and> ho_id r = h) f (db_handoffs d)
      in if list_all handoff_check rows then Inr (d\<lparr>db_handoffs := rows\<rparr>) else Inl CheckViolation)"

definition handoff_claim_tx :: "timestamp \<Rightarrow> timestamp \<Rightarrow> timestamp \<Rightarrow> timestamp \<Rightarrow> string \<Rightarrow> string \<Rightarrow>
    string \<Rightarrow> string \<Rightarrow> db \<Rightarrow> (handoff_record \<times> db) res" where
  "handoff_claim_tx t1 t2 t3 t4 p h lid tok d =
     bindR (of_row HandoffNotFound (handoff_row_of p h d)) (\<lambda>row.
     if ho_status row = Accepted
     then bindR (historical_target_lease row lid tok d) (\<lambda>_.
          bindR (handoff_get_in t4 p h d) (\<lambda>v. Inr (v, d)))
     else
       bindR (of_row HandoffAuthorizationError (active_target_lease t1 row lid tok d)) (\<lambda>lease.
       bindR (ensure (\<not> (ho_status row = Claimed \<and> ho_tgt_lease row \<noteq> Some lid
          \<and> has_row (\<lambda>l. le_project l = p \<and> Some (le_id l) = ho_tgt_lease row
               \<and> le_released l = None \<and> t2 < le_expires l) (db_leases d))) HandoffConflict) (\<lambda>_.
       bindR (if ho_status row = Offered \<or> ho_tgt_lease row \<noteq> Some lid
              then update_handoff p h (\<lambda>r. r\<lparr>ho_status := Claimed,
                     ho_tgt_instance := Some (le_owner lease), ho_tgt_lease := Some lid,
                     ho_claimed := Some t3, ho_accepted := None\<rparr>) d
              else Inr d) (\<lambda>d'.
       bindR (handoff_get_in t4 p h d') (\<lambda>v. Inr (v, d'))))))"

definition handoff_accept_tx :: "timestamp \<Rightarrow> timestamp \<Rightarrow> timestamp \<Rightarrow> string \<Rightarrow> string \<Rightarrow>
    string \<Rightarrow> string \<Rightarrow> db \<Rightarrow> (handoff_record \<times> db) res" where
  "handoff_accept_tx t1 t2 t4 p h lid tok d =
     bindR (of_row HandoffNotFound (handoff_row_of p h d)) (\<lambda>row.
     bindR (ensure (ho_status row \<noteq> Offered) HandoffConflict) (\<lambda>_.
     bindR (ensure (ho_tgt_lease row = Some lid) HandoffAuthorizationError) (\<lambda>_.
     if ho_status row = Accepted
     then bindR (historical_target_lease row lid tok d) (\<lambda>_.
          bindR (handoff_get_in t4 p h d) (\<lambda>v. Inr (v, d)))
     else
       bindR (of_row HandoffAuthorizationError (active_target_lease t1 row lid tok d)) (\<lambda>_.
       bindR (update_handoff p h (\<lambda>r. r\<lparr>ho_status := Accepted, ho_accepted := Some t2\<rparr>) d) (\<lambda>d'.
       bindR (handoff_get_in t4 p h d') (\<lambda>v. Inr (v, d')))))))"

text \<open>The public methods: the identifiers are normalised outside the \<open>try\<close> block, inside it
  only handoff errors pass.\<close>

definition handoff_wrap :: "exn \<Rightarrow> exn" where
  "handoff_wrap e = (if e \<in> {HandoffError, HandoffNotFound, HandoffConflict, HandoffAuthorizationError}
     then e else HandoffError)"

definition transition_identifiers :: "string \<Rightarrow> string \<Rightarrow> string \<Rightarrow> string \<Rightarrow>
    (string \<times> string \<times> string \<times> string) res" where
  "transition_identifiers p h lid tok =
     bindR (ident p) (\<lambda>p. bindR (ident h) (\<lambda>h. bindR (ident lid) (\<lambda>lid.
     bindR (bounded 512 tok) (\<lambda>tok. Inr (p, h, lid, tok)))))"

definition handoff_claim :: "timestamp \<Rightarrow> timestamp \<Rightarrow> timestamp \<Rightarrow> timestamp \<Rightarrow> string \<Rightarrow> string \<Rightarrow>
    string \<Rightarrow> string \<Rightarrow> db \<Rightarrow> (handoff_record \<times> db) res" where
  "handoff_claim t1 t2 t3 t4 p h lid tok d =
     bindR (transition_identifiers p h lid tok) (\<lambda>(p, h, lid, tok).
       except_map handoff_wrap (handoff_claim_tx t1 t2 t3 t4 p h lid tok d))"

definition handoff_accept :: "timestamp \<Rightarrow> timestamp \<Rightarrow> timestamp \<Rightarrow> string \<Rightarrow> string \<Rightarrow>
    string \<Rightarrow> string \<Rightarrow> db \<Rightarrow> (handoff_record \<times> db) res" where
  "handoff_accept t1 t2 t4 p h lid tok d =
     bindR (transition_identifiers p h lid tok) (\<lambda>(p, h, lid, tok).
       except_map handoff_wrap (handoff_accept_tx t1 t2 t4 p h lid tok d))"

section \<open>What each operation does to the handoff table\<close>

lemma handoff_get_in_iff [monad_simps]:
  "handoff_get_in t p h d = Inr v \<longleftrightarrow> (\<exists>r. handoff_row_of p h d = Some r \<and> v = handoff_view t r)"
  by (auto simp: handoff_get_in_def monad_simps)

lemma handoff_row_ofD:
  "handoff_row_of p h d = Some r \<Longrightarrow> r \<in> set (db_handoffs d) \<and> ho_project r = p \<and> ho_id r = h"
  by (auto simp: handoff_row_of_def dest: fetchone_SomeD)

lemma keyed_handoffD:
  "keyed_handoff p k d = Some r \<Longrightarrow> r \<in> set (db_handoffs d) \<and> ho_project r = p \<and> ho_key r = k"
  by (auto simp: keyed_handoff_def dest: fetchone_SomeD)

lemma insert_handoff_Inr:
  "insert_handoff h d = Inr d' \<longleftrightarrow> handoff_check h
     \<and> (\<forall>r\<in>set (db_handoffs d). handoff_key r \<noteq> handoff_key h
          \<and> (ho_project r = ho_project h \<longrightarrow> ho_key r \<noteq> ho_key h)
          \<and> (ho_item h \<noteq> None \<longrightarrow> ho_project r = ho_project h \<longrightarrow> ho_item r \<noteq> ho_item h))
     \<and> has_role d (ho_project h) (ho_src_role h) \<and> has_role d (ho_project h) (ho_tgt_role h)
     \<and> d' = d\<lparr>db_handoffs := db_handoffs d @ [h]\<rparr>"
  unfolding insert_handoff_def has_row_iff by (auto split: if_splits)

lemma update_handoff_Inr:
  "update_handoff p h f d = Inr d' \<longleftrightarrow>
     (\<forall>r\<in>set (upd_where (\<lambda>r. ho_project r = p \<and> ho_id r = h) f (db_handoffs d)). handoff_check r)
     \<and> d' = d\<lparr>db_handoffs := upd_where (\<lambda>r. ho_project r = p \<and> ho_id r = h) f (db_handoffs d)\<rparr>"
  by (auto simp: update_handoff_def Let_def list_all_iff)

text \<open>A successful offer either found the recorded one and wrote nothing, or routed an item
  and recorded the handoff of a live lease's item.\<close>

lemma offer_Inr:
  assumes "offer_tx t1 t2 t3 t4 sha r d = Inr (v, d')"
  shows "\<exists>s fp. source_lease t1 r d = Some s \<and> handoff_fingerprint sha r s = Inr fp
    \<and> ((\<exists>h. keyed_handoff (hf_project r) (hf_key r) d = Some h \<and> ho_fingerprint h = Some fp \<and> d' = d)
     \<or> (\<exists>draft routed d1 i. keyed_handoff (hf_project r) (hf_key r) d = None \<and> source_active s
          \<and> make_route_draft (offer_draft (handoff_id sha (hf_project r) (hf_key r)) r s) = Inr draft
          \<and> route_in_transaction t3 sha draft d = Inr (routed, d1)
          \<and> item_of d1 (hf_project r) (qi_id routed) = Some i \<and> t2 \<le> qi_created i
          \<and> insert_handoff (offered_row (handoff_id sha (hf_project r) (hf_key r)) fp r s
               (qi_id routed) t2 (qi_created i)) d1 = Inr d'))"
proof -
  from assms obtain s fp where s: "source_lease t1 r d = Some s" "handoff_fingerprint sha r s = Inr fp"
    by (auto simp: offer_tx_def monad_simps)
  with assms show ?thesis
    by (cases "keyed_handoff (hf_project r) (hf_key r) d")
      (auto simp: offer_tx_def monad_simps Let_def split: if_splits)
qed

lemma source_leaseD:
  assumes "source_lease t r d = Some s"
  shows "\<exists>l i. l \<in> set (db_leases d) \<and> le_project l = hf_project r \<and> le_id l = hf_lease r
    \<and> le_token l = hf_token r \<and> so_item s = le_item l \<and> so_instance s = le_owner l
    \<and> i \<in> set (db_items d) \<and> qi_project i = hf_project r \<and> qi_id i = so_item s
    \<and> so_work s = qi_work i \<and> so_item_status s = qi_status i
    \<and> so_released s = (le_released l \<noteq> None) \<and> so_expired s = (le_expires l \<le> t)"
  using assms
  by (fastforce simp: source_lease_def item_of_def split: option.splits dest!: fetchone_SomeD)

lemma claim_tx_Inr:
  assumes "handoff_claim_tx t1 t2 t3 t4 p h lid tok d = Inr (v, d')"
  shows "d' = d \<or> (\<exists>row lease. handoff_row_of p h d = Some row \<and> ho_status row \<noteq> Accepted
    \<and> active_target_lease t1 row lid tok d = Some lease
    \<and> (ho_status row = Claimed \<longrightarrow> (\<forall>l\<in>set (db_leases d). le_project l = p \<longrightarrow>
          Some (le_id l) = ho_tgt_lease row \<longrightarrow> le_id l \<noteq> lid \<longrightarrow> \<not> (le_released l = None \<and> t2 < le_expires l)))
    \<and> update_handoff p h (\<lambda>r. r\<lparr>ho_status := Claimed, ho_tgt_instance := Some (le_owner lease),
         ho_tgt_lease := Some lid, ho_claimed := Some t3, ho_accepted := None\<rparr>) d = Inr d')"
proof -
  from assms obtain row where row: "handoff_row_of p h d = Some row"
    by (auto simp: handoff_claim_tx_def monad_simps)
  show ?thesis
  proof (cases "ho_status row = Accepted")
    case True
    with assms row show ?thesis by (auto simp: handoff_claim_tx_def monad_simps)
  next
    case False
    with assms row show ?thesis
      by (auto simp: handoff_claim_tx_def monad_simps has_row_iff split: if_splits)
  qed
qed

lemma accept_tx_Inr:
  assumes "handoff_accept_tx t1 t2 t4 p h lid tok d = Inr (v, d')"
  shows "d' = d \<or> (\<exists>row lease. handoff_row_of p h d = Some row \<and> ho_status row = Claimed
    \<and> ho_tgt_lease row = Some lid \<and> active_target_lease t1 row lid tok d = Some lease
    \<and> update_handoff p h (\<lambda>r. r\<lparr>ho_status := Accepted, ho_accepted := Some t2\<rparr>) d = Inr d')"
proof -
  from assms obtain row where row: "handoff_row_of p h d = Some row"
    by (auto simp: handoff_accept_tx_def monad_simps)
  then show ?thesis
    using assms by (cases "ho_status row") (auto simp: handoff_accept_tx_def monad_simps)
qed

lemma offer_iff: "offer t1 t2 t3 t4 sha r d = Inr x \<longleftrightarrow> offer_tx t1 t2 t3 t4 sha r d = Inr x"
  by (simp add: offer_def monad_simps)

lemma handoff_claim_iff:
  "handoff_claim t1 t2 t3 t4 p h lid tok d = Inr x \<longleftrightarrow>
     (\<exists>p' h' lid' tok'. transition_identifiers p h lid tok = Inr (p', h', lid', tok')
        \<and> handoff_claim_tx t1 t2 t3 t4 p' h' lid' tok' d = Inr x)"
  by (auto simp: handoff_claim_def monad_simps)

lemma handoff_accept_iff:
  "handoff_accept t1 t2 t4 p h lid tok d = Inr x \<longleftrightarrow>
     (\<exists>p' h' lid' tok'. transition_identifiers p h lid tok = Inr (p', h', lid', tok')
        \<and> handoff_accept_tx t1 t2 t4 p' h' lid' tok' d = Inr x)"
  by (auto simp: handoff_accept_def monad_simps)

end
