(* ===== verification/Coordination.thy ===== *)
theory Coordination
  imports Handoffs
begin

text \<open>
  The operations of \<open>queues.py\<close>, \<open>routing.py\<close> and \<open>handoffs.py\<close> as the steps of one
  system over the shared tables, its invariant, and the abstract life of a work item that
  they implement. A step is one committed transaction; \<open>other\<close> stands for the
  transactions of every other module, none of which writes items, leases or handoffs,
  removes a queue or an instance, or gives an instance another role.
\<close>

section \<open>Steps\<close>

definition queue_keys :: "db \<Rightarrow> (string \<times> string) set" where
  "queue_keys d = (\<lambda>q. (qu_project q, qu_id q)) ` set (db_queues d)"

definition instance_role :: "db \<Rightarrow> string \<times> string \<Rightarrow> string option" where
  "instance_role d = (\<lambda>(p, x). map_option in_role
     (fetchone (\<lambda>i. in_project i = p \<and> in_id i = x) (db_instances d)))"

inductive coord_step :: "(string \<Rightarrow> string) \<Rightarrow> db \<Rightarrow> db \<Rightarrow> bool" for sha where
  new_queue: "create_queue p q r c d = Inr (u, d') \<Longrightarrow> coord_step sha d d'"
| enqueue: "enqueue_tx t p q i w k payload prio avail d = Inr (x, d') \<Longrightarrow> coord_step sha d d'"
| claim: "claim t1 t2 t3 locked lid tok p q inst secs d = Inr (c, d') \<Longrightarrow> coord_step sha d d'"
| heartbeat: "heartbeat t1 t2 p lid tok secs d = Inr (e, d') \<Longrightarrow> coord_step sha d d'"
| complete: "finish_tx t1 t2 p lid tok Finished ''completed'' d = Inr (k, d') \<Longrightarrow> coord_step sha d d'"
| release: "finish_tx t1 t2 p lid tok Ready ''released'' d = Inr (k, d') \<Longrightarrow> coord_step sha d d'"
| route: "route_in_transaction t sha r d = Inr (x, d') \<Longrightarrow> coord_step sha d d'"
| offer: "offer t1 t2 t3 t4 sha h d = Inr (v, d') \<Longrightarrow> coord_step sha d d'"
| handoff_claim: "handoff_claim t1 t2 t3 t4 p h lid tok d = Inr (v, d') \<Longrightarrow> coord_step sha d d'"
| handoff_accept: "handoff_accept t1 t2 t4 p h lid tok d = Inr (v, d') \<Longrightarrow> coord_step sha d d'"
| other: "db_items d' = db_items d \<Longrightarrow> db_leases d' = db_leases d \<Longrightarrow>
    db_handoffs d' = db_handoffs d \<Longrightarrow> queue_keys d \<subseteq> queue_keys d' \<Longrightarrow>
    instance_role d \<subseteq>\<^sub>m instance_role d' \<Longrightarrow> coord_step sha d d'"

section \<open>Items survive\<close>

text \<open>\<open>item_core\<close> is everything of an item but its status and attempt count.\<close>

definition item_core :: "item_row \<Rightarrow> item_row" where
  "item_core i = i\<lparr>qi_status := Ready, qi_attempts := 0\<rparr>"

lemma item_core_fields:
  assumes "item_core i = item_core j"
  shows "qi_project i = qi_project j" "qi_id i = qi_id j" "qi_queue i = qi_queue j"
    "qi_key i = qi_key j" "qi_fingerprint i = qi_fingerprint j" "item_key i = item_key j"
    "item_unique_key i = item_unique_key j" "qi_work i = qi_work j" "qi_payload i = qi_payload j"
  using assms unfolding item_core_def item_key_def item_unique_key_def
  by (cases i; cases j; simp)+

lemma item_core_upd [simp]:
  "item_core (i\<lparr>qi_status := s\<rparr>) = item_core i"
  "item_core (i\<lparr>qi_status := s, qi_attempts := n\<rparr>) = item_core i"
  by (simp_all add: item_core_def)

text \<open>From one state to a later one: every item is still there, the finished ones as they
  were, no attempt count lower; every queue is still there.\<close>

definition keeps_items :: "db \<Rightarrow> db \<Rightarrow> bool" where
  "keeps_items d d' = ((\<forall>i\<in>set (db_items d). \<exists>j\<in>set (db_items d').
       item_core j = item_core i \<and> qi_attempts i \<le> qi_attempts j
       \<and> (qi_status i = Finished \<longrightarrow> j = i))
     \<and> queue_keys d \<subseteq> queue_keys d')"

lemma keeps_items_refl: "keeps_items d d"
  by (auto simp: keeps_items_def)

lemma keeps_items_trans: "keeps_items d e \<Longrightarrow> keeps_items e f \<Longrightarrow> keeps_items d f"
  unfolding keeps_items_def by (fastforce intro: order_trans)

lemma keeps_items_upd:
  assumes f: "\<And>i. i \<in> set (db_items d) \<Longrightarrow> P i \<Longrightarrow>
      item_core (f i) = item_core i \<and> qi_attempts i \<le> qi_attempts (f i) \<and> qi_status i \<noteq> Finished"
    and d': "db_items d' = upd_where P f (db_items d)" "db_queues d' = db_queues d"
  shows "keeps_items d d'"
  unfolding keeps_items_def
proof (intro conjI ballI)
  fix i assume i: "i \<in> set (db_items d)"
  show "\<exists>j\<in>set (db_items d'). item_core j = item_core i \<and> qi_attempts i \<le> qi_attempts j
       \<and> (qi_status i = Finished \<longrightarrow> j = i)"
    using i f by (intro bexI [where x = "if P i then f i else i"]) (auto simp: d' table_simps)
qed (simp add: d' queue_keys_def)

lemma keeps_items_append:
  "db_items d' = db_items d @ new \<Longrightarrow> db_queues d' = db_queues d \<Longrightarrow> keeps_items d d'"
  by (auto simp: keeps_items_def queue_keys_def)

lemma keeps_items_same:
  "db_items d' = db_items d \<Longrightarrow> queue_keys d \<subseteq> queue_keys d' \<Longrightarrow> keeps_items d d'"
  by (auto simp: keeps_items_def)

lemma keeps_items_same' [intro]:
  "db_items d' = db_items d \<Longrightarrow> db_queues d' = db_queues d \<Longrightarrow> keeps_items d d'"
  by (rule keeps_items_same) (auto simp: queue_keys_def)

lemma has_queue_iff:
  "has_row (\<lambda>q. qu_project q = p \<and> qu_id q = x) (db_queues d) \<longleftrightarrow> (p, x) \<in> queue_keys d"
  by (auto simp: queue_keys_def has_row_iff)

lemma items_ok_keys:
  "items_ok d \<longleftrightarrow> distinct (map item_unique_key (db_items d))
     \<and> (\<forall>i\<in>set (db_items d). (qi_project i, qi_queue i) \<in> queue_keys d)"
  by (simp add: items_ok_def has_queue_iff)

lemma items_ok_upd:
  assumes "items_ok d" and "\<And>i. i \<in> set (db_items d) \<Longrightarrow> P i \<Longrightarrow> item_core (f i) = item_core i"
    and "db_items d' = upd_where P f (db_items d)" "db_queues d' = db_queues d"
  shows "items_ok d'"
proof -
  have "map item_unique_key (db_items d') = map item_unique_key (db_items d)"
    unfolding assms(3) using assms(2) by (intro map_upd_where_same) (blast dest: item_core_fields(7))
  moreover have "(qi_project j, qi_queue j) \<in> queue_keys d'" if "j \<in> set (db_items d')" for j
  proof -
    from that obtain i where i: "i \<in> set (db_items d)" "item_core j = item_core i"
      using assms(2) unfolding assms(3) set_upd_where by metis
    with assms(1,4) item_core_fields(1,3) [OF i(2)] show ?thesis
      by (simp add: items_ok_keys queue_keys_def)
  qed
  ultimately show ?thesis using assms(1) by (simp add: items_ok_keys)
qed

lemma items_ok_same:
  "items_ok d \<Longrightarrow> db_items d' = db_items d \<Longrightarrow> queue_keys d \<subseteq> queue_keys d' \<Longrightarrow> items_ok d'"
  by (auto simp: items_ok_keys)

text \<open>What each writer of the item table selects, and what it leaves of the row.\<close>

lemma reclaim_shape:
  "\<exists>P. db_items (reclaim_expired t p d) = upd_where P (\<lambda>i. i\<lparr>qi_status := Ready\<rparr>) (db_items d)
     \<and> (\<forall>i. P i \<longrightarrow> qi_status i = Leased)"
  "db_queues (reclaim_expired t p d) = db_queues d"
  "db_handoffs (reclaim_expired t p d) = db_handoffs d"
  by (auto simp: reclaim_expired_def intro!: exI)

lemma reclaim_keeps: "keeps_items d (reclaim_expired t p d)"
proof -
  obtain P where P: "db_items (reclaim_expired t p d) = upd_where P (\<lambda>i. i\<lparr>qi_status := Ready\<rparr>) (db_items d)"
    "\<And>i. P i \<Longrightarrow> qi_status i = Leased" using reclaim_shape(1) by blast
  show ?thesis by (rule keeps_items_upd [OF _ P(1) reclaim_shape(2)]) (simp add: P(2))
qed

lemma reclaim_items_ok:
  assumes "items_ok d"
  shows "items_ok (reclaim_expired t p d)"
proof -
  obtain P where "db_items (reclaim_expired t p d) = upd_where P (\<lambda>i. i\<lparr>qi_status := Ready\<rparr>) (db_items d)"
    using reclaim_shape(1) by blast
  from items_ok_upd [OF assms _ this reclaim_shape(2)] show ?thesis by simp
qed

lemma insert_lease_frame:
  "insert_lease l d = Inr d' \<Longrightarrow> db_items d' = db_items d \<and> db_queues d' = db_queues d
     \<and> db_handoffs d' = db_handoffs d"
  by (auto simp: insert_lease_Inr)

lemma finish_shape:
  assumes inv: "queue_inv d" and f: "finish_tx t1 t2 p lid tok st reason d = Inr (k, d')"
  shows "\<exists>i. i \<in> set (db_items d) \<and> qi_status i = Leased \<and> k = item_key i
    \<and> db_items d' = upd_where (\<lambda>j. item_key j = item_key i) (\<lambda>j. j\<lparr>qi_status := st\<rparr>) (db_items d)
    \<and> db_queues d' = db_queues d \<and> db_handoffs d' = db_handoffs d
    \<and> (st = Finished \<longrightarrow> \<not> open_handoff (qi_project i) (qi_id i) d)"
proof -
  from f obtain l where l: "l \<in> set (db_leases d)" "le_project l = strip p" "live l"
    and k: "k = (strip p, le_item l)"
    and g: "st = Finished \<longrightarrow> \<not> open_handoff (strip p) (le_item l) d"
    and d': "db_items d' = upd_where (\<lambda>i. qi_project i = strip p \<and> qi_id i = le_item l)
            (\<lambda>i. i\<lparr>qi_status := st\<rparr>) (db_items d)" "db_queues d' = db_queues d" "db_handoffs d' = db_handoffs d"
    by (auto simp: finish_tx_def monad_simps live_def dest!: fetchone_SomeD)
  from queue_invD(4) [OF inv l(1) l(3)] obtain i
    where i: "i \<in> set (db_items d)" "item_key i = lease_item_key l" "qi_status i = Leased" by blast
  have e: "qi_project i = strip p" "qi_id i = le_item l"
    using i(2) l(2) by (simp_all add: key_defs)
  have sel: "(\<lambda>j. qi_project j = strip p \<and> qi_id j = le_item l) = (\<lambda>j::item_row. item_key j = item_key i)"
    using e by (auto simp: item_key_def fun_eq_iff)
  have "k = item_key i" using e k by (simp add: item_key_def)
  with i(1,3) g e d' [unfolded sel] show ?thesis by (intro exI [where x = i]) simp
qed

lemma finish_keeps:
  assumes inv: "queue_inv d" and f: "finish_tx t1 t2 p lid tok st reason d = Inr (k, d')"
  shows "keeps_items d d'"
proof -
  from finish_shape [OF inv f] obtain i where i: "i \<in> set (db_items d)" "qi_status i = Leased"
    and d': "db_items d' = upd_where (\<lambda>j. item_key j = item_key i) (\<lambda>j. j\<lparr>qi_status := st\<rparr>) (db_items d)"
      "db_queues d' = db_queues d" by blast
  have "j = i" if "j \<in> set (db_items d)" "item_key j = item_key i" for j
    using item_eq [OF inv that(1) i(1) that(2)] .
  then show ?thesis using i(2) by (intro keeps_items_upd [OF _ d']) fastforce
qed

lemma finish_items_ok:
  assumes "queue_inv d" "finish_tx t1 t2 p lid tok st reason d = Inr (k, d')" "items_ok d"
  shows "items_ok d'"
proof -
  from finish_shape [OF assms(1,2)] obtain P f where
    d': "db_items d' = upd_where P f (db_items d)" "db_queues d' = db_queues d"
    and f: "\<And>i. item_core (f i) = item_core i"
    by (metis item_core_upd(1))
  from items_ok_upd [OF assms(3) _ d'] f show ?thesis by simp
qed

lemma claim_keeps:
  assumes inv: "queue_inv d" and c: "claim t1 t2 t3 locked lid tok p q inst secs d = Inr (r, d')"
  shows "keeps_items d d' \<and> db_handoffs d' = db_handoffs d \<and> (items_ok d \<longrightarrow> items_ok d')"
proof -
  let ?d1 = "reclaim_expired t1 (strip p) d"
  have d1: "keeps_items d ?d1" "db_handoffs ?d1 = db_handoffs d" "queue_inv ?d1"
    "items_ok d \<longrightarrow> items_ok ?d1"
    using reclaim_keeps reclaim_shape(3) reclaim_inv [OF inv] reclaim_items_ok by auto
  from claim_Inr [OF c] have "d' = ?d1 \<or> (\<exists>row d2 l.
      next_item t2 locked (strip p) (strip q) ?d1 = Some row \<and> insert_lease l ?d1 = Inr d2
      \<and> d' = set_leased (strip p) (qi_id row) d2)" by blast
  then show ?thesis
  proof
    assume "\<exists>row d2 l. next_item t2 locked (strip p) (strip q) ?d1 = Some row
      \<and> insert_lease l ?d1 = Inr d2 \<and> d' = set_leased (strip p) (qi_id row) d2"
    then obtain row d2 where row: "next_item t2 locked (strip p) (strip q) ?d1 = Some row"
      and d2: "db_items d2 = db_items ?d1" "db_queues d2 = db_queues ?d1" "db_handoffs d2 = db_handoffs ?d1"
      and d': "d' = set_leased (strip p) (qi_id row) d2"
      using insert_lease_frame by blast
    from next_item_Some [OF row] have r: "row \<in> set (db_items ?d1)" "qi_status row = Ready"
      "qi_project row = strip p" by (auto simp: claimable_def)
    have its: "db_items d' = upd_where (\<lambda>r. qi_project r = strip p \<and> qi_id r = qi_id row)
        (\<lambda>r. r\<lparr>qi_status := Leased, qi_attempts := qi_attempts r + 1\<rparr>) (db_items ?d1)"
      and qus: "db_queues d' = db_queues ?d1" and hos: "db_handoffs d' = db_handoffs ?d1"
      by (simp_all add: d' set_leased_def d2)
    have "j = row" if "j \<in> set (db_items ?d1)" "qi_project j = strip p \<and> qi_id j = qi_id row" for j
      using item_eq [OF d1(3) that(1) r(1)] that(2) r(3) by (simp add: item_key_def)
    then have "keeps_items ?d1 d'"
      using r(2) by (intro keeps_items_upd [OF _ its qus]) fastforce
    moreover have "items_ok d \<longrightarrow> items_ok d'"
      using d1(4) items_ok_upd [OF _ _ its qus] by simp
    ultimately show ?thesis using d1(1,2) hos keeps_items_trans by metis
  qed (use d1 in auto)
qed

lemma insert_item_frame:
  "insert_item i d = Inr d' \<Longrightarrow> keeps_items d d' \<and> db_handoffs d' = db_handoffs d
     \<and> db_leases d' = db_leases d \<and> (items_ok d \<longrightarrow> items_ok d')"
  using items_ok_insert by (auto simp: insert_item_Inr intro: keeps_items_append)

lemma enqueue_frame:
  "enqueue_tx t p q i w k payload prio avail d = Inr (x, d') \<Longrightarrow>
     keeps_items d d' \<and> db_handoffs d' = db_handoffs d \<and> (items_ok d \<longrightarrow> items_ok d')"
  by (auto simp: enqueue_tx_def monad_simps dest: insert_item_frame)

lemma route_frame:
  "route_in_transaction t sha r d = Inr (x, d') \<Longrightarrow>
     keeps_items d d' \<and> db_handoffs d' = db_handoffs d \<and> db_leases d' = db_leases d
     \<and> (items_ok d \<longrightarrow> items_ok d')"
  by (auto simp: route_Inr keeps_items_refl dest: insert_item_frame)

lemma create_queue_frame:
  "create_queue p q r c d = Inr (u, d') \<Longrightarrow> db_items d' = db_items d \<and> db_leases d' = db_leases d
     \<and> db_handoffs d' = db_handoffs d \<and> queue_keys d \<subseteq> queue_keys d'"
  by (auto simp: create_queue_def insert_queue_def monad_simps queue_keys_def split: if_splits)

lemma heartbeat_frame:
  "heartbeat t1 t2 p lid tok secs d = Inr (e, d') \<Longrightarrow> db_items d' = db_items d
     \<and> db_handoffs d' = db_handoffs d \<and> db_queues d' = db_queues d"
  by (auto simp: heartbeat_def monad_simps)

lemma handoff_writers_frame:
  "handoff_claim t1 t2 t3 t4 p h lid tok d = Inr (v, d') \<Longrightarrow>
     db_items d' = db_items d \<and> db_leases d' = db_leases d \<and> db_queues d' = db_queues d"
  "handoff_accept t1 t2 t4 p h lid tok d = Inr (v, d') \<Longrightarrow>
     db_items d' = db_items d \<and> db_leases d' = db_leases d \<and> db_queues d' = db_queues d"
  by (auto simp: handoff_claim_iff handoff_accept_iff update_handoff_Inr
      dest!: claim_tx_Inr accept_tx_Inr)

lemma route_appends: "route_in_transaction t sha r d = Inr (x, d') \<Longrightarrow> set (db_items d) \<subseteq> set (db_items d')"
  by (auto simp: route_Inr insert_item_Inr)

text \<open>An offer that wrote something appended one handoff, whose source item was leased.\<close>

lemma offer_shape:
  assumes "offer t1 t2 t3 t4 sha r d = Inr (v, d')"
  shows "d' = d \<or> (\<exists>d1 draft routed h i. route_in_transaction t3 sha draft d = Inr (routed, d1)
    \<and> insert_handoff h d1 = Inr d' \<and> ho_status h = Offered
    \<and> i \<in> set (db_items d) \<and> qi_status i = Leased
    \<and> qi_project i = ho_project h \<and> ho_src_item h = Some (qi_id i))"
proof -
  from offer_Inr [OF assms [unfolded offer_iff]] obtain s fp where s: "source_lease t1 r d = Some s"
    and c: "(\<exists>h. keyed_handoff (hf_project r) (hf_key r) d = Some h \<and> ho_fingerprint h = Some fp \<and> d' = d)
     \<or> (\<exists>draft routed d1 i. keyed_handoff (hf_project r) (hf_key r) d = None \<and> source_active s
          \<and> make_route_draft (offer_draft (handoff_id sha (hf_project r) (hf_key r)) r s) = Inr draft
          \<and> route_in_transaction t3 sha draft d = Inr (routed, d1)
          \<and> item_of d1 (hf_project r) (qi_id routed) = Some i \<and> t2 \<le> qi_created i
          \<and> insert_handoff (offered_row (handoff_id sha (hf_project r) (hf_key r)) fp r s
               (qi_id routed) t2 (qi_created i)) d1 = Inr d')"
    by (elim exE conjE) blast
  from source_leaseD [OF s] obtain i where i: "i \<in> set (db_items d)" "qi_project i = hf_project r"
    "qi_id i = so_item s" "so_item_status s = qi_status i" by blast
  from c show ?thesis
  proof
    assume "\<exists>draft routed d1 i. keyed_handoff (hf_project r) (hf_key r) d = None \<and> source_active s
          \<and> make_route_draft (offer_draft (handoff_id sha (hf_project r) (hf_key r)) r s) = Inr draft
          \<and> route_in_transaction t3 sha draft d = Inr (routed, d1)
          \<and> item_of d1 (hf_project r) (qi_id routed) = Some i \<and> t2 \<le> qi_created i
          \<and> insert_handoff (offered_row (handoff_id sha (hf_project r) (hf_key r)) fp r s
               (qi_id routed) t2 (qi_created i)) d1 = Inr d'"
    then obtain draft routed d1 k where "source_active s"
      "route_in_transaction t3 sha draft d = Inr (routed, d1)"
      "insert_handoff (offered_row (handoff_id sha (hf_project r) (hf_key r)) fp r s
               (qi_id routed) t2 (qi_created (k::item_row))) d1 = Inr d'" by (elim exE conjE) (rule that)
    with i show ?thesis
      by (intro disjI2 exI conjI) (auto simp: offered_row_def source_active_def)
  qed auto
qed

lemma insert_handoff_frame:
  "insert_handoff h d = Inr d' \<Longrightarrow> db_items d' = db_items d \<and> db_queues d' = db_queues d
     \<and> db_leases d' = db_leases d"
  by (auto simp: insert_handoff_Inr)

lemma offer_frame:
  assumes "offer t1 t2 t3 t4 sha r d = Inr (v, d')"
  shows "keeps_items d d' \<and> db_leases d' = db_leases d \<and> (items_ok d \<longrightarrow> items_ok d')
     \<and> (queue_inv d \<longrightarrow> queue_inv d')"
  using offer_shape [OF assms]
proof
  assume "\<exists>d1 draft routed h i. route_in_transaction t3 sha draft d = Inr (routed, d1)
    \<and> insert_handoff h d1 = Inr d' \<and> ho_status h = Offered
    \<and> i \<in> set (db_items d) \<and> qi_status i = Leased
    \<and> qi_project i = ho_project h \<and> ho_src_item h = Some (qi_id i)"
  then obtain d1 draft routed h where r: "route_in_transaction t3 sha draft d = Inr (routed, d1)"
    and h: "insert_handoff h d1 = Inr d'" by blast
  have f: "db_items d' = db_items d1" "db_queues d' = db_queues d1" "db_leases d' = db_leases d1"
    using insert_handoff_frame [OF h] by auto
  have "queue_keys d' = queue_keys d1" by (simp add: queue_keys_def f)
  with f route_frame [OF r] route_queue_inv [OF _ r] show ?thesis
    by (auto simp: keeps_items_def items_ok_keys queue_inv_cong [OF f(1,3)])
qed (simp add: keeps_items_refl)

section \<open>Handoffs\<close>

text \<open>Until its handoff is accepted, the source item exists and is not finished.\<close>

definition handoff_unique_key :: "handoff_row \<Rightarrow> string \<times> string" where
  "handoff_unique_key h = (ho_project h, ho_key h)"

definition handoff_inv :: "db \<Rightarrow> bool" where
  "handoff_inv d = (distinct (map handoff_key (db_handoffs d))
     \<and> distinct (map handoff_unique_key (db_handoffs d))
     \<and> (\<forall>h\<in>set (db_handoffs d). handoff_check h)
     \<and> (\<forall>h\<in>set (db_handoffs d). ho_status h \<noteq> Accepted \<longrightarrow>
          (\<exists>i\<in>set (db_items d). qi_project i = ho_project h \<and> ho_src_item h = Some (qi_id i)
             \<and> qi_status i \<noteq> Finished)))"

text \<open>Handoffs only move forward, and an accepted one never changes.\<close>

definition handoff_core :: "handoff_row \<Rightarrow> handoff_row" where
  "handoff_core h = h\<lparr>ho_status := Offered, ho_tgt_instance := None, ho_tgt_lease := None,
     ho_claimed := None, ho_accepted := None\<rparr>"

definition handoff_rank :: "handoff_status \<Rightarrow> nat" where
  "handoff_rank s = (case s of Offered \<Rightarrow> 0 | Claimed \<Rightarrow> 1 | Accepted \<Rightarrow> 2)"

definition keeps_handoffs :: "db \<Rightarrow> db \<Rightarrow> bool" where
  "keeps_handoffs d d' = (\<forall>h\<in>set (db_handoffs d). \<exists>g\<in>set (db_handoffs d').
     handoff_core g = handoff_core h \<and> handoff_rank (ho_status h) \<le> handoff_rank (ho_status g)
     \<and> (ho_status h = Accepted \<longrightarrow> g = h))"

lemma keeps_handoffs_refl: "keeps_handoffs d d"
  by (auto simp: keeps_handoffs_def)

lemma keeps_handoffs_trans: "keeps_handoffs d e \<Longrightarrow> keeps_handoffs e f \<Longrightarrow> keeps_handoffs d f"
  unfolding keeps_handoffs_def by (fastforce intro: order_trans)

lemma keeps_handoffs_mono: "set (db_handoffs d) \<subseteq> set (db_handoffs d') \<Longrightarrow> keeps_handoffs d d'"
  by (auto simp: keeps_handoffs_def)

text \<open>The invariant survives any change of items that finishes none of the sources.\<close>

lemma handoff_inv_items:
  assumes inv: "handoff_inv d" and hs: "db_handoffs d' = db_handoffs d"
    and its: "\<And>i. i \<in> set (db_items d) \<Longrightarrow> qi_status i \<noteq> Finished \<Longrightarrow>
      \<exists>j\<in>set (db_items d'). item_key j = item_key i
        \<and> (qi_status j \<noteq> Finished \<or> \<not> open_handoff (qi_project i) (qi_id i) d)"
  shows "handoff_inv d'"
  unfolding handoff_inv_def hs
proof (intro conjI ballI impI)
  show "distinct (map handoff_key (db_handoffs d))" "distinct (map handoff_unique_key (db_handoffs d))"
    "\<And>h. h \<in> set (db_handoffs d) \<Longrightarrow> handoff_check h"
    using inv by (auto simp: handoff_inv_def)
  fix h assume h: "h \<in> set (db_handoffs d)" "ho_status h \<noteq> Accepted"
  with inv obtain i where i: "i \<in> set (db_items d)" "qi_project i = ho_project h"
    "ho_src_item h = Some (qi_id i)" "qi_status i \<noteq> Finished" by (auto simp: handoff_inv_def)
  have "open_handoff (qi_project i) (qi_id i) d"
    using h i by (auto simp: open_handoff_def has_row_iff)
  with its [OF i(1,4)] obtain j where "j \<in> set (db_items d')" "item_key j = item_key i"
    "qi_status j \<noteq> Finished" by blast
  with i show "\<exists>i\<in>set (db_items d'). qi_project i = ho_project h \<and> ho_src_item h = Some (qi_id i)
      \<and> qi_status i \<noteq> Finished" by (auto simp: item_key_def intro!: bexI [of _ j])
qed

lemma handoff_core_fields:
  assumes "handoff_core g = handoff_core h"
  shows "handoff_key g = handoff_key h" "ho_project g = ho_project h" "ho_src_item g = ho_src_item h"
    "handoff_unique_key g = handoff_unique_key h" "ho_key g = ho_key h"
    "ho_fingerprint g = ho_fingerprint h"
  using assms unfolding handoff_core_def handoff_key_def handoff_unique_key_def
  by (cases g; cases h; simp)+

lemma update_handoff_step:
  assumes inv: "handoff_inv d" and up: "update_handoff p h f d = Inr d'"
    and row: "handoff_row_of p h d = Some row" and open': "ho_status row \<noteq> Accepted"
    and f: "handoff_core (f row) = handoff_core row"
      "handoff_rank (ho_status row) \<le> handoff_rank (ho_status (f row))"
  shows "handoff_inv d' \<and> keeps_handoffs d d'"
proof -
  note r = handoff_row_ofD [OF row]
  let ?P = "\<lambda>r. ho_project r = p \<and> ho_id r = h"
  have d': "db_handoffs d' = upd_where ?P f (db_handoffs d)" "db_items d' = db_items d"
    and chk: "\<forall>g\<in>set (db_handoffs d'). handoff_check g"
    using up by (auto simp: update_handoff_Inr)
  have only: "g = row" if "g \<in> set (db_handoffs d)" "?P g" for g
    using inv that r unfolding handoff_inv_def
    by (intro distinct_map_eq [of handoff_key]) (auto simp: handoff_key_def)
  note core = handoff_core_fields [OF f(1)]
  have "map handoff_key (db_handoffs d') = map handoff_key (db_handoffs d)"
    "map handoff_unique_key (db_handoffs d') = map handoff_unique_key (db_handoffs d)"
    unfolding d' by (intro map_upd_where_same; metis only core(1,4))+
  then have "distinct (map handoff_key (db_handoffs d'))" "distinct (map handoff_unique_key (db_handoffs d'))"
    using inv by (simp_all add: handoff_inv_def)
  moreover have "\<exists>i\<in>set (db_items d'). qi_project i = ho_project g \<and> ho_src_item g = Some (qi_id i)
      \<and> qi_status i \<noteq> Finished" if "g \<in> set (db_handoffs d')" "ho_status g \<noteq> Accepted" for g
  proof -
    from that(1) obtain g' where g': "g' \<in> set (db_handoffs d)" "g = (if ?P g' then f g' else g')"
      unfolding d' set_upd_where by blast
    then have "ho_project g = ho_project g' \<and> ho_src_item g = ho_src_item g' \<and> ho_status g' \<noteq> Accepted"
      using that(2) only [OF g'(1)] core(2,3) open' by (cases "?P g'") auto
    with inv g'(1) show ?thesis by (auto simp: handoff_inv_def d'(2))
  qed
  moreover have "keeps_handoffs d d'"
    unfolding keeps_handoffs_def
  proof
    fix g assume g: "g \<in> set (db_handoffs d)"
    then have "(if ?P g then f g else g) \<in> set (db_handoffs d')"
      unfolding d' set_upd_where by blast
    then show "\<exists>e\<in>set (db_handoffs d'). handoff_core e = handoff_core g
        \<and> handoff_rank (ho_status g) \<le> handoff_rank (ho_status e) \<and> (ho_status g = Accepted \<longrightarrow> e = g)"
      using only [OF g] f open' by (cases "?P g") (auto intro!: bexI)
  qed
  ultimately show ?thesis using chk by (auto simp: handoff_inv_def)
qed

lemma handoff_core_upd [simp]:
  "handoff_core (r\<lparr>ho_status := a, ho_tgt_instance := b, ho_tgt_lease := c, ho_claimed := e, ho_accepted := g\<rparr>)
     = handoff_core r"
  "handoff_core (r\<lparr>ho_status := a, ho_accepted := g\<rparr>) = handoff_core r"
  by (simp_all add: handoff_core_def)

lemma handoff_claim_step:
  assumes "handoff_inv d" and "handoff_claim t1 t2 t3 t4 p h lid tok d = Inr (v, d')"
  shows "handoff_inv d' \<and> keeps_handoffs d d'"
proof -
  from assms(2) obtain p' h' lid' tok' where
    "handoff_claim_tx t1 t2 t3 t4 p' h' lid' tok' d = Inr (v, d')"
    by (auto simp: handoff_claim_iff)
  from claim_tx_Inr [OF this] show ?thesis
  proof
    assume "d' = d"
    with assms(1) show ?thesis by (simp add: keeps_handoffs_refl)
  next
    assume "\<exists>row lease. handoff_row_of p' h' d = Some row \<and> ho_status row \<noteq> Accepted
      \<and> active_target_lease t1 row lid' tok' d = Some lease
      \<and> (ho_status row = Claimed \<longrightarrow> (\<forall>l\<in>set (db_leases d). le_project l = p' \<longrightarrow>
          Some (le_id l) = ho_tgt_lease row \<longrightarrow> le_id l \<noteq> lid' \<longrightarrow> \<not> (le_released l = None \<and> t2 < le_expires l)))
      \<and> update_handoff p' h' (\<lambda>r. r\<lparr>ho_status := Claimed, ho_tgt_instance := Some (le_owner lease),
         ho_tgt_lease := Some lid', ho_claimed := Some t3, ho_accepted := None\<rparr>) d = Inr d'"
    then obtain row lease where row: "handoff_row_of p' h' d = Some row" "ho_status row \<noteq> Accepted"
      and up: "update_handoff p' h' (\<lambda>r. r\<lparr>ho_status := Claimed,
         ho_tgt_instance := Some (le_owner (lease :: lease_row)),
         ho_tgt_lease := Some lid', ho_claimed := Some t3, ho_accepted := None\<rparr>) d = Inr d'" by blast
    from row(2) show ?thesis
      by (intro update_handoff_step [OF assms(1) up row])
        (auto simp: handoff_rank_def split: handoff_status.splits)
  qed
qed

lemma handoff_accept_step:
  assumes "handoff_inv d" and "handoff_accept t1 t2 t4 p h lid tok d = Inr (v, d')"
  shows "handoff_inv d' \<and> keeps_handoffs d d'"
proof -
  from assms(2) obtain p' h' lid' tok' where
    "handoff_accept_tx t1 t2 t4 p' h' lid' tok' d = Inr (v, d')"
    by (auto simp: handoff_accept_iff)
  from accept_tx_Inr [OF this] show ?thesis
  proof
    assume "d' = d"
    with assms(1) show ?thesis by (simp add: keeps_handoffs_refl)
  next
    assume "\<exists>row lease. handoff_row_of p' h' d = Some row \<and> ho_status row = Claimed
      \<and> ho_tgt_lease row = Some lid' \<and> active_target_lease t1 row lid' tok' d = Some lease
      \<and> update_handoff p' h' (\<lambda>r. r\<lparr>ho_status := Accepted, ho_accepted := Some t2\<rparr>) d = Inr d'"
    then obtain row where row: "handoff_row_of p' h' d = Some row" "ho_status row = Claimed"
      and up: "update_handoff p' h' (\<lambda>r. r\<lparr>ho_status := Accepted, ho_accepted := Some t2\<rparr>) d = Inr d'"
      by blast
    from row(2) show ?thesis
      by (intro update_handoff_step [OF assms(1) up row(1)]) (auto simp: handoff_rank_def)
  qed
qed

lemma offer_step:
  assumes inv: "handoff_inv d" and o': "offer t1 t2 t3 t4 sha r d = Inr (v, d')"
  shows "handoff_inv d' \<and> keeps_handoffs d d'"
  using offer_shape [OF o']
proof
  assume "\<exists>d1 draft routed h i. route_in_transaction t3 sha draft d = Inr (routed, d1)
    \<and> insert_handoff h d1 = Inr d' \<and> ho_status h = Offered
    \<and> i \<in> set (db_items d) \<and> qi_status i = Leased
    \<and> qi_project i = ho_project h \<and> ho_src_item h = Some (qi_id i)"
  then obtain d1 draft routed h i where ro: "route_in_transaction t3 sha draft d = Inr (routed, d1)"
    and h: "insert_handoff h d1 = Inr d'" "ho_status h = Offered"
    and i: "i \<in> set (db_items d)" "qi_status i = Leased" "qi_project i = ho_project h"
      "ho_src_item h = Some (qi_id i)" by blast
  have sub: "set (db_items d) \<subseteq> set (db_items d')" and hs: "db_handoffs d' = db_handoffs d @ [h]"
    and chk: "handoff_check h" and new: "handoff_key h \<notin> handoff_key ` set (db_handoffs d)"
      "handoff_unique_key h \<notin> handoff_unique_key ` set (db_handoffs d)"
    using route_appends [OF ro] route_frame [OF ro] h(1)
    by (auto simp: insert_handoff_Inr handoff_unique_key_def)
  have "\<exists>i\<in>set (db_items d'). qi_project i = ho_project g \<and> ho_src_item g = Some (qi_id i)
      \<and> qi_status i \<noteq> Finished" if "g \<in> set (db_handoffs d')" "ho_status g \<noteq> Accepted" for g
  proof (cases "g = h")
    case True
    with i sub show ?thesis by (auto intro!: bexI [of _ i])
  next
    case False
    with that hs have "g \<in> set (db_handoffs d)" by auto
    with inv that(2) sub show ?thesis unfolding handoff_inv_def by (metis subsetD)
  qed
  with inv chk new hs show ?thesis
    by (auto simp: handoff_inv_def intro: keeps_handoffs_mono)
qed (use inv in \<open>simp add: keeps_handoffs_refl\<close>)

section \<open>The invariant of the whole\<close>

definition coord_inv :: "db \<Rightarrow> bool" where
  "coord_inv d = (queue_inv d \<and> items_ok d \<and> handoff_inv d)"

text \<open>A change that keeps the items and finishes none of them keeps \<open>handoff_inv\<close>.\<close>

lemma handoff_inv_keeps:
  assumes "handoff_inv d" and "db_handoffs d' = db_handoffs d" and "keeps_items d d'"
    and "\<And>j. j \<in> set (db_items d') \<Longrightarrow> qi_status j = Finished \<Longrightarrow>
      \<exists>i\<in>set (db_items d). item_key i = item_key j
        \<and> (qi_status i = Finished \<or> \<not> open_handoff (qi_project i) (qi_id i) d)"
    and "distinct (map item_key (db_items d))"
  shows "handoff_inv d'"
  using assms(1,2)
proof (rule handoff_inv_items)
  fix i assume i: "i \<in> set (db_items d)" "qi_status i \<noteq> Finished"
  with assms(3) obtain j where j: "j \<in> set (db_items d')" "item_key j = item_key i"
    unfolding keeps_items_def by (metis item_core_fields(6))
  have "qi_status j \<noteq> Finished \<or> \<not> open_handoff (qi_project i) (qi_id i) d"
  proof (cases "qi_status j = Finished")
    case True
    from assms(4) [OF j(1) True] obtain i' where i': "i' \<in> set (db_items d)" "item_key i' = item_key j"
      "qi_status i' = Finished \<or> \<not> open_handoff (qi_project i') (qi_id i') d" by blast
    with j(2) i(1) assms(5) have "i' = i" by (metis distinct_map_eq)
    with i' i(2) show ?thesis by blast
  qed simp
  with j show "\<exists>j\<in>set (db_items d'). item_key j = item_key i
      \<and> (qi_status j \<noteq> Finished \<or> \<not> open_handoff (qi_project i) (qi_id i) d)" by blast
qed

lemma handoff_inv_same_items:
  assumes "handoff_inv d" "db_handoffs d' = db_handoffs d" "set (db_items d) \<subseteq> set (db_items d')"
  shows "handoff_inv d'"
  using assms unfolding handoff_inv_def by (metis subsetD)

text \<open>No step of claiming finishes an item.\<close>

lemma upd_status_mem:
  "j \<in> set (upd_where P f t) \<Longrightarrow> qi_status j = Finished \<Longrightarrow> (\<And>i. qi_status (f i) \<noteq> Finished) \<Longrightarrow> j \<in> set t"
  by (auto simp: set_upd_where split: if_splits)

lemma claim_finishes_none:
  assumes c: "claim t1 t2 t3 locked lid tok p q inst secs d = Inr (r, d')"
    and j: "j \<in> set (db_items d')" "qi_status j = Finished"
  shows "j \<in> set (db_items d)"
proof -
  let ?d1 = "reclaim_expired t1 (strip p) d"
  from claim_Inr [OF c] have "d' = ?d1 \<or> (\<exists>row d2 l. insert_lease l ?d1 = Inr d2
      \<and> d' = set_leased (strip p) (qi_id (row :: item_row)) d2)" by blast
  then have "j \<in> set (db_items ?d1)"
  proof
    assume "\<exists>row d2 l. insert_lease l ?d1 = Inr d2 \<and> d' = set_leased (strip p) (qi_id (row :: item_row)) d2"
    then obtain row d2 where "db_items d2 = db_items ?d1" "d' = set_leased (strip p) (qi_id (row :: item_row)) d2"
      using insert_lease_frame by blast
    with j show ?thesis by (auto simp: set_leased_def elim!: upd_status_mem)
  qed (use j in simp)
  with j show ?thesis by (auto simp: reclaim_expired_def elim!: upd_status_mem)
qed

lemma claim_handoff_inv:
  assumes "queue_inv d" "handoff_inv d" "claim t1 t2 t3 locked lid tok p q inst secs d = Inr (r, d')"
  shows "handoff_inv d'"
  using claim_keeps [OF assms(1,3)] claim_finishes_none [OF assms(3)] assms(1,2)
  by (intro handoff_inv_keeps [OF assms(2)]) (auto dest: queue_invD(1))

lemma finish_handoff_inv:
  assumes inv: "queue_inv d" and ho: "handoff_inv d"
    and f: "finish_tx t1 t2 p lid tok st reason d = Inr (k, d')"
  shows "handoff_inv d'"
proof -
  from finish_shape [OF inv f] obtain i where i: "i \<in> set (db_items d)"
    and d': "db_items d' = upd_where (\<lambda>j. item_key j = item_key i) (\<lambda>j. j\<lparr>qi_status := st\<rparr>) (db_items d)"
      "db_handoffs d' = db_handoffs d"
    and g: "st = Finished \<longrightarrow> \<not> open_handoff (qi_project i) (qi_id i) d" by blast
  show ?thesis
  proof (rule handoff_inv_keeps [OF ho d'(2) finish_keeps [OF inv f] _ queue_invD(1) [OF inv]])
    fix j assume j: "j \<in> set (db_items d')" "qi_status j = Finished"
    then obtain s where s: "s \<in> set (db_items d)"
      "j = (if item_key s = item_key i then s\<lparr>qi_status := st\<rparr> else s)"
      unfolding d' set_upd_where by blast
    show "\<exists>i\<in>set (db_items d). item_key i = item_key j
        \<and> (qi_status i = Finished \<or> \<not> open_handoff (qi_project i) (qi_id i) d)"
    proof (cases "item_key s = item_key i")
      case True
      with s j g item_eq [OF inv s(1) i] show ?thesis by (intro bexI [of _ s]) auto
    next
      case False
      with s j show ?thesis by (intro bexI [of _ s]) auto
    qed
  qed
qed

text \<open>Every step keeps the invariant, the items and the handoffs.\<close>

lemma coord_step_inv_keeps:
  assumes "coord_step sha d d'" and inv: "coord_inv d"
  shows "coord_inv d' \<and> keeps_items d d' \<and> keeps_handoffs d d'"
proof -
  have q: "queue_inv d" and i: "items_ok d" and h: "handoff_inv d"
    using inv by (auto simp: coord_inv_def)
  have hs: "keeps_handoffs d d'" if "db_handoffs d' = db_handoffs d"
    using that by (simp add: keeps_handoffs_mono)
  from assms(1) show ?thesis
  proof cases
    case (new_queue p qq r c u)
    with create_queue_frame [OF new_queue] create_queue_inv [OF q] show ?thesis
      using i h hs by (auto simp: coord_inv_def intro: items_ok_same handoff_inv_same_items keeps_items_same)
  next
    case (enqueue t p qq ii w k payload prio avail x)
    have "set (db_items d) \<subseteq> set (db_items d')"
      using enqueue by (auto simp: enqueue_tx_def monad_simps insert_item_Inr)
    with enqueue enqueue_frame [OF enqueue] enqueue_inv [OF q] show ?thesis
      using i h hs by (auto simp: coord_inv_def intro: handoff_inv_same_items)
  next
    case (claim t1 t2 t3 locked lid tok p qq inst secs c)
    with claim_keeps [OF q claim] claim_inv [OF q claim] claim_handoff_inv [OF q h claim] show ?thesis
      using i hs by (auto simp: coord_inv_def)
  next
    case (heartbeat t1 t2 p lid tok secs e)
    with heartbeat_frame [OF heartbeat] heartbeat_inv [OF q heartbeat] show ?thesis
      using i h hs by (auto simp: coord_inv_def items_ok_def intro: handoff_inv_same_items)
  next
    case (complete t1 t2 p lid tok k)
    with finish_shape [OF q complete] finish_inv [OF q complete] finish_keeps [OF q complete]
      finish_items_ok [OF q complete i] finish_handoff_inv [OF q h complete] show ?thesis
      using hs by (auto simp: coord_inv_def)
  next
    case (release t1 t2 p lid tok k)
    with finish_shape [OF q release] finish_inv [OF q release] finish_keeps [OF q release]
      finish_items_ok [OF q release i] finish_handoff_inv [OF q h release] show ?thesis
      using hs by (auto simp: coord_inv_def)
  next
    case (route t r x)
    with route_frame [OF route] route_queue_inv [OF q route] route_appends [OF route] show ?thesis
      using i h hs by (auto simp: coord_inv_def intro: handoff_inv_same_items)
  next
    case (offer t1 t2 t3 t4 r v)
    with offer_frame [OF offer] offer_step [OF h offer] show ?thesis
      using q i by (auto simp: coord_inv_def)
  next
    case (handoff_claim t1 t2 t3 t4 p hh lid tok v)
    with handoff_writers_frame(1) [OF handoff_claim] handoff_claim_step [OF h handoff_claim] show ?thesis
      using q i by (auto simp: coord_inv_def items_ok_def queue_inv_def)
  next
    case (handoff_accept t1 t2 t4 p hh lid tok v)
    with handoff_writers_frame(2) [OF handoff_accept] handoff_accept_step [OF h handoff_accept] show ?thesis
      using q i by (auto simp: coord_inv_def items_ok_def queue_inv_def)
  next
    case other
    then show ?thesis
      using q i h hs by (auto simp: coord_inv_def queue_inv_def
          intro: items_ok_same handoff_inv_same_items keeps_items_same)
  qed
qed

interpretation coord: invariant_system "coord_step sha" coord_inv for sha
  by unfold_locales (blast dest: coord_step_inv_keeps)

lemma coord_runs_keep:
  assumes "(coord_step sha)\<^sup>*\<^sup>* d d'" and "coord_inv d"
  shows "coord_inv d' \<and> keeps_items d d' \<and> keeps_handoffs d d'"
proof -
  have "keeps_items d d' \<and> keeps_handoffs d d'"
    using _ _ _ assms
  proof (rule coord.runs_rel [where R = "\<lambda>d d'. keeps_items d d' \<and> keeps_handoffs d d'"])
    show "keeps_items s s \<and> keeps_handoffs s s" for s
      by (simp add: keeps_items_refl keeps_handoffs_refl)
    show "keeps_items s u \<and> keeps_handoffs s u"
      if "keeps_items s t \<and> keeps_handoffs s t" "keeps_items t u \<and> keeps_handoffs t u" for s t u
      using that keeps_items_trans keeps_handoffs_trans by blast
    show "keeps_items s t \<and> keeps_handoffs s t" if "coord_step sha s t" "coord_inv s" for s t
      using coord_step_inv_keeps [OF that] by blast
  qed
  with coord.runs_inv [OF assms] show ?thesis by blast
qed

end
