(* ===== verification/ItemLife.thy ===== *)
theory ItemLife
  imports Coordination
begin

text \<open>
  What the queue tables promise to the rest of the program, without tables: an item comes
  into being once, is held under at most one lease at a time, and once completed never
  changes. \<open>life\<close> reads the abstract state of an item off the database, and every step of
  \<open>Coordination\<close> is at most one abstract move of every item. Closed leases stay closed,
  so their holder is fenced off.
\<close>

section \<open>The abstract life of an item\<close>

datatype item_state = Absent | Waiting | Held string | Done

definition life :: "db \<Rightarrow> string \<times> string \<Rightarrow> item_state" where
  "life d k = (case fetchone (\<lambda>i. item_key i = k) (db_items d) of
     None \<Rightarrow> Absent
   | Some i \<Rightarrow> (case qi_status i of
       Ready \<Rightarrow> Waiting
     | Finished \<Rightarrow> Done
     | Leased \<Rightarrow> (case fetchone (\<lambda>l. live l \<and> lease_item_key l = k) (db_leases d) of
         Some l \<Rightarrow> Held (le_id l) | None \<Rightarrow> Waiting)))"

inductive life_move :: "item_state \<Rightarrow> item_state \<Rightarrow> bool" where
  created: "life_move Absent Waiting"
| taken: "life_move Waiting (Held l)"
| given_back: "life_move (Held l) Waiting"
| taken_over: "l \<noteq> m \<Longrightarrow> life_move (Held l) (Held m)"
| completed: "life_move (Held l) Done"

inductive_cases life_move_DoneE: "life_move Done x"

lemma life_moves_Done: "life_move\<^sup>*\<^sup>* a b \<Longrightarrow> a = Done \<Longrightarrow> b = Done"
  by (induction rule: rtranclp_induct) (auto elim: life_move_DoneE)

text \<open>Under the queue invariant, the abstract state in terms of rows.\<close>

lemma life_cases:
  assumes inv: "queue_inv d"
  shows "(life d k = Absent \<longleftrightarrow> (\<forall>i\<in>set (db_items d). item_key i \<noteq> k))
    \<and> (life d k = Waiting \<longleftrightarrow> (\<exists>i\<in>set (db_items d). item_key i = k \<and> qi_status i = Ready))
    \<and> (life d k = Done \<longleftrightarrow> (\<exists>i\<in>set (db_items d). item_key i = k \<and> qi_status i = Finished))
    \<and> (life d k = Held x \<longleftrightarrow> (\<exists>l\<in>set (db_leases d). live l \<and> lease_item_key l = k \<and> le_id l = x))"
proof (cases "fetchone (\<lambda>i. item_key i = k) (db_items d)")
  note Q = queue_invD [OF inv]
  case None
  then have no: "\<forall>i\<in>set (db_items d). item_key i \<noteq> k" by (simp add: fetchone_None_iff)
  then have "\<not> (\<exists>l\<in>set (db_leases d). live l \<and> lease_item_key l = k)" using Q(4) by metis
  with no None show ?thesis by (auto simp: life_def)
next
  note Q = queue_invD [OF inv]
  case (Some i)
  then have i: "i \<in> set (db_items d)" "item_key i = k" by (auto dest: fetchone_SomeD)
  then have only: "j = i" if "j \<in> set (db_items d)" "item_key j = k" for j
    using item_eq [OF inv] that by metis
  show ?thesis
  proof (cases "qi_status i = Leased")
    case True
    with Q(5) i obtain l where l: "l \<in> set (db_leases d)" "live l" "lease_item_key l = k" by metis
    have only': "m = l" if "m \<in> set (db_leases d)" "live m" "lease_item_key m = k" for m
      using Q(6) that l by metis
    have fl: "fetchone (\<lambda>l. live l \<and> lease_item_key l = k) (db_leases d) = Some l"
      by (rule fetchone_unique [where k = lease_key, OF Q(2) l(1)])
        (use l only' in blast)+
    have "life d k = Held (le_id l)" using Some True fl by (simp add: life_def)
    moreover have "\<exists>i\<in>set (db_items d). item_key i = k"
      "\<forall>j\<in>set (db_items d). item_key j = k \<longrightarrow> qi_status j = Leased"
      using i only True by blast+
    moreover have "(\<exists>m\<in>set (db_leases d). live m \<and> lease_item_key m = k \<and> le_id m = x) \<longleftrightarrow> le_id l = x"
      using l only' by blast
    ultimately show ?thesis by auto
  next
    case False
    then have "\<not> (\<exists>l\<in>set (db_leases d). live l \<and> lease_item_key l = k)"
      using Q(4) only by metis
    moreover have "\<exists>i\<in>set (db_items d). item_key i = k"
      "\<forall>j\<in>set (db_items d). item_key j = k \<longrightarrow> qi_status j = qi_status i"
      using i only by blast+
    moreover from this have "(\<exists>j\<in>set (db_items d). item_key j = k \<and> qi_status j = s) \<longleftrightarrow> qi_status i = s" for s
      by metis
    ultimately show ?thesis
      using Some False by (cases "qi_status i") (auto simp: life_def)
  qed
qed

lemmas life_iff = life_cases [THEN conjunct1] life_cases [THEN conjunct2, THEN conjunct1]
  life_cases [THEN conjunct2, THEN conjunct2, THEN conjunct1]
  life_cases [THEN conjunct2, THEN conjunct2, THEN conjunct2]

text \<open>A move is seen in the rows of the item itself: two databases with the same rows of the
  item and the same live leases on it have it in the same state.\<close>

lemma life_same:
  assumes "queue_inv d" "queue_inv d'"
    and "\<And>i. item_key i = k \<Longrightarrow> i \<in> set (db_items d') \<longleftrightarrow> i \<in> set (db_items d)"
    and "\<And>x. (\<exists>l\<in>set (db_leases d'). live l \<and> lease_item_key l = k \<and> le_id l = x)
          \<longleftrightarrow> (\<exists>l\<in>set (db_leases d). live l \<and> lease_item_key l = k \<and> le_id l = x)"
  shows "life d' k = life d k"
proof (cases "life d k")
  case Absent
  with life_iff(1) [OF assms(1)] life_iff(1) [OF assms(2)] assms(3) show ?thesis by metis
next
  case Waiting
  with life_iff(2) [OF assms(1)] life_iff(2) [OF assms(2)] assms(3) show ?thesis by metis
next
  case (Held x)
  with life_iff(4) [OF assms(1)] life_iff(4) [OF assms(2)] assms(4) show ?thesis by metis
next
  case Done
  with life_iff(3) [OF assms(1)] life_iff(3) [OF assms(2)] assms(3) show ?thesis by metis
qed

lemma life_rows:
  assumes "db_items d' = db_items d" "db_leases d' = db_leases d"
  shows "life d' k = life d k"
  unfolding life_def assms by (rule refl)

abbreviation life_le :: "db \<Rightarrow> db \<Rightarrow> bool" where
  "life_le d d' \<equiv> \<forall>k. life d' k = life d k \<or> life_move (life d k) (life d' k)"

lemma insert_item_life:
  assumes inv: "queue_inv d" and ins: "insert_item i d = Inr d'" and r: "qi_status i = Ready"
  shows "life d' k = life d k \<or> life_move (life d k) (life d' k)"
proof (cases "item_key i = k")
  case True
  have inv': "queue_inv d'" using insert_item_inv [OF inv ins r] .
  have "life d k = Absent"
    using ins True by (auto simp: life_iff(1) [OF inv] insert_item_Inr)
  moreover have "life d' k = Waiting"
    unfolding life_iff(2) [OF inv'] using ins True r by (auto simp: insert_item_Inr)
  ultimately show ?thesis by (simp add: life_move.created)
next
  case False
  have "life d' k = life d k"
  proof (rule life_same [OF inv insert_item_inv [OF inv ins r]])
    have "db_items d' = db_items d @ [i]" "db_leases d' = db_leases d"
      using ins by (auto simp: insert_item_Inr)
    then show "j \<in> set (db_items d') \<longleftrightarrow> j \<in> set (db_items d)" if "item_key j = k" for j
      using that False by auto
    from \<open>db_leases d' = db_leases d\<close>
    show "(\<exists>l\<in>set (db_leases d'). live l \<and> lease_item_key l = k \<and> le_id l = x) \<longleftrightarrow>
      (\<exists>l\<in>set (db_leases d). live l \<and> lease_item_key l = k \<and> le_id l = x)" for x by simp
  qed
  then show ?thesis ..
qed

lemma finish_life:
  assumes inv: "queue_inv d" and f: "finish_tx t1 t2 p lid tok st reason d = Inr (y, d')"
    and st: "st \<noteq> Leased"
  shows "life d' k = life d k \<or> life_move (life d k) (life d' k)"
proof -
  have inv': "queue_inv d'" by (rule finish_inv [OF inv f st])
  from f obtain l where l: "l \<in> set (db_leases d)" "le_project l = strip p" "le_id l = strip lid" "live l"
    and d': "db_leases d' = upd_where (\<lambda>m. le_project m = strip p \<and> le_id m = strip lid)
            (\<lambda>m. m\<lparr>le_released := Some t2, le_reason := Some reason\<rparr>) (db_leases d)"
       "db_items d' = upd_where (\<lambda>i. qi_project i = strip p \<and> qi_id i = le_item l)
            (\<lambda>i. i\<lparr>qi_status := st\<rparr>) (db_items d)"
    by (auto simp: finish_tx_def monad_simps live_def dest!: fetchone_SomeD)
  have only: "m = l" if "m \<in> set (db_leases d)" "le_project m = strip p \<and> le_id m = strip lid" for m
    using lease_eq [OF inv that(1) l(1)] that(2) l(2,3) by (simp add: lease_key_def)
  have live': "m \<in> set (db_leases d') \<and> live m \<longleftrightarrow> m \<in> set (db_leases d) \<and> live m \<and> m \<noteq> l" for m
    unfolding d' upd_where_out [where Q = live, OF live_upd(1)] using only l(2,3) by blast
  have sel: "(qi_project i = strip p \<and> qi_id i = le_item l) \<longleftrightarrow> item_key i = lease_item_key l"
    for i :: item_row using l(2) by (simp add: key_defs)
  show ?thesis
  proof (cases "lease_item_key l = k")
    case True
    then have "life d k = Held (le_id l)" unfolding life_iff(4) [OF inv] using l by blast
    moreover obtain i where i: "i \<in> set (db_items d)" "item_key i = k"
      using queue_invD(4) [OF inv l(1,4)] True by blast
    then have "i\<lparr>qi_status := st\<rparr> \<in> set (db_items d')"
      unfolding d' set_upd_where sel using True by (intro bexI [of _ i]) auto
    with i(2) st have "life d' k = Waiting \<or> life d' k = Done"
      unfolding life_iff(2,3) [OF inv']
      by (cases st) (force intro!: bexI [where x = "i\<lparr>qi_status := st\<rparr>"])+
    ultimately show ?thesis by (auto intro: life_move.intros)
  next
    case False
    have "life d' k = life d k"
    proof (rule life_same [OF inv inv'])
      show "i \<in> set (db_items d') \<longleftrightarrow> i \<in> set (db_items d)" if "item_key i = k" for i
        unfolding d'(2) sel using that False by (intro upd_where_other) auto
    qed (use live' False in blast)
    then show ?thesis ..
  qed
qed

text \<open>Claiming: lapsed leases are closed, then one waiting item is taken.\<close>

lemma reclaim_life:
  assumes inv: "queue_inv d"
  shows "life (reclaim_expired t p d) k = life d k \<or>
    (\<exists>x. life d k = Held x) \<and> life (reclaim_expired t p d) k = Waiting"
proof -
  let ?d' = "reclaim_expired t p d"
  have inv': "queue_inv ?d'" by (rule reclaim_inv [OF inv])
  have live': "m \<in> set (db_leases ?d') \<and> live m \<longleftrightarrow> m \<in> set (db_leases d) \<and> live m \<and> \<not> lapsed t p m" for m
    by (simp add: reclaim_expired_def upd_where_out [where Q = live])
  let ?D = "\<lambda>i. qi_project i = p \<and> qi_status i = Leased \<and> has_row (\<lambda>l. lapsed t p l \<and> le_item l = qi_id i) (db_leases d)"
  have its: "db_items ?d' = upd_where ?D (\<lambda>i. i\<lparr>qi_status := Ready\<rparr>) (db_items d)"
    by (simp add: reclaim_expired_def)
  show ?thesis
  proof (cases "\<exists>l\<in>set (db_leases d). lapsed t p l \<and> lease_item_key l = k")
    case True
    then obtain l where l: "l \<in> set (db_leases d)" "lapsed t p l" "lease_item_key l = k" by blast
    then have lv: "live l" by (simp add: lapsed_def live_def)
    then have "life d k = Held (le_id l)" unfolding life_iff(4) [OF inv] using l by blast
    moreover obtain i where i: "i \<in> set (db_items d)" "item_key i = k" "qi_status i = Leased"
      using queue_invD(4) [OF inv l(1) lv] l(3) by blast
    have "?D i" using i l by (auto simp: key_defs has_row_iff lapsed_def)
    then have "i\<lparr>qi_status := Ready\<rparr> \<in> set (db_items ?d')"
      unfolding its set_upd_where using i(1) by (intro bexI [of _ i]) auto
    then have "life ?d' k = Waiting" unfolding life_iff(2) [OF inv']
      using i(2) by (intro bexI [where x = "i\<lparr>qi_status := Ready\<rparr>"]) auto
    ultimately show ?thesis by blast
  next
    case False
    then have "\<not> ?D i" if "item_key i = k" for i
      using that by (auto simp: key_defs has_row_iff lapsed_def)
    then have "i \<in> set (db_items ?d') \<longleftrightarrow> i \<in> set (db_items d)" if "item_key i = k" for i
      unfolding its using that by (auto simp: set_upd_where split: if_splits)
    then have "life ?d' k = life d k"
      using live' False by (intro life_same [OF inv inv']) blast+
    then show ?thesis by blast
  qed
qed

lemma take_life:
  assumes inv: "queue_inv d" and ins: "insert_lease l d = Inr d2" and l: "live l" "le_reason l = None"
    and i: "i \<in> set (db_items d)" "item_key i = lease_item_key l" "qi_status i = Ready"
  shows "let d' = set_leased (le_project l) (le_item l) d2 in
    (if k = lease_item_key l then life d k = Waiting \<and> life d' k = Held (le_id l) else life d' k = life d k)"
proof -
  let ?d' = "set_leased (le_project l) (le_item l) d2"
  have inv': "queue_inv ?d'" by (rule take_inv [OF inv ins l])
  let ?up = "\<lambda>r::item_row. r\<lparr>qi_status := Leased, qi_attempts := qi_attempts r + 1\<rparr>"
  have sel: "(qi_project r = le_project l \<and> qi_id r = le_item l) \<longleftrightarrow> item_key r = lease_item_key l"
    for r :: item_row by (simp add: key_defs)
  have d': "db_items ?d' = upd_where (\<lambda>r. item_key r = lease_item_key l) ?up (db_items d)"
    "db_leases ?d' = db_leases d @ [l]"
    using ins by (auto simp: set_leased_def sel insert_lease_Inr)
  show ?thesis
  proof (cases "k = lease_item_key l")
    case True
    moreover have "life d k = Waiting" unfolding life_iff(2) [OF inv] using i True by blast
    moreover have "life ?d' k = Held (le_id l)" unfolding life_iff(4) [OF inv'] d' using l True by auto
    ultimately show ?thesis by (simp add: Let_def)
  next
    case False
    have "life ?d' k = life d k"
    proof (rule life_same [OF inv inv'])
      show "j \<in> set (db_items ?d') \<longleftrightarrow> j \<in> set (db_items d)" if "item_key j = k" for j
        unfolding d' using that False by (intro upd_where_other) auto
    qed (use False in \<open>auto simp: d'\<close>)
    with False show ?thesis by (simp add: Let_def)
  qed
qed

lemma claim_life:
  assumes inv: "queue_inv d" and c: "claim t1 t2 t3 locked lid tok p q inst secs d = Inr (r, d')"
  shows "life d' k = life d k \<or> life_move (life d k) (life d' k)"
proof -
  let ?d1 = "reclaim_expired t1 (strip p) d"
  have inv1: "queue_inv ?d1" by (rule reclaim_inv [OF inv])
  let ?l = "\<lambda>row. \<lparr>le_project = strip p, le_id = lid, le_item = qi_id row, le_owner = strip inst,
      le_token = tok, le_acquired = t3, le_heartbeat = t3, le_expires = t3 + seconds secs,
      le_released = None, le_reason = None\<rparr>"
  note re = reclaim_life [OF inv, of t1 "strip p" k]
  from claim_Inr [OF c] have "d' = ?d1 \<or> (\<exists>row d2. next_item t2 locked (strip p) (strip q) ?d1 = Some row
      \<and> insert_lease (?l row) ?d1 = Inr d2 \<and> d' = set_leased (strip p) (qi_id row) d2)" by blast
  then show ?thesis
  proof
    assume "d' = ?d1"
    with re show ?thesis by (auto intro: life_move.intros)
  next
    assume "\<exists>row d2. next_item t2 locked (strip p) (strip q) ?d1 = Some row
      \<and> insert_lease (?l row) ?d1 = Inr d2 \<and> d' = set_leased (strip p) (qi_id row) d2"
    then obtain row d2 where row: "next_item t2 locked (strip p) (strip q) ?d1 = Some row"
      and ins: "insert_lease (?l row) ?d1 = Inr d2" and d': "d' = set_leased (strip p) (qi_id row) d2"
      by blast
    have i: "row \<in> set (db_items ?d1)" "item_key row = lease_item_key (?l row)" "qi_status row = Ready"
      using next_item_Some [OF row] by (auto simp: claimable_def key_defs)
    have l: "live (?l row)" "le_reason (?l row) = None" by (simp_all add: live_def)
    have t: "if k = lease_item_key (?l row) then life ?d1 k = Waiting \<and> life d' k = Held lid
        else life d' k = life ?d1 k"
      using take_life [OF inv1 ins l i, of k] unfolding d' Let_def lease_row.select_convs .
    show ?thesis
    proof (cases "life ?d1 k = life d k")
      case True
      with t show ?thesis by (auto intro: life_move.intros split: if_splits)
    next
      case False
      with re obtain x where "life d k = Held x" "life ?d1 k = Waiting" by blast
      with t show ?thesis by (cases "x = lid") (auto intro: life_move.intros split: if_splits)
    qed
  qed
qed

lemma route_life:
  assumes inv: "queue_inv d" and r: "route_in_transaction t sha r d = Inr (x, d')"
  shows "life d' k = life d k \<or> life_move (life d k) (life d' k)"
proof -
  from r have "d' = d \<or> (\<exists>i. insert_item i d = Inr d' \<and> qi_status i = Ready)"
    unfolding route_Inr using routed_item_simps(1) by blast
  with insert_item_life [OF inv] show ?thesis by blast
qed

lemma heartbeat_life:
  assumes inv: "queue_inv d" and h: "heartbeat t1 t2 p lid tok secs d = Inr (e, d')"
  shows "life d' k = life d k"
proof (rule life_same [OF inv heartbeat_inv [OF inv h]])
  from h obtain P where
    d': "db_leases d' = upd_where P (\<lambda>m. m\<lparr>le_heartbeat := t2, le_expires := t2 + seconds secs\<rparr>) (db_leases d)"
    by (auto simp: heartbeat_def monad_simps)
  have mem: "l \<in> set (db_leases d') \<longleftrightarrow> (\<exists>m\<in>set (db_leases d).
      l = (if P m then m\<lparr>le_heartbeat := t2, le_expires := t2 + seconds secs\<rparr> else m))" for l
    unfolding d' by (rule set_upd_where)
  show "(\<exists>l\<in>set (db_leases d'). live l \<and> lease_item_key l = k \<and> le_id l = x) \<longleftrightarrow>
      (\<exists>l\<in>set (db_leases d). live l \<and> lease_item_key l = k \<and> le_id l = x)" for x
    unfolding Bex_def mem by (fastforce split: if_splits)
qed (use heartbeat_frame [OF h] in simp)

lemma coord_step_life:
  assumes "coord_step sha d d'" and "coord_inv d"
  shows "life d' k = life d k \<or> life_move (life d k) (life d' k)"
proof -
  have q: "queue_inv d" using assms(2) by (simp add: coord_inv_def)
  from assms(1) show ?thesis
  proof cases
    case new_queue
    from life_rows create_queue_frame [OF new_queue] show ?thesis by blast
  next
    case enqueue
    then have "\<exists>i. insert_item i d = Inr d' \<and> qi_status i = Ready"
      by (fastforce simp: enqueue_tx_def monad_simps)
    with insert_item_life [OF q] show ?thesis by blast
  next
    case (offer t1 t2 t3 t4 h v)
    from offer_shape [OF offer] show ?thesis
    proof
      assume "\<exists>d1 draft routed h i. route_in_transaction t3 sha draft d = Inr (routed, d1)
        \<and> insert_handoff h d1 = Inr d' \<and> ho_status h = Offered
        \<and> i \<in> set (db_items d) \<and> qi_status i = Leased
        \<and> qi_project i = ho_project h \<and> ho_src_item h = Some (qi_id i)"
      then obtain d1 draft routed h where "route_in_transaction t3 sha draft d = Inr (routed, d1)"
        "insert_handoff h d1 = Inr d'" by blast
      with route_life [OF q] life_rows insert_handoff_frame show ?thesis by metis
    qed simp
  next
    case handoff_claim
    from life_rows handoff_writers_frame(1) [OF handoff_claim] show ?thesis by blast
  next
    case handoff_accept
    from life_rows handoff_writers_frame(2) [OF handoff_accept] show ?thesis by blast
  next
    case other
    from life_rows [OF other(1,2)] show ?thesis by blast
  next
    case claim
    from claim_life [OF q claim] show ?thesis .
  next
    case complete
    from finish_life [OF q complete] show ?thesis by simp
  next
    case release
    from finish_life [OF q release] show ?thesis by simp
  next
    case route
    from route_life [OF q route] show ?thesis .
  next
    case heartbeat
    from heartbeat_life [OF q heartbeat] show ?thesis ..
  qed
qed

section \<open>Fencing\<close>

text \<open>No lease row is ever removed, and a closed one never changes again.\<close>

definition keeps_leases :: "db \<Rightarrow> db \<Rightarrow> bool" where
  "keeps_leases d d' = (\<forall>l\<in>set (db_leases d). \<exists>m\<in>set (db_leases d').
     lease_key m = lease_key l \<and> le_token m = le_token l \<and> le_item m = le_item l
     \<and> le_owner m = le_owner l \<and> (\<not> live l \<longrightarrow> m = l))"

lemma keeps_leases_refl: "keeps_leases d d"
  by (auto simp: keeps_leases_def)

lemma keeps_leases_trans:
  assumes "keeps_leases d e" "keeps_leases e f"
  shows "keeps_leases d f"
  unfolding keeps_leases_def
proof
  fix l assume "l \<in> set (db_leases d)"
  with assms(1) obtain m where m: "m \<in> set (db_leases e)" "lease_key m = lease_key l"
    "le_token m = le_token l" "le_item m = le_item l" "le_owner m = le_owner l" "\<not> live l \<longrightarrow> m = l"
    unfolding keeps_leases_def by blast
  with assms(2) obtain n where "n \<in> set (db_leases f)" "lease_key n = lease_key m"
    "le_token n = le_token m" "le_item n = le_item m" "le_owner n = le_owner m" "\<not> live m \<longrightarrow> n = m"
    unfolding keeps_leases_def by blast
  with m show "\<exists>m\<in>set (db_leases f). lease_key m = lease_key l \<and> le_token m = le_token l
      \<and> le_item m = le_item l \<and> le_owner m = le_owner l \<and> (\<not> live l \<longrightarrow> m = l)"
    by (intro bexI [of _ n]) auto
qed

lemma keeps_leases_upd:
  assumes "\<And>l. l \<in> set (db_leases d) \<Longrightarrow> P l \<Longrightarrow> live l"
    and "\<And>l. lease_key (f l) = lease_key l \<and> le_token (f l) = le_token l \<and> le_item (f l) = le_item l
      \<and> le_owner (f l) = le_owner l"
    and "db_leases d' = upd_where P f (db_leases d)"
  shows "keeps_leases d d'"
  unfolding keeps_leases_def assms(3)
proof
  fix l assume "l \<in> set (db_leases d)"
  with assms(1,2) show "\<exists>m\<in>set (upd_where P f (db_leases d)). lease_key m = lease_key l
      \<and> le_token m = le_token l \<and> le_item m = le_item l \<and> le_owner m = le_owner l \<and> (\<not> live l \<longrightarrow> m = l)"
    by (intro bexI [where x = "if P l then f l else l"]) (auto simp: set_upd_where)
qed

lemma keeps_leases_mono: "set (db_leases d) \<subseteq> set (db_leases d') \<Longrightarrow> keeps_leases d d'"
  by (auto simp: keeps_leases_def)

lemma reclaim_leases: "keeps_leases d (reclaim_expired t p d)"
  by (rule keeps_leases_upd [where P = "lapsed t p" and f = "\<lambda>l. l\<lparr>le_released := Some t, le_reason := Some ''expired''\<rparr>"])
    (simp_all add: lapsed_def live_def reclaim_expired_def)

lemma claim_leases:
  assumes c: "claim t1 t2 t3 locked lid tok p q inst secs d = Inr (r, d')"
  shows "keeps_leases d d'"
proof -
  let ?d1 = "reclaim_expired t1 (strip p) d"
  from claim_Inr [OF c] have "d' = ?d1 \<or> (\<exists>i d2 l. insert_lease l ?d1 = Inr d2
      \<and> d' = set_leased (strip p) i d2)" by blast
  then have "set (db_leases ?d1) \<subseteq> set (db_leases d')"
    by (auto simp: insert_lease_Inr set_leased_def)
  then show ?thesis using keeps_leases_mono keeps_leases_trans reclaim_leases by blast
qed

lemma finish_leases:
  assumes inv: "queue_inv d" and f: "finish_tx t1 t2 p lid tok st reason d = Inr (k, d')"
  shows "keeps_leases d d'"
proof -
  from f obtain l where l: "l \<in> set (db_leases d)" "le_project l = strip p" "le_id l = strip lid" "live l"
    and d': "db_leases d' = upd_where (\<lambda>m. le_project m = strip p \<and> le_id m = strip lid)
            (\<lambda>m. m\<lparr>le_released := Some t2, le_reason := Some reason\<rparr>) (db_leases d)"
    by (auto simp: finish_tx_def monad_simps live_def dest!: fetchone_SomeD)
  show ?thesis
  proof (rule keeps_leases_upd [OF _ _ d'])
    show "live m" if "m \<in> set (db_leases d)" "le_project m = strip p \<and> le_id m = strip lid" for m
      using lease_eq [OF inv that(1) l(1)] that(2) l(2-4) by (simp add: lease_key_def)
  qed simp
qed

lemma heartbeat_leases:
  assumes inv: "queue_inv d" and h: "heartbeat t1 t2 p lid tok secs d = Inr (e, d')"
  shows "keeps_leases d d'"
proof -
  from h obtain l where l: "l \<in> set (db_leases d)" "le_project l = strip p" "le_id l = strip lid" "live l"
    and d': "db_leases d' = upd_where (\<lambda>m. le_project m = strip p \<and> le_id m = strip lid)
          (\<lambda>m. m\<lparr>le_heartbeat := t2, le_expires := t2 + seconds secs\<rparr>) (db_leases d)"
    by (auto simp: heartbeat_def monad_simps live_def dest!: fetchone_SomeD)
  show ?thesis
  proof (rule keeps_leases_upd [OF _ _ d'])
    show "live m" if "m \<in> set (db_leases d)" "le_project m = strip p \<and> le_id m = strip lid" for m
      using lease_eq [OF inv that(1) l(1)] that(2) l(2-4) by (simp add: lease_key_def)
  qed simp
qed

lemma coord_step_leases:
  assumes "coord_step sha d d'" and "coord_inv d"
  shows "keeps_leases d d'"
proof -
  have q: "queue_inv d" using assms(2) by (simp add: coord_inv_def)
  have same: "keeps_leases d d'" if "db_leases d' = db_leases d"
    using that by (simp add: keeps_leases_mono)
  from assms(1) show ?thesis
  proof cases
    case new_queue
    from same create_queue_frame [OF new_queue] show ?thesis by blast
  next
    case enqueue
    then show ?thesis by (auto simp: enqueue_tx_def monad_simps insert_item_Inr intro!: same)
  next
    case claim
    from claim_leases [OF claim] show ?thesis .
  next
    case heartbeat
    from heartbeat_leases [OF q heartbeat] show ?thesis .
  next
    case complete
    from finish_leases [OF q complete] show ?thesis .
  next
    case release
    from finish_leases [OF q release] show ?thesis .
  next
    case route
    from same route_frame [OF route] show ?thesis by blast
  next
    case offer
    from same offer_frame [OF offer] show ?thesis by blast
  next
    case handoff_claim
    from same handoff_writers_frame(1) [OF handoff_claim] show ?thesis by blast
  next
    case handoff_accept
    from same handoff_writers_frame(2) [OF handoff_accept] show ?thesis by blast
  next
    case other
    from same [OF other(2)] show ?thesis .
  qed
qed

text \<open>What a run of the system keeps, and what it does to an item.\<close>

lemma coord_runs_life:
  assumes run: "(coord_step sha)\<^sup>*\<^sup>* d d'" and inv: "coord_inv d"
  shows "keeps_leases d d' \<and> life_move\<^sup>*\<^sup>* (life d k) (life d' k)"
  using _ _ _ run inv
proof (rule coord.runs_rel [where R = "\<lambda>d d'. keeps_leases d d' \<and> life_move\<^sup>*\<^sup>* (life d k) (life d' k)"])
  show "keeps_leases s s \<and> life_move\<^sup>*\<^sup>* (life s k) (life s k)" for s
    by (simp add: keeps_leases_refl)
  show "keeps_leases s u \<and> life_move\<^sup>*\<^sup>* (life s k) (life u k)"
    if "keeps_leases s t \<and> life_move\<^sup>*\<^sup>* (life s k) (life t k)"
      "keeps_leases t u \<and> life_move\<^sup>*\<^sup>* (life t k) (life u k)" for s t u
    using that by (blast intro: keeps_leases_trans rtranclp_trans)
  show "keeps_leases s t \<and> life_move\<^sup>*\<^sup>* (life s k) (life t k)" if "coord_step sha s t" "coord_inv s" for s t
    using coord_step_leases [OF that] coord_step_life [OF that, of k] by auto
qed

lemma closed_lease_fenced:
  assumes inv: "coord_inv d" and l: "l \<in> set (db_leases d)" "\<not> live l"
  shows "lock_active_lease t (le_project l) (le_id l) tok d = Inl QueueAuthorizationError"
proof -
  have "m = l" if "m \<in> set (db_leases d)" "le_project m = le_project l" "le_id m = le_id l" for m
    using lease_eq [of d m l] inv that l(1) by (simp add: coord_inv_def lease_key_def)
  with l show ?thesis
    by (auto simp: lock_active_lease_def monad_simps fetchone_None_iff live_def)
qed

section \<open>Reachable databases\<close>

text \<open>The states the system reaches from an empty database.\<close>

definition reachable :: "(string \<Rightarrow> string) \<Rightarrow> db \<Rightarrow> bool" where
  "reachable sha d = (coord_step sha)\<^sup>*\<^sup>* empty_db d"

lemma coord_inv_empty: "coord_inv empty_db"
  by (simp add: coord_inv_def queue_inv_def items_ok_def handoff_inv_def empty_db_def)

lemma reachable_inv: "reachable sha d \<Longrightarrow> coord_inv d"
  using coord.runs_inv coord_inv_empty by (auto simp: reachable_def)

lemma reachable_queue_inv: "reachable sha d \<Longrightarrow> queue_inv d"
  by (auto dest: reachable_inv simp: coord_inv_def)

lemma reachable_step: "reachable sha d \<Longrightarrow> coord_step sha d d' \<Longrightarrow> reachable sha d'"
  by (simp add: reachable_def)

lemma reachable_runs: "reachable sha d \<Longrightarrow> (coord_step sha)\<^sup>*\<^sup>* d d' \<Longrightarrow> reachable sha d'"
  by (simp add: reachable_def)

end
