(* ===== verification/Requests.thy ===== *)
theory Requests
  imports ItemLife
begin

text \<open>
  The two keyed requests of the coordination tables as instances of \<open>keyed_requests\<close>: a
  routed item (\<open>routing.py\<close>) and an offered handoff (\<open>handoffs.py\<close>) may be asked for again
  at any later time, with the same answer and without a write.
\<close>

section \<open>Routes\<close>

text \<open>What of an item record a later reader still sees: all but status and attempts.\<close>

definition same_item :: "queue_item_record \<Rightarrow> queue_item_record \<Rightarrow> bool" where
  "same_item x y = (x\<lparr>qi_status := Ready, qi_attempts := 0\<rparr> = y\<lparr>qi_status := Ready, qi_attempts := 0\<rparr>)"

lemma same_item_core: "item_core j = item_core i \<Longrightarrow> same_item (item_record i) (item_record j)"
  unfolding item_core_def same_item_def item_record_def
  by (cases i; cases j) (simp add: queue_item_record.truncate_def)

definition routed_as :: "(string \<Rightarrow> string) \<Rightarrow> route_draft \<Rightarrow> queue_item_record \<Rightarrow> db \<Rightarrow> bool" where
  "routed_as sha r x d = (\<exists>i. keyed_item (rd_project r) (rd_key r) d = Some i
     \<and> (\<exists>fp. route_fingerprint sha r = Inr fp \<and> qi_fingerprint i = Some fp)
     \<and> same_item x (item_record i))"

lemma keyed_item_kept:
  assumes "keyed_item p k d = Some i" and "keeps_items d d'" and "items_ok d'"
  shows "\<exists>j. keyed_item p k d' = Some j \<and> item_core j = item_core i"
proof -
  from assms(1,2) obtain j where "j \<in> set (db_items d')" "item_core j = item_core i"
    unfolding keeps_items_def by (blast dest: keyed_item_Some)
  with assms show ?thesis
    by (auto simp: keyed_item_iff dest: keyed_item_Some item_core_fields(1,4) intro!: exI [of _ j])
qed

lemma routed_as_kept:
  assumes "routed_as sha r x d" and "keeps_items d d'" and "items_ok d'"
  shows "routed_as sha r x d'"
proof -
  from assms(1) obtain i fp where i: "keyed_item (rd_project r) (rd_key r) d = Some i"
    "route_fingerprint sha r = Inr fp" "qi_fingerprint i = Some fp" "same_item x (item_record i)"
    unfolding routed_as_def by blast
  from keyed_item_kept [OF i(1) assms(2,3)] obtain j
    where j: "keyed_item (rd_project r) (rd_key r) d' = Some j" "item_core j = item_core i" by blast
  have "same_item x (item_record j)"
    using same_item_core [OF j(2)] i(4) by (simp add: same_item_def)
  with i j item_core_fields(5) [OF j(2)] show ?thesis unfolding routed_as_def by metis
qed

interpretation routes: keyed_requests "coord_step sha" coord_inv
  "\<lambda>t. route_in_transaction t sha" "routed_as sha" same_item for sha
proof
  show "coord_inv s'" if "route_in_transaction t sha r s = Inr (x, s')" "coord_inv s" for t r s x s'
    using coord.step_inv coord_step.route [OF that(1)] that(2) by blast
  show "routed_as sha r x s'" if "route_in_transaction t sha r s = Inr (x, s')" for t r s x s'
    using route_keyed_after [OF that] unfolding routed_as_def same_item_def by blast
  show "\<exists>y. route_in_transaction t sha r s = Inr (y, s) \<and> same_item x y" if "routed_as sha r x s" for t r s x
    using that unfolding routed_as_def route_Inr by blast
  show "routed_as sha r x s'" if "coord_step sha s s'" "coord_inv s" "routed_as sha r x s" for s s' r x
    using routed_as_kept [OF that(3)] coord_step_inv_keeps [OF that(1,2)] by (auto simp: coord_inv_def)
qed

section \<open>Handoffs\<close>

lemma map_le_refl': "db_instances d' = db_instances d \<Longrightarrow> instance_role d \<subseteq>\<^sub>m instance_role d'"
  by (simp add: instance_role_def)

lemma route_instances: "route_in_transaction t sha r d = Inr (x, d') \<Longrightarrow> db_instances d' = db_instances d"
  by (auto simp: route_Inr insert_item_Inr)

lemma coord_step_instances:
  assumes "coord_step sha d d'"
  shows "instance_role d \<subseteq>\<^sub>m instance_role d'"
  using assms
proof cases
  case new_queue
  then show ?thesis
    by (auto simp: create_queue_def insert_queue_def monad_simps split: if_splits intro!: map_le_refl')
next
  case (claim t1 t2 t3 locked lid tok p q inst secs c)
  let ?d1 = "reclaim_expired t1 (strip p) d"
  from claim_Inr [OF claim] have "d' = ?d1 \<or> (\<exists>i d2 l. insert_lease l ?d1 = Inr d2
      \<and> d' = set_leased (strip p) i d2)" by blast
  then have "db_instances d' = db_instances ?d1" by (auto simp: insert_lease_Inr set_leased_def)
  then show ?thesis by (auto simp: reclaim_expired_def intro!: map_le_refl')
next
  case (offer t1 t2 t3 t4 h v)
  from offer_shape [OF offer] show ?thesis
    by (auto simp: insert_handoff_Inr dest!: route_instances intro!: map_le_refl')
qed (auto simp: enqueue_tx_def insert_item_Inr heartbeat_def finish_tx_def monad_simps
    handoff_claim_iff handoff_accept_iff update_handoff_Inr
    dest!: route_instances claim_tx_Inr accept_tx_Inr intro!: map_le_refl')

text \<open>The source of an offer: its lease, the item and the owner's role never change.\<close>

lemma keyed_handoff_kept:
  assumes "keyed_handoff p k d = Some h" and "keeps_handoffs d d'" and "handoff_inv d'"
  shows "\<exists>g. keyed_handoff p k d' = Some g \<and> handoff_core g = handoff_core h"
proof -
  from keyed_handoffD [OF assms(1)] assms(2) obtain g where
    g: "g \<in> set (db_handoffs d')" "handoff_core g = handoff_core h"
    and h: "ho_project h = p" "ho_key h = k" unfolding keeps_handoffs_def by blast
  have "keyed_handoff p k d' = Some g"
    unfolding keyed_handoff_def
  proof (rule fetchone_unique [where k = handoff_unique_key, OF _ g(1)])
    show "distinct (map handoff_unique_key (db_handoffs d'))"
      using assms(3) by (simp add: handoff_inv_def)
  qed (use h handoff_core_fields [OF g(2)] in \<open>auto simp: handoff_unique_key_def\<close>)
  with g(2) show ?thesis by blast
qed

definition same_source :: "source_row \<Rightarrow> source_row \<Rightarrow> bool" where
  "same_source s t = (so_item s = so_item t \<and> so_work s = so_work t \<and> so_instance s = so_instance t
     \<and> so_role s = so_role t)"

lemma same_source_fingerprint: "same_source s s' \<Longrightarrow> handoff_fingerprint sha r s = handoff_fingerprint sha r s'"
  by (simp add: same_source_def handoff_fingerprint_def)

lemma source_lease_iff:
  "source_lease t r d = Some s \<longleftrightarrow> (\<exists>l i x.
     fetchone (\<lambda>l. le_project l = hf_project r \<and> le_id l = hf_lease r \<and> le_token l = hf_token r) (db_leases d) = Some l
     \<and> item_of d (le_project l) (le_item l) = Some i
     \<and> fetchone (\<lambda>x. in_project x = le_project l \<and> in_id x = le_owner l) (db_instances d) = Some x
     \<and> s = \<lparr>so_item = le_item l, so_work = qi_work i, so_instance = le_owner l,
              so_role = in_role x, so_item_status = qi_status i, so_instance_status = in_status x,
              so_released = (le_released l \<noteq> None), so_expired = (le_expires l \<le> t)\<rparr>)"
  by (auto simp: source_lease_def split: option.splits)

lemma source_lease_kept:
  assumes s: "source_lease t r d = Some s" and inv: "queue_inv d'"
    and k: "keeps_items d d'" "keeps_leases d d'" "instance_role d \<subseteq>\<^sub>m instance_role d'"
  shows "\<exists>s'. source_lease t' r d' = Some s' \<and> same_source s s'"
proof -
  from s obtain l i x where l: "fetchone (\<lambda>l. le_project l = hf_project r \<and> le_id l = hf_lease r
      \<and> le_token l = hf_token r) (db_leases d) = Some l"
    and i: "item_of d (le_project l) (le_item l) = Some i"
    and x: "fetchone (\<lambda>x. in_project x = le_project l \<and> in_id x = le_owner l) (db_instances d) = Some x"
    and s: "so_item s = le_item l" "so_work s = qi_work i" "so_instance s = le_owner l" "so_role s = in_role x"
    unfolding source_lease_iff by auto
  from fetchone_SomeD [OF l] k(2) obtain m where m: "m \<in> set (db_leases d')" "lease_key m = lease_key l"
    "le_token m = le_token l" "le_item m = le_item l" "le_owner m = le_owner l"
    unfolding keeps_leases_def by blast
  have A: "fetchone (\<lambda>l. le_project l = hf_project r \<and> le_id l = hf_lease r \<and> le_token l = hf_token r)
      (db_leases d') = Some m"
    by (rule fetchone_unique [where k = lease_key, OF queue_invD(2) [OF inv] m(1)])
      (use fetchone_SomeD [OF l] m in \<open>auto simp: lease_key_def\<close>)
  from i k(1) obtain j where j: "j \<in> set (db_items d')" "item_core j = item_core i"
    unfolding keeps_items_def item_of_def by (blast dest: fetchone_SomeD)
  have B: "item_of d' (le_project m) (le_item m) = Some j"
    unfolding item_of_def
    by (rule fetchone_unique [where k = item_key, OF queue_invD(1) [OF inv] j(1)])
      (use m fetchone_SomeD [OF i [unfolded item_of_def]] item_core_fields [OF j(2)] in \<open>auto simp: key_defs\<close>)
  have pm: "le_project m = le_project l" using m(2) by (simp add: lease_key_def)
  have "instance_role d (le_project l, le_owner l) = Some (in_role x)"
    using x by (simp add: instance_role_def)
  then have "instance_role d' (le_project l, le_owner l) = Some (in_role x)"
    using k(3) by (metis domI map_le_def)
  then obtain y where C: "fetchone (\<lambda>x. in_project x = le_project m \<and> in_id x = le_owner m) (db_instances d') = Some y"
    and y: "in_role y = in_role x"
    unfolding instance_role_def m(5) pm by auto
  show ?thesis
    unfolding source_lease_def A B C option.case same_source_def
    using s m(4,5) y item_core_fields(8) [OF j(2)] by simp
qed

lemma handoff_row_of_iff:
  assumes "handoff_inv d"
  shows "handoff_row_of p x d = Some h \<longleftrightarrow> h \<in> set (db_handoffs d) \<and> ho_project h = p \<and> ho_id h = x"
proof
  assume h: "h \<in> set (db_handoffs d) \<and> ho_project h = p \<and> ho_id h = x"
  show "handoff_row_of p x d = Some h"
    unfolding handoff_row_of_def
    by (rule fetchone_unique [where k = handoff_key])
      (use assms h in \<open>auto simp: handoff_inv_def handoff_key_def\<close>)
qed (rule handoff_row_ofD)

text \<open>A successful offer answers with the handoff now recorded under its key.\<close>

lemma offer_result:
  assumes o': "offer t1 t2 t3 t4 sha r d = Inr (v, d')" and inv: "coord_inv d'"
  shows "\<exists>h s fp. keyed_handoff (hf_project r) (hf_key r) d' = Some h \<and> v = handoff_view t4 h
    \<and> source_lease t1 r d = Some s \<and> handoff_fingerprint sha r s = Inr fp \<and> ho_fingerprint h = Some fp"
proof -
  have hi: "handoff_inv d'" using inv by (simp add: coord_inv_def)
  let ?hid = "handoff_id sha (hf_project r) (hf_key r)"
  from o' obtain s fp where s: "source_lease t1 r d = Some s" "handoff_fingerprint sha r s = Inr fp"
    by (auto simp: offer_iff offer_tx_def monad_simps)
  show ?thesis
  proof (cases "keyed_handoff (hf_project r) (hf_key r) d")
    case (Some h)
    with o' s have h: "ho_fingerprint h = Some fp" "d' = d"
      "\<exists>row. handoff_row_of (hf_project r) (ho_id h) d = Some row \<and> v = handoff_view t4 row"
      by (auto simp: offer_iff offer_tx_def monad_simps split: if_splits)
    moreover have "handoff_row_of (hf_project r) (ho_id h) d = Some h"
      using keyed_handoffD [OF Some] hi h(2) by (simp add: handoff_row_of_iff)
    ultimately show ?thesis using Some s by auto
  next
    case None
    from o' have "offer_tx t1 t2 t3 t4 sha r d = Inr (v, d')" by (simp add: offer_iff)
    then obtain draft x d1 z row where d1: "route_in_transaction t3 sha draft d = Inr (x, d1)"
      and h': "insert_handoff (offered_row ?hid fp r s (qi_id x) t2 z) d1 = Inr d'"
      and row: "handoff_row_of (hf_project r) ?hid d' = Some row" "v = handoff_view t4 row"
      unfolding offer_tx_def s None option.case Let_def by (auto simp: monad_simps s)
    then obtain i q where h: "insert_handoff (offered_row ?hid fp r s i t2 q) d1 = Inr d'" by blast
    let ?h = "offered_row ?hid fp r s i t2 q"
    have hs: "db_handoffs d' = db_handoffs d @ [?h]"
      using h d1 route_frame by (auto simp: insert_handoff_Inr)
    have f: "ho_project ?h = hf_project r" "ho_key ?h = hf_key r" "ho_id ?h = ?hid"
      "ho_fingerprint ?h = Some fp" by (simp_all add: offered_row_def)
    have "row = ?h" using row(1) hs f handoff_row_of_iff [OF hi, of "hf_project r" ?hid ?h] by auto
    moreover have "keyed_handoff (hf_project r) (hf_key r) d' = Some ?h"
      using None f by (simp add: keyed_handoff_def hs fetchone_append)
    ultimately show ?thesis using row(2) s f(4) by blast
  qed
qed

definition same_handoff :: "handoff_record \<Rightarrow> handoff_record \<Rightarrow> bool" where
  "same_handoff v w = (handoff_core (hr_row v) = handoff_core (hr_row w))"

definition offered_as :: "(string \<Rightarrow> string) \<Rightarrow> handoff_offer \<Rightarrow> handoff_record \<Rightarrow> db \<Rightarrow> bool" where
  "offered_as sha r v d = (\<exists>h s fp. keyed_handoff (hf_project r) (hf_key r) d = Some h
     \<and> handoff_core h = handoff_core (hr_row v) \<and> source_lease 0 r d = Some s
     \<and> handoff_fingerprint sha r s = Inr fp \<and> ho_fingerprint h = Some fp)"

lemma offered_as_kept:
  assumes o': "offered_as sha r v d" and st: "coord_step sha d d'" and inv: "coord_inv d"
  shows "offered_as sha r v d'"
proof -
  note k = coord_step_inv_keeps [OF st inv] coord_step_leases [OF st inv] coord_step_instances [OF st]
  from o' obtain h s fp where h: "keyed_handoff (hf_project r) (hf_key r) d = Some h"
    "handoff_core h = handoff_core (hr_row v)" "ho_fingerprint h = Some fp"
    and s: "source_lease 0 r d = Some s" "handoff_fingerprint sha r s = Inr fp"
    unfolding offered_as_def by blast
  from k have i: "handoff_inv d'" "queue_inv d'" by (auto simp: coord_inv_def)
  from keyed_handoff_kept [OF h(1) _ i(1)] k obtain g where
    g: "keyed_handoff (hf_project r) (hf_key r) d' = Some g" "handoff_core g = handoff_core h" by blast
  from source_lease_kept [OF s(1) i(2)] k obtain s' where "source_lease 0 r d' = Some s'" "same_source s s'"
    by blast
  with g h s handoff_core_fields(6) [OF g(2)] same_source_fingerprint show ?thesis
    unfolding offered_as_def by metis
qed

interpretation offers: keyed_requests "coord_step sha" coord_inv
  "\<lambda>(t1, t2, t3, t4). offer t1 t2 t3 t4 sha" "offered_as sha" same_handoff for sha
proof
  fix t :: "timestamp \<times> timestamp \<times> timestamp \<times> timestamp" and r x s s'
  assume "(case t of (t1, t2, t3, t4) \<Rightarrow> offer t1 t2 t3 t4 sha) r s = Inr (x, s')" and inv: "coord_inv s"
  then obtain t1 t2 t3 t4 where o': "offer t1 t2 t3 t4 sha r s = Inr (x, s')" by (cases t) auto
  note st = coord_step.offer [OF o']
  show inv': "coord_inv s'" using coord.step_inv st inv by blast
  from offer_result [OF o' inv'] obtain h u fp where
    h: "keyed_handoff (hf_project r) (hf_key r) s' = Some h" "x = handoff_view t4 h" "ho_fingerprint h = Some fp"
    and u: "source_lease t1 r s = Some u" "handoff_fingerprint sha r u = Inr fp" by blast
  from source_lease_kept [OF u(1), of s' 0] inv' coord_step_inv_keeps [OF st inv]
    coord_step_leases [OF st inv] coord_step_instances [OF st]
  obtain u' where u': "source_lease 0 r s' = Some u'" "same_source u u'" by (auto simp: coord_inv_def)
  have "handoff_fingerprint sha r u' = Inr fp" using u(2) same_source_fingerprint [OF u'(2)] by simp
  moreover have "hr_row x = h" by (simp add: h(2) handoff_view_def)
  ultimately show "offered_as sha r x s'" unfolding offered_as_def using h(1,3) u'(1) by blast
next
  fix t :: "timestamp \<times> timestamp \<times> timestamp \<times> timestamp" and r x s
  assume rec: "offered_as sha r x s" and inv: "coord_inv s"
  obtain t1 t2 t3 t4 where t: "t = (t1, t2, t3, t4)" by (cases t)
  from rec obtain h u fp where
    h: "keyed_handoff (hf_project r) (hf_key r) s = Some h" "handoff_core h = handoff_core (hr_row x)"
      "ho_fingerprint h = Some fp"
    and u: "source_lease 0 r s = Some u" "handoff_fingerprint sha r u = Inr fp"
    unfolding offered_as_def by blast
  have "keeps_items s s" "keeps_leases s s" "instance_role s \<subseteq>\<^sub>m instance_role s" "queue_inv s"
    using inv by (auto simp: keeps_items_refl keeps_leases_refl coord_inv_def)
  from source_lease_kept [OF u(1) this(4,1-3), of t1] obtain u' where
    u': "source_lease t1 r s = Some u'" "same_source u u'" by blast
  have row: "handoff_row_of (hf_project r) (ho_id h) s = Some h"
    using keyed_handoffD [OF h(1)] inv by (simp add: handoff_row_of_iff coord_inv_def)
  have fp: "handoff_fingerprint sha r u' = Inr fp" using u(2) same_source_fingerprint [OF u'(2)] by simp
  have "offer t1 t2 t3 t4 sha r s = Inr (handoff_view t4 h, s)"
    unfolding offer_iff offer_tx_def by (simp add: u' fp h row handoff_get_in_def)
  moreover have "same_handoff x (handoff_view t4 h)"
    using h(2) by (simp add: same_handoff_def handoff_view_def)
  ultimately show "\<exists>y. (case t of (t1, t2, t3, t4) \<Rightarrow> offer t1 t2 t3 t4 sha) r s = Inr (y, s) \<and> same_handoff x y"
    unfolding t by auto
next
  show "offered_as sha r x s'" if "coord_step sha s s'" "coord_inv s" "offered_as sha r x s" for s s' r x
    using offered_as_kept [OF that(3,1,2)] .
qed

end
