(* ===== verification/Samples.thy ===== *)
theory Samples
  imports Requests
begin

text \<open>
  A small project, built by the operations themselves, on which the properties of the
  coordination tables are instantiated: two roles with a queue and a running instance each,
  one work item whose task is claimed, offered to the other role, claimed there and
  accepted. \<open>sample_sha\<close> stands in for the hash.
\<close>

definition sample_sha :: "string \<Rightarrow> string" where
  "sample_sha s = filter (\<lambda>c. c \<in> set ''kqw0123456789'') s"

definition no_locks :: "string \<Rightarrow> bool" where
  "no_locks x = False"

definition after :: "('a \<times> db) res \<Rightarrow> db" where
  "after r = (case r of Inl e \<Rightarrow> empty_db | Inr (x, d) \<Rightarrow> d)"

definition succeeds :: "('a \<times> db) res \<Rightarrow> bool" where
  "succeeds r = (case r of Inl e \<Rightarrow> False | Inr x \<Rightarrow> True)"

lemma succeedsD: "succeeds r \<Longrightarrow> \<exists>x. r = Inr (x, after r)"
  by (cases r) (auto simp: succeeds_def after_def)

definition project_db :: db where
  "project_db = empty_db\<lparr>db_projects := [''p''],
     db_roles := [\<lparr>ro_project = ''p'', ro_id = ''dev'', ro_status = ''active''\<rparr>,
                  \<lparr>ro_project = ''p'', ro_id = ''qa'', ro_status = ''active''\<rparr>],
     db_instances := [\<lparr>in_project = ''p'', in_id = ''dev1'', in_role = ''dev'', in_status = ''running''\<rparr>,
                      \<lparr>in_project = ''p'', in_id = ''qa1'', in_role = ''qa'', in_status = ''running''\<rparr>],
     db_works := [\<lparr>wi_project = ''p'', wi_id = ''w'', wi_title = ''T'', wi_status = ''active'',
        wi_owner = Some ''dev'', wi_version = 2, wi_reason = None, wi_evidence = []\<rparr>]\<rparr>"

definition queues_db :: db where
  "queues_db = after (create_queue ''p'' ''qq'' ''qa'' None
     (after (create_queue ''p'' ''qd'' ''dev'' None project_db)))"

definition task :: route_draft where
  "task = \<lparr>rd_project = ''p'', rd_work = ''w'', rd_role = ''dev'', rd_key = ''k1'',
     rd_payload = [(''n'', JInt 1)], rd_capability = None, rd_priority = 5, rd_available = None\<rparr>"

definition routed_db :: db where
  "routed_db = after (route_in_transaction 10 sample_sha task queues_db)"

definition claimed_db :: db where
  "claimed_db = after (claim 20 20 20 no_locks ''l1'' ''t1'' ''p'' ''qd'' ''dev1'' 60 routed_db)"

definition sample_offer :: handoff_offer where
  "sample_offer = \<lparr>hf_project = ''p'', hf_lease = ''l1'', hf_token = ''t1'', hf_role = ''qa'',
     hf_key = ''k2'', hf_summary = ''please test'', hf_payload = [], hf_capability = None,
     hf_priority = 0\<rparr>"

definition offered_db :: db where
  "offered_db = after (offer 30 30 30 30 sample_sha sample_offer claimed_db)"

definition taken_db :: db where
  "taken_db = after (claim 40 40 40 no_locks ''l2'' ''t2'' ''p'' ''qq'' ''qa1'' 60 offered_db)"

definition handed_db :: db where
  "handed_db = after (handoff_claim 50 50 50 50 ''p'' ''handoff-k2'' ''l2'' ''t2'' taken_db)"

definition accepted_db :: db where
  "accepted_db = after (handoff_accept 60 60 60 ''p'' ''handoff-k2'' ''l2'' ''t2'' handed_db)"

text \<open>The same databases as values. Their rows:\<close>

definition dev_item :: "item_status \<Rightarrow> int \<Rightarrow> item_row" where
  "dev_item s n = \<lparr>qi_project = ''p'', qi_id = ''route-k1'', qi_queue = ''qd'', qi_work = ''w'',
     qi_status = s, qi_priority = 5, qi_attempts = n, qi_available = 10,
     qi_payload = [(''n'', JInt 1)], qi_key = ''k1'', qi_created = 10,
     qi_fingerprint = Some ''15wkw''\<rparr>"

definition qa_item :: "item_status \<Rightarrow> int \<Rightarrow> item_row" where
  "qa_item s n = \<lparr>qi_project = ''p'', qi_id = ''route-k2'', qi_queue = ''qq'', qi_work = ''w'',
     qi_status = s, qi_priority = 0, qi_attempts = n, qi_available = 30,
     qi_payload = [(''handoff'', JObj [(''handoff_id'', JStr ''handoff-k2''),
       (''source_role_id'', JStr ''dev''), (''source_instance_id'', JStr ''dev1''),
       (''summary'', JStr ''please test'')]), (''payload'', JObj [])],
     qi_key = ''k2'', qi_created = 30, qi_fingerprint = Some ''k210qwkw''\<rparr>"

definition dev_lease :: lease_row where
  "dev_lease = \<lparr>le_project = ''p'', le_id = ''l1'', le_item = ''route-k1'', le_owner = ''dev1'',
     le_token = ''t1'', le_acquired = 20, le_heartbeat = 20, le_expires = 60000020,
     le_released = None, le_reason = None\<rparr>"

definition qa_lease :: lease_row where
  "qa_lease = \<lparr>le_project = ''p'', le_id = ''l2'', le_item = ''route-k2'', le_owner = ''qa1'',
     le_token = ''t2'', le_acquired = 40, le_heartbeat = 40, le_expires = 60000040,
     le_released = None, le_reason = None\<rparr>"

definition the_handoff :: handoff_row where
  "the_handoff = \<lparr>ho_project = ''p'', ho_id = ''handoff-k2'', ho_work = ''w'', ho_src_role = ''dev'',
     ho_src_instance = Some ''dev1'', ho_src_item = Some ''route-k1'', ho_src_lease = Some ''l1'',
     ho_tgt_role = ''qa'', ho_tgt_instance = None, ho_item = Some ''route-k2'', ho_tgt_lease = None,
     ho_status = Offered, ho_summary = ''please test'', ho_key = ''k2'', ho_offered = 30,
     ho_queued = 30, ho_claimed = None, ho_accepted = None, ho_fingerprint = Some ''011qk1q''\<rparr>"

definition sample_queues :: "queue_row list" where
  "sample_queues = [\<lparr>qu_project = ''p'', qu_id = ''qd'', qu_role = ''dev'', qu_capability = None,
       qu_paused = False\<rparr>,
     \<lparr>qu_project = ''p'', qu_id = ''qq'', qu_role = ''qa'', qu_capability = None, qu_paused = False\<rparr>]"

text \<open>Each call succeeds and yields the database.\<close>

lemma sample_new_queues:
  "succeeds (create_queue ''p'' ''qd'' ''dev'' None project_db)"
  "succeeds (create_queue ''p'' ''qq'' ''qa'' None
     (after (create_queue ''p'' ''qd'' ''dev'' None project_db)))"
  by code_simp+

lemma queues_db_eq [code]: "queues_db = project_db\<lparr>db_queues := sample_queues\<rparr>"
  by code_simp

lemma sample_route: "succeeds (route_in_transaction 10 sample_sha task queues_db)"
  by code_simp

lemma routed_db_eq [code]: "routed_db = queues_db\<lparr>db_items := [dev_item Ready 0]\<rparr>"
  by code_simp

lemma sample_claim: "succeeds (claim 20 20 20 no_locks ''l1'' ''t1'' ''p'' ''qd'' ''dev1'' 60 routed_db)"
  by code_simp

lemma claimed_db_eq [code]:
  "claimed_db = queues_db\<lparr>db_items := [dev_item Leased 1], db_leases := [dev_lease]\<rparr>"
  by code_simp

lemma sample_offered: "succeeds (offer 30 30 30 30 sample_sha sample_offer claimed_db)"
  by code_simp

lemma offered_db_eq [code]:
  "offered_db = queues_db\<lparr>db_items := [dev_item Leased 1, qa_item Ready 0],
     db_leases := [dev_lease], db_handoffs := [the_handoff]\<rparr>"
  by code_simp

lemma sample_taken: "succeeds (claim 40 40 40 no_locks ''l2'' ''t2'' ''p'' ''qq'' ''qa1'' 60 offered_db)"
  by code_simp

lemma taken_db_eq [code]:
  "taken_db = queues_db\<lparr>db_items := [dev_item Leased 1, qa_item Leased 1],
     db_leases := [dev_lease, qa_lease], db_handoffs := [the_handoff]\<rparr>"
  by code_simp

lemma sample_handed: "succeeds (handoff_claim 50 50 50 50 ''p'' ''handoff-k2'' ''l2'' ''t2'' taken_db)"
  by code_simp

lemma handed_db_eq [code]:
  "handed_db = taken_db\<lparr>db_handoffs := [the_handoff\<lparr>ho_status := Claimed,
     ho_tgt_instance := Some ''qa1'', ho_tgt_lease := Some ''l2'', ho_claimed := Some 50\<rparr>]\<rparr>"
  by code_simp

lemma sample_accepted: "succeeds (handoff_accept 60 60 60 ''p'' ''handoff-k2'' ''l2'' ''t2'' handed_db)"
  by code_simp

lemma accepted_db_eq [code]:
  "accepted_db = taken_db\<lparr>db_handoffs := [the_handoff\<lparr>ho_status := Accepted,
     ho_tgt_instance := Some ''qa1'', ho_tgt_lease := Some ''l2'', ho_claimed := Some 50,
     ho_accepted := Some 60\<rparr>]\<rparr>"
  by code_simp

text \<open>They are states of the system.\<close>

lemma project_db_reachable: "reachable sha project_db"
  unfolding reachable_def
  by (intro r_into_rtranclp coord_step.other)
    (auto simp: project_db_def empty_db_def queue_keys_def instance_role_def map_le_def)

lemma queues_db_reachable: "reachable sha queues_db"
  using sample_new_queues [THEN succeedsD] unfolding queues_db_def
  by (blast intro: reachable_step project_db_reachable coord_step.new_queue)

lemma routed_step: "coord_step sample_sha queues_db routed_db"
  using succeedsD [OF sample_route] unfolding routed_db_def by (blast intro: coord_step.route)

lemma claimed_step: "coord_step sha routed_db claimed_db"
  using succeedsD [OF sample_claim] unfolding claimed_db_def by (blast intro: coord_step.claim)

lemma offered_step: "coord_step sample_sha claimed_db offered_db"
  using succeedsD [OF sample_offered] unfolding offered_db_def by (blast intro: coord_step.offer)

lemma taken_step: "coord_step sha offered_db taken_db"
  using succeedsD [OF sample_taken] unfolding taken_db_def by (blast intro: coord_step.claim)

lemma handed_step: "coord_step sha taken_db handed_db"
  using succeedsD [OF sample_handed] unfolding handed_db_def by (blast intro: coord_step.handoff_claim)

lemma accepted_step: "coord_step sha handed_db accepted_db"
  using succeedsD [OF sample_accepted] unfolding accepted_db_def by (blast intro: coord_step.handoff_accept)

lemma routed_db_reachable: "reachable sample_sha routed_db"
  by (rule reachable_step [OF queues_db_reachable routed_step])

lemma claimed_db_reachable: "reachable sample_sha claimed_db"
  by (rule reachable_step [OF routed_db_reachable claimed_step])

lemma offered_db_reachable: "reachable sample_sha offered_db"
  by (rule reachable_step [OF claimed_db_reachable offered_step])

lemma taken_db_reachable: "reachable sample_sha taken_db"
  by (rule reachable_step [OF offered_db_reachable taken_step])

lemma handed_db_reachable: "reachable sample_sha handed_db"
  by (rule reachable_step [OF taken_db_reachable handed_step])

lemma accepted_db_reachable: "reachable sample_sha accepted_db"
  by (rule reachable_step [OF handed_db_reachable accepted_step])

end
