(* ===== verification/QueueProperties.thy ===== *)
theory QueueProperties
  imports Samples
begin

text \<open>
  The properties of queues, routing and handoffs, over the reachable databases of
  \<open>ItemLife\<close>, each with an instance on the databases of \<open>Samples\<close>.
\<close>

section \<open>Items and leases\<close>

text \<open>C1. Every transaction of queues, routing and handoffs implements the abstract life of an
  item: seen from any item, it does nothing or makes exactly one move of
  absent -> waiting -> held -> waiting/held by another/done; a done item has no move.\<close>

theorem item_life_refinement:
  assumes "reachable sha d" and "coord_step sha d d'"
  shows "life d' k = life d k \<or> life_move (life d k) (life d' k)"
  using coord_step_life [OF assms(2) reachable_inv [OF assms(1)]] .

theorem item_life_refinement_witness:
  "life claimed_db (''p'', ''route-k1'') = Held ''l1''
   \<and> life_move (life routed_db (''p'', ''route-k1'')) (life claimed_db (''p'', ''route-k1''))"
proof -
  have "life claimed_db (''p'', ''route-k1'') = Held ''l1''" "life routed_db (''p'', ''route-k1'') = Waiting"
    by code_simp+
  with item_life_refinement [OF routed_db_reachable claimed_step] show ?thesis
    by (metis item_state.distinct(7))
qed

text \<open>C2. Mutual exclusion: an item has status \<open>leased\<close> exactly when one unreleased lease
  points at it, and there is never a second.\<close>

theorem leased_iff_one_live_lease:
  assumes "reachable sha d" and "i \<in> set (db_items d)"
  shows "qi_status i = Leased \<longleftrightarrow>
    (\<exists>!l. l \<in> set (db_leases d) \<and> le_released l = None \<and> lease_item_key l = item_key i)"
proof -
  note inv = reachable_queue_inv [OF assms(1)]
  note Q = queue_invD(4-6) [OF inv, unfolded live_def]
  show ?thesis
  proof
    assume "qi_status i = Leased"
    with Q(2) [OF assms(2)] Q(3) show "\<exists>!l. l \<in> set (db_leases d) \<and> le_released l = None \<and> lease_item_key l = item_key i"
      by metis
  next
    assume "\<exists>!l. l \<in> set (db_leases d) \<and> le_released l = None \<and> lease_item_key l = item_key i"
    then obtain l where l: "l \<in> set (db_leases d)" "le_released l = None" "lease_item_key l = item_key i" by blast
    from Q(1) [OF l(1,2)] obtain j where "j \<in> set (db_items d)" "item_key j = item_key i" "qi_status j = Leased"
      using l(3) by auto
    with item_eq [OF inv _ assms(2)] show "qi_status i = Leased" by blast
  qed
qed

theorem leased_iff_one_live_lease_witness:
  "\<exists>!l. l \<in> set (db_leases taken_db) \<and> le_released l = None \<and> lease_item_key l = item_key (qa_item Leased 1)"
proof -
  have m: "qa_item Leased 1 \<in> set (db_items taken_db)" by (simp add: taken_db_eq)
  have "qi_status (qa_item Leased 1) = Leased" by code_simp
  with leased_iff_one_live_lease [OF taken_db_reachable m] show ?thesis by blast
qed

section \<open>Claiming\<close>

text \<open>Claimable after the sweep: ready, or held by a lease that has lapsed.\<close>

lemma claimable_after_reclaim:
  assumes inv: "queue_inv d" and i: "i \<in> set (db_items d)"
    and e: "qi_status i = Ready \<or> (\<exists>l\<in>set (db_leases d). lapsed t1 p l \<and> lease_item_key l = item_key i)"
    and c: "qi_project i = p" "qi_queue i = q" "qi_available i \<le> t2" "\<not> locked (qi_id i)"
  shows "\<exists>j\<in>set (db_items (reclaim_expired t1 p d)). claimable t2 locked p q j \<and> item_key j = item_key i"
proof -
  let ?D = "\<lambda>i. qi_project i = p \<and> qi_status i = Leased
      \<and> has_row (\<lambda>l. lapsed t1 p l \<and> le_item l = qi_id i) (db_leases d)"
  let ?j = "if ?D i then i\<lparr>qi_status := Ready\<rparr> else i"
  have st: "qi_status ?j = Ready"
  proof (cases "qi_status i = Ready")
    case False
    then obtain l where l: "l \<in> set (db_leases d)" "lapsed t1 p l" "lease_item_key l = item_key i"
      using e by blast
    then have "live l" by (simp add: lapsed_def live_def)
    with queue_invD(4) [OF inv l(1)] l(3) item_eq [OF inv _ i] have "qi_status i = Leased" by metis
    with l c(1) show ?thesis by (auto simp: has_row_iff key_defs)
  qed simp
  have mem: "?j \<in> set (db_items (reclaim_expired t1 p d))"
    using i unfolding reclaim_expired_def by (auto simp: set_upd_where)
  have "claimable t2 locked p q ?j \<and> item_key ?j = item_key i"
    using st c by (auto simp: claimable_def)
  with mem show ?thesis by blast
qed

lemma claim_unfold:
  assumes "strip p = p" "p \<noteq> []" "strip q = q" "q \<noteq> []" "strip inst = inst" "inst \<noteq> []"
    and "lease_seconds_ok secs"
    and "queue_binding p q inst d = Some (role, False, role, ''running'')"
  shows "claim t1 t2 t3 locked lid tok p q inst secs d =
    (let d1 = reclaim_expired t1 p d in case next_item t2 locked p q d1 of
       None \<Rightarrow> Inr (None, d1)
     | Some row \<Rightarrow>
         bindR (insert_lease \<lparr>le_project = p, le_id = lid, le_item = qi_id row, le_owner = inst,
           le_token = tok, le_acquired = t3, le_heartbeat = t3, le_expires = t3 + seconds secs,
           le_released = None, le_reason = None\<rparr> d1) (\<lambda>d2.
         bindR (ensure (int4 (qi_attempts row + 1)) DataError) (\<lambda>_.
         Inr (Some \<lparr>lc_project = p, lc_id = lid, lc_token = tok,
           lc_item = (item_record row)\<lparr>qi_status := Leased, qi_attempts := qi_attempts row + 1\<rparr>,
           lc_owner = inst, lc_acquired = t3, lc_heartbeat = t3,
           lc_expires = t3 + seconds secs\<rparr>, set_leased p (qi_id row) d2))))"
  using assms by (simp add: claim_def required_def)

text \<open>C18. What a claim returns is the first claimable item of the queue in the order priority
  (highest first), availability, creation, id; the answer carries the item as leased with one
  more attempt and the expiry \<open>lease_seconds\<close> after the claim, and the item is held under
  the new lease.\<close>

theorem claim_returns_first:
  assumes "reachable sha d" and "claim t1 t2 t3 locked lid tok p q inst secs d = Inr (Some c, d')"
  shows "\<exists>i. i \<in> set (db_items (reclaim_expired t1 (strip p) d))
    \<and> claimable t2 locked (strip p) (strip q) i
    \<and> (\<forall>j\<in>set (db_items (reclaim_expired t1 (strip p) d)).
          claimable t2 locked (strip p) (strip q) j \<longrightarrow> claim_order i \<le> claim_order j)
    \<and> lc_item c = (item_record i)\<lparr>qi_status := Leased, qi_attempts := qi_attempts i + 1\<rparr>
    \<and> lc_expires c = t3 + secs * 1000000
    \<and> life d' (item_key i) = Held lid"
proof -
  let ?d1 = "reclaim_expired t1 (strip p) d"
  let ?l = "\<lambda>row. \<lparr>le_project = strip p, le_id = lid, le_item = qi_id row, le_owner = strip inst,
      le_token = tok, le_acquired = t3, le_heartbeat = t3, le_expires = t3 + seconds secs,
      le_released = None, le_reason = None\<rparr>"
  have inv1: "queue_inv ?d1" by (rule reclaim_inv [OF reachable_queue_inv [OF assms(1)]])
  from claim_Inr [OF assms(2)] obtain i d2 where
    i: "next_item t2 locked (strip p) (strip q) ?d1 = Some i"
    and ins: "insert_lease (?l i) ?d1 = Inr d2" and d': "d' = set_leased (strip p) (qi_id i) d2"
    and c: "lc_item c = (item_record i)\<lparr>qi_status := Leased, qi_attempts := qi_attempts i + 1\<rparr>"
      "lc_expires c = t3 + secs * 1000000"
    by (auto simp: seconds_def)
  note n = next_item_Some [OF i]
  have row: "i \<in> set (db_items ?d1)" "item_key i = lease_item_key (?l i)" "qi_status i = Ready"
    using n by (auto simp: claimable_def key_defs)
  have l: "live (?l i)" "le_reason (?l i) = None" by (simp_all add: live_def)
  from take_life [OF inv1 ins l row, of "item_key i"] row(2) have "life d' (item_key i) = Held lid"
    by (simp add: Let_def d' key_defs)
  with n c show ?thesis by blast
qed

lemma claim_succeedsD:
  "succeeds r \<Longrightarrow> fst (projr r) \<noteq> None \<Longrightarrow> \<exists>c. r = Inr (Some c, after r)"
  by (cases r) (auto simp: succeeds_def after_def)

theorem claim_returns_first_witness:
  "\<exists>i. i \<in> set (db_items (reclaim_expired 20 ''p'' routed_db))
    \<and> claimable 20 no_locks ''p'' ''qd'' i
    \<and> life claimed_db (item_key i) = Held ''l1''"
proof -
  have "fst (projr (claim 20 20 20 no_locks ''l1'' ''t1'' ''p'' ''qd'' ''dev1'' 60 routed_db)) \<noteq> None"
    by code_simp
  from claim_succeedsD [OF sample_claim this] obtain c where
    "claim 20 20 20 no_locks ''l1'' ''t1'' ''p'' ''qd'' ''dev1'' 60 routed_db = Inr (Some c, claimed_db)"
    unfolding claimed_db_def by blast
  moreover have "strip ''p'' = ''p''" "strip ''qd'' = ''qd''" by code_simp+
  ultimately show ?thesis using claim_returns_first [OF routed_db_reachable] by metis
qed

text \<open>C19. A running instance of the queue's role always gets work when there is some: if an item
  of the queue is due, not locked, and ready or under a lapsed lease, then a claim with a fresh
  lease id and token returns an item (the attempt counters being in the range of the column).\<close>

theorem claim_finds_work:
  assumes "reachable sha d"
    and names: "strip p = p" "p \<noteq> []" "strip q = q" "q \<noteq> []" "strip inst = inst" "inst \<noteq> []"
    and secs: "1 \<le> secs" "secs \<le> 3600"
    and bind: "queue_binding p q inst d = Some (role, False, role, ''running'')"
    and fresh: "\<forall>l\<in>set (db_leases d). (le_project l, le_id l) \<noteq> (p, lid) \<and> le_token l \<noteq> tok"
    and att: "\<forall>i\<in>set (db_items d). 0 \<le> qi_attempts i \<and> qi_attempts i < 2147483647"
    and work: "i \<in> set (db_items d)" "qi_project i = p" "qi_queue i = q" "qi_available i \<le> t2"
      "\<not> locked (qi_id i)"
      "qi_status i = Ready \<or> (\<exists>l\<in>set (db_leases d). lapsed t1 p l \<and> lease_item_key l = item_key i)"
  shows "\<exists>c d'. claim t1 t2 t3 locked lid tok p q inst secs d = Inr (Some c, d')"
proof -
  let ?d1 = "reclaim_expired t1 p d"
  note inv = reachable_queue_inv [OF assms(1)]
  note inv1 = reclaim_inv [OF inv, of t1 p]
  have "next_item t2 locked p q ?d1 \<noteq> None"
    using claimable_after_reclaim [where locked = locked, OF inv work(1,6,2,3,4,5)] by (auto simp: next_item_None)
  then obtain row where row: "next_item t2 locked p q ?d1 = Some row" by blast
  from next_item_Some [OF row] have r: "row \<in> set (db_items ?d1)" "qi_status row = Ready" "qi_project row = p"
    by (auto simp: claimable_def)
  let ?l = "\<lparr>le_project = p, le_id = lid, le_item = qi_id row, le_owner = inst,
      le_token = tok, le_acquired = t3, le_heartbeat = t3, le_expires = t3 + seconds secs,
      le_released = None, le_reason = None\<rparr>"
  have "m \<in> set (db_leases ?d1) \<Longrightarrow> \<exists>l\<in>set (db_leases d). lease_key m = lease_key l \<and> le_token m = le_token l" for m
    by (auto simp: reclaim_expired_def set_upd_where)
  then have "lease_key m \<noteq> lease_key ?l \<and> le_token m \<noteq> le_token ?l" if "m \<in> set (db_leases ?d1)" for m
    using fresh that by (fastforce simp: lease_key_def)
  moreover have "lease_item_key m \<noteq> lease_item_key ?l" if "m \<in> set (db_leases ?d1)" "live m" for m
  proof
    assume "lease_item_key m = lease_item_key ?l"
    then have k: "lease_item_key m = item_key row" using r(3) by (simp add: key_defs)
    from queue_invD(4) [OF inv1 that] obtain j where j: "j \<in> set (db_items ?d1)" "item_key j = item_key row"
      "qi_status j = Leased" unfolding k by blast
    with item_eq [OF inv1 j(1) r(1) j(2)] r(2) show False by simp
  qed
  moreover have "has_row (\<lambda>i. in_project i = p \<and> in_id i = inst) (db_instances ?d1)"
    using bind by (auto simp: queue_binding_def has_row_iff reclaim_expired_def
        split: option.splits dest: fetchone_SomeD)
  ultimately have "insert_lease ?l ?d1 = Inr (?d1\<lparr>db_leases := db_leases ?d1 @ [?l]\<rparr>)"
    unfolding insert_lease_Inr using secs r by (auto simp: seconds_def key_defs)
  moreover have "int4 (qi_attempts row + 1)"
  proof -
    have "\<exists>j\<in>set (db_items d). qi_attempts row = qi_attempts j"
      using r(1) by (auto simp: reclaim_expired_def set_upd_where)
    then show ?thesis using att by (auto simp: int4_def)
  qed
  ultimately show ?thesis
    using claim_unfold [OF names _ bind, of secs] secs row
    by (simp add: lease_seconds_ok_def Let_def)
qed

theorem claim_finds_work_witness:
  "\<exists>c d'. claim 20 20 20 no_locks ''l9'' ''t9'' ''p'' ''qd'' ''dev1'' 60 routed_db = Inr (Some c, d')"
proof (rule claim_finds_work [OF routed_db_reachable, where i = "dev_item Ready 0"])
  show "dev_item Ready 0 \<in> set (db_items routed_db)" by (simp add: routed_db_eq)
qed (code_simp | (rule disjI1, code_simp) | simp)+

text \<open>A claim that finds nothing claimable answers None and still puts the lapsed leases
  back; it never fails for lack of work.\<close>

theorem claim_idle:
  assumes names: "strip p = p" "p \<noteq> []" "strip q = q" "q \<noteq> []" "strip inst = inst" "inst \<noteq> []"
    and secs: "1 \<le> secs" "secs \<le> 3600"
    and bind: "queue_binding p q inst d = Some (role, False, role, ''running'')"
    and idle: "\<forall>i\<in>set (db_items (reclaim_expired t1 p d)). \<not> claimable t2 locked p q i"
  shows "claim t1 t2 t3 locked lid tok p q inst secs d = Inr (None, reclaim_expired t1 p d)"
  using claim_unfold [OF names _ bind, of secs] secs idle [folded next_item_None]
  by (simp add: lease_seconds_ok_def)

theorem claim_idle_witness:
  "claim 50 50 50 no_locks ''l9'' ''t9'' ''p'' ''qd'' ''dev1'' 60 claimed_db
    = Inr (None, reclaim_expired 50 ''p'' claimed_db)"
  by (rule claim_idle) (code_simp | simp)+

section \<open>Fencing\<close>

lemma lock_unfold:
  "lock_active_lease t p lid tok d = Inl e \<Longrightarrow>
     fetchone (\<lambda>l. le_project l = p \<and> le_id l = lid \<and> le_token l = tok \<and> le_released l = None) (db_leases d) = None"
  by (auto simp: lock_active_lease_def monad_simps)

text \<open>C30. Fencing: once a lease is closed (completed, released or reclaimed after it lapsed), it
  stays closed whatever runs afterwards, and its old holder can neither complete nor release
  nor prolong it: each call raises the authorization error and writes nothing.\<close>

theorem closed_lease_is_fenced:
  assumes "reachable sha d" and "l \<in> set (db_leases d)" and "le_released l \<noteq> None"
    and "(coord_step sha)\<^sup>*\<^sup>* d d'"
    and "strip p = le_project l" "strip p \<noteq> []" "strip lid = le_id l" "strip lid \<noteq> []" "strip tok \<noteq> []"
    and "1 \<le> secs" "secs \<le> 3600"
  shows "complete_lease t1 t2 p lid tok d' = (Inl QueueAuthorizationError, d')
    \<and> release_lease t1 t2 p lid tok d' = (Inl QueueAuthorizationError, d')
    \<and> heartbeat t1 t2 p lid tok secs d' = Inl QueueAuthorizationError"
proof -
  have "keeps_leases d d'" using coord_runs_life [OF assms(4) reachable_inv [OF assms(1)]] by blast
  with assms(2,3) have "l \<in> set (db_leases d')" unfolding keeps_leases_def live_def by metis
  then have lock: "lock_active_lease t1 (strip p) (strip lid) x d' = Inl QueueAuthorizationError" for x
    using closed_lease_fenced [OF reachable_inv [OF reachable_runs [OF assms(1,4)]], of l] assms(3,5,7)
    by (simp add: live_def)
  show ?thesis
    using assms(6,8,9,10,11) lock
    by (simp add: complete_lease_def release_lease_def finish_lease_def finish_tx_def heartbeat_def
        required_def Let_def lease_seconds_ok_def)
qed

definition lapsed_db :: db where
  "lapsed_db = after (claim 70000000 70000000 70000000 no_locks ''l3'' ''t3'' ''p'' ''qd'' ''dev1'' 60 claimed_db)"

theorem closed_lease_is_fenced_witness:
  "complete_lease 70000000 70000000 ''p'' ''l1'' ''t1'' lapsed_db = (Inl QueueAuthorizationError, lapsed_db)"
proof -
  have s: "succeeds (claim 70000000 70000000 70000000 no_locks ''l3'' ''t3'' ''p'' ''qd'' ''dev1'' 60 claimed_db)"
    by code_simp
  then have r: "reachable sample_sha lapsed_db"
    unfolding lapsed_db_def
    by (metis claimed_db_reachable coord_step.claim reachable_step succeedsD)
  let ?l = "dev_lease\<lparr>le_released := Some 70000000, le_reason := Some ''expired''\<rparr>"
  have l: "?l = hd (db_leases lapsed_db)" "le_released ?l \<noteq> None" "db_leases lapsed_db \<noteq> []" by code_simp+
  then have m: "?l \<in> set (db_leases lapsed_db)" by (metis hd_in_set)
  have n: "strip ''p'' = le_project ?l" "strip ''p'' \<noteq> []" "strip ''l1'' = le_id ?l" "strip ''l1'' \<noteq> []"
    "strip ''t1'' \<noteq> []" by code_simp+
  show ?thesis
    using closed_lease_is_fenced [OF r m l(2) rtranclp.rtrancl_refl n, where secs = 1] by simp
qed

text \<open>A holder whose lease has expired is told so: completing, releasing and prolonging
  raise \<open>LeaseExpired\<close> from the instant of expiry on, and write nothing.\<close>

theorem expired_lease_refused:
  assumes "reachable sha d" and "l \<in> set (db_leases d)" and "le_released l = None"
    and "le_expires l \<le> t1"
    and "strip p = le_project l" "strip p \<noteq> []" "strip lid = le_id l" "strip lid \<noteq> []"
      "strip tok = le_token l" "strip tok \<noteq> []"
    and "1 \<le> secs" "secs \<le> 3600"
  shows "complete_lease t1 t2 p lid tok d = (Inl LeaseExpired, d)
    \<and> release_lease t1 t2 p lid tok d = (Inl LeaseExpired, d)
    \<and> heartbeat t1 t2 p lid tok secs d = Inl LeaseExpired"
proof -
  have "fetchone (\<lambda>m. le_project m = strip p \<and> le_id m = strip lid \<and> le_token m = strip tok
      \<and> le_released m = None) (db_leases d) = Some l"
    by (rule fetchone_unique [where k = lease_key, OF queue_invD(2) [OF reachable_queue_inv [OF assms(1)]]
          assms(2)]) (use assms in \<open>auto simp: lease_key_def\<close>)
  then have "lock_active_lease t1 (strip p) (strip lid) (strip tok) d = Inr (l, True)"
    using assms(4) by (simp add: lock_active_lease_def)
  with assms(6,8,10,11,12) show ?thesis
    by (simp add: complete_lease_def release_lease_def finish_lease_def finish_tx_def heartbeat_def
        required_def Let_def lease_seconds_ok_def)
qed

theorem expired_lease_refused_witness:
  "complete_lease 60000020 60000020 ''p'' ''l1'' ''t1'' claimed_db = (Inl LeaseExpired, claimed_db)"
proof -
  have l: "dev_lease \<in> set (db_leases claimed_db)" by (simp add: claimed_db_eq)
  show ?thesis
    using expired_lease_refused [OF claimed_db_reachable l, where p = "''p''" and lid = "''l1''"
        and tok = "''t1''" and ?t1.0 = 60000020 and secs = 1]
    by (simp add: dev_lease_def strip_def lstrip_def py_space_def)
qed

section \<open>Nothing is lost\<close>

text \<open>No item is ever lost or changed behind its holder's back: after any run it is still
  there with the same queue, work, payload and key, its attempt count has not gone down, and
  if it was finished it is exactly as it was.\<close>

theorem items_are_kept:
  assumes "reachable sha d" and "(coord_step sha)\<^sup>*\<^sup>* d d'" and "i \<in> set (db_items d)"
  shows "\<exists>j\<in>set (db_items d'). item_core j = item_core i \<and> qi_attempts i \<le> qi_attempts j
    \<and> (qi_status i = Finished \<longrightarrow> j = i)"
  using coord_runs_keep [OF assms(2) reachable_inv [OF assms(1)]] assms(3)
  unfolding keeps_items_def by blast

theorem items_are_kept_witness:
  "\<exists>j\<in>set (db_items claimed_db). item_core j = item_core (dev_item Ready 0)"
proof -
  have m: "dev_item Ready 0 \<in> set (db_items routed_db)" by (simp add: routed_db_eq)
  show ?thesis
    using items_are_kept [OF routed_db_reachable r_into_rtranclp [of "coord_step sample_sha", OF claimed_step] m] by blast
qed

text \<open>C28. The source of a handoff is not finished before the handoff is accepted: in every
  reachable state its item exists and is unfinished.\<close>

theorem source_waits_for_acceptance:
  assumes "reachable sha d" and "h \<in> set (db_handoffs d)" and "ho_status h \<noteq> Accepted"
  shows "\<exists>i\<in>set (db_items d). qi_project i = ho_project h \<and> ho_src_item h = Some (qi_id i)
    \<and> qi_status i \<noteq> Finished"
  using reachable_inv [OF assms(1)] assms(2,3) by (auto simp: coord_inv_def handoff_inv_def)

theorem source_waits_for_acceptance_witness:
  "\<exists>i\<in>set (db_items offered_db). qi_project i = ho_project the_handoff
     \<and> ho_src_item the_handoff = Some (qi_id i) \<and> qi_status i \<noteq> Finished"
  by (rule source_waits_for_acceptance [OF offered_db_reachable])
    (simp_all add: offered_db_eq the_handoff_def)

text \<open>Completing the source of a handoff nobody has accepted raises a conflict and writes
  nothing, even for the rightful holder of an unexpired lease.\<close>

theorem completion_needs_acceptance:
  assumes "reachable sha d" and "h \<in> set (db_handoffs d)" and "ho_status h \<noteq> Accepted"
    and "l \<in> set (db_leases d)" and "le_released l = None" and "t1 < le_expires l"
    and "le_project l = ho_project h" and "ho_src_item h = Some (le_item l)"
    and "strip p = le_project l" "strip p \<noteq> []" "strip lid = le_id l" "strip lid \<noteq> []"
      "strip tok = le_token l" "strip tok \<noteq> []"
  shows "complete_lease t1 t2 p lid tok d = (Inl QueueConflict, d)"
proof -
  have "fetchone (\<lambda>m. le_project m = strip p \<and> le_id m = strip lid \<and> le_token m = strip tok
      \<and> le_released m = None) (db_leases d) = Some l"
    by (rule fetchone_unique [where k = lease_key, OF queue_invD(2) [OF reachable_queue_inv [OF assms(1)]]
          assms(4)]) (use assms in \<open>auto simp: lease_key_def\<close>)
  then have "lock_active_lease t1 (strip p) (strip lid) (strip tok) d = Inr (l, False)"
    using assms(6) by (simp add: lock_active_lease_def)
  moreover have "open_handoff (strip p) (le_item l) d"
    using assms by (auto simp: open_handoff_def has_row_iff)
  ultimately show ?thesis
    using assms(10,12,14) by (simp add: complete_lease_def finish_lease_def finish_tx_def required_def Let_def)
qed

theorem completion_needs_acceptance_witness:
  "complete_lease 40 40 ''p'' ''l1'' ''t1'' offered_db = (Inl QueueConflict, offered_db)"
  by (rule completion_needs_acceptance [OF offered_db_reachable, where h = the_handoff and l = dev_lease])
    (simp_all add: offered_db_eq the_handoff_def dev_lease_def strip_def lstrip_def py_space_def)

section \<open>Handoffs\<close>

text \<open>C29. A handoff moves only forward (offered, claimed, accepted), keeps what it was offered
  with, and once accepted never changes, whatever runs afterwards.\<close>

theorem handoffs_move_forward:
  assumes "reachable sha d" and "(coord_step sha)\<^sup>*\<^sup>* d d'" and "h \<in> set (db_handoffs d)"
  shows "\<exists>g\<in>set (db_handoffs d'). handoff_core g = handoff_core h
    \<and> handoff_rank (ho_status h) \<le> handoff_rank (ho_status g)
    \<and> (ho_status h = Accepted \<longrightarrow> g = h)"
  using coord_runs_keep [OF assms(2) reachable_inv [OF assms(1)]] assms(3)
  unfolding keeps_handoffs_def by blast

theorem handoffs_move_forward_witness:
  "\<exists>g\<in>set (db_handoffs taken_db). handoff_core g = handoff_core the_handoff"
proof -
  have "the_handoff \<in> set (db_handoffs offered_db)" by (simp add: offered_db_eq)
  from handoffs_move_forward [OF offered_db_reachable
      r_into_rtranclp [of "coord_step sample_sha", OF taken_step] this]
  show ?thesis by blast
qed

text \<open>A claimed handoff cannot be taken away while the lease that claimed it is live and
  unexpired: another lease gets a conflict, or is refused for lack of authority.\<close>

theorem handoff_not_stolen:
  assumes "handoff_row_of p h d = Some row" and "ho_status row = Claimed"
    and "ho_tgt_lease row = Some m" and "m \<noteq> lid"
    and "has_row (\<lambda>l. le_project l = p \<and> le_id l = m \<and> le_released l = None \<and> t2 < le_expires l) (db_leases d)"
    and "transition_identifiers p h lid tok = Inr (p, h, lid, tok)"
  shows "handoff_claim t1 t2 t3 t4 p h lid tok d \<in> {Inl HandoffConflict, Inl HandoffAuthorizationError}"
proof (cases "active_target_lease t1 row lid tok d")
  case None
  with assms(1,2,6) show ?thesis by (simp add: handoff_claim_def handoff_claim_tx_def handoff_wrap_def)
next
  case (Some lease)
  have "has_row (\<lambda>l. le_project l = p \<and> Some (le_id l) = ho_tgt_lease row \<and> le_released l = None
      \<and> t2 < le_expires l) (db_leases d)" using assms(3,5) by (auto simp: has_row_iff)
  with Some assms show ?thesis by (simp add: handoff_claim_def handoff_claim_tx_def handoff_wrap_def)
qed

theorem handoff_not_stolen_witness:
  "handoff_claim 55 55 55 55 ''p'' ''handoff-k2'' ''l7'' ''t7'' handed_db
     \<in> {Inl HandoffConflict, Inl HandoffAuthorizationError}"
proof (rule handoff_not_stolen)
  show "handoff_row_of ''p'' ''handoff-k2'' handed_db = Some (hd (db_handoffs handed_db))"
    "ho_status (hd (db_handoffs handed_db)) = Claimed"
    "ho_tgt_lease (hd (db_handoffs handed_db)) = Some ''l2''" "''l2'' \<noteq> ''l7''" by code_simp+
qed code_simp+

text \<open>Acceptance is by the claimant: when \<open>accept\<close> succeeds, the handoff was claimed by
  exactly this lease, which was live with the right token (or the acceptance had already been
  recorded for it and nothing changes), and afterwards the handoff is accepted under it.\<close>

theorem accepted_by_claimant:
  assumes "reachable sha d" and "transition_identifiers p h lid tok = Inr (p, h, lid, tok)"
    and "handoff_accept t1 t2 t4 p h lid tok d = Inr (v, d')"
  shows "\<exists>row. handoff_row_of p h d = Some row \<and> ho_tgt_lease row = Some lid
    \<and> (ho_status row = Accepted \<and> d' = d
       \<or> ho_status row = Claimed \<and> active_target_lease t1 row lid tok d \<noteq> None)
    \<and> ho_status (hr_row v) = Accepted \<and> ho_tgt_lease (hr_row v) = Some lid
    \<and> handoff_row_of p h d' = Some (hr_row v)"
proof -
  have tx: "handoff_accept_tx t1 t2 t4 p h lid tok d = Inr (v, d')"
    using assms(2,3) by (simp add: handoff_accept_def monad_simps)
  then obtain row where row: "handoff_row_of p h d = Some row" "ho_tgt_lease row = Some lid"
    "ho_status row \<noteq> Offered"
    by (auto simp: handoff_accept_tx_def monad_simps)
  have v: "\<exists>r. handoff_row_of p h d' = Some r \<and> v = handoff_view t4 r"
    using tx row by (auto simp: handoff_accept_tx_def monad_simps split: if_splits)
  show ?thesis
  proof (cases "ho_status row = Accepted")
    case True
    then have "d' = d" using tx row by (auto simp: handoff_accept_tx_def monad_simps)
    with True row v show ?thesis by (auto simp: handoff_view_def)
  next
    case False
    with row(3) have st: "ho_status row = Claimed" by (cases "ho_status row") auto
    with tx row obtain l where l: "active_target_lease t1 row lid tok d = Some l"
      and up: "update_handoff p h (\<lambda>r. r\<lparr>ho_status := Accepted, ho_accepted := Some t2\<rparr>) d = Inr d'"
      by (auto simp: handoff_accept_tx_def monad_simps)
    have "handoff_row_of p h d' = Some (row\<lparr>ho_status := Accepted, ho_accepted := Some t2\<rparr>)"
      using up row(1) handoff_row_ofD [OF row(1)]
      by (auto simp: update_handoff_Inr handoff_row_of_def fetchone_upd_where)
    with st l row v show ?thesis by (auto simp: handoff_view_def)
  qed
qed

theorem accepted_by_claimant_witness:
  "\<exists>v :: handoff_record. ho_status (hr_row v) = Accepted \<and> handoff_row_of ''p'' ''handoff-k2'' accepted_db = Some (hr_row v)"
proof -
  have i: "transition_identifiers ''p'' ''handoff-k2'' ''l2'' ''t2'' = Inr (''p'', ''handoff-k2'', ''l2'', ''t2'')"
    by code_simp
  obtain v where a: "handoff_accept 60 60 60 ''p'' ''handoff-k2'' ''l2'' ''t2'' handed_db = Inr (v, accepted_db)"
    using succeedsD [OF sample_accepted] unfolding accepted_db_def by blast
  from accepted_by_claimant [OF handed_db_reachable i a] show ?thesis by blast
qed

section \<open>Retries\<close>

text \<open>Routing is idempotent: once a request has been routed, the same request at any later
  time, after any transactions of the system, returns the same item (up to its status and
  attempts) and writes nothing.\<close>

theorem route_is_idempotent:
  assumes "reachable sha d" and "route_in_transaction t sha r d = Inr (x, d1)"
    and "(coord_step sha)\<^sup>*\<^sup>* d1 d2"
  shows "\<exists>y. route_in_transaction t' sha r d2 = Inr (y, d2) \<and> same_item x y"
  using routes.replay_after_runs [OF assms(2) reachable_inv [OF assms(1)] assms(3)] .

theorem route_is_idempotent_witness:
  "\<exists>y. route_in_transaction 99 sample_sha task claimed_db = Inr (y, claimed_db)"
proof -
  obtain x where "route_in_transaction 10 sample_sha task queues_db = Inr (x, routed_db)"
    using succeedsD [OF sample_route] unfolding routed_db_def by blast
  from route_is_idempotent [OF queues_db_reachable this r_into_rtranclp [of "coord_step sample_sha", OF claimed_step]]
  show ?thesis by blast
qed

text \<open>C31. The same holds of offering a handoff: the same offer under the same lease, at any
  later time, returns the handoff first recorded (up to its progress) and writes nothing.\<close>

theorem offer_is_idempotent:
  assumes "reachable sha d" and "offer t1 t2 t3 t4 sha r d = Inr (v, d1)"
    and "(coord_step sha)\<^sup>*\<^sup>* d1 d2"
  shows "\<exists>w. offer u1 u2 u3 u4 sha r d2 = Inr (w, d2) \<and> handoff_core (hr_row v) = handoff_core (hr_row w)"
  using offers.replay_after_runs [of sha "(t1, t2, t3, t4)" r d v d1 d2 "(u1, u2, u3, u4)"] assms(2,3)
    reachable_inv [OF assms(1)] by (simp add: same_handoff_def)

theorem offer_is_idempotent_witness:
  "\<exists>w. offer 99 99 99 99 sample_sha sample_offer taken_db = Inr (w, taken_db)"
proof -
  obtain v where "offer 30 30 30 30 sample_sha sample_offer claimed_db = Inr (v, offered_db)"
    using succeedsD [OF sample_offered] unfolding offered_db_def by blast
  from offer_is_idempotent [OF claimed_db_reachable this r_into_rtranclp [of "coord_step sample_sha", OF taken_step]]
  show ?thesis by blast
qed

text \<open>A key already used for other work (another fingerprint, or an item enqueued
  directly) is refused with a conflict, and the database is not touched.\<close>

theorem route_key_conflict:
  assumes "reachable sha d" and "i \<in> set (db_items d)" and "qi_project i = rd_project r"
    and "qi_key i = rd_key r" and "route_fingerprint sha r = Inr fp" and "qi_fingerprint i \<noteq> Some fp"
  shows "route t sha r d = Inl RoutingConflict"
proof -
  have "items_ok d" using reachable_inv [OF assms(1)] by (simp add: coord_inv_def)
  then have "keyed_item (rd_project r) (rd_key r) d = Some i"
    using assms(2-4) by (simp add: keyed_item_iff)
  from route_conflict [OF this assms(5,6)] show ?thesis by (simp add: route_def routing_violation_def)
qed

theorem route_key_conflict_witness:
  "route 99 sample_sha (task\<lparr>rd_priority := 6\<rparr>) routed_db = Inl RoutingConflict"
proof (rule route_key_conflict [OF routed_db_reachable, where i = "dev_item Ready 0"
      and fp = "projr (route_fingerprint sample_sha (task\<lparr>rd_priority := 6\<rparr>))"])
  show "dev_item Ready 0 \<in> set (db_items routed_db)" by (simp add: routed_db_eq)
qed (code_simp+)

end
