(* ===== verification/FlowDefinition.thy ===== *)
theory FlowDefinition
  imports PyJson Store "HOL-Library.Sublist"
begin

text \<open>
  \<open>flow_definition.py\<close>: a delivery flow is a graph of states, each owned by a role, with
  the obligations to meet in a state and the routes out of it. The definition is validated
  as a whole: routes lead to existing states of the right owner, no two routes of a state
  can match the same outcome, terminal states and dead ends agree, every state is reachable.
  All failures are \<open>FlowDefinitionError\<close>.
\<close>

section \<open>The data\<close>

record condition =
  co_field :: string
  co_values :: "string list"

record flow_action =
  ac_id :: string
  ac_kind :: obligation_kind
  ac_role :: string
  ac_payload :: "(string \<times> json) list"
  ac_when :: "condition option"

record flow_route =
  ft_id :: string
  ft_outcome :: string
  ft_state :: string
  ft_role :: string
  ft_when :: "condition option"

record flow_state =
  fs_id :: string
  fs_owner :: string
  fs_purpose :: string
  fs_artifact :: string
  fs_consults :: "flow_action list"
  fs_gates :: "flow_action list"
  fs_informs :: "flow_action list"
  fs_routes :: "flow_route list"
  fs_terminal :: bool

record flow_definition =
  fd_id :: string
  fd_leader :: string
  fd_entry :: string
  fd_terminals :: "string list"
  fd_states :: "(string \<times> flow_state) list"
  fd_snapshot :: json
  fd_digest :: string

section \<open>Conditions, obligations, routes\<close>

definition matches :: "condition \<Rightarrow> (string \<times> json) list \<Rightarrow> bool" where
  "matches c fv = (case as_str (get fv (co_field c)) of
     None \<Rightarrow> False | Some v \<Rightarrow> v \<in> set (co_values c))"

definition applies :: "condition option \<Rightarrow> (string \<times> json) list \<Rightarrow> bool" where
  "applies c fv = (case c of None \<Rightarrow> True | Some c \<Rightarrow> matches c fv)"

definition route_matches :: "string \<Rightarrow> (string \<times> json) list \<Rightarrow> flow_route \<Rightarrow> bool" where
  "route_matches outcome fv r = (ft_outcome r = outcome \<and> applies (ft_when r) fv)"

text \<open>\<open>FlowState.obligations\<close>: the artifact first, then what applies of the consults, gates
  and informs.\<close>

definition artifact_action :: "flow_state \<Rightarrow> flow_action" where
  "artifact_action s = \<lparr>ac_id = ''artifact'', ac_kind = KArtifact, ac_role = fs_owner s,
     ac_payload = [(''path'', JStr (fs_artifact s))], ac_when = None\<rparr>"

definition state_obligations :: "flow_state \<Rightarrow> (string \<times> json) list \<Rightarrow> flow_action list" where
  "state_obligations s fv = artifact_action s
     # filter (\<lambda>a. applies (ac_when a) fv) (fs_consults s @ fs_gates s @ fs_informs s)"

definition select_route :: "flow_state \<Rightarrow> string \<Rightarrow> (string \<times> json) list \<Rightarrow> flow_route res" where
  "select_route s outcome fv = (case filter (route_matches outcome fv) (fs_routes s) of
     [r] \<Rightarrow> Inr r | _ \<Rightarrow> Inl FlowDefinitionError)"

definition flow_state_of :: "flow_definition \<Rightarrow> string \<Rightarrow> flow_state res" where
  "flow_state_of f s = of_row FlowDefinitionError (map_of (fd_states f) s)"

section \<open>Parsing\<close>

text \<open>The identifier pattern of flows: \<^verbatim>\<open>^[a-z][a-z0-9_-]{0,127}$\<close>.\<close>

definition flow_ident_char :: "char \<Rightarrow> bool" where
  "flow_ident_char c = (lower_char c \<or> digit_char c \<or> c = CHR ''_'' \<or> c = CHR ''-'')"

definition flow_ident_ok :: "string \<Rightarrow> bool" where
  "flow_ident_ok s = (case s of [] \<Rightarrow> False
     | c # cs \<Rightarrow> lower_char c \<and> length cs \<le> 127 \<and> list_all flow_ident_char cs)"

definition flow_ident :: "json \<Rightarrow> string res" where
  "flow_ident v = bindR (of_row FlowDefinitionError (as_str v)) (\<lambda>s.
     if flow_ident_ok s then Inr s else Inl FlowDefinitionError)"

definition flow_required :: "json \<Rightarrow> string res" where
  "flow_required v = bindR (of_row FlowDefinitionError (as_str v)) (\<lambda>s.
     if strip s = [] \<or> length s > 4000 then Inl FlowDefinitionError else Inr (strip s))"

definition flow_string_list :: "json \<Rightarrow> string list res" where
  "flow_string_list v = bindR (of_row FlowDefinitionError (as_list v)) (\<lambda>l.
     bindR (ensure (l \<noteq> []) FlowDefinitionError) (\<lambda>_.
     bindR (mapR flow_ident l) (\<lambda>r.
     bindR (ensure (distinct r) FlowDefinitionError) (\<lambda>_. Inr r))))"

definition flow_condition :: "json \<Rightarrow> condition option res" where
  "flow_condition v = (if v = JNull then Inr None
     else bindR (of_row FlowDefinitionError (as_obj v)) (\<lambda>m. case m of
       [(f, vs)] \<Rightarrow> bindR (flow_ident (JStr f)) (\<lambda>f. bindR (flow_string_list vs) (\<lambda>vs.
          Inr (Some \<lparr>co_field = f, co_values = vs\<rparr>)))
     | _ \<Rightarrow> Inl FlowDefinitionError))"

definition kind_text :: "obligation_kind \<Rightarrow> string" where
  "kind_text k = (case k of KArtifact \<Rightarrow> ''artifact'' | KConsult \<Rightarrow> ''consult''
     | KGate \<Rightarrow> ''gate'' | KInform \<Rightarrow> ''inform'')"

text \<open>\<open>_actions\<close>: the role key of a gate is \<open>reviewer_role\<close> or \<open>requested_from\<close> (not both),
  of the others \<open>role\<close>; the role defaults to the owner and the id to kind and position.\<close>

definition action_role_key :: "obligation_kind \<Rightarrow> (string \<times> json) list \<Rightarrow> string res" where
  "action_role_key k raw = (if k = KGate
     then (case filter (\<lambda>key. map_of raw key \<noteq> None) [''reviewer_role'', ''requested_from''] of
         [] \<Rightarrow> Inr ''reviewer_role'' | [key] \<Rightarrow> Inr key | _ \<Rightarrow> Inl FlowDefinitionError)
     else Inr ''role'')"

definition parse_action :: "obligation_kind \<Rightarrow> string \<Rightarrow> nat \<Rightarrow> json \<Rightarrow> flow_action res" where
  "parse_action k owner index v =
     bindR (of_row FlowDefinitionError (as_obj v)) (\<lambda>raw.
     bindR (action_role_key k raw) (\<lambda>key.
     bindR (flow_ident (get_or raw key (JStr owner))) (\<lambda>role.
     bindR (flow_ident (get_or raw ''id'' (JStr (kind_text k @ ''-'' @ dec_nat (index + 1))))) (\<lambda>i.
     bindR (flow_condition (get raw ''when'')) (\<lambda>c.
     Inr \<lparr>ac_id = i, ac_kind = k, ac_role = role,
       ac_payload = filter (\<lambda>(key, _). key \<noteq> ''when'') raw, ac_when = c\<rparr>)))))"

definition flow_actions :: "json \<Rightarrow> obligation_kind \<Rightarrow> string \<Rightarrow> flow_action list res" where
  "flow_actions v k owner = bindR (of_row FlowDefinitionError (as_list v)) (\<lambda>l.
     mapR (\<lambda>(i, raw). parse_action k owner i raw) (enumerate 0 l))"

definition parse_route :: "json \<Rightarrow> flow_route res" where
  "parse_route v = bindR (of_row FlowDefinitionError (as_obj v)) (\<lambda>raw.
     bindR (flow_ident (get raw ''id'')) (\<lambda>i. bindR (flow_ident (get raw ''outcome'')) (\<lambda>out.
     bindR (flow_ident (get raw ''target_state'')) (\<lambda>s. bindR (flow_ident (get raw ''target_role'')) (\<lambda>r.
     bindR (flow_condition (get raw ''when'')) (\<lambda>c.
     Inr \<lparr>ft_id = i, ft_outcome = out, ft_state = s, ft_role = r, ft_when = c\<rparr>))))))"

definition flow_routes :: "json \<Rightarrow> flow_route list res" where
  "flow_routes v = bindR (of_row FlowDefinitionError (as_list v)) (mapR parse_route)"

definition as_bool :: "json \<Rightarrow> bool option" where
  "as_bool v = (case v of JBool b \<Rightarrow> Some b | _ \<Rightarrow> None)"

definition artifact_ok :: "string \<Rightarrow> bool" where
  "artifact_ok a = (sublist ''{work_item_id}'' a
     \<and> (case a of [] \<Rightarrow> True | c # _ \<Rightarrow> c \<noteq> CHR ''/'' \<and> c \<noteq> char_of (92::nat)))"

text \<open>The ids of a state share one name space.\<close>

definition state_ids :: "flow_action list \<Rightarrow> flow_action list \<Rightarrow> flow_action list \<Rightarrow> flow_route list \<Rightarrow>
    string list" where
  "state_ids consults gates informs routes =
     ''artifact'' # map ac_id (consults @ gates @ informs) @ map ft_id routes"

definition parse_state :: "string \<Rightarrow> json \<Rightarrow> flow_state res" where
  "parse_state sid v = bindR (of_row FlowDefinitionError (as_obj v)) (\<lambda>m.
     bindR (flow_ident (get m ''owner_role'')) (\<lambda>owner.
     bindR (flow_required (get m ''purpose'')) (\<lambda>purpose.
     bindR (flow_required (get m ''artifact'')) (\<lambda>artifact.
     bindR (ensure (artifact_ok artifact) FlowDefinitionError) (\<lambda>_.
     bindR (flow_actions (get_or m ''consults'' (JList [])) KConsult owner) (\<lambda>consults.
     bindR (flow_actions (get_or m ''gates'' (JList [])) KGate owner) (\<lambda>gates.
     bindR (flow_actions (get_or m ''informs'' (JList [])) KInform owner) (\<lambda>informs.
     bindR (flow_routes (get_or m ''routes'' (JList []))) (\<lambda>routes.
     bindR (ensure (distinct (state_ids consults gates informs routes)) FlowDefinitionError) (\<lambda>_.
     bindR (of_row FlowDefinitionError (as_bool (get m ''terminal''))) (\<lambda>terminal.
     Inr \<lparr>fs_id = sid, fs_owner = owner, fs_purpose = purpose, fs_artifact = artifact,
       fs_consults = consults, fs_gates = gates, fs_informs = informs, fs_routes = routes,
       fs_terminal = terminal\<rparr>)))))))))))"

section \<open>Validation of the graph\<close>

text \<open>\<open>_reject_overlapping_routes\<close>: two routes of the same outcome overlap unless both have
  a condition on the same field with disjoint values.\<close>

definition conditions_overlap :: "condition option \<Rightarrow> condition option \<Rightarrow> bool" where
  "conditions_overlap l r = (case (l, r) of
     (Some a, Some b) \<Rightarrow> co_field a \<noteq> co_field b \<or> list_ex (\<lambda>v. v \<in> set (co_values b)) (co_values a)
   | _ \<Rightarrow> True)"

fun no_overlaps :: "flow_route list \<Rightarrow> bool" where
  "no_overlaps [] = True"
| "no_overlaps (r # rs) = (list_all (\<lambda>o'. ft_outcome r = ft_outcome o' \<longrightarrow>
     \<not> conditions_overlap (ft_when r) (ft_when o')) rs \<and> no_overlaps rs)"

definition check_state :: "(string \<times> flow_state) list \<Rightarrow> flow_state \<Rightarrow> bool" where
  "check_state states s = ((fs_terminal s \<longrightarrow> fs_routes s = []) \<and> (\<not> fs_terminal s \<longrightarrow> fs_routes s \<noteq> [])
     \<and> list_all (\<lambda>r. case map_of states (ft_state r) of None \<Rightarrow> False
          | Some target \<Rightarrow> fs_owner target = ft_role r) (fs_routes s)
     \<and> no_overlaps (fs_routes s))"

text \<open>The reachability loop: \<open>pending\<close> is a stack (\<open>pop\<close> and \<open>append\<close> at the same end).\<close>

definition targets :: "(string \<times> flow_state) list \<Rightarrow> string \<Rightarrow> string list" where
  "targets states s = (case map_of states s of None \<Rightarrow> [] | Some st \<Rightarrow> map ft_state (fs_routes st))"

fun visit :: "string list \<Rightarrow> string list \<times> string list \<Rightarrow> string list \<times> string list" where
  "visit [] rp = rp"
| "visit (t # ts) (reached, pending) =
     visit ts (if t \<in> set reached then (reached, pending) else (t # reached, t # pending))"

definition all_targets :: "(string \<times> flow_state) list \<Rightarrow> string set" where
  "all_targets states = (\<Union>(_, s) \<in> set states. ft_state ` set (fs_routes s))"

lemma finite_all_targets [simp]: "finite (all_targets states)"
  by (auto simp: all_targets_def)

lemma targets_sub: "set (targets states s) \<subseteq> all_targets states"
proof (cases "map_of states s")
  case (Some st)
  then have "(s, st) \<in> set states" by (rule map_of_SomeD)
  with Some show ?thesis by (auto simp: targets_def all_targets_def intro!: bexI [of _ "(s, st)"])
qed (simp add: targets_def)

lemma visit_measure:
  assumes "set ts \<subseteq> U" "finite U" "visit ts (reached, pending) = (reached', pending')"
  shows "2 * card (U - set reached') + length pending' \<le> 2 * card (U - set reached) + length pending"
  using assms
proof (induction ts arbitrary: reached pending)
  case (Cons t ts)
  show ?case
  proof (cases "t \<in> set reached")
    case False
    then have "card (U - set (t # reached)) < card (U - set reached)"
      using Cons.prems by (intro psubset_card_mono) auto
    with False Cons.IH [of "t # reached" "t # pending"] Cons.prems show ?thesis by auto
  qed (use Cons in auto)
qed simp

function explore :: "(string \<times> flow_state) list \<Rightarrow> string list \<Rightarrow> string list \<Rightarrow> string list" where
  "explore states reached [] = reached"
| "explore states reached (s # pending) =
     (let (reached', pending') = visit (targets states s) (reached, pending)
      in explore states reached' pending')"
  by pat_completeness auto
termination
proof (relation "measure (\<lambda>(states, reached, pending).
    2 * card (all_targets states - set reached) + length pending)")
  fix states reached s pending xy reached' pending'
  assume "xy = visit (targets states s) (reached, pending)" "(reached', pending') = xy"
  then have "visit (targets states s) (reached, pending) = (reached', pending')" by simp
  from visit_measure [OF targets_sub finite_all_targets this]
  show "((states, reached', pending'), states, reached, s # pending)
    \<in> measure (\<lambda>(states, reached, pending). 2 * card (all_targets states - set reached) + length pending)"
    by simp
qed simp

definition hex64 :: "string \<Rightarrow> bool" where
  "hex64 s = (length s = 64 \<and> list_all (\<lambda>c. digit_char c \<or> c \<in> set ''abcdef'') s)"

definition same_set :: "string list \<Rightarrow> string list \<Rightarrow> bool" where
  "same_set xs ys = (list_all (\<lambda>x. x \<in> set ys) xs \<and> list_all (\<lambda>y. y \<in> set xs) ys)"

definition validate_flow :: "json \<Rightarrow> string \<Rightarrow> flow_definition res" where
  "validate_flow v digest =
     bindR (of_row FlowDefinitionError (as_obj v)) (\<lambda>m.
     bindR (ensure (eq_int (get m ''schema_version'') 1) FlowDefinitionError) (\<lambda>_.
     bindR (flow_ident (get m ''flow_id'')) (\<lambda>fid.
     bindR (flow_ident (get m ''leader_role'')) (\<lambda>leader.
     bindR (flow_ident (get m ''entry_state'')) (\<lambda>entry.
     bindR (flow_string_list (get m ''terminal_states'')) (\<lambda>terminals.
     bindR (of_row FlowDefinitionError (as_obj (get m ''states''))) (\<lambda>raw.
     bindR (ensure (raw \<noteq> []) FlowDefinitionError) (\<lambda>_.
     bindR (mapR (\<lambda>(sid, s). bindR (flow_ident (JStr sid)) (\<lambda>sid.
              bindR (parse_state sid s) (\<lambda>st. Inr (sid, st)))) raw) (\<lambda>states.
     bindR (ensure (map_of states entry \<noteq> None) FlowDefinitionError) (\<lambda>_.
     bindR (ensure (same_set terminals (map fst (filter (\<lambda>(_, s). fs_terminal s) states)))
       FlowDefinitionError) (\<lambda>_.
     bindR (ensure (list_all (\<lambda>(_, s). check_state states s) states) FlowDefinitionError) (\<lambda>_.
     bindR (ensure (same_set (explore states [entry] [entry]) (map fst states)) FlowDefinitionError) (\<lambda>_.
     bindR (ensure (hex64 digest) FlowDefinitionError) (\<lambda>_.
     Inr \<lparr>fd_id = fid, fd_leader = leader, fd_entry = entry, fd_terminals = terminals,
       fd_states = states, fd_snapshot = sorted_json v, fd_digest = digest\<rparr>))))))))))))))"

text \<open>\<open>load_flow\<close> on the settings and digest of a resolved configuration.\<close>

definition load_flow :: "(string \<times> json) list \<Rightarrow> string \<Rightarrow> flow_definition res" where
  "load_flow settings digest =
     bindR (of_row FlowDefinitionError (as_obj (get settings ''flow''))) (\<lambda>m.
     validate_flow (sorted_json (JObj m)) digest)"

section \<open>Reachability\<close>

definition edges :: "(string \<times> flow_state) list \<Rightarrow> (string \<times> string) set" where
  "edges states = {(s, t). t \<in> set (targets states s)}"

lemma visit_sets:
  "visit ts (reached, pending) = (reached', pending') \<Longrightarrow>
     set reached' = set reached \<union> set ts \<and> set pending' = set pending \<union> (set ts - set reached)"
  by (induction ts arbitrary: reached pending) (auto split: if_splits)

text \<open>Everything reached is reachable, what is reached and not pending has been expanded.\<close>

lemma explore_correct:
  assumes "set pending \<subseteq> set reached" and "\<forall>x\<in>set reached. (e, x) \<in> (edges states)\<^sup>*"
    and "\<forall>x\<in>set reached - set pending. set (targets states x) \<subseteq> set reached" and "e \<in> set reached"
  shows "set (explore states reached pending) = {t. (e, t) \<in> (edges states)\<^sup>*}"
  using assms
proof (induction states reached pending rule: explore.induct)
  case (1 states reached)
  have "t \<in> set reached" if "(e, t) \<in> (edges states)\<^sup>*" for t
    using that 1 by (induction rule: rtrancl_induct) (auto simp: edges_def)
  with 1 show ?case by auto
next
  case (2 states reached s pending)
  obtain reached' pending' where v: "visit (targets states s) (reached, pending) = (reached', pending')"
    by fastforce
  note sets = visit_sets [OF v]
  have s: "(e, s) \<in> (edges states)\<^sup>*" using 2(2,3) by auto
  have "(e, t) \<in> (edges states)\<^sup>*" if "t \<in> set (targets states s)" for t
    using s that by (auto simp: edges_def intro: rtrancl_into_rtrancl)
  then have "set (explore states reached' pending') = {t. (e, t) \<in> (edges states)\<^sup>*}"
    using sets 2(2-5) by (intro 2(1) [OF refl v [symmetric]]) auto
  then show ?case by (simp add: v)
qed

lemma explore_from: "set (explore states [e] [e]) = {t. (e, t) \<in> (edges states)\<^sup>*}"
  by (rule explore_correct) auto

lemma same_set_iff: "same_set xs ys \<longleftrightarrow> set xs = set ys"
  by (auto simp: same_set_def list_all_iff)

section \<open>What validation establishes\<close>

lemma conditions_disjoint:
  assumes "\<not> conditions_overlap c d" and "applies c fv" and "applies d fv"
  shows False
  using assms
  by (cases c; cases d) (auto simp: conditions_overlap_def applies_def matches_def list_ex_iff
      split: option.splits)

lemma at_most_one_route:
  assumes "no_overlaps rs"
  shows "length (filter (route_matches out fv) rs) \<le> 1"
  using assms
proof (induction rs)
  case (Cons r rs)
  show ?case
  proof (cases "route_matches out fv r")
    case True
    have "\<not> route_matches out fv o'" if "o' \<in> set rs" for o'
      using Cons.prems that True conditions_disjoint [of "ft_when r" "ft_when o'" fv]
      by (auto simp: route_matches_def list_all_iff)
    then have "filter (route_matches out fv) rs = []" by (simp add: filter_empty_conv)
    then show ?thesis by simp
  next
    case False
    with Cons show ?thesis by simp
  qed
qed simp

lemma select_route_iff:
  assumes "no_overlaps (fs_routes s)"
  shows "select_route s out fv = Inr r \<longleftrightarrow> r \<in> set (fs_routes s) \<and> route_matches out fv r"
    and "select_route s out fv = Inl e \<longleftrightarrow> e = FlowDefinitionError
       \<and> (\<forall>r\<in>set (fs_routes s). \<not> route_matches out fv r)"
proof -
  let ?m = "filter (route_matches out fv) (fs_routes s)"
  have "?m = [] \<or> (\<exists>x. ?m = [x])"
    using at_most_one_route [OF assms, of out fv] by (cases ?m) auto
  then have "(select_route s out fv = Inr r \<longleftrightarrow> r \<in> set ?m) \<and>
      (select_route s out fv = Inl e \<longleftrightarrow> e = FlowDefinitionError \<and> set ?m = {})"
    unfolding select_route_def by (elim disjE exE) auto
  then show "select_route s out fv = Inr r \<longleftrightarrow> r \<in> set (fs_routes s) \<and> route_matches out fv r"
    "select_route s out fv = Inl e \<longleftrightarrow> e = FlowDefinitionError
       \<and> (\<forall>r\<in>set (fs_routes s). \<not> route_matches out fv r)"
    by (auto simp: filter_empty_conv)
qed

lemma parse_state_Inr:
  assumes "parse_state sid v = Inr st"
  shows "fs_id st = sid
    \<and> distinct (state_ids (fs_consults st) (fs_gates st) (fs_informs st) (fs_routes st))"
  using assms by (auto simp: parse_state_def monad_simps)

lemma obligation_ids_distinct:
  assumes "distinct (state_ids (fs_consults st) (fs_gates st) (fs_informs st) rs)"
  shows "distinct (map ac_id (state_obligations st fv))"
proof -
  let ?all = "fs_consults st @ fs_gates st @ fs_informs st"
  have d: "distinct (map ac_id ?all)" "''artifact'' \<notin> ac_id ` set ?all"
  proof -
    have "''artifact'' \<notin> set (map ac_id ?all @ map ft_id rs)" "distinct (map ac_id ?all @ map ft_id rs)"
      using assms unfolding state_ids_def distinct.simps by blast+
    then show "distinct (map ac_id ?all)" "''artifact'' \<notin> ac_id ` set ?all"
      by (simp_all only: distinct_append set_append set_map Un_iff simp_thms de_Morgan_disj)
  qed
  have "distinct (map ac_id (filter P ?all))" for P using d(1) by (rule distinct_map_filter)
  moreover have "''artifact'' \<notin> ac_id ` set (filter P ?all)" for P
    using d(2) by (meson filter_is_subset image_mono subsetD)
  ultimately show ?thesis
    unfolding state_obligations_def artifact_action_def
    by (simp only: list.map distinct.simps flow_action.select_convs set_map not_False_eq_True simp_thms)
qed

text \<open>The facts later stages use of a validated flow.\<close>

definition valid_flow :: "flow_definition \<Rightarrow> bool" where
  "valid_flow f =
     (map_of (fd_states f) (fd_entry f) \<noteq> None
      \<and> set (fd_terminals f) = fst ` {x \<in> set (fd_states f). fs_terminal (snd x)}
      \<and> (\<forall>(s, st)\<in>set (fd_states f). fs_id st = s \<and> check_state (fd_states f) st
          \<and> distinct (state_ids (fs_consults st) (fs_gates st) (fs_informs st) (fs_routes st))
          \<and> (fd_entry f, s) \<in> (edges (fd_states f))\<^sup>*))"

lemma validate_flow_valid:
  assumes "validate_flow v dg = Inr f"
  shows "valid_flow f"
proof -
  from assms obtain raw where
    st: "mapR (\<lambda>(sid, s). bindR (flow_ident (JStr sid)) (\<lambda>sid. bindR (parse_state sid s) (\<lambda>st. Inr (sid, st))))
      raw = Inr (fd_states f)"
    and e: "map_of (fd_states f) (fd_entry f) \<noteq> None"
    and t: "same_set (fd_terminals f) (map fst (filter (\<lambda>(_, s). fs_terminal s) (fd_states f)))"
    and c: "list_all (\<lambda>(_, s). check_state (fd_states f) s) (fd_states f)"
    and x: "same_set (explore (fd_states f) [fd_entry f] [fd_entry f]) (map fst (fd_states f))"
    by (auto simp: validate_flow_def monad_simps)
  have parsed: "fs_id s = sid \<and> distinct (state_ids (fs_consults s) (fs_gates s) (fs_informs s) (fs_routes s))" if "(sid, s) \<in> set (fd_states f)" for sid s
  proof -
    from mapR_member [OF st that] obtain sid' v' where "parse_state sid v' = Inr s" by (auto simp: monad_simps)
    then show ?thesis using parse_state_Inr by blast
  qed
  have reach: "(fd_entry f, s) \<in> (edges (fd_states f))\<^sup>*" if "(s, st) \<in> set (fd_states f)" for s st
    using x that unfolding same_set_iff explore_from by force
  show ?thesis
    unfolding valid_flow_def
    using e c parsed reach t by (auto simp: same_set_iff list_all_iff)
qed

end
