(* ===== verification/Events.thy ===== *)
theory Events
  imports Queues
begin

text \<open>
  \<open>events.py\<close>: the append-only journal of domain events and its transactional outbox. An
  event and its outbound messages are written in the transaction of the change they report;
  a dispatcher later delivers each message through an adapter, with exponential back-off.
  Identity columns count up; a sequence value lost to a rollback is not modelled. One clock
  reading stands for the column defaults of an append.
\<close>

section \<open>Drafts\<close>

record outbound_draft =
  od_topic :: string
  od_payload :: "(string \<times> json) list"

record event_draft =
  ed_project :: string
  ed_work :: string
  ed_actor :: string
  ed_correlation :: string
  ed_agg_type :: string
  ed_agg_id :: string
  ed_type :: string
  ed_payload :: "(string \<times> json) list"
  ed_causation :: "string option"

text \<open>\<open>__post_init__\<close> of the two drafts: names are stripped and required.\<close>

definition make_outbound_draft :: "outbound_draft \<Rightarrow> outbound_draft res" where
  "make_outbound_draft o' = bindR (required (od_topic o')) (\<lambda>t. Inr (o'\<lparr>od_topic := t\<rparr>))"

definition optional_required :: "string option \<Rightarrow> string option res" where
  "optional_required v = (case v of None \<Rightarrow> Inr None
     | Some c \<Rightarrow> bindR (required c) (\<lambda>c. Inr (Some c)))"

definition make_event_draft :: "event_draft \<Rightarrow> event_draft res" where
  "make_event_draft e =
     bindR (required (ed_project e)) (\<lambda>p. bindR (required (ed_work e)) (\<lambda>w.
     bindR (required (ed_actor e)) (\<lambda>a. bindR (required (ed_correlation e)) (\<lambda>c.
     bindR (required (ed_agg_type e)) (\<lambda>at. bindR (required (ed_agg_id e)) (\<lambda>ai.
     bindR (required (ed_type e)) (\<lambda>ty. bindR (optional_required (ed_causation e)) (\<lambda>ca.
     Inr (e\<lparr>ed_project := p, ed_work := w, ed_actor := a, ed_correlation := c, ed_agg_type := at,
       ed_agg_id := ai, ed_type := ty, ed_causation := ca\<rparr>)))))))))"

section \<open>Appending\<close>

definition next_id :: "int list \<Rightarrow> int" where
  "next_id ids = fold max ids 0 + 1"

definition outbox_key :: "(string \<Rightarrow> string) \<Rightarrow> string \<Rightarrow> int \<Rightarrow> string \<Rightarrow> string" where
  "outbox_key sha p event topic = p @ '':'' @ dec_int event @ '':'' @ take 16 (sha topic)"

definition insert_outbox :: "(string \<Rightarrow> string) \<Rightarrow> timestamp \<Rightarrow> string \<Rightarrow> int \<Rightarrow> outbound_draft \<Rightarrow> db \<Rightarrow> db res" where
  "insert_outbox sha t p event m d =
     (let k = outbox_key sha p event (od_topic m) in
      if has_row (\<lambda>r. ob_project r = p \<and> ob_key r = k) (db_outbox d) then Inl UniqueViolation
      else Inr (d\<lparr>db_outbox := db_outbox d @ [\<lparr>ob_id = next_id (map ob_id (db_outbox d)), ob_project = p,
        ob_event = event, ob_topic = od_topic m, ob_payload = od_payload m, ob_key = k,
        ob_available = t, ob_dispatched = None, ob_attempts = 0, ob_error = None\<rparr>]\<rparr>))"

fun insert_outboxes :: "(string \<Rightarrow> string) \<Rightarrow> timestamp \<Rightarrow> string \<Rightarrow> int \<Rightarrow> outbound_draft list \<Rightarrow> db \<Rightarrow> db res" where
  "insert_outboxes sha t p event [] d = Inr d"
| "insert_outboxes sha t p event (m # ms) d =
     bindR (insert_outbox sha t p event m d) (insert_outboxes sha t p event ms)"

text \<open>\<open>EventUnitOfWork.append\<close>: the topics of one event are distinct, the event's work item
  exists.\<close>

definition append_event :: "(string \<Rightarrow> string) \<Rightarrow> timestamp \<Rightarrow> event_draft \<Rightarrow> outbound_draft list \<Rightarrow> db \<Rightarrow>
    (stored_event \<times> db) res" where
  "append_event sha t e out d =
     bindR (ensure (distinct (map od_topic out)) ValueError) (\<lambda>_.
     bindR (ensure (ed_project e \<in> set (db_projects d) \<and> has_work d (ed_project e) (ed_work e))
       ForeignKeyViolation) (\<lambda>_.
     let s = \<lparr>ev_id = next_id (map ev_id (db_events d)), ev_project = ed_project e, ev_work = ed_work e,
           ev_actor = ed_actor e, ev_correlation = ed_correlation e, ev_causation = ed_causation e,
           ev_agg_type = ed_agg_type e, ev_agg_id = ed_agg_id e, ev_type = ed_type e,
           ev_payload = ed_payload e, ev_occurred = t\<rparr>
     in bindR (insert_outboxes sha t (ed_project e) (ev_id s) out (d\<lparr>db_events := db_events d @ [s]\<rparr>))
       (\<lambda>d'. Inr (s, d'))))"

text \<open>\<open>EventStore.transaction\<close>: what is neither a \<open>ValueError\<close> nor a \<open>DatabaseError\<close>
  becomes a \<open>DatabaseError\<close>; the driver's constraint violations and a
  \<open>TypeError\<close> are neither.\<close>

definition event_wrap :: "exn \<Rightarrow> exn" where
  "event_wrap e = (if e \<in> {UniqueViolation, ForeignKeyViolation, CheckViolation, DataError, TriggerException, TypeError}
     then DatabaseError else e)"

definition event_transaction :: "('a \<times> db) res \<Rightarrow> ('a \<times> db) res" where
  "event_transaction r = except_map event_wrap r"

lemma event_transaction_Inr [monad_simps]: "event_transaction r = Inr x \<longleftrightarrow> r = Inr x"
  by (simp add: event_transaction_def monad_simps)

section \<open>Reading\<close>

definition read_events :: "string \<Rightarrow> int \<Rightarrow> int \<Rightarrow> db \<Rightarrow> stored_event list res" where
  "read_events p after_id limit d =
     bindR (required p) (\<lambda>p.
     bindR (ensure (0 \<le> after_id) ValueError) (\<lambda>_.
     bindR (ensure (1 \<le> limit \<and> limit \<le> 1000) ValueError) (\<lambda>_.
     Inr (take (nat limit) (sort_key ev_id
       (filter (\<lambda>e. ev_project e = p \<and> after_id < ev_id e) (db_events d)))))))"

section \<open>Dispatching\<close>

record outbox_message =
  om_id :: int
  om_event :: int
  om_project :: string
  om_work :: string
  om_actor :: string
  om_correlation :: string
  om_topic :: string
  om_payload :: "(string \<times> json) list"
  om_key :: string
  om_attempt :: int

datatype dispatch_status = Empty | Delivered | Failed_Delivery

record dispatch_result =
  dr_status :: dispatch_status
  dr_outbox :: "int option"
  dr_key :: "string option"
  dr_error :: "string option"

definition due :: "timestamp \<Rightarrow> (int \<Rightarrow> bool) \<Rightarrow> string option \<Rightarrow> db \<Rightarrow> outbox_row \<Rightarrow> bool" where
  "due t locked p d r = (ob_dispatched r = None \<and> ob_available r \<le> t
     \<and> (case p of None \<Rightarrow> True | Some q \<Rightarrow> ob_project r = q) \<and> \<not> locked (ob_id r)
     \<and> has_row (\<lambda>e. ev_project e = ob_project r \<and> ev_id e = ob_event r) (db_events d))"

definition outbox_order :: "outbox_row \<Rightarrow> string \<times> int \<times> int" where
  "outbox_order r = (ob_project r, ob_available r, ob_id r)"

definition next_outbox :: "timestamp \<Rightarrow> (int \<Rightarrow> bool) \<Rightarrow> string option \<Rightarrow> db \<Rightarrow> outbox_row option" where
  "next_outbox t locked p d = (case sort_key outbox_order (filter (due t locked p d) (db_outbox d)) of
     [] \<Rightarrow> None | r # _ \<Rightarrow> Some r)"

definition message_of :: "db \<Rightarrow> outbox_row \<Rightarrow> outbox_message option" where
  "message_of d r = map_option (\<lambda>e. \<lparr>om_id = ob_id r, om_event = ob_event r, om_project = ob_project r,
       om_work = ev_work e, om_actor = ev_actor e, om_correlation = ev_correlation e,
       om_topic = ob_topic r, om_payload = ob_payload r, om_key = ob_key r,
       om_attempt = ob_attempts r + 1\<rparr>)
     (fetchone (\<lambda>e. ev_project e = ob_project r \<and> ev_id e = ob_event r) (db_events d))"

definition upd_outbox :: "outbox_row \<Rightarrow> (outbox_row \<Rightarrow> outbox_row) \<Rightarrow> db \<Rightarrow> db" where
  "upd_outbox r f d = d\<lparr>db_outbox :=
     upd_where (\<lambda>x. ob_project x = ob_project r \<and> ob_id x = ob_id r) f (db_outbox d)\<rparr>"

text \<open>The adapter is a parameter: what \<open>deliver\<close> does with the message, either raising (the
  name of the exception class) or returning, with the key of the receipt when it is one. A
  raise and a wrong receipt are both failures.\<close>

definition delivery_error :: "outbox_message \<Rightarrow> string + string option \<Rightarrow> string option" where
  "delivery_error m a = (case a of
     Inl name \<Rightarrow> Some (''delivery failed: '' @ name)
   | Inr receipt \<Rightarrow> if receipt = Some (om_key m) then None else Some ''delivery failed: ValueError'')"

definition backoff :: "int \<Rightarrow> timestamp" where
  "backoff attempts = seconds (2 ^ nat (min attempts 8))"

definition dispatch_one :: "timestamp \<Rightarrow> timestamp \<Rightarrow> (int \<Rightarrow> bool) \<Rightarrow>
    (outbox_message \<Rightarrow> string + string option) \<Rightarrow> string option \<Rightarrow> db \<Rightarrow> (dispatch_result \<times> db) res" where
  "dispatch_one t1 t2 locked deliver p d =
     bindR (optional_required p) (\<lambda>p.
     case next_outbox t1 locked p d of
       None \<Rightarrow> Inr (\<lparr>dr_status = Empty, dr_outbox = None, dr_key = None, dr_error = None\<rparr>, d)
     | Some r \<Rightarrow>
       bindR (of_row DatabaseError (message_of d r)) (\<lambda>m.
       bindR (ensure (int4 (ob_attempts r + 1)) DatabaseError) (\<lambda>_.
       let d1 = upd_outbox r (\<lambda>x. x\<lparr>ob_attempts := ob_attempts x + 1, ob_error := None\<rparr>) d
       in case delivery_error m (deliver m) of
            Some err \<Rightarrow> Inr (\<lparr>dr_status = Failed_Delivery, dr_outbox = Some (om_id m),
                dr_key = Some (om_key m), dr_error = Some err\<rparr>,
              upd_outbox r (\<lambda>x. x\<lparr>ob_error := Some err, ob_available := t2 + backoff (ob_attempts x)\<rparr>) d1)
          | None \<Rightarrow> Inr (\<lparr>dr_status = Delivered, dr_outbox = Some (om_id m),
                dr_key = Some (om_key m), dr_error = None\<rparr>,
              upd_outbox r (\<lambda>x. x\<lparr>ob_dispatched := Some t2, ob_error := None\<rparr>) d1))))"

section \<open>The journal invariant\<close>

text \<open>Ids grow along the tables.\<close>

definition journal_ok :: "db \<Rightarrow> bool" where
  "journal_ok d = (sorted_wrt (<) (map ev_id (db_events d)) \<and> sorted_wrt (<) (map ob_id (db_outbox d)))"

lemma fold_max_ge: "(n::int) \<le> fold max ids n"
proof (induction ids arbitrary: n)
  case (Cons a ids)
  from Cons [of "max a n"] show ?case by simp
qed simp

lemma fold_max_le: "x \<in> set ids \<Longrightarrow> (x::int) \<le> fold max ids n"
proof (induction ids arbitrary: n)
  case (Cons y ys)
  from fold_max_ge [of "max y n" ys] Cons show ?case by auto
qed simp

lemma next_id_fresh: "x \<in> set ids \<Longrightarrow> x < next_id ids"
  using fold_max_le [of x ids 0] by (simp add: next_id_def)

lemma sorted_next_id:
  "sorted_wrt (<) (map f xs) \<Longrightarrow> f x = next_id (map f xs) \<Longrightarrow> sorted_wrt (<) (map f (xs @ [x]))"
  by (auto simp: sorted_wrt_append intro: next_id_fresh)

lemma insert_outboxes_shape:
  assumes "insert_outboxes sha t p event ms d = Inr d'" and "journal_ok d"
  shows "journal_ok d' \<and> (\<exists>rows. d' = d\<lparr>db_outbox := db_outbox d @ rows\<rparr>
     \<and> map ob_topic rows = map od_topic ms \<and> map ob_payload rows = map od_payload ms
     \<and> (\<forall>r\<in>set rows. ob_project r = p \<and> ob_event r = event \<and> ob_dispatched r = None \<and> ob_attempts r = 0))"
  using assms
proof (induction ms arbitrary: d)
  case Nil
  then show ?case by (auto intro: exI [of _ "[]"])
next
  case (Cons m ms)
  then obtain d1 where d1: "insert_outbox sha t p event m d = Inr d1"
    and r: "insert_outboxes sha t p event ms d1 = Inr d'" by (auto simp: monad_simps)
  then obtain x where x: "d1 = d\<lparr>db_outbox := db_outbox d @ [x]\<rparr>" "ob_topic x = od_topic m"
    "ob_payload x = od_payload m" "ob_project x = p" "ob_event x = event" "ob_dispatched x = None"
    "ob_attempts x = 0" "ob_id x = next_id (map ob_id (db_outbox d))"
    by (auto simp: insert_outbox_def Let_def split: if_splits)
  have "journal_ok d1" using Cons.prems(2) x(1,8) sorted_next_id [of ob_id "db_outbox d" x]
    by (simp add: journal_ok_def)
  from Cons.IH [OF r this] obtain rows where "journal_ok d'" "d' = d1\<lparr>db_outbox := db_outbox d1 @ rows\<rparr>"
    "map ob_topic rows = map od_topic ms" "map ob_payload rows = map od_payload ms"
    "\<forall>r\<in>set rows. ob_project r = p \<and> ob_event r = event \<and> ob_dispatched r = None \<and> ob_attempts r = 0"
    by blast
  with x show ?case by (intro conjI exI [of _ "x # rows"]) auto
qed

lemma append_event_shape:
  assumes "append_event sha t e out d = Inr (s, d')" and "journal_ok d"
  shows "journal_ok d' \<and> (\<forall>x\<in>set (db_events d). ev_id x < ev_id s)
    \<and> (\<exists>rows. d' = d\<lparr>db_events := db_events d @ [s], db_outbox := db_outbox d @ rows\<rparr>
     \<and> map ob_topic rows = map od_topic out \<and> map ob_payload rows = map od_payload out
     \<and> (\<forall>r\<in>set rows. ob_project r = ed_project e \<and> ob_event r = ev_id s \<and> ob_dispatched r = None))
    \<and> ev_project s = ed_project e \<and> ev_work s = ed_work e \<and> ev_type s = ed_type e
    \<and> ev_payload s = ed_payload e \<and> ev_actor s = ed_actor e"
proof -
  from assms(1) have i: "ev_id s = next_id (map ev_id (db_events d))"
    and f: "ev_project s = ed_project e" "ev_work s = ed_work e" "ev_type s = ed_type e"
      "ev_payload s = ed_payload e" "ev_actor s = ed_actor e"
    and o': "insert_outboxes sha t (ed_project e) (ev_id s) out (d\<lparr>db_events := db_events d @ [s]\<rparr>) = Inr d'"
    by (auto simp: append_event_def monad_simps Let_def)
  have "journal_ok (d\<lparr>db_events := db_events d @ [s]\<rparr>)"
    using assms(2) i sorted_next_id [of ev_id "db_events d" s] by (simp add: journal_ok_def)
  from insert_outboxes_shape [OF o' this] show ?thesis
    using f i by (force intro: next_id_fresh)
qed

text \<open>What an append leaves alone.\<close>

lemma insert_outboxes_frame: "insert_outboxes sha t p event ms d = Inr d' \<Longrightarrow> d'\<lparr>db_outbox := []\<rparr> = d\<lparr>db_outbox := []\<rparr>"
  by (induction ms arbitrary: d)
    (fastforce simp: monad_simps insert_outbox_def Let_def split: if_splits)+

lemma append_event_frame:
  assumes "append_event sha t e out d = Inr (s, d')"
  shows "d'\<lparr>db_events := [], db_outbox := []\<rparr> = d\<lparr>db_events := [], db_outbox := []\<rparr>"
proof -
  from assms have "insert_outboxes sha t (ed_project e) (ev_id s) out (d\<lparr>db_events := db_events d @ [s]\<rparr>) = Inr d'"
    by (auto simp: append_event_def monad_simps Let_def)
  from insert_outboxes_frame [OF this] show ?thesis by (cases d; cases d'; simp)
qed

lemma append_event_fields:
  assumes "append_event sha t e out d = Inr (s, d')"
  shows "db_works d' = db_works d" "db_gates d' = db_gates d" "db_approvals d' = db_approvals d"
    "db_items d' = db_items d" "db_leases d' = db_leases d" "db_handoffs d' = db_handoffs d"
    "db_queues d' = db_queues d" "db_instances d' = db_instances d" "db_runs d' = db_runs d"
    "db_obligations d' = db_obligations d" "db_journal d' = db_journal d"
    "db_incidents d' = db_incidents d" "db_attempts d' = db_attempts d" "db_requests d' = db_requests d"
    "db_governance d' = db_governance d" "db_contexts d' = db_contexts d" "db_roles d' = db_roles d"
    "db_projects d' = db_projects d" "db_sponsors d' = db_sponsors d"
  using append_event_frame [OF assms] by (cases d; cases d'; simp)+

section \<open>Paging and dispatching\<close>

lemma sorted_drop_filter:
  fixes f :: "'a \<Rightarrow> int"
  assumes "sorted_wrt (<) (map f xs)" and "take n xs \<noteq> []"
  shows "filter (\<lambda>x. f (last (take n xs)) < f x) xs = drop n xs"
proof -
  let ?l = "last (take n xs)"
  have s: "sorted_wrt (<) (map f (take n xs @ drop n xs))" using assms(1) by simp
  have "\<not> f ?l < f x" if "x \<in> set (take n xs)" for x
  proof -
    have "take n xs = butlast (take n xs) @ [?l]" using assms(2) by simp
    then have "sorted_wrt (<) (map f (butlast (take n xs) @ [?l]))" "x \<in> set (butlast (take n xs) @ [?l])"
      using s that by (metis map_append sorted_wrt_append, metis)
    then show ?thesis by (auto simp: sorted_wrt_append)
  qed
  moreover have "\<forall>x\<in>set (take n xs). \<forall>y\<in>set (drop n xs). f x < f y"
    using s unfolding map_append sorted_wrt_append by auto
  then have "f ?l < f x" if "x \<in> set (drop n xs)" for x
    using that last_in_set [OF assms(2)] by blast
  ultimately have "filter (\<lambda>x. f ?l < f x) (take n xs) = [] \<and> filter (\<lambda>x. f ?l < f x) (drop n xs) = drop n xs"
    by (simp add: filter_empty_conv)
  then show ?thesis by (metis append_Nil append_take_drop_id filter_append)
qed

lemma sorted_wrt_filter_map:
  "sorted_wrt (<) (map f xs) \<Longrightarrow> sorted_wrt (<) (map f (filter P xs))"
  by (induction xs) auto

lemma journal_page:
  assumes "journal_ok d"
  shows "sort_key ev_id (filter P (db_events d)) = filter P (db_events d)"
proof -
  have "sorted (map ev_id (filter P (db_events d)))"
    using assms sorted_wrt_filter_map strict_sorted_imp_sorted by (auto simp: journal_ok_def)
  then show ?thesis by (simp add: sort_key_id_if_sorted)
qed

lemma next_outbox_Some:
  assumes "next_outbox t locked p d = Some r"
  shows "r \<in> set (db_outbox d) \<and> due t locked p d r
    \<and> (\<forall>s\<in>set (db_outbox d). due t locked p d s \<longrightarrow> outbox_order r \<le> outbox_order s)"
proof -
  let ?xs = "filter (due t locked p d) (db_outbox d)"
  obtain ys where ys: "sort_key outbox_order ?xs = r # ys"
    using assms by (auto simp: next_outbox_def split: list.splits)
  then have "set (r # ys) = set ?xs" by (metis set_sort)
  moreover have "sorted (map outbox_order (r # ys))" by (metis ys sorted_sort_key)
  ultimately show ?thesis by auto
qed

end
