(* ===== verification/Lifecycle.thy ===== *)
theory Lifecycle
  imports Events
begin

text \<open>
  \<open>lifecycle.py\<close>: projects with their sponsors, work items with their status and version, and
  the gates at which sponsors approve or reject. Every change appends a domain event with an
  outbound message in the same transaction. The display name of a project is not kept.
\<close>

section \<open>Projects and work items\<close>

definition create_project :: "string \<Rightarrow> string \<Rightarrow> string list \<Rightarrow> db \<Rightarrow> (unit \<times> db) res" where
  "create_project p name sponsors d =
     bindR (required p) (\<lambda>p. bindR (required name) (\<lambda>name. bindR (mapR required sponsors) (\<lambda>ss.
     bindR (ensure (ss \<noteq> []) ValueError) (\<lambda>_. bindR (ensure (distinct ss) ValueError) (\<lambda>_.
     bindR (ensure (p \<notin> set (db_projects d)) LifecycleConflict) (\<lambda>_.
     bindR (ensure (list_all (\<lambda>s. (p, s) \<notin> set (db_sponsors d)) ss) LifecycleConflict) (\<lambda>_.
     Inr ((), d\<lparr>db_projects := db_projects d @ [p],
       db_sponsors := db_sponsors d @ map (\<lambda>s. (p, s)) ss\<rparr>))))))))"

text \<open>\<open>_event\<close> and \<open>_outbound\<close>: the event about a work item and its outbound message (the
  names are stripped already).\<close>

definition work_event :: "string \<Rightarrow> string \<Rightarrow> string \<Rightarrow> string \<Rightarrow> string \<Rightarrow> (string \<times> json) list \<Rightarrow> event_draft" where
  "work_event p w actor corr ty payload =
     \<lparr>ed_project = p, ed_work = w, ed_actor = actor, ed_correlation = corr,
      ed_agg_type = ''work-item'', ed_agg_id = w, ed_type = ty, ed_payload = payload,
      ed_causation = None\<rparr>"

definition work_outbound :: "string \<Rightarrow> string \<Rightarrow> string \<Rightarrow> string \<Rightarrow> outbound_draft" where
  "work_outbound p w ty status = \<lparr>od_topic = ''lifecycle.events'',
     od_payload = [(''project_id'', JStr p), (''work_item_id'', JStr w),
       (''event_type'', JStr ty), (''status'', JStr status)]\<rparr>"

definition report :: "(string \<Rightarrow> string) \<Rightarrow> timestamp \<Rightarrow> string \<Rightarrow> string \<Rightarrow> string \<Rightarrow> string \<Rightarrow> string \<Rightarrow>
    string \<Rightarrow> (string \<times> json) list \<Rightarrow> db \<Rightarrow> db res" where
  "report sha t p w actor corr ty status payload d =
     bindR (append_event sha t (work_event p w actor corr ty payload) [work_outbound p w ty status] d)
       (\<lambda>(_, d'). Inr d')"

definition get_work_item :: "string \<Rightarrow> string \<Rightarrow> db \<Rightarrow> work_item_record res" where
  "get_work_item p w d = bindR (required p) (\<lambda>p. bindR (required w) (\<lambda>w.
     of_row LifecycleNotFound (work_row d p w)))"

definition insert_work :: "work_item_record \<Rightarrow> db \<Rightarrow> db res" where
  "insert_work w d =
     (if has_work d (wi_project w) (wi_id w) then Inl LifecycleConflict
      else if wi_project w \<notin> set (db_projects d)
        \<or> (case wi_owner w of None \<Rightarrow> False | Some r \<Rightarrow> \<not> has_role d (wi_project w) r)
      then Inl LifecycleNotFound
      else Inr (d\<lparr>db_works := db_works d @ [w]\<rparr>))"

definition create_work_tx :: "(string \<Rightarrow> string) \<Rightarrow> timestamp \<Rightarrow> string \<Rightarrow> string \<Rightarrow> string \<Rightarrow> string \<Rightarrow>
    string \<Rightarrow> string \<Rightarrow> db \<Rightarrow> ((string \<times> string) \<times> db) res" where
  "create_work_tx sha t p w title owner actor corr d =
     bindR (required p) (\<lambda>p. bindR (required w) (\<lambda>w. bindR (required title) (\<lambda>title.
     bindR (required owner) (\<lambda>owner. bindR (required actor) (\<lambda>actor. bindR (required corr) (\<lambda>corr.
     event_transaction (
       bindR (insert_work \<lparr>wi_project = p, wi_id = w, wi_title = title, wi_status = ''new'',
         wi_owner = Some owner, wi_version = 1, wi_reason = None, wi_evidence = []\<rparr> d) (\<lambda>d1.
       bindR (report sha t p w actor corr ''work.created'' ''new'' [(''status'', JStr ''new'')] d1)
         (\<lambda>d2. Inr ((p, w), d2))))))))))"

definition create_work_item :: "(string \<Rightarrow> string) \<Rightarrow> timestamp \<Rightarrow> string \<Rightarrow> string \<Rightarrow> string \<Rightarrow> string \<Rightarrow>
    string \<Rightarrow> string \<Rightarrow> db \<Rightarrow> work_item_record res \<times> db" where
  "create_work_item sha t p w title owner actor corr d =
     then_read (atomically (create_work_tx sha t p w title owner actor corr d) d)
       (\<lambda>(p, w) d'. get_work_item p w d')"

section \<open>Status changes\<close>

text \<open>\<open>_DIRECT_TRANSITIONS\<close>.\<close>

definition direct_transitions :: "string \<Rightarrow> string list" where
  "direct_transitions s = (if s = ''new'' then [''active'']
     else if s = ''active'' then [''completed'', ''error''] else [])"

definition update_work :: "string \<Rightarrow> string \<Rightarrow> (work_item_record \<Rightarrow> work_item_record) \<Rightarrow> db \<Rightarrow> db" where
  "update_work p w f d = d\<lparr>db_works := upd_where (\<lambda>r. wi_project r = p \<and> wi_id r = w) f (db_works d)\<rparr>"

text \<open>\<open>_lock_work_item\<close> and the check of the expected version; the next version must still
  fit its column.\<close>

definition lock_work :: "string \<Rightarrow> string \<Rightarrow> db \<Rightarrow> work_item_record res" where
  "lock_work p w d = of_row LifecycleNotFound (work_row d p w)"

definition incident_with :: "(incident_status \<Rightarrow> bool) \<Rightarrow> string \<Rightarrow> string \<Rightarrow> db \<Rightarrow> incident_row option" where
  "incident_with S p w d = fetchone (\<lambda>i. fi_project i = p \<and> fi_work i = w \<and> S (fi_status i)) (db_incidents d)"

text \<open>The failure chain of the item: completing needs it resolved, failing needs it exhausted,
  and then the incident becomes terminal.\<close>

definition failure_gate :: "string \<Rightarrow> string \<Rightarrow> string \<Rightarrow> db \<Rightarrow> string option res" where
  "failure_gate p w target d =
     (if target = ''completed''
      then bindR (ensure (incident_with (\<lambda>s. s = IncActive \<or> s = IncEligible) p w d = None) LifecycleConflict)
        (\<lambda>_. Inr None)
      else if target = ''error''
      then bindR (of_row LifecycleConflict (incident_with (\<lambda>s. s = IncEligible) p w d))
        (\<lambda>i. Inr (Some (fi_id i)))
      else Inr None)"

definition close_incident :: "timestamp \<Rightarrow> string \<Rightarrow> string option \<Rightarrow> db \<Rightarrow> db" where
  "close_incident t p i d = (case i of None \<Rightarrow> d
     | Some i \<Rightarrow> d\<lparr>db_incidents := upd_where (\<lambda>x. fi_project x = p \<and> fi_id x = i \<and> fi_status x = IncEligible)
         (\<lambda>x. x\<lparr>fi_status := IncTerminal, fi_resolved := Some t\<rparr>) (db_incidents d)\<rparr>)"

definition transition_core :: "(string \<Rightarrow> string) \<Rightarrow> timestamp \<Rightarrow> string \<Rightarrow> string \<Rightarrow> string \<Rightarrow> string \<Rightarrow>
    string \<Rightarrow> int \<Rightarrow> string option \<Rightarrow> (string \<times> json) list \<Rightarrow> db \<Rightarrow> ((string \<times> string) \<times> db) res" where
  "transition_core sha t p w target actor corr version reason evidence d =
     bindR (lock_work p w d) (\<lambda>cur.
     bindR (ensure (wi_version cur = version) LifecycleConflict) (\<lambda>_.
     bindR (ensure (target \<in> set (direct_transitions (wi_status cur))) LifecycleConflict) (\<lambda>_.
     bindR (failure_gate p w target d) (\<lambda>incident.
     bindR (ensure (int4 (version + 1)) DataError) (\<lambda>_.
     let ev = (case incident of None \<Rightarrow> evidence | Some i \<Rightarrow> put ''failure_incident_id'' (JStr i) evidence);
         d1 = update_work p w (\<lambda>r. r\<lparr>wi_status := target, wi_version := wi_version r + 1,
                wi_reason := reason, wi_evidence := ev\<rparr>) d;
         d2 = close_incident t p incident d1
     in bindR (report sha t p w actor corr (''work.'' @ target) target
          [(''status'', JStr target), (''version'', JInt (version + 1)),
           (''reason'', opt_str reason), (''evidence'', JObj ev)] d2)
          (\<lambda>d3. Inr ((p, w), d3)))))))"

definition transition_tx :: "(string \<Rightarrow> string) \<Rightarrow> timestamp \<Rightarrow> string \<Rightarrow> string \<Rightarrow> string \<Rightarrow> string \<Rightarrow>
    string \<Rightarrow> int \<Rightarrow> string \<Rightarrow> (string \<times> json) list \<Rightarrow> db \<Rightarrow> ((string \<times> string) \<times> db) res" where
  "transition_tx sha t p w target actor corr version reason evidence d =
     bindR (required p) (\<lambda>p. bindR (required w) (\<lambda>w. bindR (required target) (\<lambda>target.
     bindR (required actor) (\<lambda>actor. bindR (required corr) (\<lambda>corr.
     bindR (ensure (1 \<le> version) ValueError) (\<lambda>_.
     bindR (if target \<in> {''completed'', ''error''} then bindR (required reason) (\<lambda>r. Inr (Some r)) else Inr None)
       (\<lambda>reason.
     event_transaction (transition_core sha t p w target actor corr version reason evidence d))))))))"

definition transition_work_item :: "(string \<Rightarrow> string) \<Rightarrow> timestamp \<Rightarrow> string \<Rightarrow> string \<Rightarrow> string \<Rightarrow> string \<Rightarrow>
    string \<Rightarrow> int \<Rightarrow> string \<Rightarrow> (string \<times> json) list \<Rightarrow> db \<Rightarrow> work_item_record res \<times> db" where
  "transition_work_item sha t p w target actor corr version reason evidence d =
     then_read (atomically (transition_tx sha t p w target actor corr version reason evidence d) d)
       (\<lambda>(p, w) d'. get_work_item p w d')"

section \<open>Gates\<close>

definition get_gate :: "string \<Rightarrow> string \<Rightarrow> db \<Rightarrow> gate_record res" where
  "get_gate p g d = bindR (required p) (\<lambda>p. bindR (required g) (\<lambda>g.
     bindR (of_row LifecycleNotFound (fetchone (\<lambda>r. ga_project r = p \<and> ga_id r = g) (db_gates d))) (\<lambda>r.
     Inr (gate_record.truncate r))))"

definition get_approval :: "string \<Rightarrow> string \<Rightarrow> db \<Rightarrow> approval_record res" where
  "get_approval p a d = bindR (required p) (\<lambda>p. bindR (required a) (\<lambda>a.
     of_row LifecycleNotFound (fetchone (\<lambda>r. ap_project r = p \<and> ap_id r = a) (db_approvals d))))"

fun insert_approvals :: "string \<Rightarrow> string \<Rightarrow> string list \<Rightarrow> db \<Rightarrow> db res" where
  "insert_approvals p g [] d = Inr d"
| "insert_approvals p g (s # ss) d =
     (if has_row (\<lambda>r. ap_project r = p \<and> ap_id r = g @ '':'' @ s) (db_approvals d)
        \<or> has_row (\<lambda>r. ap_project r = p \<and> ap_gate r = g \<and> ap_approver r = s) (db_approvals d)
      then Inl UniqueViolation
      else insert_approvals p g ss (d\<lparr>db_approvals := db_approvals d @ [\<lparr>ap_project = p,
        ap_id = g @ '':'' @ s, ap_gate = g, ap_approver = s, ap_decision = None, ap_rationale = None,
        ap_evidence = [], ap_decided = None\<rparr>]\<rparr>))"

definition open_gate_core :: "(string \<Rightarrow> string) \<Rightarrow> timestamp \<Rightarrow> string \<Rightarrow> string \<Rightarrow> gate_row \<Rightarrow>
    string list \<Rightarrow> int \<Rightarrow> db \<Rightarrow> ((string \<times> string) \<times> db) res" where
  "open_gate_core sha t p w gate sponsors version d =
     bindR (lock_work p w d) (\<lambda>cur.
     bindR (ensure (wi_version cur = version) LifecycleConflict) (\<lambda>_.
     bindR (ensure (wi_status cur = ''active'') LifecycleConflict) (\<lambda>_.
     bindR (ensure (list_all (\<lambda>s. (p, s) \<in> set (db_sponsors d)) sponsors) LifecycleAuthorizationError) (\<lambda>_.
     bindR (ensure (\<not> has_row (\<lambda>r. ga_project r = p \<and> ga_id r = ga_id gate) (db_gates d)) LifecycleConflict) (\<lambda>_.
     bindR (ensure (int4 (wi_version cur + 1)) DataError) (\<lambda>_.
     let d1 = update_work p w (\<lambda>r. r\<lparr>wi_status := ''gated'', wi_version := wi_version r + 1\<rparr>)
         (d\<lparr>db_gates := db_gates d @ [gate]\<rparr>)
     in bindR (insert_approvals p (ga_id gate) sponsors d1) (\<lambda>d2.
        bindR (report sha t p w (ga_requested_by gate) (ga_correlation gate) ''gate.opened'' ''gated''
          [(''gate_id'', JStr (ga_id gate)), (''gate_type'', JStr (ga_type gate))] d2) (\<lambda>d3.
        Inr ((p, ga_id gate), d3)))))))))"

definition open_gate_tx :: "(string \<Rightarrow> string) \<Rightarrow> timestamp \<Rightarrow> string \<Rightarrow> string \<Rightarrow> string \<Rightarrow> string \<Rightarrow>
    string \<Rightarrow> string list \<Rightarrow> string \<Rightarrow> int \<Rightarrow> (string \<times> json) list \<Rightarrow> db \<Rightarrow> ((string \<times> string) \<times> db) res" where
  "open_gate_tx sha t p w g ty by' sponsors corr version evidence d =
     bindR (required p) (\<lambda>p. bindR (required w) (\<lambda>w. bindR (required g) (\<lambda>g. bindR (required ty) (\<lambda>ty.
     bindR (required by') (\<lambda>by'. bindR (required corr) (\<lambda>corr. bindR (mapR required sponsors) (\<lambda>ss.
     bindR (ensure (ss \<noteq> [] \<and> distinct ss) ValueError) (\<lambda>_.
     event_transaction (open_gate_core sha t p w
       \<lparr>ga_project = p, ga_id = g, ga_work = w, ga_type = ty, ga_status = GatePending,
        ga_requested_by = by', ga_correlation = corr, ga_evidence = evidence, ga_link = None,
        ga_resolved = None, ga_timed_out = None, ga_operation = None, ga_digest = None\<rparr> ss version d)))))))))"

definition open_gate :: "(string \<Rightarrow> string) \<Rightarrow> timestamp \<Rightarrow> string \<Rightarrow> string \<Rightarrow> string \<Rightarrow> string \<Rightarrow>
    string \<Rightarrow> string list \<Rightarrow> string \<Rightarrow> int \<Rightarrow> (string \<times> json) list \<Rightarrow> db \<Rightarrow> gate_record res \<times> db" where
  "open_gate sha t p w g ty by' sponsors corr version evidence d =
     then_read (atomically (open_gate_tx sha t p w g ty by' sponsors corr version evidence d) d)
       (\<lambda>(p, g) d'. get_gate p g d')"

definition decision_of :: "string \<Rightarrow> decision res" where
  "decision_of s = (if s = ''approved'' then Inr Approved else if s = ''rejected'' then Inr Rejected
     else Inl ValueError)"

definition gate_status_of :: "decision \<Rightarrow> gate_status" where
  "gate_status_of x = (case x of Approved \<Rightarrow> GateApproved | Rejected \<Rightarrow> GateRejected)"

definition decide_gate_core :: "(string \<Rightarrow> string) \<Rightarrow> timestamp \<Rightarrow> string \<Rightarrow> string \<Rightarrow> string \<Rightarrow> decision \<Rightarrow>
    string \<Rightarrow> string \<Rightarrow> (string \<times> json) list \<Rightarrow> db \<Rightarrow> ((string \<times> string) \<times> db) res" where
  "decide_gate_core sha t p g sponsor dec decision rationale evidence d =
     bindR (of_row LifecycleNotFound (fetchone (\<lambda>r. ga_project r = p \<and> ga_id r = g) (db_gates d))) (\<lambda>gate.
     bindR (ensure (ga_status gate = GatePending) LifecycleConflict) (\<lambda>_.
     bindR (of_row LifecycleAuthorizationError (fetchone (\<lambda>r. ap_project r = p \<and> ap_gate r = g
       \<and> ap_approver r = sponsor) (db_approvals d))) (\<lambda>ap.
     bindR (ensure (ap_decision ap = None) LifecycleConflict) (\<lambda>_.
     bindR (lock_work p (ga_work gate) d) (\<lambda>cur.
     bindR (ensure (wi_status cur = ''gated'') LifecycleConflict) (\<lambda>_.
     bindR (ensure (int4 (wi_version cur + 1)) DataError) (\<lambda>_.
     let d1 = d\<lparr>db_approvals := upd_where (\<lambda>r. ap_project r = p \<and> ap_id r = ap_id ap)
             (\<lambda>r. r\<lparr>ap_decision := Some dec, ap_rationale := Some rationale, ap_evidence := evidence,
                   ap_decided := Some t\<rparr>) (db_approvals d),
           db_gates := upd_where (\<lambda>r. ga_project r = p \<and> ga_id r = g)
             (\<lambda>r. r\<lparr>ga_status := gate_status_of dec, ga_resolved := Some t\<rparr>) (db_gates d)\<rparr>;
         d2 = update_work p (ga_work gate) (\<lambda>r. r\<lparr>wi_status := ''active'', wi_version := wi_version r + 1\<rparr>) d1
     in bindR (report sha t p (ga_work gate) sponsor (ga_correlation gate) (''gate.'' @ decision) ''active''
          [(''gate_id'', JStr g), (''decision'', JStr decision), (''rationale'', JStr rationale),
           (''evidence'', JObj evidence)] d2) (\<lambda>d3.
        Inr ((p, ap_id ap), d3)))))))))"

definition decide_gate_tx :: "(string \<Rightarrow> string) \<Rightarrow> timestamp \<Rightarrow> string \<Rightarrow> string \<Rightarrow> string \<Rightarrow> string \<Rightarrow>
    string \<Rightarrow> (string \<times> json) list \<Rightarrow> db \<Rightarrow> ((string \<times> string) \<times> db) res" where
  "decide_gate_tx sha t p g sponsor decision rationale evidence d =
     bindR (required p) (\<lambda>p. bindR (required g) (\<lambda>g. bindR (required sponsor) (\<lambda>sponsor.
     bindR (required decision) (\<lambda>decision. bindR (decision_of decision) (\<lambda>dec.
     bindR (required rationale) (\<lambda>rationale.
     event_transaction (decide_gate_core sha t p g sponsor dec decision rationale evidence d)))))))"

definition decide_gate :: "(string \<Rightarrow> string) \<Rightarrow> timestamp \<Rightarrow> string \<Rightarrow> string \<Rightarrow> string \<Rightarrow> string \<Rightarrow>
    string \<Rightarrow> (string \<times> json) list \<Rightarrow> db \<Rightarrow> approval_record res \<times> db" where
  "decide_gate sha t p g sponsor decision rationale evidence d =
     then_read (atomically (decide_gate_tx sha t p g sponsor decision rationale evidence d) d)
       (\<lambda>(p, a) d'. get_approval p a d')"

section \<open>What each operation writes\<close>

lemma report_frame:
  assumes "report sha t p w actor corr ty status payload d = Inr d'"
  shows "db_works d' = db_works d" "db_gates d' = db_gates d" "db_approvals d' = db_approvals d"
    "db_incidents d' = db_incidents d" "db_sponsors d' = db_sponsors d"
    "db_items d' = db_items d" "db_leases d' = db_leases d" "db_handoffs d' = db_handoffs d"
    "db_queues d' = db_queues d" "db_instances d' = db_instances d" "db_runs d' = db_runs d"
    "db_journal d' = db_journal d" "db_obligations d' = db_obligations d"
  using assms append_event_fields by (auto simp: report_def monad_simps split: prod.splits)

lemma update_work_frame [simp]:
  "db_gates (update_work p w f d) = db_gates d" "db_approvals (update_work p w f d) = db_approvals d"
  "db_incidents (update_work p w f d) = db_incidents d" "db_sponsors (update_work p w f d) = db_sponsors d"
  "db_works (update_work p w f d) = upd_where (\<lambda>r. wi_project r = p \<and> wi_id r = w) f (db_works d)"
  by (simp_all add: update_work_def)

lemma close_incident_frame [simp]:
  "db_works (close_incident t p i d) = db_works d" "db_gates (close_incident t p i d) = db_gates d"
  "db_approvals (close_incident t p i d) = db_approvals d" "db_sponsors (close_incident t p i d) = db_sponsors d"
  by (simp_all add: close_incident_def split: option.splits)

lemma work_rowD: "work_row d p w = Some r \<Longrightarrow> r \<in> set (db_works d) \<and> wi_project r = p \<and> wi_id r = w"
  by (auto simp: work_row_def dest: fetchone_SomeD)

lemma transition_tx_core:
  "transition_tx sha t p w target actor corr version reason evidence d = Inr (x, d') \<Longrightarrow>
    \<exists>reason'. transition_core sha t (strip p) (strip w) (strip target) (strip actor) (strip corr)
      version reason' evidence d = Inr (x, d')"
  by (auto simp: transition_tx_def monad_simps)

lemma transition_Inr:
  assumes "transition_core sha t p w target actor corr version reason evidence d = Inr (x, d')"
  shows "\<exists>cur i ev. work_row d p w = Some cur \<and> wi_version cur = version
    \<and> target \<in> set (direct_transitions (wi_status cur)) \<and> failure_gate p w target d = Inr i
    \<and> db_works d' = upd_where (\<lambda>r. wi_project r = p \<and> wi_id r = w)
        (\<lambda>r. r\<lparr>wi_status := target, wi_version := wi_version r + 1, wi_reason := reason, wi_evidence := ev\<rparr>)
        (db_works d)
    \<and> db_gates d' = db_gates d \<and> db_approvals d' = db_approvals d
    \<and> db_incidents d' = db_incidents (close_incident t p i d) \<and> db_sponsors d' = db_sponsors d"
proof -
  from assms obtain cur i where c: "work_row d p w = Some cur" "wi_version cur = version"
      "target \<in> set (direct_transitions (wi_status cur))"
    and i: "failure_gate p w target d = Inr i"
    unfolding transition_core_def lock_work_def bindR_Inr_iff of_row_iff ensure_iff by blast
  let ?ev = "case i of None \<Rightarrow> evidence | Some i \<Rightarrow> put ''failure_incident_id'' (JStr i) evidence"
  have "report sha t p w actor corr (''work.'' @ target) target
       [(''status'', JStr target), (''version'', JInt (version + 1)),
          (''reason'', opt_str reason), (''evidence'', JObj ?ev)]
       (close_incident t p i (update_work p w (\<lambda>r. r\<lparr>wi_status := target,
          wi_version := wi_version r + 1, wi_reason := reason, wi_evidence := ?ev\<rparr>) d)) = Inr d'"
    using assms c i by (simp add: transition_core_def lock_work_def monad_simps Let_def)
  note f = report_frame [OF this]
  have "db_incidents d' = db_incidents (close_incident t p i d)"
    unfolding f by (simp add: close_incident_def split: option.splits)
  with c i f(1-3,5) show ?thesis
    by (intro exI [of _ cur] exI [of _ i] exI [of _ ?ev]) simp
qed

lemma insert_approvals_shape:
  "insert_approvals p g ss d = Inr d' \<Longrightarrow> \<exists>rows. d' = d\<lparr>db_approvals := db_approvals d @ rows\<rparr>
     \<and> (\<forall>r\<in>set rows. ap_project r = p \<and> ap_gate r = g \<and> ap_decision r = None \<and> ap_approver r \<in> set ss
        \<and> ap_id r = g @ '':'' @ ap_approver r)
     \<and> (distinct (map (\<lambda>a. (ap_project a, ap_id a)) (db_approvals d)) \<longrightarrow>
        distinct (map (\<lambda>a. (ap_project a, ap_id a)) (db_approvals d')))"
proof (induction ss arbitrary: d)
  case Nil
  then show ?case by (auto intro: exI [of _ "[]"])
next
  case (Cons s ss)
  let ?r = "\<lparr>ap_project = p, ap_id = g @ '':'' @ s, ap_gate = g, ap_approver = s, ap_decision = None,
    ap_rationale = None, ap_evidence = [], ap_decided = None\<rparr>"
  let ?d1 = "d\<lparr>db_approvals := db_approvals d @ [?r]\<rparr>"
  from Cons.prems have r: "insert_approvals p g ss ?d1 = Inr d'"
    and new: "\<not> has_row (\<lambda>r. ap_project r = p \<and> ap_id r = g @ '':'' @ s) (db_approvals d)"
    by (auto split: if_splits)
  from Cons.IH [OF r] obtain rows where rows: "d' = ?d1\<lparr>db_approvals := db_approvals ?d1 @ rows\<rparr>"
    "\<forall>r\<in>set rows. ap_project r = p \<and> ap_gate r = g \<and> ap_decision r = None \<and> ap_approver r \<in> set ss
      \<and> ap_id r = g @ '':'' @ ap_approver r"
    "distinct (map (\<lambda>a. (ap_project a, ap_id a)) (db_approvals ?d1)) \<longrightarrow>
        distinct (map (\<lambda>a. (ap_project a, ap_id a)) (db_approvals d'))" by blast
  have "distinct (map (\<lambda>a. (ap_project a, ap_id a)) (db_approvals ?d1))"
    if "distinct (map (\<lambda>a. (ap_project a, ap_id a)) (db_approvals d))"
    using that new by (auto simp: has_row_iff)
  with rows show ?case by (intro exI [of _ "?r # rows"]) simp
qed

lemma open_gate_tx_core:
  "open_gate_tx sha t p w g ty by' sponsors corr version evidence d = Inr (x, d') \<Longrightarrow>
    \<exists>ss gate. mapR required sponsors = Inr ss \<and> ga_project gate = strip p \<and> ga_id gate = strip g
      \<and> ga_work gate = strip w \<and> ga_status gate = GatePending
      \<and> open_gate_core sha t (strip p) (strip w) gate ss version d = Inr (x, d')"
  by (force simp: open_gate_tx_def monad_simps)

lemma open_gate_Inr:
  assumes "open_gate_core sha t p w gate ss version d = Inr (x, d')"
  shows "\<exists>cur rows. work_row d p w = Some cur \<and> wi_version cur = version \<and> wi_status cur = ''active''
    \<and> (\<forall>s\<in>set ss. (p, s) \<in> set (db_sponsors d))
    \<and> \<not> has_row (\<lambda>r. ga_project r = p \<and> ga_id r = ga_id gate) (db_gates d)
    \<and> db_gates d' = db_gates d @ [gate] \<and> db_sponsors d' = db_sponsors d
    \<and> db_works d' = upd_where (\<lambda>r. wi_project r = p \<and> wi_id r = w)
        (\<lambda>r. r\<lparr>wi_status := ''gated'', wi_version := wi_version r + 1\<rparr>) (db_works d)
    \<and> db_approvals d' = db_approvals d @ rows
    \<and> (\<forall>r\<in>set rows. ap_project r = p \<and> ap_gate r = ga_id gate \<and> ap_decision r = None \<and> ap_approver r \<in> set ss
        \<and> ap_id r = ga_id gate @ '':'' @ ap_approver r)
    \<and> (distinct (map (\<lambda>a. (ap_project a, ap_id a)) (db_approvals d)) \<longrightarrow>
       distinct (map (\<lambda>a. (ap_project a, ap_id a)) (db_approvals d')))"
proof -
  let ?d1 = "update_work p w (\<lambda>r. r\<lparr>wi_status := ''gated'', wi_version := wi_version r + 1\<rparr>)
           (d\<lparr>db_gates := db_gates d @ [gate]\<rparr>)"
  from assms obtain cur d2 where c: "work_row d p w = Some cur" "wi_version cur = version"
      "wi_status cur = ''active''" "\<forall>s\<in>set ss. (p, s) \<in> set (db_sponsors d)"
      "\<not> has_row (\<lambda>r. ga_project r = p \<and> ga_id r = ga_id gate) (db_gates d)"
    and ap: "insert_approvals p (ga_id gate) ss ?d1 = Inr d2"
    and r: "report sha t p w (ga_requested_by gate) (ga_correlation gate) ''gate.opened'' ''gated''
      [(''gate_id'', JStr (ga_id gate)), (''gate_type'', JStr (ga_type gate))] d2 = Inr d'"
    unfolding open_gate_core_def lock_work_def bindR_Inr_iff of_row_iff ensure_iff Let_def list_all_iff
    by (elim exE conjE) simp
  note f = report_frame(1-3,5) [OF r]
  from insert_approvals_shape [OF ap] obtain rows where rows: "d2 = ?d1\<lparr>db_approvals := db_approvals ?d1 @ rows\<rparr>"
    "\<forall>r\<in>set rows. ap_project r = p \<and> ap_gate r = ga_id gate \<and> ap_decision r = None \<and> ap_approver r \<in> set ss
      \<and> ap_id r = ga_id gate @ '':'' @ ap_approver r"
    "distinct (map (\<lambda>a. (ap_project a, ap_id a)) (db_approvals ?d1)) \<longrightarrow>
        distinct (map (\<lambda>a. (ap_project a, ap_id a)) (db_approvals d2))" by blast
  show ?thesis
    by (intro exI [of _ cur] exI [of _ rows] conjI) (use c rows f in simp_all)
qed

lemma decide_gate_tx_core:
  "decide_gate_tx sha t p g sponsor decision rationale evidence d = Inr (x, d') \<Longrightarrow>
    \<exists>dec. decision_of (strip decision) = Inr dec
      \<and> decide_gate_core sha t (strip p) (strip g) (strip sponsor) dec (strip decision) (strip rationale)
          evidence d = Inr (x, d')"
  by (auto simp: decide_gate_tx_def monad_simps)

lemma decide_gate_Inr:
  assumes "decide_gate_core sha t p g sponsor dec decision rationale evidence d = Inr (x, d')"
  shows "\<exists>gate ap cur. fetchone (\<lambda>r. ga_project r = p \<and> ga_id r = g) (db_gates d) = Some gate
    \<and> ga_status gate = GatePending
    \<and> fetchone (\<lambda>r. ap_project r = p \<and> ap_gate r = g \<and> ap_approver r = sponsor) (db_approvals d) = Some ap
    \<and> ap_decision ap = None \<and> work_row d p (ga_work gate) = Some cur \<and> wi_status cur = ''gated''
    \<and> db_works d' = upd_where (\<lambda>r. wi_project r = p \<and> wi_id r = ga_work gate)
        (\<lambda>r. r\<lparr>wi_status := ''active'', wi_version := wi_version r + 1\<rparr>) (db_works d)
    \<and> db_gates d' = upd_where (\<lambda>r. ga_project r = p \<and> ga_id r = g)
        (\<lambda>r. r\<lparr>ga_status := gate_status_of dec, ga_resolved := Some t\<rparr>) (db_gates d)
    \<and> db_approvals d' = upd_where (\<lambda>r. ap_project r = p \<and> ap_id r = ap_id ap)
        (\<lambda>r. r\<lparr>ap_decision := Some dec, ap_rationale := Some rationale, ap_evidence := evidence,
              ap_decided := Some t\<rparr>) (db_approvals d)
    \<and> db_sponsors d' = db_sponsors d \<and> x = (p, ap_id ap)"
proof -
  from assms obtain gate ap cur where c:
    "fetchone (\<lambda>r. ga_project r = p \<and> ga_id r = g) (db_gates d) = Some gate"
    "ga_status gate = GatePending"
    "fetchone (\<lambda>r. ap_project r = p \<and> ap_gate r = g \<and> ap_approver r = sponsor) (db_approvals d) = Some ap"
    "ap_decision ap = None" "work_row d p (ga_work gate) = Some cur" "wi_status cur = ''gated''"
    unfolding decide_gate_core_def lock_work_def bindR_Inr_iff of_row_iff ensure_iff by blast
  have r: "report sha t p (ga_work gate) sponsor (ga_correlation gate) (''gate.'' @ decision) ''active''
      [(''gate_id'', JStr g), (''decision'', JStr decision), (''rationale'', JStr rationale),
           (''evidence'', JObj evidence)]
      (update_work p (ga_work gate) (\<lambda>r. r\<lparr>wi_status := ''active'', wi_version := wi_version r + 1\<rparr>)
        (d\<lparr>db_approvals := upd_where (\<lambda>r. ap_project r = p \<and> ap_id r = ap_id ap)
               (\<lambda>r. r\<lparr>ap_decision := Some dec, ap_rationale := Some rationale, ap_evidence := evidence,
                     ap_decided := Some t\<rparr>) (db_approvals d),
             db_gates := upd_where (\<lambda>r. ga_project r = p \<and> ga_id r = g)
               (\<lambda>r. r\<lparr>ga_status := gate_status_of dec, ga_resolved := Some t\<rparr>) (db_gates d)\<rparr>)) = Inr d'"
    and x: "x = (p, ap_id ap)"
    using assms c by (simp_all add: decide_gate_core_def lock_work_def monad_simps Let_def)
  note f = report_frame(1-3,5) [OF r]
  show ?thesis
    by (intro exI [of _ gate] exI [of _ ap] exI [of _ cur] conjI) (use c f x in simp_all)
qed

end
