(* ===== verification/FlowEngine.thy ===== *)
theory FlowEngine
  imports FlowDefinition Lifecycle Handoffs
begin

text \<open>
  \<open>flow_engine.py\<close>: a work item runs through the states of its flow. The run pins the flow
  it started with; leaving a state takes a ready set of obligations, a route, a handoff to
  the owner of the target state and its acceptance. Every operation carries an id and is
  recorded in a journal, so a repeated request replays. \<open>prepare\<close> and \<open>complete\<close> are
  several transactions: each is a definition of its own, and the method their composition.
\<close>

section \<open>Arguments\<close>

definition flow_identifier :: "string \<Rightarrow> string res" where
  "flow_identifier s = (if ident_ok s then Inr s else Inl ValueError)"

definition flow_identifiers :: "string list \<Rightarrow> string list res" where
  "flow_identifiers ss = mapR flow_identifier ss"

record transition_source =
  ts_lease :: string
  ts_token :: string

definition make_source :: "transition_source \<Rightarrow> transition_source res" where
  "make_source s = bindR (flow_identifier (ts_lease s)) (\<lambda>_.
     bindR (ensure (strip (ts_token s) \<noteq> [] \<and> length (ts_token s) \<le> 512) ValueError) (\<lambda>_. Inr s))"

definition flow_fields :: "(string \<times> json) list \<Rightarrow> (string \<times> json) list res" where
  "flow_fields m = (case sorted_json (JObj m) of
     JObj s \<Rightarrow> if length (dumps True '', '' '': '' (JObj s)) > 32000 then Inl ValueError else Inr s
   | _ \<Rightarrow> Inl ValueError)"

definition flow_version :: "int \<Rightarrow> int res" where
  "flow_version v = (if v < 1 then Inl ValueError else Inr v)"

definition request_digest :: "(string \<Rightarrow> string) \<Rightarrow> json list \<Rightarrow> string" where
  "request_digest sha vs = sha (dumps True '','' '':'' (JList vs))"

section \<open>Rows\<close>

definition run_key :: "('a flow_run_scheme) \<Rightarrow> string \<times> string" where
  "run_key r = (fr_project r, fr_work r)"

definition run_of :: "string \<Rightarrow> string \<Rightarrow> db \<Rightarrow> flow_row option" where
  "run_of p w d = fetchone (\<lambda>r. fr_project r = p \<and> fr_work r = w) (db_runs d)"

definition run_record :: "flow_row \<Rightarrow> flow_run" where
  "run_record r = flow_run.truncate r"

text \<open>\<open>_lock\<close> and \<open>_get_in\<close>.\<close>

definition lock_run :: "string \<Rightarrow> string \<Rightarrow> db \<Rightarrow> flow_row res" where
  "lock_run p w d = of_row FlowEngineNotFound (run_of p w d)"

definition get_run :: "string \<Rightarrow> string \<Rightarrow> db \<Rightarrow> flow_run res" where
  "get_run p w d = bindR (lock_run p w d) (\<lambda>r. Inr (run_record r))"

text \<open>The table's \<open>CHECK\<close>: the pending columns each status has.\<close>

definition run_check :: "flow_row \<Rightarrow> bool" where
  "run_check r =
     (if fr_status r = HandoffPreparing \<or> fr_status r = HandoffPending
      then fr_route r \<noteq> None \<and> fr_target r \<noteq> None \<and> fr_target_role r \<noteq> None
        \<and> fr_operation r \<noteq> None \<and> fr_request r \<noteq> None
        \<and> (fr_status r = HandoffPreparing) = (fr_handoff r = None)
      else fr_route r = None \<and> fr_target r = None \<and> fr_target_role r = None \<and> fr_handoff r = None
        \<and> (if fr_status r = CompletionPreparing then fr_operation r \<noteq> None \<and> fr_request r \<noteq> None
            else fr_operation r = None \<and> fr_request r = None))"

definition update_run :: "string \<Rightarrow> string \<Rightarrow> (flow_row \<Rightarrow> flow_row) \<Rightarrow> db \<Rightarrow> db res" where
  "update_run p w f d =
     (let this = (\<lambda>r. fr_project r = p \<and> fr_work r = w) in
      bindR (ensure (\<not> has_row (\<lambda>r. this r \<and> \<not> run_check (f r)) (db_runs d)) CheckViolation) (\<lambda>_.
      Inr (d\<lparr>db_runs := upd_where this f (db_runs d)\<rparr>)))"

text \<open>\<open>_replay\<close>: the work item of a recorded operation; another request under its id conflicts.\<close>

definition replayed :: "string \<Rightarrow> string \<Rightarrow> string \<Rightarrow> db \<Rightarrow> string option res" where
  "replayed p op digest d = (case fetchone (\<lambda>j. jo_project j = p \<and> jo_operation j = op) (db_journal d) of
     None \<Rightarrow> Inr None
   | Some j \<Rightarrow> if jo_digest j = digest then Inr (Some (jo_work j)) else Inl FlowEngineConflict)"

text \<open>A recorded operation answers with the current run (\<open>Inl\<close>) and writes nothing, a new one
  does its work.\<close>

definition replaying :: "string \<Rightarrow> string \<Rightarrow> string \<Rightarrow> db \<Rightarrow> ('a \<times> db) res \<Rightarrow> ((flow_run + 'a) \<times> db) res" where
  "replaying p op digest d fresh =
     bindR (replayed p op digest d) (\<lambda>replay. case replay of
       Some w \<Rightarrow> bindR (get_run p w d) (\<lambda>r. Inr (Inl r, d))
     | None \<Rightarrow> bindR fresh (\<lambda>(x, d'). Inr (Inr x, d')))"

definition same_pending :: "flow_row \<Rightarrow> string \<Rightarrow> string \<Rightarrow> unit res" where
  "same_pending r op digest = ensure (fr_operation r = Some op \<and> fr_request r = Some digest) FlowEngineConflict"

definition pinned_flow :: "flow_row \<Rightarrow> flow_definition res" where
  "pinned_flow r = validate_flow (fr_snapshot r) (fr_digest r)"

fun insert_obligations :: "string \<Rightarrow> string \<Rightarrow> string \<Rightarrow> int \<Rightarrow> flow_action list \<Rightarrow> db \<Rightarrow> db res" where
  "insert_obligations p w s v [] d = Inr d"
| "insert_obligations p w s v (a # as) d =
     (if has_row (\<lambda>o'. fo_project o' = p \<and> fo_work o' = w \<and> fo_state o' = s \<and> fo_entry o' = v
          \<and> fo_kind o' = ac_kind a \<and> fo_id o' = ac_id a) (db_obligations d) then Inl UniqueViolation
      else insert_obligations p w s v as (d\<lparr>db_obligations := db_obligations d @ [\<lparr>fo_project = p, fo_work = w,
        fo_state = s, fo_entry = v, fo_kind = ac_kind a, fo_id = ac_id a, fo_role = ac_role a,
        fo_payload = ac_payload a, fo_status = ObPending, fo_evidence = []\<rparr>]\<rparr>))"

text \<open>\<open>_journal\<close>: the next sequence number of the run; the operation id is unique.\<close>

definition insert_journal :: "journal_row \<Rightarrow> db \<Rightarrow> db res" where
  "insert_journal j d =
     (if has_row (\<lambda>x. jo_project x = jo_project j \<and> jo_operation x = jo_operation j) (db_journal d)
      then Inl UniqueViolation
      else Inr (d\<lparr>db_journal := db_journal d @ [j\<lparr>jo_sequence := next_id (map jo_sequence
        (filter (\<lambda>x. jo_project x = jo_project j \<and> jo_work x = jo_work j) (db_journal d)))\<rparr>]\<rparr>))"

definition journal_entry :: "string \<Rightarrow> string \<Rightarrow> string \<Rightarrow> string \<Rightarrow> string \<Rightarrow> string option \<Rightarrow> string \<Rightarrow>
    string option \<Rightarrow> string option \<Rightarrow> string \<Rightarrow> (string \<times> json) list \<Rightarrow> journal_row" where
  "journal_entry p w op digest action from to' rt handoff actor evidence =
     \<lparr>jo_project = p, jo_work = w, jo_sequence = 0, jo_operation = op, jo_digest = digest,
      jo_action = action, jo_from = from, jo_to = to', jo_route = rt, jo_handoff = handoff,
      jo_actor = actor, jo_evidence = evidence\<rparr>"

definition flow_event :: "(string \<Rightarrow> string) \<Rightarrow> timestamp \<Rightarrow> string \<Rightarrow> string \<Rightarrow> string \<Rightarrow> string \<Rightarrow> string \<Rightarrow>
    (string \<times> json) list \<Rightarrow> db \<Rightarrow> db res" where
  "flow_event sha t p w actor op ty payload d =
     bindR (append_event sha t \<lparr>ed_project = p, ed_work = w, ed_actor = actor, ed_correlation = op,
         ed_agg_type = ''flow-run'', ed_agg_id = w, ed_type = ty, ed_payload = payload, ed_causation = None\<rparr>
       [\<lparr>od_topic = ty, od_payload = payload\<rparr>] d) (\<lambda>(_, d'). Inr d')"

text \<open>\<open>_require_ready\<close>: an obligation of the current entry that is not met blocks. Artifacts
  need verified evidence, gates an approval or exception, consults an exception or, once
  dispatched, a response, informs only the dispatch.\<close>

definition has_evidence :: "flow_obligation \<Rightarrow> (gov_decision \<Rightarrow> bool) \<Rightarrow> db \<Rightarrow> bool" where
  "has_evidence o' D d = has_row (\<lambda>e. go_project e = fo_project o' \<and> go_work e = fo_work o'
     \<and> go_state e = fo_state o' \<and> go_entry e = fo_entry o' \<and> go_kind e = fo_kind o'
     \<and> go_obligation e = fo_id o' \<and> D (go_decision e)) (db_governance d)"

definition blocking :: "db \<Rightarrow> flow_obligation \<Rightarrow> bool" where
  "blocking d o' = (case fo_kind o' of
     KArtifact \<Rightarrow> fo_status o' \<noteq> ObSatisfied \<or> \<not> has_evidence o' (\<lambda>x. x = Verified) d
   | KGate \<Rightarrow> fo_status o' \<noteq> ObSatisfied \<or> \<not> has_evidence o' (\<lambda>x. x = GovApproved \<or> x = GovException) d
   | KConsult \<Rightarrow> \<not> has_evidence o' (\<lambda>x. x = GovException \<or> x = Responded \<and> fo_status o' = ObDispatched) d
   | KInform \<Rightarrow> fo_status o' \<noteq> ObDispatched)"

definition current_obligation :: "flow_row \<Rightarrow> flow_obligation \<Rightarrow> bool" where
  "current_obligation r o' = (fo_project o' = fr_project r \<and> fo_work o' = fr_work r
     \<and> fo_state o' = fr_state r \<and> fo_entry o' = fr_version r)"

definition require_ready :: "flow_row \<Rightarrow> db \<Rightarrow> unit res" where
  "require_ready r d = ensure (\<not> has_row (\<lambda>o'. current_obligation r o' \<and> blocking d o') (db_obligations d))
     FlowEngineConflict"

section \<open>Starting\<close>

definition insert_run :: "flow_row \<Rightarrow> db \<Rightarrow> db res" where
  "insert_run r d =
     (if has_row (\<lambda>x. fr_project x = fr_project r \<and> fr_work x = fr_work r) (db_runs d) then Inl UniqueViolation
      else if \<not> has_role d (fr_project r) (fr_owner r) then Inl ForeignKeyViolation
      else Inr (d\<lparr>db_runs := db_runs d @ [r]\<rparr>))"

definition start_new :: "(string \<Rightarrow> string) \<Rightarrow> timestamp \<Rightarrow> string \<Rightarrow> string \<Rightarrow> flow_definition \<Rightarrow> flow_state \<Rightarrow>
    (string \<times> json) list \<Rightarrow> string \<Rightarrow> string \<Rightarrow> string \<Rightarrow> db \<Rightarrow> (unit \<times> db) res" where
  "start_new sha t p w flow st fv actor op digest d =
         bindR (of_row FlowEngineNotFound (work_row d p w)) (\<lambda>work.
         bindR (ensure (wi_status work = ''active'' \<and> wi_owner work = Some (fs_owner st)) FlowEngineConflict) (\<lambda>_.
         bindR (insert_run \<lparr>fr_project = p, fr_work = w, fr_flow = fd_id flow, fr_digest = fd_digest flow,
           fr_state = fs_id st, fr_owner = fs_owner st, fr_status = FlowActive, fr_fields = fv,
           fr_version = 1, fr_route = None, fr_target = None, fr_target_role = None, fr_handoff = None,
           fr_snapshot = fd_snapshot flow, fr_operation = None, fr_request = None\<rparr> d) (\<lambda>d1.
         bindR (insert_obligations p w (fs_id st) 1 (state_obligations st fv) d1) (\<lambda>d2.
         bindR (insert_journal (journal_entry p w op digest ''start'' None (fs_id st) None None actor
           [(''flow_digest'', JStr (fd_digest flow))]) d2) (\<lambda>d3.
         bindR (flow_event sha t p w actor op ''flow.started''
           [(''state'', JStr (fs_id st)), (''owner_role_id'', JStr (fs_owner st))] d3) (\<lambda>d4.
         Inr ((), d4)))))))"

definition start_tx :: "(string \<Rightarrow> string) \<Rightarrow> timestamp \<Rightarrow> string \<Rightarrow> string \<Rightarrow> flow_definition \<Rightarrow> flow_state \<Rightarrow>
    (string \<times> json) list \<Rightarrow> string \<Rightarrow> string \<Rightarrow> string \<Rightarrow> db \<Rightarrow> ((flow_run + unit) \<times> db) res" where
  "start_tx sha t p w flow st fv actor op digest d =
     replaying p op digest d (start_new sha t p w flow st fv actor op digest d)"

text \<open>The classes derived from \<open>DatabaseError\<close>, and the handlers of the methods.\<close>

definition database_error :: "exn \<Rightarrow> bool" where
  "database_error e = (\<not> value_error e \<and> e \<notin> {UniqueViolation, ForeignKeyViolation, CheckViolation,
     DataError, TriggerException, OSError, RecursionError, TypeError})"

definition start_wrap :: "exn \<Rightarrow> exn" where
  "start_wrap e = (if e = FlowDefinitionError then e
     else if e = UniqueViolation then FlowEngineConflict
     else if database_error e then e else FlowEngineError)"

definition flow_wrap :: "exn \<Rightarrow> exn" where
  "flow_wrap e = (if e = FlowDefinitionError \<or> database_error e then e else FlowEngineError)"

definition flow_get :: "string \<Rightarrow> string \<Rightarrow> db \<Rightarrow> flow_run res" where
  "flow_get p w d = bindR (flow_identifiers [p, w]) (\<lambda>_. get_run p w d)"

definition or_get :: "string \<Rightarrow> string \<Rightarrow> flow_run + unit \<Rightarrow> db \<Rightarrow> flow_run res" where
  "or_get p w r d = (case r of Inl x \<Rightarrow> Inr x | Inr _ \<Rightarrow> flow_get p w d)"

definition start :: "(string \<Rightarrow> string) \<Rightarrow> timestamp \<Rightarrow> string \<Rightarrow> string \<Rightarrow> flow_definition \<Rightarrow>
    (string \<times> json) list \<Rightarrow> string \<Rightarrow> string \<Rightarrow> db \<Rightarrow> flow_run res \<times> db" where
  "start sha t p w flow fv actor op d =
     then_read (atomically (
       bindR (flow_identifiers [p, w, actor, op]) (\<lambda>_.
       bindR (flow_fields fv) (\<lambda>fv.
       bindR (flow_state_of flow (fd_entry flow)) (\<lambda>st.
       let digest = request_digest sha [JStr ''start'', JStr (fd_digest flow), fd_snapshot flow, JObj fv, JStr actor]
       in except_map start_wrap (event_transaction (start_tx sha t p w flow st fv actor op digest d)))))) d)
     (or_get p w)"

section \<open>Dispatching consults and informs\<close>

definition dispatch_draft :: "flow_row \<Rightarrow> flow_obligation \<Rightarrow> string \<Rightarrow> route_draft" where
  "dispatch_draft r o' actor =
     \<lparr>rd_project = fr_project r, rd_work = fr_work r, rd_role = fo_role o',
      rd_key = ''flow-'' @ kind_text (fo_kind o') @ ''-'' @ fr_work r @ ''-'' @ dec_int (fr_version r)
        @ ''-'' @ fo_id o',
      rd_payload = [(''flow_action'', JObj (fo_payload o')), (''state'', JStr (fr_state r)),
        (''requested_by'', JStr actor)],
      rd_capability = None, rd_priority = 0, rd_available = None\<rparr>"

definition dispatch_tx :: "timestamp \<Rightarrow> (string \<Rightarrow> string) \<Rightarrow> string \<Rightarrow> string \<Rightarrow> obligation_kind \<Rightarrow> string \<Rightarrow>
    string \<Rightarrow> db \<Rightarrow> (flow_obligation \<times> db) res" where
  "dispatch_tx t sha p w k oid actor d =
     bindR (lock_run p w d) (\<lambda>run.
     bindR (ensure (fr_status run = FlowActive) FlowEngineConflict) (\<lambda>_.
     let this = (\<lambda>o'. current_obligation run o' \<and> fo_kind o' = k \<and> fo_id o' = oid) in
     bindR (of_row FlowEngineConflict (fetchone (\<lambda>o'. this o' \<and> (fo_status o' = ObPending \<or> fo_status o' = ObDispatched))
       (db_obligations d))) (\<lambda>row.
     bindR (make_route_draft (dispatch_draft run row actor)) (\<lambda>draft.
     bindR (route_in_transaction t sha draft d) (\<lambda>(_, d1).
     Inr (row\<lparr>fo_status := ObDispatched\<rparr>,
       d1\<lparr>db_obligations := upd_where this (\<lambda>o'. o'\<lparr>fo_status := ObDispatched\<rparr>) (db_obligations d1)\<rparr>))))))"

definition dispatch :: "timestamp \<Rightarrow> (string \<Rightarrow> string) \<Rightarrow> string \<Rightarrow> string \<Rightarrow> string \<Rightarrow> string \<Rightarrow> string \<Rightarrow> db \<Rightarrow>
    (flow_obligation \<times> db) res" where
  "dispatch t sha p w kind oid actor d =
     bindR (flow_identifiers [p, w, actor, oid]) (\<lambda>_.
     bindR (if kind = ''consult'' then Inr KConsult else if kind = ''inform'' then Inr KInform
            else Inl FlowEngineConflict) (\<lambda>k.
     except_map (\<lambda>e. if e \<in> {FlowEngineNotFound, FlowEngineConflict} then e else FlowEngineError)
       (dispatch_tx t sha p w k oid actor d)))"

section \<open>Preparing a transition\<close>

text \<open>First transaction: pin the route. A retry of the pending request finds it again from the
  fields stored with it.\<close>

definition merge_impact :: "flow_row \<Rightarrow> (string \<times> json) list \<Rightarrow> db \<Rightarrow> (string \<times> json) list res" where
  "merge_impact r fv d =
     (let merged = merge (fr_fields r) fv in
      case fetchone (\<lambda>c. gc_project c = fr_project r \<and> gc_work c = fr_work r) (db_contexts d) of
        None \<Rightarrow> Inr merged
      | Some c \<Rightarrow>
          let impact = opt_str (gc_impact c); supplied = get merged ''architecture_impact''
          in if supplied \<noteq> JNull \<and> supplied \<noteq> impact then Inl FlowEngineConflict
             else Inr (put ''architecture_impact'' impact merged))"

definition pin_new :: "string \<Rightarrow> string \<Rightarrow> string \<Rightarrow> (string \<times> json) list \<Rightarrow> int \<Rightarrow> string \<Rightarrow> string \<Rightarrow>
    db \<Rightarrow> (flow_route \<times> db) res" where
  "pin_new p w outcome fv version op digest d =
         bindR (lock_run p w d) (\<lambda>run.
         if fr_status run = HandoffPreparing
         then bindR (same_pending run op digest) (\<lambda>_.
              bindR (pinned_flow run) (\<lambda>flow. bindR (flow_state_of flow (fr_state run)) (\<lambda>st.
              bindR (select_route st outcome (fr_fields run)) (\<lambda>rt. Inr (rt, d)))))
         else
           bindR (ensure (fr_status run = FlowActive \<and> fr_version run = version) FlowEngineConflict) (\<lambda>_.
           bindR (merge_impact run fv d) (\<lambda>merged.
           bindR (pinned_flow run) (\<lambda>flow. bindR (flow_state_of flow (fr_state run)) (\<lambda>st.
           bindR (ensure (\<not> fs_terminal st) FlowEngineConflict) (\<lambda>_.
           bindR (require_ready run d) (\<lambda>_.
           bindR (select_route st outcome merged) (\<lambda>rt.
           bindR (ensure (has_role d p (ft_role rt)) ForeignKeyViolation) (\<lambda>_.
           bindR (update_run p w (\<lambda>r. r\<lparr>fr_status := HandoffPreparing, fr_fields := merged,
             fr_route := Some (ft_id rt), fr_target := Some (ft_state rt),
             fr_target_role := Some (ft_role rt), fr_operation := Some op, fr_request := Some digest\<rparr>) d) (\<lambda>d'.
           Inr (rt, d')))))))))))"

definition pin_route :: "string \<Rightarrow> string \<Rightarrow> string \<Rightarrow> (string \<times> json) list \<Rightarrow> int \<Rightarrow> string \<Rightarrow> string \<Rightarrow>
    db \<Rightarrow> ((flow_run + flow_route) \<times> db) res" where
  "pin_route p w outcome fv version op digest d =
     replaying p op digest d (pin_new p w outcome fv version op digest d)"

text \<open>Second: the handoff, offered under a key made of work item, version and route.\<close>

definition flow_offer :: "string \<Rightarrow> string \<Rightarrow> int \<Rightarrow> flow_route \<Rightarrow> transition_source \<Rightarrow> handoff_offer" where
  "flow_offer p w version rt source =
     \<lparr>hf_project = p, hf_lease = ts_lease source, hf_token = ts_token source, hf_role = ft_role rt,
      hf_key = ''flow-'' @ w @ ''-'' @ dec_int version @ ''-'' @ ft_id rt,
      hf_summary = ''Flow transition to '' @ ft_state rt,
      hf_payload = [(''flow'', JObj [(''target_state'', JStr (ft_state rt)), (''route_id'', JStr (ft_id rt))])],
      hf_capability = None, hf_priority = 0\<rparr>"

text \<open>Third: the run waits for the handoff.\<close>

definition handoff_new :: "(string \<Rightarrow> string) \<Rightarrow> timestamp \<Rightarrow> string \<Rightarrow> string \<Rightarrow> flow_route \<Rightarrow> string \<Rightarrow>
    string \<Rightarrow> string \<Rightarrow> string \<Rightarrow> flow_row \<Rightarrow> db \<Rightarrow> (unit \<times> db) res" where
  "handoff_new sha t p w rt handoff actor op digest run d =
         bindR (same_pending run op digest) (\<lambda>_.
         bindR (ensure (int4 (fr_version run + 1)) DataError) (\<lambda>_.
         bindR (ensure (handoff_row_of p handoff d \<noteq> None) ForeignKeyViolation) (\<lambda>_.
         bindR (update_run p w (\<lambda>r. r\<lparr>fr_status := HandoffPending, fr_handoff := Some handoff,
             fr_version := fr_version r + 1\<rparr>) d) (\<lambda>d1.
         bindR (insert_journal (journal_entry p w op digest ''prepare'' (Some (fr_state run)) (ft_state rt)
           (Some (ft_id rt)) (Some handoff) actor []) d1) (\<lambda>d2.
         bindR (flow_event sha t p w actor op ''flow.handoff_prepared''
           [(''route_id'', JStr (ft_id rt)), (''handoff_id'', JStr handoff)] d2) (\<lambda>d3.
         Inr ((), d3)))))))"

definition commit_handoff :: "(string \<Rightarrow> string) \<Rightarrow> timestamp \<Rightarrow> string \<Rightarrow> string \<Rightarrow> flow_route \<Rightarrow> string \<Rightarrow>
    string \<Rightarrow> string \<Rightarrow> string \<Rightarrow> db \<Rightarrow> ((flow_run + unit) \<times> db) res" where
  "commit_handoff sha t p w rt handoff actor op digest d =
     bindR (lock_run p w d) (\<lambda>run. replaying p op digest d (handoff_new sha t p w rt handoff actor op digest run d))"

definition prepare_transition :: "(string \<Rightarrow> string) \<Rightarrow> timestamp \<Rightarrow> timestamp \<Rightarrow> timestamp \<Rightarrow> timestamp \<Rightarrow>
    timestamp \<Rightarrow> string \<Rightarrow> string \<Rightarrow> string \<Rightarrow> (string \<times> json) list \<Rightarrow> transition_source \<Rightarrow> int \<Rightarrow>
    string \<Rightarrow> string \<Rightarrow> db \<Rightarrow> flow_run res \<times> db" where
  "prepare_transition sha t1 t2 t3 t4 t5 p w outcome fv source version actor op d =
     (case bindR (flow_identifiers [p, w, actor, op]) (\<lambda>_. bindR (flow_identifier outcome) (\<lambda>_.
           bindR (flow_fields fv) (\<lambda>fv. bindR (flow_version version) (\<lambda>_.
           bindR (make_source source) (\<lambda>_. Inr fv)))))
      of Inl e \<Rightarrow> (Inl e, d)
       | Inr fv \<Rightarrow>
         let digest = request_digest sha [JStr ''prepare'', JStr w, JStr outcome, JObj fv, JInt version, JStr actor]
         in case except_map flow_wrap (pin_route p w outcome fv version op digest d) of
              Inl e \<Rightarrow> (Inl e, d)
            | Inr (Inl run, d1) \<Rightarrow> (Inr run, d1)
            | Inr (Inr rt, d1) \<Rightarrow>
                (case except_map flow_wrap (bindR (make_offer (flow_offer p w version rt source))
                   (\<lambda>o'. offer t1 t2 t3 t4 sha o' d1)) of
                   Inl e \<Rightarrow> (Inl e, d1)
                 | Inr (h, d2) \<Rightarrow>
                     then_read (atomically (except_map flow_wrap (event_transaction
                       (commit_handoff sha t5 p w rt (ho_id (hr_row h)) actor op digest d2))) d2)
                     (or_get p w)))"

section \<open>Picking up a transition\<close>

definition pickup_new :: "(string \<Rightarrow> string) \<Rightarrow> timestamp \<Rightarrow> string \<Rightarrow> string \<Rightarrow> int \<Rightarrow> string \<Rightarrow> string \<Rightarrow>
    string \<Rightarrow> db \<Rightarrow> (unit \<times> db) res" where
  "pickup_new sha t p w version actor op digest d =
         bindR (lock_run p w d) (\<lambda>run.
         bindR (ensure (fr_status run = HandoffPending \<and> fr_version run = version \<and> fr_handoff run \<noteq> None)
           FlowEngineConflict) (\<lambda>_.
         bindR (ensure (map_option ho_status (handoff_row_of p (the (fr_handoff run)) d) = Some Accepted)
           FlowEngineConflict) (\<lambda>_.
         bindR (pinned_flow run) (\<lambda>flow.
         bindR (flow_state_of flow (the (fr_target run))) (\<lambda>target.
         bindR (ensure (Some (fs_owner target) = fr_target_role run) FlowEngineConflict) (\<lambda>_.
         bindR (ensure (int4 (version + 1)) DataError) (\<lambda>_.
         bindR (update_run p w (\<lambda>r. r\<lparr>fr_state := fs_id target, fr_owner := fs_owner target,
             fr_status := FlowActive, fr_route := None, fr_target := None, fr_target_role := None,
             fr_handoff := None, fr_operation := None, fr_request := None, fr_version := version + 1\<rparr>) d) (\<lambda>d1.
         bindR (of_row FlowEngineConflict (fetchone (\<lambda>r. wi_project r = p \<and> wi_id r = w \<and> wi_status r = ''active'')
           (db_works d1))) (\<lambda>work.
         bindR (ensure (int4 (wi_version work + 1)) DataError) (\<lambda>_.
         let d2 = d1\<lparr>db_works := upd_where (\<lambda>r. wi_project r = p \<and> wi_id r = w \<and> wi_status r = ''active'')
             (\<lambda>r. r\<lparr>wi_owner := Some (fs_owner target), wi_version := wi_version r + 1\<rparr>) (db_works d1)\<rparr>
         in
         bindR (insert_obligations p w (fs_id target) (version + 1) (state_obligations target (fr_fields run)) d2)
           (\<lambda>d3.
         bindR (insert_journal (journal_entry p w op digest ''pickup'' (Some (fr_state run)) (fs_id target)
           (fr_route run) (fr_handoff run) actor []) d3) (\<lambda>d4.
         bindR (flow_event sha t p w actor op ''flow.transition_picked_up''
           [(''state'', JStr (fs_id target)), (''owner_role_id'', JStr (fs_owner target))] d4) (\<lambda>d5.
         Inr ((), d5))))))))))))))"

definition pickup_tx :: "(string \<Rightarrow> string) \<Rightarrow> timestamp \<Rightarrow> string \<Rightarrow> string \<Rightarrow> int \<Rightarrow> string \<Rightarrow> string \<Rightarrow>
    string \<Rightarrow> db \<Rightarrow> ((flow_run + unit) \<times> db) res" where
  "pickup_tx sha t p w version actor op digest d =
     replaying p op digest d (pickup_new sha t p w version actor op digest d)"

definition pickup_transition :: "(string \<Rightarrow> string) \<Rightarrow> timestamp \<Rightarrow> string \<Rightarrow> string \<Rightarrow> int \<Rightarrow> string \<Rightarrow>
    string \<Rightarrow> db \<Rightarrow> flow_run res \<times> db" where
  "pickup_transition sha t p w version actor op d =
     then_read (atomically (
       bindR (flow_identifiers [p, w, actor, op]) (\<lambda>_. bindR (flow_version version) (\<lambda>_.
       except_map flow_wrap (event_transaction (pickup_tx sha t p w version actor op
         (request_digest sha [JStr ''pickup'', JStr w, JInt version, JStr actor]) d))))) d)
     (or_get p w)"

section \<open>Completing\<close>

text \<open>First transaction: the run is marked. It runs outside any handler.\<close>

definition mark_new :: "string \<Rightarrow> string \<Rightarrow> int \<Rightarrow> string \<Rightarrow> string \<Rightarrow> db \<Rightarrow> (unit \<times> db) res" where
  "mark_new p w version op digest d =
         bindR (lock_run p w d) (\<lambda>run.
         if fr_status run = CompletionPreparing
         then bindR (same_pending run op digest) (\<lambda>_. Inr ((), d))
         else
           bindR (pinned_flow run) (\<lambda>flow.
           bindR (ensure (fr_status run = FlowActive \<and> fr_version run = version) FlowEngineConflict) (\<lambda>_.
           bindR (flow_state_of flow (fr_state run)) (\<lambda>st.
           bindR (ensure (fs_terminal st) FlowEngineConflict) (\<lambda>_.
           bindR (require_ready run d) (\<lambda>_.
           bindR (update_run p w (\<lambda>r. r\<lparr>fr_status := CompletionPreparing, fr_operation := Some op,
             fr_request := Some digest\<rparr>) d) (\<lambda>d'. Inr ((), d'))))))))"

definition mark_completion :: "string \<Rightarrow> string \<Rightarrow> int \<Rightarrow> string \<Rightarrow> string \<Rightarrow> db \<Rightarrow>
    ((flow_run + unit) \<times> db) res" where
  "mark_completion p w version op digest d =
     replaying p op digest d (mark_new p w version op digest d)"

text \<open>Then the work item is completed, unless it already is; a conflict means that somebody
  else moved it, and its state decides.\<close>

definition complete_work :: "(string \<Rightarrow> string) \<Rightarrow> timestamp \<Rightarrow> string \<Rightarrow> string \<Rightarrow> string \<Rightarrow> string \<Rightarrow>
    (string \<times> json) list \<Rightarrow> db \<Rightarrow> unit res \<times> db" where
  "complete_work sha t p w actor op evidence d =
     (case get_work_item p w d of
        Inl e \<Rightarrow> (Inl e, d)
      | Inr work \<Rightarrow>
          let (after, d1) = (if wi_status work = ''active''
            then (case transition_work_item sha t p w ''completed'' actor op (wi_version work)
                    ''external flow completed'' evidence d of
                    (Inl e, d1) \<Rightarrow> (if e = LifecycleConflict then get_work_item p w d1 else Inl e, d1)
                  | (Inr x, d1) \<Rightarrow> (Inr x, d1))
            else (Inr work, d))
          in (bindR after (\<lambda>work. ensure (wi_status work = ''completed''
                 \<and> wi_reason work = Some ''external flow completed'' \<and> wi_evidence work = evidence)
               FlowEngineConflict), d1))"

definition completion_new :: "(string \<Rightarrow> string) \<Rightarrow> timestamp \<Rightarrow> string \<Rightarrow> string \<Rightarrow> string \<Rightarrow> string \<Rightarrow>
    string \<Rightarrow> (string \<times> json) list \<Rightarrow> flow_row \<Rightarrow> db \<Rightarrow> (unit \<times> db) res" where
  "completion_new sha t p w actor op digest evidence run d =
         bindR (same_pending run op digest) (\<lambda>_.
         bindR (ensure (int4 (fr_version run + 1)) DataError) (\<lambda>_.
         bindR (update_run p w (\<lambda>r. r\<lparr>fr_status := FlowCompleted, fr_operation := None, fr_request := None,
             fr_version := fr_version r + 1\<rparr>) d) (\<lambda>d1.
         bindR (insert_journal (journal_entry p w op digest ''complete'' (Some (fr_state run)) (fr_state run)
           None None actor evidence) d1) (\<lambda>d2.
         bindR (flow_event sha t p w actor op ''flow.completed'' [(''state'', JStr (fr_state run))] d2) (\<lambda>d3.
         Inr ((), d3))))))"

definition commit_completion :: "(string \<Rightarrow> string) \<Rightarrow> timestamp \<Rightarrow> string \<Rightarrow> string \<Rightarrow> string \<Rightarrow> string \<Rightarrow>
    string \<Rightarrow> (string \<times> json) list \<Rightarrow> db \<Rightarrow> ((flow_run + unit) \<times> db) res" where
  "commit_completion sha t p w actor op digest evidence d =
     bindR (lock_run p w d) (\<lambda>run. replaying p op digest d (completion_new sha t p w actor op digest evidence run d))"

definition complete :: "(string \<Rightarrow> string) \<Rightarrow> timestamp \<Rightarrow> timestamp \<Rightarrow> string \<Rightarrow> string \<Rightarrow> int \<Rightarrow> string \<Rightarrow>
    string \<Rightarrow> (string \<times> json) list \<Rightarrow> db \<Rightarrow> flow_run res \<times> db" where
  "complete sha t1 t2 p w version actor op evidence d =
     (case bindR (flow_identifiers [p, w, actor, op]) (\<lambda>_. bindR (flow_version version) (\<lambda>_.
           bindR (flow_fields evidence) (\<lambda>ev. bindR (ensure (ev \<noteq> []) ValueError) (\<lambda>_. Inr ev))))
      of Inl e \<Rightarrow> (Inl e, d)
       | Inr ev \<Rightarrow>
         let digest = request_digest sha [JStr ''complete'', JStr w, JInt version, JStr actor, JObj ev]
         in case mark_completion p w version op digest d of
              Inl e \<Rightarrow> (Inl e, d)
            | Inr (Inl run, d1) \<Rightarrow> (Inr run, d1)
            | Inr (Inr _, d1) \<Rightarrow>
                (case complete_work sha t1 p w actor op ev d1 of
                   (Inl e, d2) \<Rightarrow> (Inl e, d2)
                 | (Inr _, d2) \<Rightarrow>
                     then_read (atomically (event_transaction
                       (commit_completion sha t2 p w actor op digest ev d2)) d2)
                     (or_get p w)))"

section \<open>Reading\<close>

definition obligation_order :: "flow_obligation \<Rightarrow> int \<times> string \<times> string" where
  "obligation_order o' = (fo_entry o', kind_text (fo_kind o'), fo_id o')"

definition flow_obligations :: "string \<Rightarrow> string \<Rightarrow> bool \<Rightarrow> db \<Rightarrow> flow_obligation list res" where
  "flow_obligations p w current_only d =
     bindR (flow_identifiers [p, w]) (\<lambda>_.
     bindR (get_run p w d) (\<lambda>run.
     let mine = filter (\<lambda>o'. fo_project o' = p \<and> fo_work o' = w) (db_obligations d);
         here = filter (\<lambda>o'. fo_state o' = fr_state run) mine;
         latest = fold max (map fo_entry here) 0
     in Inr (sort_key obligation_order
          (if current_only then filter (\<lambda>o'. fo_entry o' = latest) here else mine))))"

end
