(* ===== verification/Governance.thy ===== *)
theory Governance
  imports FlowEngine
begin

text \<open>
  \<open>governance.py\<close>: the evidence that meets the obligations of a flow. The owner role verifies the
  artifact of the state, consulted roles respond, accountable roles decide gates about the very
  version of the artifact that was verified. Records are immutable and carry the digest of their
  request. The document store is a service outside: \<open>stat\<close> is its answer to \<open>stat(path)\<close>. Who
  last updated a governance context is written only and not kept.
\<close>

section \<open>Documents and requests\<close>

record document =
  dm_item :: string
  dm_name :: string
  dm_path :: string
  dm_size :: int
  dm_etag :: string
  dm_folder :: bool
  dm_mime :: "string option"
  dm_created :: "string option"
  dm_modified :: "string option"

definition document_json :: "document \<Rightarrow> json" where
  "document_json m = JObj [(''item_id'', JStr (dm_item m)), (''name'', JStr (dm_name m)), (''path'', JStr (dm_path m)),
     (''size'', JInt (dm_size m)), (''etag'', JStr (dm_etag m)), (''is_folder'', JBool (dm_folder m)),
     (''mime_type'', opt_str (dm_mime m)), (''created_at'', opt_str (dm_created m)),
     (''modified_at'', opt_str (dm_modified m))]"

text \<open>\<open>_digest\<close>, \<open>_reason\<close>, \<open>_evidence\<close>.\<close>

definition governance_digest :: "(string \<Rightarrow> string) \<Rightarrow> json list \<Rightarrow> string" where
  "governance_digest sha vs = sha (dumps True '','' '':'' (JList vs))"

definition governance_reason :: "bool \<Rightarrow> string \<Rightarrow> string res" where
  "governance_reason needed v = bindR (ensure (length v \<le> 4000) ValueError) (\<lambda>_.
     bindR (ensure (\<not> needed \<or> strip v \<noteq> []) ValueError) (\<lambda>_. Inr (strip v)))"

definition governance_evidence :: "(string \<times> json) list option \<Rightarrow> (string \<times> json) list res" where
  "governance_evidence v = (case v of None \<Rightarrow> Inr []
     | Some m \<Rightarrow> bindR (ensure (length (dumps True '','' '':'' (JObj m)) \<le> 1000000) ValueError) (\<lambda>_. Inr m))"

definition materialize_path :: "json \<Rightarrow> string \<Rightarrow> string \<Rightarrow> string res" where
  "materialize_path v p w = (case as_str v of None \<Rightarrow> Inl GovernanceConflict
     | Some s \<Rightarrow> Inr (replace_from ''{work_item_id}'' w 0 (replace_from ''{project_id}'' p 0 s)))"

section \<open>Records\<close>

definition governance_row_of :: "string \<Rightarrow> string \<Rightarrow> db \<Rightarrow> governance_row option" where
  "governance_row_of p rid d = fetchone (\<lambda>e. go_project e = p \<and> go_id e = rid) (db_governance d)"

text \<open>\<open>_replay\<close> (\<open>_read_exact\<close> is the same in a connection of its own).\<close>

definition governance_replay :: "string \<Rightarrow> string \<Rightarrow> string \<Rightarrow> db \<Rightarrow> governance_record option res" where
  "governance_replay p rid digest d = (case governance_row_of p rid d of
     None \<Rightarrow> Inr None
   | Some e \<Rightarrow> if go_digest e = digest then Inr (Some (governance_record.truncate e)) else Inl GovernanceConflict)"

text \<open>A transaction that first looks for its record.\<close>

definition governed :: "string \<Rightarrow> string \<Rightarrow> string \<Rightarrow> db \<Rightarrow> (governance_record \<times> db) res \<Rightarrow> (governance_record \<times> db) res" where
  "governed p rid digest d fresh = bindR (governance_replay p rid digest d) (\<lambda>replay. case replay of
     Some e \<Rightarrow> Inr (e, d) | None \<Rightarrow> fresh)"

definition lock_current :: "string \<Rightarrow> string \<Rightarrow> obligation_kind \<Rightarrow> string \<Rightarrow> db \<Rightarrow> (flow_row \<times> flow_obligation) res" where
  "lock_current p w k oid d =
     bindR (of_row GovernanceNotFound (run_of p w d)) (\<lambda>run.
     bindR (ensure (fr_status run = FlowActive) GovernanceConflict) (\<lambda>_.
     bindR (of_row GovernanceNotFound (fetchone (\<lambda>x. fo_project x = p \<and> fo_work x = w \<and> fo_state x = fr_state run
       \<and> fo_entry x = fr_version run \<and> fo_kind x = k \<and> fo_id x = oid) (db_obligations d))) (\<lambda>ob.
     Inr (run, ob))))"

text \<open>\<open>_insert\<close>: the table refuses a second record of an id, an exception without a reason and
  evidence that is no \<open>jsonb\<close>.\<close>

definition governance_entry :: "timestamp \<Rightarrow> flow_row \<Rightarrow> flow_obligation \<Rightarrow> string \<Rightarrow> string \<Rightarrow> gov_decision \<Rightarrow>
    string \<Rightarrow> string \<Rightarrow> (string \<times> json) list \<Rightarrow> (string \<times> string) option \<Rightarrow> governance_row" where
  "governance_entry t run ob rid digest decision actor reason ev doc =
     \<lparr>go_project = fr_project run, go_work = fr_work run, go_id = rid, go_state = fo_state ob,
      go_entry = fo_entry ob, go_kind = fo_kind ob, go_obligation = fo_id ob, go_decision = decision,
      go_actor = actor, go_reason = reason, go_evidence = ev, go_path = map_option fst doc,
      go_etag = map_option snd doc, go_recorded = t, go_digest = digest\<rparr>"

definition insert_governance :: "governance_row \<Rightarrow> db \<Rightarrow> (governance_record \<times> db) res" where
  "insert_governance e d =
     (if has_row (\<lambda>x. go_project x = go_project e \<and> go_id x = go_id e) (db_governance d) then Inl UniqueViolation
      else if \<not> no_nan_members (go_evidence e) then Inl DataError
      else if go_decision e = GovException \<and> strip (go_reason e) = [] then Inl CheckViolation
      else Inr (governance_record.truncate e, d\<lparr>db_governance := db_governance d @ [e]\<rparr>))"

text \<open>\<open>_satisfy\<close>.\<close>

definition this_obligation :: "flow_row \<Rightarrow> flow_obligation \<Rightarrow> flow_obligation \<Rightarrow> bool" where
  "this_obligation run ob x = (fo_project x = fr_project run \<and> fo_work x = fr_work run \<and> fo_state x = fo_state ob
     \<and> fo_entry x = fo_entry ob \<and> fo_kind x = fo_kind ob \<and> fo_id x = fo_id ob \<and> fo_status x = ObPending)"

definition satisfy :: "flow_row \<Rightarrow> flow_obligation \<Rightarrow> (string \<times> json) list \<Rightarrow> db \<Rightarrow> db res" where
  "satisfy run ob ev d =
     bindR (ensure (length (filter (this_obligation run ob) (db_obligations d)) = 1) GovernanceConflict) (\<lambda>_.
     Inr (d\<lparr>db_obligations := upd_where (this_obligation run ob)
       (\<lambda>x. x\<lparr>fo_status := ObSatisfied, fo_evidence := ev\<rparr>) (db_obligations d)\<rparr>))"

text \<open>The handlers of the three operations: a lost race for the record id reads it again.\<close>

definition governance_wrap :: "(exn \<Rightarrow> bool) \<Rightarrow> string \<Rightarrow> string \<Rightarrow> string \<Rightarrow> db \<Rightarrow> (governance_record \<times> db) res \<Rightarrow>
    (governance_record \<times> db) res" where
  "governance_wrap pass p rid digest d r = (case r of
     Inl UniqueViolation \<Rightarrow> bindR (governance_replay p rid digest d) (\<lambda>x. case x of
       None \<Rightarrow> Inl GovernanceConflict | Some e \<Rightarrow> Inr (e, d))
   | Inl e \<Rightarrow> Inl (if e \<in> {GovernanceError, GovernanceNotFound, GovernanceConflict} \<or> pass e then e else GovernanceError)
   | Inr x \<Rightarrow> Inr x)"

section \<open>Artifacts\<close>

definition verify_new :: "timestamp \<Rightarrow> string \<Rightarrow> string \<Rightarrow> string \<Rightarrow> string \<Rightarrow> string \<Rightarrow> string \<Rightarrow> document \<Rightarrow> db \<Rightarrow>
    (governance_record \<times> db) res" where
  "verify_new t p w path actor rid digest m d =
     bindR (lock_current p w KArtifact ''artifact'' d) (\<lambda>(run, ob).
     bindR (ensure (fo_role ob = actor) GovernanceConflict) (\<lambda>_.
     bindR (materialize_path (get (fo_payload ob) ''path'') p w) (\<lambda>expected.
     bindR (ensure (path = expected \<and> dm_path m = path) GovernanceConflict) (\<lambda>_.
     bindR (insert_governance (governance_entry t run ob rid digest Verified actor []
       [(''document'', document_json m)] (Some (path, dm_etag m))) d) (\<lambda>(e, d1).
     bindR (satisfy run ob [(''governance_record_id'', JStr rid), (''document_path'', JStr path),
       (''document_etag'', JStr (dm_etag m)), (''document_size'', JInt (dm_size m))] d1) (\<lambda>d2.
     Inr (e, d2)))))))"

definition verify_tx :: "timestamp \<Rightarrow> string \<Rightarrow> string \<Rightarrow> string \<Rightarrow> string \<Rightarrow> string \<Rightarrow> string \<Rightarrow> document \<Rightarrow> db \<Rightarrow>
    (governance_record \<times> db) res" where
  "verify_tx t p w path actor rid digest m d = governed p rid digest d (verify_new t p w path actor rid digest m d)"

definition verify_artifact :: "(string \<Rightarrow> string) \<Rightarrow> (string \<Rightarrow> document res) \<Rightarrow> timestamp \<Rightarrow> string \<Rightarrow> string \<Rightarrow>
    string \<Rightarrow> string \<Rightarrow> string \<Rightarrow> db \<Rightarrow> (governance_record \<times> db) res" where
  "verify_artifact sha stat t p w path actor rid d =
     bindR (flow_identifiers [p, w, actor, rid]) (\<lambda>_. bindR (bounded_raw 4000 path) (\<lambda>path.
     let digest = governance_digest sha [JStr ''verify-artifact'', JStr w, JStr path, JStr actor] in
     bindR (governance_replay p rid digest d) (\<lambda>replay. case replay of
       Some e \<Rightarrow> Inr (e, d)
     | None \<Rightarrow>
       bindR (stat path) (\<lambda>m.
       bindR (ensure (\<not> dm_folder m) GovernanceConflict) (\<lambda>_.
       governance_wrap database_error p rid digest d (verify_tx t p w path actor rid digest m d))))))"

section \<open>Consultations\<close>

definition consult_decision :: "string \<Rightarrow> gov_decision res" where
  "consult_decision s = (if s = ''responded'' then Inr Responded else if s = ''exception'' then Inr GovException
     else Inl ValueError)"

text \<open>\<open>run["flow_snapshot"].get("leader_role")\<close>.\<close>

definition leader_role :: "flow_row \<Rightarrow> string option" where
  "leader_role run = (case as_obj (fr_snapshot run) of None \<Rightarrow> None | Some m \<Rightarrow> as_str (get m ''leader_role''))"

definition consult_new :: "timestamp \<Rightarrow> string \<Rightarrow> string \<Rightarrow> string \<Rightarrow> gov_decision \<Rightarrow> string \<Rightarrow> string \<Rightarrow> string \<Rightarrow>
    string \<Rightarrow> (string \<times> json) list \<Rightarrow> db \<Rightarrow> (governance_record \<times> db) res" where
  "consult_new t p w oid decision actor rid digest reason ev d =
     bindR (lock_current p w KConsult oid d) (\<lambda>(run, ob).
     bindR (if decision = Responded
       then ensure (fo_status ob = ObDispatched \<and> fo_role ob = actor) GovernanceConflict
       else ensure (actor = fr_owner run \<or> leader_role run = Some actor) GovernanceConflict) (\<lambda>_.
     insert_governance (governance_entry t run ob rid digest decision actor reason ev None) d))"

definition consult_tx :: "timestamp \<Rightarrow> string \<Rightarrow> string \<Rightarrow> string \<Rightarrow> gov_decision \<Rightarrow> string \<Rightarrow> string \<Rightarrow> string \<Rightarrow>
    string \<Rightarrow> (string \<times> json) list \<Rightarrow> db \<Rightarrow> (governance_record \<times> db) res" where
  "consult_tx t p w oid decision actor rid digest reason ev d =
     governed p rid digest d (consult_new t p w oid decision actor rid digest reason ev d)"

definition record_consultation :: "(string \<Rightarrow> string) \<Rightarrow> timestamp \<Rightarrow> string \<Rightarrow> string \<Rightarrow> string \<Rightarrow> string \<Rightarrow>
    string \<Rightarrow> string \<Rightarrow> string \<Rightarrow> (string \<times> json) list option \<Rightarrow> db \<Rightarrow> (governance_record \<times> db) res" where
  "record_consultation sha t p w oid decision actor rid reason ev d =
     bindR (flow_identifiers [p, w, oid, actor, rid]) (\<lambda>_. bindR (consult_decision decision) (\<lambda>dec.
     bindR (governance_reason (dec = GovException) reason) (\<lambda>reason. bindR (governance_evidence ev) (\<lambda>ev.
     let digest = governance_digest sha [JStr ''consultation'', JStr w, JStr oid, JStr decision, JStr actor,
       JStr reason, JObj ev] in
     governance_wrap (\<lambda>_. False) p rid digest d (consult_tx t p w oid dec actor rid digest reason ev d)))))"

section \<open>Gates\<close>

text \<open>\<open>_current_artifact_version\<close>, \<open>_artifact_is_verified\<close>, \<open>_reviewed_version_for_replay\<close>. Of several
  verified records of one artifact the query may return any; here the first.\<close>

definition verified_record :: "db \<Rightarrow> flow_obligation \<Rightarrow> governance_row \<Rightarrow> bool" where
  "verified_record d x e = (go_project e = fo_project x \<and> go_work e = fo_work x \<and> go_state e = fo_state x
     \<and> go_entry e = fo_entry x \<and> go_kind e = fo_kind x \<and> go_obligation e = fo_id x \<and> go_decision e = Verified)"

definition satisfied_artifact :: "flow_row \<Rightarrow> flow_obligation \<Rightarrow> bool" where
  "satisfied_artifact run x = (current_obligation run x \<and> fo_kind x = KArtifact \<and> fo_status x = ObSatisfied)"

definition same_version :: "document \<Rightarrow> string \<Rightarrow> string \<Rightarrow> bool" where
  "same_version m path etag = (\<not> dm_folder m \<and> dm_path m = path \<and> dm_etag m = etag)"

definition current_artifact :: "string \<Rightarrow> string \<Rightarrow> db \<Rightarrow> governance_row option" where
  "current_artifact p w d = (case run_of p w d of
     None \<Rightarrow> None
   | Some run \<Rightarrow> if fr_status run \<noteq> FlowActive then None
       else fetchone (\<lambda>e. has_row (\<lambda>x. satisfied_artifact run x \<and> verified_record d x e) (db_obligations d))
         (db_governance d))"

definition current_artifact_version :: "(string \<Rightarrow> document res) \<Rightarrow> string \<Rightarrow> string \<Rightarrow> db \<Rightarrow> (string \<times> string) res" where
  "current_artifact_version stat p w d =
     bindR (of_row GovernanceConflict (current_artifact p w d)) (\<lambda>e. case (go_path e, go_etag e) of
       (Some path, Some etag) \<Rightarrow> bindR (stat path) (\<lambda>m.
         bindR (ensure (same_version m path etag) GovernanceConflict) (\<lambda>_. Inr (path, etag)))
     | _ \<Rightarrow> Inl GovernanceConflict)"

definition artifact_is_verified :: "flow_row \<Rightarrow> string \<Rightarrow> string \<Rightarrow> db \<Rightarrow> bool" where
  "artifact_is_verified run path etag d = has_row (\<lambda>e. go_path e = Some path \<and> go_etag e = Some etag
     \<and> has_row (\<lambda>x. satisfied_artifact run x \<and> verified_record d x e) (db_obligations d)) (db_governance d)"

definition reviewed_version :: "(string \<Rightarrow> document res) \<Rightarrow> string \<Rightarrow> string \<Rightarrow> db \<Rightarrow> (string \<times> string) option res" where
  "reviewed_version stat p rid d = (case governance_row_of p rid d of
     None \<Rightarrow> Inr None
   | Some e \<Rightarrow>
     bindR (of_row GovernanceConflict (as_obj (get (go_evidence e) ''reviewed_document''))) (\<lambda>m.
     bindR (of_row GovernanceConflict (as_str (get m ''path''))) (\<lambda>path.
     bindR (of_row GovernanceConflict (as_str (get m ''etag''))) (\<lambda>etag.
     bindR (stat path) (\<lambda>doc.
     bindR (ensure (same_version doc path etag) GovernanceConflict) (\<lambda>_. Inr (Some (path, etag))))))))"

definition gate_decision :: "string \<Rightarrow> gov_decision res" where
  "gate_decision s = (if s = ''approved'' then Inr GovApproved else if s = ''rejected'' then Inr GovRejected
     else if s = ''exception'' then Inr GovException else Inl ValueError)"

definition sponsor_gate :: "flow_obligation \<Rightarrow> bool" where
  "sponsor_gate ob = (get_or (fo_payload ob) ''type'' (JStr ''owner_review'')
       \<in> set [JStr ''human_response'', JStr ''sponsor_approval'']
     \<or> get (fo_payload ob) ''requested_from'' = JStr ''sponsor'')"

definition architecture_gate :: "flow_obligation \<Rightarrow> bool" where
  "architecture_gate ob = (get_or (fo_payload ob) ''type'' (JStr ''owner_review'')
     \<in> set [JStr ''architecture_impact'', JStr ''architecture_impact_assessment''])"

definition gate_allowed :: "flow_row \<Rightarrow> flow_obligation \<Rightarrow> gov_decision \<Rightarrow> string \<Rightarrow> string option \<Rightarrow>
    string \<times> string \<Rightarrow> db \<Rightarrow> bool" where
  "gate_allowed run ob decision actor impact doc d = (\<not> sponsor_gate ob \<and> fo_role ob = actor
     \<and> artifact_is_verified run (fst doc) (snd doc) d
     \<and> (if architecture_gate ob then decision \<noteq> GovException \<and> (decision = GovApproved \<longrightarrow> impact \<noteq> None)
        else impact = None))"

definition set_context :: "string \<Rightarrow> string \<Rightarrow> string \<Rightarrow> db \<Rightarrow> db" where
  "set_context p w impact d = d\<lparr>db_contexts :=
     (if has_row (\<lambda>c. gc_project c = p \<and> gc_work c = w) (db_contexts d)
      then upd_where (\<lambda>c. gc_project c = p \<and> gc_work c = w) (\<lambda>c. c\<lparr>gc_impact := Some impact\<rparr>) (db_contexts d)
      else db_contexts d @ [\<lparr>gc_project = p, gc_work = w, gc_impact = Some impact\<rparr>])\<rparr>"

definition decision_text :: "gov_decision \<Rightarrow> string" where
  "decision_text x = (case x of Verified \<Rightarrow> ''verified'' | Responded \<Rightarrow> ''responded'' | GovApproved \<Rightarrow> ''approved''
     | GovRejected \<Rightarrow> ''rejected'' | GovException \<Rightarrow> ''exception'')"

definition reviewed_evidence :: "string \<times> string \<Rightarrow> (string \<times> json) list \<Rightarrow> (string \<times> json) list" where
  "reviewed_evidence doc ev = put ''reviewed_document''
     (JObj [(''path'', JStr (fst doc)), (''etag'', JStr (snd doc))]) ev"

text \<open>The type of the gate is looked up in a set first; a list or an object there is a \<open>TypeError\<close>.\<close>

definition gate_new :: "timestamp \<Rightarrow> string \<Rightarrow> string \<Rightarrow> string \<Rightarrow> gov_decision \<Rightarrow> string \<Rightarrow> string \<Rightarrow> string \<Rightarrow>
    string \<Rightarrow> (string \<times> json) list \<Rightarrow> string option \<Rightarrow> string \<times> string \<Rightarrow> db \<Rightarrow> (governance_record \<times> db) res" where
  "gate_new t p w oid decision actor rid digest reason ev impact doc d =
     bindR (lock_current p w KGate oid d) (\<lambda>(run, ob).
     bindR (ensure (hashable (get_or (fo_payload ob) ''type'' (JStr ''owner_review''))) TypeError) (\<lambda>_.
     bindR (ensure (gate_allowed run ob decision actor impact doc d) GovernanceConflict) (\<lambda>_.
     let rev = reviewed_evidence doc ev in
     bindR (insert_governance (governance_entry t run ob rid digest decision actor reason rev None) d) (\<lambda>(e, d1).
     bindR (if decision \<in> {GovApproved, GovException}
       then satisfy run ob (merge [(''governance_record_id'', JStr rid), (''decision'', JStr (decision_text decision)),
         (''reason'', JStr reason)] rev) d1
       else Inr d1) (\<lambda>d2.
     Inr (e, if decision = GovApproved then (case impact of None \<Rightarrow> d2 | Some i \<Rightarrow> set_context p w i d2) else d2))))))"

definition gate_tx :: "timestamp \<Rightarrow> string \<Rightarrow> string \<Rightarrow> string \<Rightarrow> gov_decision \<Rightarrow> string \<Rightarrow> string \<Rightarrow> string \<Rightarrow>
    string \<Rightarrow> (string \<times> json) list \<Rightarrow> string option \<Rightarrow> string \<times> string \<Rightarrow> db \<Rightarrow> (governance_record \<times> db) res" where
  "gate_tx t p w oid decision actor rid digest reason ev impact doc d =
     governed p rid digest d (gate_new t p w oid decision actor rid digest reason ev impact doc d)"

text \<open>\<open>decide_gate\<close>: the reviewed version of the artifact is read first, and is part of the digest.\<close>

definition reviewed_or_current :: "(string \<Rightarrow> document res) \<Rightarrow> string \<Rightarrow> string \<Rightarrow> string \<Rightarrow> db \<Rightarrow> (string \<times> string) res" where
  "reviewed_or_current stat p w rid d = bindR (reviewed_version stat p rid d) (\<lambda>rev. case rev of
     Some doc \<Rightarrow> Inr doc | None \<Rightarrow> current_artifact_version stat p w d)"

definition gate_digest :: "(string \<Rightarrow> string) \<Rightarrow> string \<Rightarrow> string \<Rightarrow> string \<Rightarrow> string \<Rightarrow> string \<Rightarrow>
    (string \<times> json) list \<Rightarrow> string option \<Rightarrow> string \<times> string \<Rightarrow> string" where
  "gate_digest sha w oid decision actor reason ev impact doc = governance_digest sha
     [JStr ''gate'', JStr w, JStr oid, JStr decision, JStr actor, JStr reason, JObj ev, opt_str impact,
      JStr (fst doc), JStr (snd doc)]"

definition decide_flow_gate :: "(string \<Rightarrow> string) \<Rightarrow> (string \<Rightarrow> document res) \<Rightarrow> timestamp \<Rightarrow> string \<Rightarrow> string \<Rightarrow>
    string \<Rightarrow> string \<Rightarrow> string \<Rightarrow> string \<Rightarrow> string \<Rightarrow> (string \<times> json) list option \<Rightarrow> string option \<Rightarrow> db \<Rightarrow>
    (governance_record \<times> db) res" where
  "decide_flow_gate sha stat t p w oid decision actor rid reason ev impact d =
     bindR (flow_identifiers [p, w, oid, actor, rid]) (\<lambda>_. bindR (gate_decision decision) (\<lambda>dec.
     bindR (governance_reason (dec = GovException) reason) (\<lambda>reason. bindR (governance_evidence ev) (\<lambda>ev.
     bindR (ensure (case impact of None \<Rightarrow> True | Some i \<Rightarrow> i \<in> set [''no-material'', ''material'', ''uncertain''])
       ValueError) (\<lambda>_.
     bindR (reviewed_or_current stat p w rid d) (\<lambda>doc.
     let digest = gate_digest sha w oid decision actor reason ev impact doc in
     bindR (governance_replay p rid digest d) (\<lambda>replay. case replay of
       Some e \<Rightarrow> Inr (e, d)
     | None \<Rightarrow> governance_wrap (\<lambda>_. False) p rid digest d
         (gate_tx t p w oid dec actor rid digest reason ev impact doc d))))))))"

section \<open>Reading\<close>

definition governance_records :: "string \<Rightarrow> string \<Rightarrow> db \<Rightarrow> governance_record list res" where
  "governance_records p w d = bindR (flow_identifiers [p, w]) (\<lambda>_.
     Inr (map governance_record.truncate (sort_key (\<lambda>e. (go_recorded e, go_id e))
       (filter (\<lambda>e. go_project e = p \<and> go_work e = w) (db_governance d)))))"

end
