(* ===== verification/Secrets.thy ===== *)
theory Secrets
  imports Prelude
begin

text \<open>
  \<open>reject_sensitive_content\<close> of \<open>progress.py\<close>: texts that other components store or send on
  are searched for private keys, bearer tokens, API keys, credentials and model reasoning. The
  regular expressions are data, matched by the positions at which a match starting here can
  end. A position is the character before it (the word boundary reads it) and the rest of the
  text. Characters are compared without case, as \<open>re.IGNORECASE\<close> does.
\<close>

section \<open>Patterns\<close>

datatype rx =
    Lit string
  | Chars "char \<Rightarrow> bool" nat "nat option"
  | Seq rx rx
  | Alt rx rx
  | Boundary

type_synonym position = "char option \<times> string"

definition lower :: "char \<Rightarrow> char" where
  "lower c = (if upper_char c then char_of ((of_char c :: nat) + 32) else c)"

text \<open>\<^verbatim>\<open>\w\<close> on characters below 256: letters, digits, the numeric signs, the underscore.\<close>

definition word_char :: "char \<Rightarrow> bool" where
  "word_char c = (let n = (of_char c :: nat) in lower_char c \<or> upper_char c \<or> digit_char c \<or> c = CHR ''_''
     \<or> n \<in> {170, 178, 179, 181, 185, 186, 188, 189, 190} \<or> 192 \<le> n \<and> n \<noteq> 215 \<and> n \<noteq> 247)"

fun literal_ends :: "string \<Rightarrow> position \<Rightarrow> position list" where
  "literal_ends [] x = [x]"
| "literal_ends (c # cs) (p, []) = []"
| "literal_ends (c # cs) (p, x # xs) = (if lower x = lower c then literal_ends cs (Some x, xs) else [])"

text \<open>Between \<open>m\<close> and \<open>k\<close> characters of a class, without an upper bound when \<open>k\<close> is \<open>None\<close>.\<close>

fun chars_ends :: "(char \<Rightarrow> bool) \<Rightarrow> nat \<Rightarrow> nat option \<Rightarrow> char option \<Rightarrow> string \<Rightarrow> position list" where
  "chars_ends P m k p [] = (if m = 0 then [(p, [])] else [])"
| "chars_ends P m k p (x # xs) = (if m = 0 then [(p, x # xs)] else [])
     @ (if P x \<and> k \<noteq> Some 0 then chars_ends P (m - 1) (map_option (\<lambda>n. n - 1) k) (Some x) xs else [])"

definition boundary :: "position \<Rightarrow> bool" where
  "boundary x = (let left = (case fst x of None \<Rightarrow> False | Some c \<Rightarrow> word_char c);
     right = (case snd x of [] \<Rightarrow> False | c # _ \<Rightarrow> word_char c) in left \<noteq> right)"

fun match_ends :: "rx \<Rightarrow> position \<Rightarrow> position list" where
  "match_ends (Lit s) x = literal_ends s x"
| "match_ends (Chars P m k) x = chars_ends P m k (fst x) (snd x)"
| "match_ends (Seq r s) x = concat (map (match_ends s) (match_ends r x))"
| "match_ends (Alt r s) x = match_ends r x @ match_ends s x"
| "match_ends Boundary x = (if boundary x then [x] else [])"

text \<open>\<open>pattern.search(text) is not None\<close>.\<close>

fun searches :: "rx \<Rightarrow> char option \<Rightarrow> string \<Rightarrow> bool" where
  "searches r p [] = (match_ends r (p, []) \<noteq> [])"
| "searches r p (x # xs) = (match_ends r (p, x # xs) \<noteq> [] \<or> searches r (Some x) xs)"

section \<open>The patterns of \<open>progress.py\<close>\<close>

definition optional :: "rx \<Rightarrow> rx" where
  "optional r = Alt r (Lit [])"

definition seqs :: "rx list \<Rightarrow> rx" where
  "seqs rs = foldr Seq rs (Lit [])"

fun alts :: "rx list \<Rightarrow> rx" where
  "alts [] = Chars (\<lambda>_. False) 1 None"
| "alts [r] = r"
| "alts (r # rs) = Alt r (alts rs)"

abbreviation "alnum c \<equiv> lower_char c \<or> upper_char c \<or> digit_char c"

abbreviation "quotation c \<equiv> c = char_of (34::nat) \<or> c = char_of (39::nat)"

text \<open>A field name, a colon or equals sign and a value of at least \<open>m\<close> characters.\<close>

definition assignment :: "rx list \<Rightarrow> nat \<Rightarrow> rx" where
  "assignment names m = seqs [Boundary, alts names, Chars (\<lambda>c. quotation c) 0 (Some 1),
     Chars py_space 0 None, Chars (\<lambda>c. c = CHR '':'' \<or> c = CHR ''='') 1 (Some 1), Chars py_space 0 None,
     Chars (\<lambda>c. quotation c) 0 (Some 1), Chars (\<lambda>c. \<not> py_space c \<and> \<not> quotation c) m None]"

definition sensitive_patterns :: "rx list" where
  "sensitive_patterns = [
     seqs [Lit ''-----BEGIN '', optional (alts [Lit ''RSA '', Lit ''EC '', Lit ''OPENSSH '']),
       Lit ''PRIVATE KEY-----''],
     seqs [Boundary, Lit ''Bearer'', Chars py_space 1 None,
       Chars (\<lambda>c. alnum c \<or> c \<in> set ''._~+/=-'') 16 None],
     seqs [Boundary, Lit ''sk-'', Chars (\<lambda>c. alnum c \<or> c \<in> set ''_-'') 16 None],
     assignment [Lit ''access_token'', Lit ''refresh_token'', Lit ''client_secret'', Lit ''password''] 8,
     assignment [seqs [Lit ''api'', Chars (\<lambda>c. c \<in> set ''_-'') 0 (Some 1), Lit ''key''],
       seqs [Lit ''secret'', Chars (\<lambda>c. c \<in> set ''_-'') 0 (Some 1), Lit ''key''], Lit ''token''] 12,
     seqs [Boundary, alts [
       seqs [Lit ''gh'', Chars (\<lambda>c. lower c \<in> set ''pousr'') 1 (Some 1), Lit ''_'', Chars (\<lambda>c. alnum c) 20 None],
       seqs [Lit ''AKIA'', Chars (\<lambda>c. alnum c) 16 (Some 16)],
       seqs [Lit ''xox'', Chars (\<lambda>c. lower c \<in> set ''baprs'') 1 (Some 1), Lit ''-'',
         Chars (\<lambda>c. alnum c \<or> c = CHR ''-'') 16 None]]],
     seqs [alts [seqs [Lit ''postgres'', optional (Lit ''ql'')], Lit ''mysql'',
         seqs [Lit ''mongodb'', optional (Lit ''+srv'')]], Lit ''://'',
       Chars (\<lambda>c. \<not> py_space c \<and> c \<notin> set ''/:@'') 1 None, Lit '':'',
       Chars (\<lambda>c. \<not> py_space c \<and> c \<notin> set ''/@'') 1 None, Lit ''@''],
     seqs [Lit ''<'', optional (Lit ''/''), alts [Lit ''analysis'', Lit ''reasoning'',
       seqs [Lit ''chain'', Chars (\<lambda>c. c \<in> set ''-_ '') 1 (Some 1), Lit ''of'',
         Chars (\<lambda>c. c \<in> set ''-_ '') 1 (Some 1), Lit ''thought'']], Lit ''>'']]"

definition reject_sensitive_content :: "string \<Rightarrow> unit res" where
  "reject_sensitive_content s =
     ensure (\<not> list_ex (\<lambda>r. searches r None s) sensitive_patterns) SensitiveContent"

section \<open>Searching\<close>

text \<open>A search finds a match wherever in the text it starts.\<close>

definition before :: "char option \<Rightarrow> string \<Rightarrow> char option" where
  "before p u = (if u = [] then p else Some (last u))"

lemma searches_iff:
  "searches r p s \<longleftrightarrow> (\<exists>u v. s = u @ v \<and> match_ends r (before p u, v) \<noteq> [])"
proof (induction s arbitrary: p)
  case Nil
  show ?case by (simp add: before_def)
next
  case (Cons x xs)
  have "(\<exists>u v. x # xs = u @ v \<and> match_ends r (before p u, v) \<noteq> [])
      \<longleftrightarrow> match_ends r (p, x # xs) \<noteq> [] \<or> (\<exists>u v. xs = u @ v \<and> match_ends r (before (Some x) u, v) \<noteq> [])"
    (is "?l \<longleftrightarrow> ?r")
  proof
    assume ?l
    then obtain u v where uv: "x # xs = u @ v" "match_ends r (before p u, v) \<noteq> []" by blast
    show ?r
    proof (cases u)
      case (Cons y us)
      with uv have "xs = us @ v" "before p u = before (Some x) us" by (auto simp: before_def)
      with uv(2) show ?thesis by auto
    qed (use uv in \<open>auto simp: before_def\<close>)
  next
    assume ?r
    then show ?l
    proof
      assume "match_ends r (p, x # xs) \<noteq> []"
      then show ?l by (intro exI [of _ "[]"] exI [of _ "x # xs"]) (simp add: before_def)
    next
      assume "\<exists>u v. xs = u @ v \<and> match_ends r (before (Some x) u, v) \<noteq> []"
      then obtain u v where uv: "xs = u @ v" "match_ends r (before (Some x) u, v) \<noteq> []" by blast
      then show ?l by (intro exI [of _ "x # u"] exI [of _ v]) (auto simp: before_def)
    qed
  qed
  with Cons.IH show ?case by simp
qed

lemma rejected_iff: "reject_sensitive_content s = Inr () \<longleftrightarrow>
    \<not> (\<exists>r\<in>set sensitive_patterns. \<exists>u v. s = u @ v \<and> match_ends r (before None u, v) \<noteq> [])"
  by (simp add: reject_sensitive_content_def ensure_iff list_ex_iff searches_iff)

lemma sensitive_samples:
  "reject_sensitive_content ''the build failed'' = Inr ()"
  "reject_sensitive_content ''header Bearer abcdefghijklmnop'' = Inl SensitiveContent"
  "reject_sensitive_content ''Password = hunter2hunter'' = Inl SensitiveContent"
  "reject_sensitive_content ''POSTGRESQL://u:p@host'' = Inl SensitiveContent"
  "reject_sensitive_content ''</chain-of thought>'' = Inl SensitiveContent"
  by code_simp+

end
