(* ===== verification/SponsorApprovals.thy ===== *)
theory SponsorApprovals
  imports Governance Secrets
begin

text \<open>
  \<open>sponsor_approvals.py\<close>: gates of a flow that a project sponsor decides. A gate of this kind is
  linked to the obligation it answers and has a deadline. Opening it gates the work item; the
  decision of a sponsor, or the deadline, activates it again, and in the same transaction records
  the governance evidence, meets the obligation when approved, and routes the work on to the
  owner of the state or to the project manager.

  The second look for a gate in \<open>open\<close>, after the work item is locked, reads the same row again when
  transactions are serial, and is not repeated here. Times in records are numbers; only the text
  sent out is formatted, in the time zone UTC.
\<close>

section \<open>Values\<close>

text \<open>\<open>==\<close> of Python on decoded JSON: objects without order, \<open>True == 1 == 1.0\<close>.\<close>

fun py_eq :: "json \<Rightarrow> json \<Rightarrow> bool"
and py_eq_items :: "json list \<Rightarrow> json list \<Rightarrow> bool"
and py_eq_members :: "(string \<times> json) list \<Rightarrow> (string \<times> json) list \<Rightarrow> bool" where
  "py_eq JNull w = (w = JNull)"
| "py_eq (JBool b) w = eq_int w (if b then 1 else 0)"
| "py_eq (JInt i) w = eq_int w i"
| "py_eq (JFloat s) w = (case w of
     JFloat t \<Rightarrow> s \<noteq> ''nan'' \<and> (s = t \<or> {s, t} = {''0.0'', ''-0.0''})
   | JInt i \<Rightarrow> eq_int (JFloat s) i
   | JBool b \<Rightarrow> eq_int (JFloat s) (if b then 1 else 0)
   | _ \<Rightarrow> False)"
| "py_eq (JStr s) w = (w = JStr s)"
| "py_eq (JList l) w = (case as_list w of None \<Rightarrow> False | Some l' \<Rightarrow> py_eq_items l l')"
| "py_eq (JObj m) w = (case as_obj w of None \<Rightarrow> False
     | Some m' \<Rightarrow> length m = length m' \<and> py_eq_members m m')"
| "py_eq_items [] ws = (ws = [])"
| "py_eq_items (v # vs) ws = (case ws of [] \<Rightarrow> False | w # ws' \<Rightarrow> py_eq v w \<and> py_eq_items vs ws')"
| "py_eq_members [] m' = True"
| "py_eq_members ((k, v) # m) m' = ((case map_of m' k of None \<Rightarrow> False | Some w \<Rightarrow> py_eq v w) \<and> py_eq_members m m')"

text \<open>\<open>timestamptz::text\<close> of Postgres in UTC: a blank between date and time, no zeros at the end of
  the fraction.\<close>

definition pg_text :: "timestamp \<Rightarrow> string" where
  "pg_text t = (let (y, m, dd) = civil (t div 86400000000); u = t mod 86400000000;
     s = u div 1000000; f = u mod 1000000
     in pad 4 y @ ''-'' @ pad 2 m @ ''-'' @ pad 2 dd @ '' '' @ pad 2 (s div 3600) @ '':''
        @ pad 2 (s div 60 mod 60) @ '':'' @ pad 2 (s mod 60)
        @ (if f = 0 then [] else ''.'' @ rev (dropWhile (\<lambda>c. c = CHR ''0'') (rev (pad 6 f)))) @ ''+00'')"

record sponsor_gate_record =
  sg_project :: string
  sg_id :: string
  sg_work :: string
  sg_type :: string
  sg_status :: gate_status
  sg_requested_by :: string
  sg_correlation :: string
  sg_evidence :: "(string \<times> json) list"
  sg_link :: "gate_link option"
  sg_timed_out :: "timestamp option"

definition sponsor_gate_of :: "gate_row \<Rightarrow> sponsor_gate_record" where
  "sponsor_gate_of g = \<lparr>sg_project = ga_project g, sg_id = ga_id g, sg_work = ga_work g, sg_type = ga_type g,
     sg_status = ga_status g, sg_requested_by = ga_requested_by g, sg_correlation = ga_correlation g,
     sg_evidence = ga_evidence g, sg_link = ga_link g, sg_timed_out = ga_timed_out g\<rparr>"

text \<open>\<open>_evidence\<close>, \<open>_teams_summary\<close>.\<close>

definition sponsor_evidence :: "(string \<times> json) list option \<Rightarrow> (string \<times> json) list res" where
  "sponsor_evidence v = (case v of None \<Rightarrow> Inr []
     | Some m \<Rightarrow> bindR (ensure (no_nan_members m) ValueError) (\<lambda>_.
         bindR (ensure (length (dumps True '','' '':'' (JObj m)) \<le> 1000000) ValueError) (\<lambda>_. Inr m)))"

definition teams_summary :: "(string \<times> json) list \<Rightarrow> string \<Rightarrow> string res" where
  "teams_summary ev g =
     bindR (of_row ValueError (as_str (get_or ev ''summary'' (JStr (''Approval requested for '' @ g @ ''.''))))) (\<lambda>v.
     bindR (bounded_raw 1000 v) (\<lambda>s. bindR (reject_sensitive_content s) (\<lambda>_. Inr s)))"

section \<open>Reading\<close>

definition gate_row_of :: "string \<Rightarrow> string \<Rightarrow> db \<Rightarrow> gate_row option" where
  "gate_row_of p g d = fetchone (\<lambda>r. ga_project r = p \<and> ga_id r = g) (db_gates d)"

definition managed_gate :: "string \<Rightarrow> string \<Rightarrow> db \<Rightarrow> gate_row res" where
  "managed_gate p g d = bindR (of_row LifecycleNotFound (gate_row_of p g d)) (\<lambda>r.
     bindR (ensure (ga_link r \<noteq> None) LifecycleNotFound) (\<lambda>_. Inr r))"

definition sponsor_get :: "string \<Rightarrow> string \<Rightarrow> db \<Rightarrow> sponsor_gate_record res" where
  "sponsor_get p g d = bindR (ident p) (\<lambda>p. bindR (ident g) (\<lambda>g.
     bindR (managed_gate p g d) (\<lambda>r. Inr (sponsor_gate_of r))))"

definition is_managed :: "string \<Rightarrow> string \<Rightarrow> db \<Rightarrow> bool res" where
  "is_managed p g d = bindR (ident p) (\<lambda>p. bindR (ident g) (\<lambda>g.
     Inr (case gate_row_of p g d of None \<Rightarrow> False | Some r \<Rightarrow> ga_link r \<noteq> None)))"

text \<open>\<open>_same_open\<close>: the gate asks for the same.\<close>

definition same_open :: "gate_row \<Rightarrow> string \<Rightarrow> string \<Rightarrow> string \<Rightarrow> string list \<Rightarrow> string \<Rightarrow> (string \<times> json) list \<Rightarrow> db \<Rightarrow> bool" where
  "same_open r w oid by' sponsors corr ev d = (ga_work r = w \<and> ga_requested_by r = by' \<and> ga_correlation r = corr
     \<and> py_eq (JObj (ga_evidence r)) (JObj ev) \<and> map_option gl_obligation (ga_link r) = Some oid
     \<and> sort (map ap_approver (filter (\<lambda>a. ap_project a = ga_project r \<and> ap_gate a = ga_id r) (db_approvals d)))
       = sort sponsors)"

text \<open>\<open>_artifact_version\<close>: of several verified records the query may return any; here the first.\<close>

definition artifact_version :: "string \<Rightarrow> string \<Rightarrow> string \<Rightarrow> int \<Rightarrow> db \<Rightarrow> governance_row option" where
  "artifact_version p w s v d = fetchone (\<lambda>e. has_row (\<lambda>x. fo_project x = p \<and> fo_work x = w \<and> fo_state x = s
     \<and> fo_entry x = v \<and> fo_kind x = KArtifact \<and> fo_status x = ObSatisfied \<and> verified_record d x e) (db_obligations d))
     (db_governance d)"

definition gate_obligation :: "string \<Rightarrow> string \<Rightarrow> string \<Rightarrow> int \<Rightarrow> string \<Rightarrow> db \<Rightarrow> flow_obligation option" where
  "gate_obligation p w s v oid d = fetchone (\<lambda>x. fo_project x = p \<and> fo_work x = w \<and> fo_state x = s
     \<and> fo_entry x = v \<and> fo_kind x = KGate \<and> fo_id x = oid) (db_obligations d)"

section \<open>Writing\<close>

text \<open>\<open>_append\<close>: the event about a gate, reported like a change of its work item.\<close>

definition gate_event :: "string \<Rightarrow> string \<Rightarrow> string \<Rightarrow> string \<Rightarrow> string \<Rightarrow> (string \<times> json) list \<Rightarrow> event_draft res" where
  "gate_event p w actor corr ty payload =
     bindR (of_row ValueError (as_str (get payload ''gate_id''))) (\<lambda>g.
     make_event_draft \<lparr>ed_project = p, ed_work = w, ed_actor = actor, ed_correlation = corr,
       ed_agg_type = ''sponsor-gate'', ed_agg_id = g, ed_type = ty, ed_payload = payload, ed_causation = None\<rparr>)"

definition gate_report :: "(string \<Rightarrow> string) \<Rightarrow> timestamp \<Rightarrow> string \<Rightarrow> string \<Rightarrow> string \<Rightarrow> string \<Rightarrow> string \<Rightarrow>
    string \<Rightarrow> (string \<times> json) list \<Rightarrow> outbound_draft \<Rightarrow> db \<Rightarrow> db res" where
  "gate_report sha t p w actor corr ty status payload extra d =
     bindR (gate_event p w actor corr ty payload) (\<lambda>e.
     bindR (append_event sha t e [work_outbound p w ty status, extra] d) (\<lambda>(_, d'). Inr d'))"

text \<open>\<open>_route\<close>.\<close>

definition continuation :: "gate_row \<Rightarrow> string \<Rightarrow> string \<Rightarrow> string \<Rightarrow> string \<Rightarrow> route_draft" where
  "continuation r oid role outcome actor = \<lparr>rd_project = ga_project r, rd_work = ga_work r, rd_role = role,
     rd_key = ''sponsor-gate:'' @ ga_id r @ '':'' @ outcome,
     rd_payload = [(''kind'', JStr ''sponsor-gate-continuation''), (''gate_id'', JStr (ga_id r)),
       (''obligation_id'', JStr oid), (''outcome'', JStr outcome), (''decided_by'', JStr actor)],
     rd_capability = None, rd_priority = 0, rd_available = None\<rparr>"

definition route_on :: "timestamp \<Rightarrow> (string \<Rightarrow> string) \<Rightarrow> route_draft \<Rightarrow> db \<Rightarrow> db res" where
  "route_on t sha r d = bindR (make_route_draft r) (\<lambda>r.
     bindR (route_in_transaction t sha r d) (\<lambda>(_, d'). Inr d'))"

text \<open>Every change of a work item counts its version up, in a column of four bytes.\<close>

definition set_work :: "string \<Rightarrow> string \<Rightarrow> string \<Rightarrow> work_item_record \<Rightarrow> db \<Rightarrow> db res" where
  "set_work p w status cur d = bindR (ensure (int4 (wi_version cur + 1)) DataError) (\<lambda>_.
     Inr (update_work p w (\<lambda>r. r\<lparr>wi_status := status, wi_version := wi_version r + 1\<rparr>) d))"

section \<open>Opening\<close>

definition sponsor_obligation_ok :: "flow_obligation \<Rightarrow> bool" where
  "sponsor_obligation_ok x = (get (fo_payload x) ''type'' \<in> set [JStr ''human_response'', JStr ''sponsor_approval'']
     \<and> get (fo_payload x) ''requested_from'' = JStr ''sponsor'' \<and> fo_status x = ObPending)"

text \<open>The checks before anything is written.\<close>

definition open_checks :: "string \<Rightarrow> string \<Rightarrow> string \<Rightarrow> string \<Rightarrow> string list \<Rightarrow> int \<Rightarrow> db \<Rightarrow>
    (work_item_record \<times> flow_row \<times> flow_obligation) res" where
  "open_checks p w oid by' sponsors version d =
     bindR (of_row LifecycleNotFound (work_row d p w)) (\<lambda>cur.
     bindR (ensure (wi_status cur = ''active'' \<and> wi_version cur = version) LifecycleConflict) (\<lambda>_.
     bindR (of_row LifecycleNotFound (run_of p w d)) (\<lambda>run.
     bindR (ensure (fr_status run = FlowActive) LifecycleConflict) (\<lambda>_.
     bindR (ensure (by' = fr_owner run \<or> leader_role run = Some by') LifecycleAuthorizationError) (\<lambda>_.
     bindR (of_row LifecycleNotFound (gate_obligation p w (fr_state run) (fr_version run) oid d)) (\<lambda>x.
     bindR (ensure (hashable (get (fo_payload x) ''type'')) TypeError) (\<lambda>_.
     bindR (ensure (sponsor_obligation_ok x) LifecycleConflict) (\<lambda>_.
     bindR (ensure (artifact_version p w (fr_state run) (fr_version run) d \<noteq> None) LifecycleConflict) (\<lambda>_.
     bindR (ensure (list_all (\<lambda>s. (p, s) \<in> set (db_sponsors d)) sponsors) LifecycleAuthorizationError) (\<lambda>_.
     Inr (cur, run, x)))))))))))"

definition opened_gate :: "timestamp \<Rightarrow> string \<Rightarrow> string \<Rightarrow> string \<Rightarrow> string \<Rightarrow> string \<Rightarrow> string \<Rightarrow>
    (string \<times> json) list \<Rightarrow> flow_row \<Rightarrow> flow_obligation \<Rightarrow> gate_row" where
  "opened_gate expires p w g oid by' corr ev run x =
     \<lparr>ga_project = p, ga_id = g, ga_work = w,
      ga_type = (case as_str (get (fo_payload x) ''type'') of None \<Rightarrow> [] | Some ty \<Rightarrow> ty),
      ga_status = GatePending, ga_requested_by = by', ga_correlation = corr, ga_evidence = ev,
      ga_link = Some \<lparr>gl_state = fr_state run, gl_entry = fr_version run, gl_obligation = oid, gl_expires = expires\<rparr>,
      ga_resolved = None, ga_timed_out = None, ga_operation = None, ga_digest = None\<rparr>"

text \<open>One pending gate per obligation: the index \<open>gates_flow_obligation_key\<close>.\<close>

definition same_link :: "gate_row \<Rightarrow> gate_row \<Rightarrow> bool" where
  "same_link x r = (case (ga_link x, ga_link r) of
     (Some k, Some l) \<Rightarrow> gl_state k = gl_state l \<and> gl_entry k = gl_entry l \<and> gl_obligation k = gl_obligation l
   | _ \<Rightarrow> False)"

definition insert_gate :: "gate_row \<Rightarrow> db \<Rightarrow> db res" where
  "insert_gate r d =
     (if has_row (\<lambda>x. ga_project x = ga_project r \<and> ga_id x = ga_id r) (db_gates d)
        \<or> has_row (\<lambda>x. ga_project x = ga_project r \<and> ga_work x = ga_work r \<and> ga_status x = GatePending
            \<and> same_link x r) (db_gates d)
      then Inl UniqueViolation else Inr (d\<lparr>db_gates := db_gates d @ [r]\<rparr>))"

definition open_new :: "(string \<Rightarrow> string) \<Rightarrow> timestamp \<Rightarrow> string \<Rightarrow> string \<Rightarrow> string \<Rightarrow> string \<Rightarrow> string \<Rightarrow>
    string list \<Rightarrow> string \<Rightarrow> int \<Rightarrow> int \<Rightarrow> (string \<times> json) list \<Rightarrow> string \<Rightarrow> db \<Rightarrow> (sponsor_gate_record \<times> db) res" where
  "open_new sha t p w g oid by' sponsors corr version lifetime ev summary d =
     bindR (open_checks p w oid by' sponsors version d) (\<lambda>(cur, run, x).
     let expires = t + seconds lifetime;
         r = opened_gate expires p w g oid by' corr ev run x;
         who = JList (map JStr sponsors)
     in bindR (insert_gate r d) (\<lambda>d1.
        bindR (insert_approvals p g sponsors d1) (\<lambda>d2.
        bindR (set_work p w ''gated'' cur d2) (\<lambda>d3.
        bindR (gate_report sha t p w by' corr ''sponsor_gate.opened'' ''gated''
          [(''gate_id'', JStr g), (''obligation_id'', JStr oid), (''expires_at'', JStr (pg_text expires)),
           (''sponsor_ids'', who)]
          \<lparr>od_topic = ''teams.approval'', od_payload = [(''project_id'', JStr p), (''work_item_id'', JStr w),
             (''gate_id'', JStr g), (''requested_role_id'', JStr by'), (''sponsor_ids'', who),
             (''summary'', JStr summary), (''expires_at'', JStr (pg_text expires))]\<rparr> d3) (\<lambda>d4.
        Inr (sponsor_gate_of r, d4))))))"

definition open_sponsor_tx :: "(string \<Rightarrow> string) \<Rightarrow> timestamp \<Rightarrow> string \<Rightarrow> string \<Rightarrow> string \<Rightarrow> string \<Rightarrow> string \<Rightarrow>
    string list \<Rightarrow> string \<Rightarrow> int \<Rightarrow> int \<Rightarrow> (string \<times> json) list \<Rightarrow> string \<Rightarrow> db \<Rightarrow> (sponsor_gate_record \<times> db) res" where
  "open_sponsor_tx sha t p w g oid by' sponsors corr version lifetime ev summary d = event_transaction
     (case gate_row_of p g d of
       Some r \<Rightarrow> if same_open r w oid by' sponsors corr ev d then Inr (sponsor_gate_of r, d) else Inl LifecycleConflict
     | None \<Rightarrow> open_new sha t p w g oid by' sponsors corr version lifetime ev summary d)"

definition sponsor_open :: "(string \<Rightarrow> string) \<Rightarrow> timestamp \<Rightarrow> string \<Rightarrow> string \<Rightarrow> string \<Rightarrow> string \<Rightarrow> string \<Rightarrow>
    string list \<Rightarrow> string \<Rightarrow> int \<Rightarrow> int \<Rightarrow> (string \<times> json) list option \<Rightarrow> db \<Rightarrow> (sponsor_gate_record \<times> db) res" where
  "sponsor_open sha t p w g oid by' sponsors corr version lifetime ev d =
     bindR (ident p) (\<lambda>p. bindR (ident w) (\<lambda>w. bindR (ident g) (\<lambda>g. bindR (ident oid) (\<lambda>oid.
     bindR (ident by') (\<lambda>by'. bindR (ident corr) (\<lambda>corr. bindR (mapR ident sponsors) (\<lambda>ss.
     bindR (ensure (ss \<noteq> [] \<and> distinct ss) ValueError) (\<lambda>_.
     bindR (ensure (1 \<le> version) ValueError) (\<lambda>_.
     bindR (ensure (1 \<le> lifetime \<and> lifetime \<le> 604800) ValueError) (\<lambda>_.
     bindR (sponsor_evidence ev) (\<lambda>ev. bindR (teams_summary ev g) (\<lambda>summary.
     open_sponsor_tx sha t p w g oid by' ss corr version lifetime ev summary d))))))))))))"

section \<open>Resolving\<close>

text \<open>\<open>_lock_current\<close>: the gate is current for its work item and its flow, and its obligation is
  pending over a verified artifact.\<close>

definition lock_gate :: "gate_row \<Rightarrow> gate_link \<Rightarrow> db \<Rightarrow> (work_item_record \<times> flow_row \<times> governance_row) res" where
  "lock_gate r l d =
     bindR (of_row LifecycleConflict (work_row d (ga_project r) (ga_work r))) (\<lambda>cur.
     bindR (ensure (wi_status cur = ''gated'') LifecycleConflict) (\<lambda>_.
     bindR (of_row LifecycleConflict (run_of (ga_project r) (ga_work r) d)) (\<lambda>run.
     bindR (ensure (fr_state run = gl_state l \<and> fr_version run = gl_entry l \<and> fr_status run = FlowActive)
       LifecycleConflict) (\<lambda>_.
     bindR (of_row LifecycleConflict (gate_obligation (ga_project r) (ga_work r) (gl_state l) (gl_entry l)
       (gl_obligation l) d)) (\<lambda>x.
     bindR (ensure (fo_status x = ObPending) LifecycleConflict) (\<lambda>_.
     bindR (of_row LifecycleConflict (artifact_version (ga_project r) (ga_work r) (gl_state l) (gl_entry l) d)) (\<lambda>e.
     Inr (cur, run, e))))))))"

text \<open>The update of a gate that is resolved: an operation id resolves one gate only.\<close>

definition resolve_gate :: "string \<Rightarrow> string \<Rightarrow> string \<Rightarrow> (gate_row \<Rightarrow> gate_row) \<Rightarrow> db \<Rightarrow> db res" where
  "resolve_gate p g op f d =
     (if has_row (\<lambda>x. ga_project x = p \<and> ga_id x \<noteq> g \<and> ga_operation x = Some op) (db_gates d) then Inl UniqueViolation
      else Inr (d\<lparr>db_gates := upd_where (\<lambda>r. ga_project r = p \<and> ga_id r = g) f (db_gates d)\<rparr>))"

definition status_text :: "gate_status \<Rightarrow> string" where
  "status_text s = (case s of GatePending \<Rightarrow> ''pending'' | GateApproved \<Rightarrow> ''approved''
     | GateRejected \<Rightarrow> ''rejected'' | GateTimedOut \<Rightarrow> ''timed_out'')"

definition resolved_status :: "gate_status \<Rightarrow> timestamp \<Rightarrow> timestamp option \<Rightarrow> string \<Rightarrow> string \<Rightarrow> gate_row \<Rightarrow> gate_row" where
  "resolved_status s t timed op dg r = r\<lparr>ga_status := s, ga_resolved := Some t, ga_timed_out := timed,
     ga_operation := Some op, ga_digest := Some dg\<rparr>"

text \<open>What both resolutions end with: the work item is active again, and goes on to a role.\<close>

definition continue_work :: "(string \<Rightarrow> string) \<Rightarrow> timestamp \<Rightarrow> gate_row \<Rightarrow> gate_link \<Rightarrow> work_item_record \<Rightarrow>
    string \<Rightarrow> gate_status \<Rightarrow> string \<Rightarrow> string \<Rightarrow> (string \<times> json) list \<Rightarrow> string \<Rightarrow> db \<Rightarrow> db res" where
  "continue_work sha t r l cur role s actor op payload teams d =
     bindR (set_work (ga_project r) (ga_work r) ''active'' cur d) (\<lambda>d1.
     bindR (route_on t sha (continuation r (gl_obligation l) role (status_text s) actor) d1) (\<lambda>d2.
     gate_report sha t (ga_project r) (ga_work r) actor op (''sponsor_gate.'' @ status_text s) ''active'' payload
       \<lparr>od_topic = ''teams.approval-status'', od_payload = [(''project_id'', JStr (ga_project r)),
          (''gate_id'', JStr (ga_id r)), (''status'', JStr teams)]\<rparr> d2))"

text \<open>The evidence of the decision: what the sponsor sent is laid over it.\<close>

definition decision_evidence :: "string \<Rightarrow> string \<Rightarrow> string \<Rightarrow> governance_row \<Rightarrow> (string \<times> json) list \<Rightarrow> (string \<times> json) list" where
  "decision_evidence aid g decision e ev = merge [(''approval_id'', JStr aid), (''gate_id'', JStr g),
     (''decision'', JStr decision), (''reviewed_document'', JObj [(''path'', opt_str (go_path e)),
       (''etag'', opt_str (go_etag e))])] ev"

definition sponsor_record :: "timestamp \<Rightarrow> gate_row \<Rightarrow> gate_link \<Rightarrow> string \<Rightarrow> decision \<Rightarrow> string \<Rightarrow> string \<Rightarrow>
    (string \<times> json) list \<Rightarrow> governance_row \<Rightarrow> governance_row" where
  "sponsor_record t r l dg dec sponsor rationale gev e =
     \<lparr>go_project = ga_project r, go_work = ga_work r, go_id = ''sponsor:'' @ ga_id r, go_state = gl_state l,
      go_entry = gl_entry l, go_kind = KGate, go_obligation = gl_obligation l,
      go_decision = (case dec of Approved \<Rightarrow> GovApproved | Rejected \<Rightarrow> GovRejected), go_actor = sponsor,
      go_reason = rationale, go_evidence = gev, go_path = go_path e, go_etag = go_etag e, go_recorded = t,
      go_digest = dg\<rparr>"

text \<open>Meeting the obligation of an approved gate.\<close>

definition linked_obligation :: "gate_row \<Rightarrow> gate_link \<Rightarrow> flow_obligation \<Rightarrow> bool" where
  "linked_obligation r l x = (fo_project x = ga_project r \<and> fo_work x = ga_work r \<and> fo_state x = gl_state l
     \<and> fo_entry x = gl_entry l \<and> fo_kind x = KGate \<and> fo_id x = gl_obligation l)"

definition meet_sponsored :: "gate_row \<Rightarrow> gate_link \<Rightarrow> string \<Rightarrow> db \<Rightarrow> db res" where
  "meet_sponsored r l aid d = (let P = (\<lambda>x. linked_obligation r l x \<and> fo_status x = ObPending) in
     bindR (ensure (length (filter P (db_obligations d)) = 1) LifecycleConflict) (\<lambda>_.
     Inr (d\<lparr>db_obligations := upd_where P (\<lambda>x. x\<lparr>fo_status := ObSatisfied, fo_evidence :=
       [(''governance_record_id'', JStr (''sponsor:'' @ ga_id r)), (''approval_id'', JStr aid)]\<rparr>) (db_obligations d)\<rparr>)))"

definition decide_new :: "(string \<Rightarrow> string) \<Rightarrow> timestamp \<Rightarrow> gate_row \<Rightarrow> gate_link \<Rightarrow> approval_record \<Rightarrow> string \<Rightarrow>
    decision \<Rightarrow> string \<Rightarrow> string \<Rightarrow> (string \<times> json) list \<Rightarrow> string \<Rightarrow> string \<Rightarrow> db \<Rightarrow> (approval_record \<times> db) res" where
  "decide_new sha t r l a sponsor dec decision rationale ev op dg d =
     (let p = ga_project r; g = ga_id r; aid = g @ '':'' @ sponsor in
     bindR (lock_gate r l d) (\<lambda>(cur, run, e).
     bindR (ensure (ap_decision a = None) LifecycleConflict) (\<lambda>_.
     bindR (ensure (has_row (\<lambda>a. ap_project a = p \<and> ap_id a = aid) (db_approvals d)) DatabaseError) (\<lambda>_.
     let d1 = d\<lparr>db_approvals := upd_where (\<lambda>a. ap_project a = p \<and> ap_id a = aid)
             (\<lambda>a. a\<lparr>ap_decision := Some dec, ap_rationale := Some rationale, ap_evidence := ev, ap_decided := Some t\<rparr>)
             (db_approvals d)\<rparr>;
         gev = decision_evidence aid g decision e ev
     in bindR (resolve_gate p g op (resolved_status (gate_status_of dec) t None op dg) d1) (\<lambda>d2.
        bindR (insert_governance (sponsor_record t r l dg dec sponsor rationale gev e) d2) (\<lambda>(_, d3).
        bindR (if dec = Approved then meet_sponsored r l aid d3 else Inr d3) (\<lambda>d4.
        bindR (continue_work sha t r l cur (if dec = Approved then fr_owner run else ''project-manager'')
          (gate_status_of dec) sponsor op gev decision d4) (\<lambda>d5.
        Inr (\<lparr>ap_project = p, ap_id = aid, ap_gate = g, ap_approver = sponsor, ap_decision = Some dec,
          ap_rationale = Some rationale, ap_evidence = ev, ap_decided = Some t\<rparr>, d5)))))))))"

definition decide_sponsor_tx :: "(string \<Rightarrow> string) \<Rightarrow> timestamp \<Rightarrow> string \<Rightarrow> string \<Rightarrow> string \<Rightarrow> decision \<Rightarrow> string \<Rightarrow>
    string \<Rightarrow> (string \<times> json) list \<Rightarrow> string \<Rightarrow> string \<Rightarrow> db \<Rightarrow> (approval_record \<times> db) res" where
  "decide_sponsor_tx sha t p g sponsor dec decision rationale ev op dg d = event_transaction (
     bindR (of_row LifecycleNotFound (gate_row_of p g d)) (\<lambda>r.
     bindR (of_row LifecycleNotFound (ga_link r)) (\<lambda>l.
     bindR (of_row LifecycleAuthorizationError (fetchone (\<lambda>a. ap_project a = p \<and> ap_gate a = g \<and> ap_approver a = sponsor)
       (db_approvals d))) (\<lambda>a.
     if ga_status r \<noteq> GatePending
     then bindR (ensure (ga_digest r = Some dg \<and> ap_decision a = Some dec \<and> ap_rationale a = Some rationale
         \<and> py_eq (JObj (ap_evidence a)) (JObj ev)) LifecycleConflict) (\<lambda>_. Inr (a, d))
     else bindR (ensure (t < gl_expires l) LifecycleConflict) (\<lambda>_.
       decide_new sha t r l a sponsor dec decision rationale ev op dg d)))))"

definition sponsor_digest :: "(string \<Rightarrow> string) \<Rightarrow> string \<Rightarrow> string \<Rightarrow> string \<Rightarrow> string \<Rightarrow> (string \<times> json) list \<Rightarrow> string" where
  "sponsor_digest sha g sponsor decision rationale ev = governance_digest sha
     [JStr ''sponsor-decision'', JStr g, JStr sponsor, JStr decision, JStr rationale, JObj ev]"

definition sponsor_decide :: "(string \<Rightarrow> string) \<Rightarrow> timestamp \<Rightarrow> string \<Rightarrow> string \<Rightarrow> string \<Rightarrow> string \<Rightarrow> string \<Rightarrow>
    (string \<times> json) list option \<Rightarrow> string \<Rightarrow> db \<Rightarrow> (approval_record \<times> db) res" where
  "sponsor_decide sha t p g sponsor decision rationale ev op d =
     bindR (ident p) (\<lambda>p. bindR (ident g) (\<lambda>g. bindR (ident sponsor) (\<lambda>sponsor. bindR (ident op) (\<lambda>op.
     bindR (decision_of decision) (\<lambda>dec. bindR (bounded_raw 4000 rationale) (\<lambda>rationale.
     bindR (sponsor_evidence ev) (\<lambda>ev.
     decide_sponsor_tx sha t p g sponsor dec decision rationale ev op
       (sponsor_digest sha g sponsor decision rationale ev) d)))))))"

section \<open>Deadlines\<close>

definition timeout_new :: "(string \<Rightarrow> string) \<Rightarrow> timestamp \<Rightarrow> timestamp \<Rightarrow> gate_row \<Rightarrow> gate_link \<Rightarrow> string \<Rightarrow> string \<Rightarrow>
    string \<Rightarrow> db \<Rightarrow> (sponsor_gate_record \<times> db) res" where
  "timeout_new sha t at r l actor op dg d =
     bindR (lock_gate r l d) (\<lambda>(cur, run, _).
     bindR (ensure (leader_role run = Some actor) LifecycleAuthorizationError) (\<lambda>_.
     let f = resolved_status GateTimedOut at (Some at) op dg in
     bindR (resolve_gate (ga_project r) (ga_id r) op f d) (\<lambda>d1.
     bindR (continue_work sha t r l cur ''project-manager'' GateTimedOut actor op
       [(''gate_id'', JStr (ga_id r)), (''obligation_id'', JStr (gl_obligation l))] ''expired'' d1) (\<lambda>d2.
     Inr (sponsor_gate_of (f r), d2)))))"

definition timeout_sponsor_tx :: "(string \<Rightarrow> string) \<Rightarrow> timestamp \<Rightarrow> timestamp option \<Rightarrow> string \<Rightarrow> string \<Rightarrow> string \<Rightarrow>
    string \<Rightarrow> string \<Rightarrow> db \<Rightarrow> (sponsor_gate_record \<times> db) res" where
  "timeout_sponsor_tx sha t observed p g actor op dg d = event_transaction (
     let at = (case observed of None \<Rightarrow> t | Some x \<Rightarrow> x) in
     bindR (of_row LifecycleNotFound (gate_row_of p g d)) (\<lambda>r.
     bindR (of_row LifecycleNotFound (ga_link r)) (\<lambda>l.
     if ga_status r \<noteq> GatePending
     then bindR (ensure (ga_status r = GateTimedOut \<and> ga_digest r = Some dg) LifecycleConflict) (\<lambda>_.
       Inr (sponsor_gate_of r, d))
     else bindR (ensure (gl_expires l \<le> at) LifecycleConflict) (\<lambda>_. timeout_new sha t at r l actor op dg d))))"

definition sponsor_timeout :: "(string \<Rightarrow> string) \<Rightarrow> timestamp \<Rightarrow> timestamp option \<Rightarrow> string \<Rightarrow> string \<Rightarrow> string \<Rightarrow>
    string \<Rightarrow> db \<Rightarrow> (sponsor_gate_record \<times> db) res" where
  "sponsor_timeout sha t observed p g actor op d =
     bindR (ident p) (\<lambda>p. bindR (ident g) (\<lambda>g. bindR (ident actor) (\<lambda>actor. bindR (ident op) (\<lambda>op.
     timeout_sponsor_tx sha t observed p g actor op
       (governance_digest sha [JStr ''sponsor-timeout'', JStr g]) d))))"

section \<open>What each transaction writes\<close>

lemma bindR_pair_Inr: "bindR r (\<lambda>(a, b). f a b) = Inr y \<longleftrightarrow> (\<exists>a b. r = Inr (a, b) \<and> f a b = Inr y)"
  by (auto simp: bindR_Inr_iff)

lemma bindR_triple_Inr: "bindR r (\<lambda>(a, b, c). f a b c) = Inr y \<longleftrightarrow> (\<exists>a b c. r = Inr (a, b, c) \<and> f a b c = Inr y)"
  by (auto simp: bindR_Inr_iff)

text \<open>Routing on and reporting add queue items, events and messages and nothing else.\<close>

definition quiet :: "db \<Rightarrow> db \<Rightarrow> bool" where
  "quiet d d' = (d'\<lparr>db_items := [], db_events := [], db_outbox := []\<rparr> = d\<lparr>db_items := [], db_events := [], db_outbox := []\<rparr>)"

lemma quiet_fields:
  assumes "quiet d d'"
  shows "db_works d' = db_works d" "db_gates d' = db_gates d" "db_approvals d' = db_approvals d"
    "db_sponsors d' = db_sponsors d" "db_runs d' = db_runs d" "db_obligations d' = db_obligations d"
    "db_journal d' = db_journal d" "db_governance d' = db_governance d"
  using assms by (cases d; cases d'; simp add: quiet_def)+

lemma route_on_quiet: "route_on t sha r d = Inr d' \<Longrightarrow> quiet d d'"
  by (auto simp: route_on_def bindR_Inr_iff route_Inr insert_item_Inr quiet_def split: prod.splits)

lemma gate_report_quiet:
  assumes "gate_report sha t p w actor corr ty status payload extra d = Inr d'"
  shows "quiet d d'"
proof -
  from assms obtain e s where "append_event sha t e [work_outbound p w ty status, extra] d = Inr (s, d')"
    by (auto simp: gate_report_def bindR_Inr_iff split: prod.splits)
  from append_event_frame [OF this] show ?thesis by (cases d; cases d'; simp add: quiet_def)
qed

lemma continue_work_Inr:
  assumes "continue_work sha t r l cur role s actor op payload teams d = Inr d'"
  shows "quiet (update_work (ga_project r) (ga_work r) (\<lambda>w. w\<lparr>wi_status := ''active'', wi_version := wi_version w + 1\<rparr>) d) d'"
    "\<exists>draft. make_route_draft (continuation r (gl_obligation l) role (status_text s) actor) = Inr draft"
    "\<exists>e. gate_event (ga_project r) (ga_work r) actor op (''sponsor_gate.'' @ status_text s) payload = Inr e"
proof -
  from assms obtain d1 d2 where
    w: "set_work (ga_project r) (ga_work r) ''active'' cur d = Inr d1"
    and rt: "route_on t sha (continuation r (gl_obligation l) role (status_text s) actor) d1 = Inr d2"
    and rep: "gate_report sha t (ga_project r) (ga_work r) actor op (''sponsor_gate.'' @ status_text s) ''active'' payload
       \<lparr>od_topic = ''teams.approval-status'', od_payload = [(''project_id'', JStr (ga_project r)),
          (''gate_id'', JStr (ga_id r)), (''status'', JStr teams)]\<rparr> d2 = Inr d'"
    by (auto simp: continue_work_def bindR_Inr_iff)
  have "d1 = update_work (ga_project r) (ga_work r) (\<lambda>w. w\<lparr>wi_status := ''active'', wi_version := wi_version w + 1\<rparr>) d"
    using w by (auto simp: set_work_def monad_simps)
  then show "quiet (update_work (ga_project r) (ga_work r) (\<lambda>w. w\<lparr>wi_status := ''active'', wi_version := wi_version w + 1\<rparr>) d) d'"
    using route_on_quiet [OF rt] gate_report_quiet [OF rep] by (simp add: quiet_def)
  show "\<exists>draft. make_route_draft (continuation r (gl_obligation l) role (status_text s) actor) = Inr draft"
    using rt by (auto simp: route_on_def bindR_Inr_iff)
  show "\<exists>e. gate_event (ga_project r) (ga_work r) actor op (''sponsor_gate.'' @ status_text s) payload = Inr e"
    using rep by (auto simp: gate_report_def bindR_Inr_iff)
qed

lemma lock_gate_Inr [monad_simps]:
  "lock_gate r l d = Inr (cur, run, e) \<longleftrightarrow> work_row d (ga_project r) (ga_work r) = Some cur \<and> wi_status cur = ''gated''
     \<and> run_of (ga_project r) (ga_work r) d = Some run \<and> fr_state run = gl_state l \<and> fr_version run = gl_entry l
     \<and> fr_status run = FlowActive
     \<and> (\<exists>x. gate_obligation (ga_project r) (ga_work r) (gl_state l) (gl_entry l) (gl_obligation l) d = Some x
          \<and> fo_status x = ObPending)
     \<and> artifact_version (ga_project r) (ga_work r) (gl_state l) (gl_entry l) d = Some e"
  by (auto simp: lock_gate_def bindR_Inr_iff of_row_iff ensure_iff)

text \<open>Opening.\<close>

lemma open_new_Inr:
  assumes "open_new sha t p w g oid by' sponsors corr version lifetime ev summary d = Inr (y, d')"
  shows "\<exists>cur run x r rows. work_row d p w = Some cur \<and> wi_status cur = ''active'' \<and> wi_version cur = version
    \<and> run_of p w d = Some run \<and> fr_status run = FlowActive
    \<and> gate_obligation p w (fr_state run) (fr_version run) oid d = Some x \<and> sponsor_obligation_ok x
    \<and> (\<forall>s\<in>set sponsors. (p, s) \<in> set (db_sponsors d))
    \<and> r = opened_gate (t + seconds lifetime) p w g oid by' corr ev run x
    \<and> \<not> has_row (\<lambda>k. ga_project k = p \<and> ga_id k = g) (db_gates d)
    \<and> db_gates d' = db_gates d @ [r] \<and> y = sponsor_gate_of r
    \<and> db_works d' = upd_where (\<lambda>r. wi_project r = p \<and> wi_id r = w)
        (\<lambda>r. r\<lparr>wi_status := ''gated'', wi_version := wi_version r + 1\<rparr>) (db_works d)
    \<and> db_approvals d' = db_approvals d @ rows
    \<and> (\<forall>a\<in>set rows. ap_project a = p \<and> ap_gate a = g \<and> ap_decision a = None \<and> ap_approver a \<in> set sponsors
        \<and> ap_id a = g @ '':'' @ ap_approver a)
    \<and> (distinct (map (\<lambda>a. (ap_project a, ap_id a)) (db_approvals d)) \<longrightarrow>
       distinct (map (\<lambda>a. (ap_project a, ap_id a)) (db_approvals d')))
    \<and> db_sponsors d' = db_sponsors d \<and> db_obligations d' = db_obligations d \<and> db_governance d' = db_governance d
    \<and> db_runs d' = db_runs d \<and> db_journal d' = db_journal d"
proof -
  from assms obtain cur run x d1 d2 d3 d4 where
    chk: "open_checks p w oid by' sponsors version d = Inr (cur, run, x)"
    and g: "insert_gate (opened_gate (t + seconds lifetime) p w g oid by' corr ev run x) d = Inr d1"
    and ap: "insert_approvals p g sponsors d1 = Inr d2" and wk: "set_work p w ''gated'' cur d2 = Inr d3"
    and q: "quiet d3 d'"
    and y: "y = sponsor_gate_of (opened_gate (t + seconds lifetime) p w g oid by' corr ev run x)"
    unfolding open_new_def Let_def
    by (auto simp: bindR_Inr_iff split: prod.splits dest!: gate_report_quiet)
  let ?r = "opened_gate (t + seconds lifetime) p w g oid by' corr ev run x"
  have c: "work_row d p w = Some cur" "wi_status cur = ''active''" "wi_version cur = version"
    "run_of p w d = Some run" "fr_status run = FlowActive"
    "gate_obligation p w (fr_state run) (fr_version run) oid d = Some x" "sponsor_obligation_ok x"
    "\<forall>s\<in>set sponsors. (p, s) \<in> set (db_sponsors d)"
    using chk by (auto simp: open_checks_def bindR_Inr_iff of_row_iff ensure_iff list_all_iff)
  have d1: "d1 = d\<lparr>db_gates := db_gates d @ [?r]\<rparr>" "\<not> has_row (\<lambda>k. ga_project k = p \<and> ga_id k = g) (db_gates d)"
    using g by (auto simp: insert_gate_def opened_gate_def split: if_splits)
  from insert_approvals_shape [OF ap] obtain rows where
    rows: "d2 = d1\<lparr>db_approvals := db_approvals d1 @ rows\<rparr>"
    "\<forall>a\<in>set rows. ap_project a = p \<and> ap_gate a = g \<and> ap_decision a = None \<and> ap_approver a \<in> set sponsors
      \<and> ap_id a = g @ '':'' @ ap_approver a"
    "distinct (map (\<lambda>a. (ap_project a, ap_id a)) (db_approvals d1)) \<longrightarrow>
       distinct (map (\<lambda>a. (ap_project a, ap_id a)) (db_approvals d2))" by blast
  have d3: "d3 = update_work p w (\<lambda>r. r\<lparr>wi_status := ''gated'', wi_version := wi_version r + 1\<rparr>) d2"
    using wk by (auto simp: set_work_def monad_simps)
  note f = quiet_fields [OF q, unfolded d3 rows(1) d1(1) update_work_def, simplified]
  show ?thesis
    using c d1(2) rows(2,3) y f unfolding rows(1) d1(1)
    by (intro exI [of _ cur] exI [of _ run] exI [of _ x] exI [of _ ?r] exI [of _ rows]) simp
qed

text \<open>Deciding.\<close>

definition decided_obligations :: "decision \<Rightarrow> gate_row \<Rightarrow> gate_link \<Rightarrow> string \<Rightarrow> flow_obligation list \<Rightarrow> flow_obligation list" where
  "decided_obligations dec r l aid os = (if dec = Approved
     then upd_where (\<lambda>x. linked_obligation r l x \<and> fo_status x = ObPending) (\<lambda>x. x\<lparr>fo_status := ObSatisfied, fo_evidence :=
       [(''governance_record_id'', JStr (''sponsor:'' @ ga_id r)), (''approval_id'', JStr aid)]\<rparr>) os
     else os)"

lemma decide_new_Inr:
  assumes "decide_new sha t r l a sponsor dec decision rationale ev op dg d = Inr (y, d')"
  defines "aid \<equiv> ga_id r @ '':'' @ sponsor"
  shows "\<exists>cur run e k. lock_gate r l d = Inr (cur, run, e) \<and> ap_decision a = None
    \<and> has_row (\<lambda>a. ap_project a = ga_project r \<and> ap_id a = aid) (db_approvals d)
    \<and> k = sponsor_record t r l dg dec sponsor rationale (decision_evidence aid (ga_id r) decision e ev) e
    \<and> \<not> has_row (\<lambda>x. go_project x = go_project k \<and> go_id x = go_id k) (db_governance d)
    \<and> db_works d' = upd_where (\<lambda>w. wi_project w = ga_project r \<and> wi_id w = ga_work r)
        (\<lambda>w. w\<lparr>wi_status := ''active'', wi_version := wi_version w + 1\<rparr>) (db_works d)
    \<and> db_gates d' = upd_where (\<lambda>x. ga_project x = ga_project r \<and> ga_id x = ga_id r)
        (resolved_status (gate_status_of dec) t None op dg) (db_gates d)
    \<and> db_approvals d' = upd_where (\<lambda>a. ap_project a = ga_project r \<and> ap_id a = aid)
        (\<lambda>a. a\<lparr>ap_decision := Some dec, ap_rationale := Some rationale, ap_evidence := ev, ap_decided := Some t\<rparr>)
        (db_approvals d)
    \<and> db_governance d' = db_governance d @ [k] \<and> db_obligations d' = decided_obligations dec r l aid (db_obligations d)
    \<and> (dec = Approved \<longrightarrow> length (filter (\<lambda>x. linked_obligation r l x \<and> fo_status x = ObPending) (db_obligations d)) = 1)
    \<and> db_sponsors d' = db_sponsors d \<and> db_runs d' = db_runs d \<and> db_journal d' = db_journal d
    \<and> y = \<lparr>ap_project = ga_project r, ap_id = aid, ap_gate = ga_id r, ap_approver = sponsor, ap_decision = Some dec,
          ap_rationale = Some rationale, ap_evidence = ev, ap_decided = Some t\<rparr>
    \<and> (\<exists>draft. make_route_draft (continuation r (gl_obligation l)
          (if dec = Approved then fr_owner run else ''project-manager'') (status_text (gate_status_of dec)) sponsor) = Inr draft)"
proof -
  let ?d1 = "d\<lparr>db_approvals := upd_where (\<lambda>a. ap_project a = ga_project r \<and> ap_id a = aid)
             (\<lambda>a. a\<lparr>ap_decision := Some dec, ap_rationale := Some rationale, ap_evidence := ev, ap_decided := Some t\<rparr>)
             (db_approvals d)\<rparr>"
  let ?g = "resolved_status (gate_status_of dec) t None op dg"
  from assms(1) [unfolded decide_new_def Let_def bindR_triple_Inr bindR_pair_Inr] obtain cur run e d2 d3 d4 z where
    lock: "lock_gate r l d = Inr (cur, run, e)" and un: "ap_decision a = None"
    and ex: "has_row (\<lambda>a. ap_project a = ga_project r \<and> ap_id a = aid) (db_approvals d)"
    and g: "resolve_gate (ga_project r) (ga_id r) op ?g ?d1 = Inr d2"
    and gv: "insert_governance (sponsor_record t r l dg dec sponsor rationale (decision_evidence aid (ga_id r) decision e ev) e) d2
       = Inr (z, d3)"
    and ob: "(if dec = Approved then meet_sponsored r l aid d3 else Inr d3) = Inr d4"
    and co: "continue_work sha t r l cur (if dec = Approved then fr_owner run else ''project-manager'')
          (gate_status_of dec) sponsor op (decision_evidence aid (ga_id r) decision e ev) decision d4 = Inr d'"
    and y: "y = \<lparr>ap_project = ga_project r, ap_id = aid, ap_gate = ga_id r, ap_approver = sponsor, ap_decision = Some dec,
          ap_rationale = Some rationale, ap_evidence = ev, ap_decided = Some t\<rparr>"
    unfolding aid_def bindR_Inr_iff ensure_iff split_paired_Ex prod.case by blast
  let ?k = "sponsor_record t r l dg dec sponsor rationale (decision_evidence aid (ga_id r) decision e ev) e"
  have d2: "d2 = ?d1\<lparr>db_gates := upd_where (\<lambda>x. ga_project x = ga_project r \<and> ga_id x = ga_id r) ?g (db_gates d)\<rparr>"
    using g by (auto simp: resolve_gate_def split: if_splits)
  have d3: "d3 = d2\<lparr>db_governance := db_governance d @ [?k]\<rparr>"
    "\<not> has_row (\<lambda>x. go_project x = go_project ?k \<and> go_id x = go_id ?k) (db_governance d)"
    using gv by (auto simp: insert_governance_def d2 split: if_splits)
  have d4: "d4 = d3\<lparr>db_obligations := decided_obligations dec r l aid (db_obligations d)\<rparr>"
    "dec = Approved \<longrightarrow> length (filter (\<lambda>x. linked_obligation r l x \<and> fo_status x = ObPending) (db_obligations d)) = 1"
    using ob by (auto simp: meet_sponsored_def decided_obligations_def Let_def monad_simps d3(1) d2 split: if_splits)
  note f = quiet_fields [OF continue_work_Inr(1) [OF co], unfolded d4(1) d3(1) d2 update_work_def, simplified]
  show ?thesis
    by (intro exI [of _ cur] exI [of _ run] exI [of _ e] exI [of _ ?k] conjI)
      (use lock un ex y f d3(2) d4(2) continue_work_Inr(2) [OF co] in \<open>simp_all only: simp_thms\<close>)
qed

text \<open>Timing out.\<close>

lemma timeout_new_Inr:
  assumes "timeout_new sha t at r l actor op dg d = Inr (y, d')"
  shows "\<exists>cur run e. lock_gate r l d = Inr (cur, run, e) \<and> leader_role run = Some actor
    \<and> db_works d' = upd_where (\<lambda>w. wi_project w = ga_project r \<and> wi_id w = ga_work r)
        (\<lambda>w. w\<lparr>wi_status := ''active'', wi_version := wi_version w + 1\<rparr>) (db_works d)
    \<and> db_gates d' = upd_where (\<lambda>x. ga_project x = ga_project r \<and> ga_id x = ga_id r)
        (resolved_status GateTimedOut at (Some at) op dg) (db_gates d)
    \<and> db_approvals d' = db_approvals d \<and> db_governance d' = db_governance d \<and> db_obligations d' = db_obligations d
    \<and> db_sponsors d' = db_sponsors d \<and> db_runs d' = db_runs d \<and> db_journal d' = db_journal d
    \<and> y = sponsor_gate_of (resolved_status GateTimedOut at (Some at) op dg r)
    \<and> (\<exists>draft. make_route_draft (continuation r (gl_obligation l) ''project-manager'' ''timed_out'' actor) = Inr draft)"
proof -
  let ?g = "resolved_status GateTimedOut at (Some at) op dg"
  from assms [unfolded timeout_new_def Let_def bindR_triple_Inr] obtain cur run e d1 where
    lock: "lock_gate r l d = Inr (cur, run, e)" and ld: "leader_role run = Some actor"
    and g: "resolve_gate (ga_project r) (ga_id r) op ?g d = Inr d1"
    and co: "continue_work sha t r l cur ''project-manager'' GateTimedOut actor op
       [(''gate_id'', JStr (ga_id r)), (''obligation_id'', JStr (gl_obligation l))] ''expired'' d1 = Inr d'"
    and y: "y = sponsor_gate_of (?g r)"
    unfolding bindR_Inr_iff ensure_iff by blast
  have d1: "d1 = d\<lparr>db_gates := upd_where (\<lambda>x. ga_project x = ga_project r \<and> ga_id x = ga_id r) ?g (db_gates d)\<rparr>"
    using g by (auto simp: resolve_gate_def split: if_splits)
  note f = quiet_fields [OF continue_work_Inr(1) [OF co], unfolded d1 update_work_def, simplified]
  show ?thesis
    by (intro exI [of _ cur] exI [of _ run] exI [of _ e])
      (use lock ld y f continue_work_Inr(2) [OF co] in \<open>simp add: status_text_def\<close>)
qed

text \<open>The transactions: a replay, or the fresh operation.\<close>

lemma open_sponsor_fresh:
  assumes "open_sponsor_tx sha t p w g oid by' sponsors corr version lifetime ev summary d = Inr (y, d')"
  shows "d' = d \<or> open_new sha t p w g oid by' sponsors corr version lifetime ev summary d = Inr (y, d')"
  using assms by (auto simp: open_sponsor_tx_def event_transaction_Inr split: option.splits if_splits)

lemma decide_sponsor_fresh:
  assumes "decide_sponsor_tx sha t p g sponsor dec decision rationale ev op dg d = Inr (y, d')"
  shows "d' = d \<or> (\<exists>r l a. gate_row_of p g d = Some r \<and> ga_link r = Some l \<and> ga_status r = GatePending \<and> t < gl_expires l
    \<and> fetchone (\<lambda>a. ap_project a = p \<and> ap_gate a = g \<and> ap_approver a = sponsor) (db_approvals d) = Some a
    \<and> decide_new sha t r l a sponsor dec decision rationale ev op dg d = Inr (y, d'))"
  using assms by (auto simp: decide_sponsor_tx_def event_transaction_Inr bindR_Inr_iff of_row_iff ensure_iff split: if_splits)

lemma timeout_sponsor_fresh:
  assumes "timeout_sponsor_tx sha t observed p g actor op dg d = Inr (y, d')"
  shows "d' = d \<or> (\<exists>r l. gate_row_of p g d = Some r \<and> ga_link r = Some l \<and> ga_status r = GatePending
    \<and> gl_expires l \<le> (case observed of None \<Rightarrow> t | Some x \<Rightarrow> x)
    \<and> timeout_new sha t (case observed of None \<Rightarrow> t | Some x \<Rightarrow> x) r l actor op dg d = Inr (y, d'))"
  using assms by (auto simp: timeout_sponsor_tx_def event_transaction_Inr bindR_Inr_iff of_row_iff ensure_iff Let_def split: if_splits)

end
