(* ===== verification/LifecycleSystem.thy ===== *)
theory LifecycleSystem
  imports SponsorApprovals
begin

text \<open>
  The transactions of \<open>lifecycle.py\<close> and \<open>sponsor_approvals.py\<close> as one transition system: a work
  item is gated exactly while one pending gate waits on it, a gate is resolved once, a terminal
  item never changes, and only sponsors of the project have approvals to give. \<open>reassigned\<close> is
  the one write of the flow engine to an active item; \<open>other\<close> leaves work items, gates and
  approvals alone and removes no sponsor.
\<close>

inductive work_step :: "(string \<Rightarrow> string) \<Rightarrow> db \<Rightarrow> db \<Rightarrow> bool" for sha where
  project: "create_project p name sponsors d = Inr (u, d') \<Longrightarrow> work_step sha d d'"
| created: "create_work_tx sha t p w title owner actor corr d = Inr (x, d') \<Longrightarrow> work_step sha d d'"
| transition: "transition_tx sha t p w target actor corr version reason evidence d = Inr (x, d') \<Longrightarrow>
    work_step sha d d'"
| opened: "open_gate_tx sha t p w g ty by' sponsors corr version evidence d = Inr (x, d') \<Longrightarrow>
    work_step sha d d'"
| decided: "decide_gate_tx sha t p g sponsor decision rationale evidence d = Inr (x, d') \<Longrightarrow>
    work_step sha d d'"
| reassigned: "db_works d' = upd_where (\<lambda>r. wi_project r = p \<and> wi_id r = w \<and> wi_status r = ''active'')
      (\<lambda>r. r\<lparr>wi_owner := Some role, wi_version := wi_version r + 1\<rparr>) (db_works d) \<Longrightarrow>
    db_gates d' = db_gates d \<Longrightarrow> db_approvals d' = db_approvals d \<Longrightarrow>
    set (db_sponsors d) \<subseteq> set (db_sponsors d') \<Longrightarrow> work_step sha d d'"
| sponsor_opened: "open_sponsor_tx sha t p w g oid by' sponsors corr version lifetime ev summary d = Inr (y, d') \<Longrightarrow>
    work_step sha d d'"
| sponsor_decided: "decide_sponsor_tx sha t p g sponsor dec decision rationale ev op dg d = Inr (a, d') \<Longrightarrow>
    work_step sha d d'"
| sponsor_timed_out: "timeout_sponsor_tx sha t observed p g actor op dg d = Inr (y, d') \<Longrightarrow> work_step sha d d'"
| other: "db_works d' = db_works d \<Longrightarrow> db_gates d' = db_gates d \<Longrightarrow> db_approvals d' = db_approvals d \<Longrightarrow>
    set (db_sponsors d) \<subseteq> set (db_sponsors d') \<Longrightarrow> work_step sha d d'"

section \<open>The invariant\<close>

definition gate_key :: "gate_row \<Rightarrow> string \<times> string" where
  "gate_key g = (ga_project g, ga_id g)"

definition gate_work_key :: "gate_row \<Rightarrow> string \<times> string" where
  "gate_work_key g = (ga_project g, ga_work g)"

definition approval_key :: "approval_record \<Rightarrow> string \<times> string" where
  "approval_key a = (ap_project a, ap_id a)"

definition approval_gate_key :: "approval_record \<Rightarrow> string \<times> string" where
  "approval_gate_key a = (ap_project a, ap_gate a)"

definition pending :: "gate_row \<Rightarrow> bool" where
  "pending g = (ga_status g = GatePending)"

definition gates_inv :: "work_item_record list \<Rightarrow> gate_row list \<Rightarrow> bool" where
  "gates_inv ws gs = (distinct (map work_key ws) \<and> distinct (map gate_key gs)
     \<and> (\<forall>g\<in>set gs. pending g \<longrightarrow> (\<exists>w\<in>set ws. work_key w = gate_work_key g \<and> wi_status w = ''gated''))
     \<and> (\<forall>w\<in>set ws. wi_status w = ''gated'' \<longrightarrow> (\<exists>g\<in>set gs. pending g \<and> gate_work_key g = work_key w))
     \<and> (\<forall>g\<in>set gs. \<forall>h\<in>set gs. pending g \<longrightarrow> pending h \<longrightarrow> gate_work_key g = gate_work_key h \<longrightarrow> g = h))"

definition approvals_inv :: "gate_row list \<Rightarrow> approval_record list \<Rightarrow> bool" where
  "approvals_inv gs as = (distinct (map approval_key as)
     \<and> (\<forall>a\<in>set as. \<forall>x. ap_decision a = Some x \<longrightarrow>
          (\<exists>g\<in>set gs. gate_key g = approval_gate_key a \<and> ga_status g = gate_status_of x))
     \<and> (\<forall>a\<in>set as. \<forall>b\<in>set as. ap_decision a \<noteq> None \<longrightarrow> ap_decision b \<noteq> None \<longrightarrow>
          approval_gate_key a = approval_gate_key b \<longrightarrow> a = b))"

text \<open>An approval is requested from a sponsor of the project, under an id that names it.\<close>

definition approvers_ok :: "(string \<times> string) list \<Rightarrow> approval_record list \<Rightarrow> bool" where
  "approvers_ok ss as = (\<forall>a\<in>set as. ap_id a = ap_gate a @ '':'' @ ap_approver a
     \<and> (ap_project a, ap_approver a) \<in> set ss)"

definition work_inv :: "db \<Rightarrow> bool" where
  "work_inv d = (gates_inv (db_works d) (db_gates d) \<and> approvals_inv (db_gates d) (db_approvals d)
     \<and> approvers_ok (db_sponsors d) (db_approvals d) \<and> (\<forall>w\<in>set (db_works d). 1 \<le> wi_version w))"

lemma work_invD:
  assumes "work_inv d"
  shows "gates_inv (db_works d) (db_gates d)" "approvals_inv (db_gates d) (db_approvals d)"
    "approvers_ok (db_sponsors d) (db_approvals d)" "\<forall>w\<in>set (db_works d). 1 \<le> wi_version w"
  using assms by (simp_all add: work_inv_def)

lemma approvers_ok_mono: "approvers_ok ss as \<Longrightarrow> set ss \<subseteq> set ss' \<Longrightarrow> approvers_ok ss' as"
  by (auto simp: approvers_ok_def)

lemma gates_invD:
  assumes "gates_inv ws gs"
  shows "distinct (map work_key ws)" "distinct (map gate_key gs)"
    "\<And>g. g \<in> set gs \<Longrightarrow> pending g \<Longrightarrow> \<exists>w\<in>set ws. work_key w = gate_work_key g \<and> wi_status w = ''gated''"
    "\<And>w. w \<in> set ws \<Longrightarrow> wi_status w = ''gated'' \<Longrightarrow> \<exists>g\<in>set gs. pending g \<and> gate_work_key g = work_key w"
    "\<And>g h. g \<in> set gs \<Longrightarrow> h \<in> set gs \<Longrightarrow> pending g \<Longrightarrow> pending h \<Longrightarrow> gate_work_key g = gate_work_key h \<Longrightarrow> g = h"
  using assms unfolding gates_inv_def by blast+

text \<open>Changing items that are not gated, into items that are not gated, keeps the gates.\<close>

lemma gates_inv_upd:
  assumes inv: "gates_inv ws gs"
    and f: "\<And>w. work_key (f w) = work_key w" "\<And>w. w \<in> set ws \<Longrightarrow> P w \<Longrightarrow> wi_status w \<noteq> ''gated''"
      "\<And>w. w \<in> set ws \<Longrightarrow> P w \<Longrightarrow> wi_status (f w) \<noteq> ''gated''"
  shows "gates_inv (upd_where P f ws) gs"
proof -
  note G = gates_invD [OF inv]
  have k: "map work_key (upd_where P f ws) = map work_key ws" using f(1) by (intro map_upd_where_same)
  have gated: "w \<in> set (upd_where P f ws) \<and> wi_status w = ''gated'' \<longleftrightarrow> w \<in> set ws \<and> wi_status w = ''gated''" for w
    using f(2,3) by (auto simp: set_upd_where split: if_splits)
  have "\<exists>w\<in>set (upd_where P f ws). work_key w = gate_work_key g \<and> wi_status w = ''gated''"
    if "g \<in> set gs" "pending g" for g
    using G(3) [OF that] gated by blast
  moreover have "\<exists>g\<in>set gs. pending g \<and> gate_work_key g = work_key w"
    if "w \<in> set (upd_where P f ws)" "wi_status w = ''gated''" for w
    using G(4) that gated by blast
  ultimately show ?thesis
    unfolding gates_inv_def k using G(1,2,5) by blast
qed

lemma gates_inv_append: "gates_inv ws gs \<Longrightarrow> work_key w \<notin> work_key ` set ws \<Longrightarrow> wi_status w \<noteq> ''gated'' \<Longrightarrow>
    gates_inv (ws @ [w]) gs"
  unfolding gates_inv_def by auto

lemma gates_inv_open:
  assumes inv: "gates_inv ws gs" and cur: "cur \<in> set ws" "wi_status cur = ''active''"
    and g: "pending g" "gate_work_key g = work_key cur" "gate_key g \<notin> gate_key ` set gs"
    and f: "\<And>w. work_key (f w) = work_key w" "\<And>w. wi_status (f w) = ''gated''"
    and P: "\<And>w. w \<in> set ws \<Longrightarrow> P w \<longleftrightarrow> work_key w = work_key cur"
  shows "gates_inv (upd_where P f ws) (gs @ [g])"
proof -
  note G = gates_invD [OF inv]
  have k: "map work_key (upd_where P f ws) = map work_key ws" using f(1) by (intro map_upd_where_same)
  have only: "w = cur" if "w \<in> set ws" "P w" for w
    using distinct_map_eq [OF G(1) that(1) cur(1)] P [OF that(1)] that(2) by blast
  have none: "gate_work_key h \<noteq> work_key cur" if "h \<in> set gs" "pending h" for h
  proof
    assume e: "gate_work_key h = work_key cur"
    from G(3) [OF that] obtain w where w: "w \<in> set ws" "work_key w = work_key cur" "wi_status w = ''gated''"
      unfolding e by blast
    with distinct_map_eq [OF G(1) w(1) cur(1) w(2)] cur(2) show False by simp
  qed
  have up: "(if P w then f w else w) \<in> set (upd_where P f ws)" if "w \<in> set ws" for w
    using that by (auto simp: set_upd_where)
  show ?thesis
    unfolding gates_inv_def k
  proof (intro conjI ballI impI)
    show "distinct (map work_key ws)" by (rule G(1))
    show "distinct (map gate_key (gs @ [g]))" using G(2) g(3) by auto
  next
    fix h assume h: "h \<in> set (gs @ [g])" "pending h"
    show "\<exists>w\<in>set (upd_where P f ws). work_key w = gate_work_key h \<and> wi_status w = ''gated''"
    proof (cases "h = g")
      case True
      have "P cur" using P [OF cur(1)] by simp
      then show ?thesis using up [OF cur(1)] f g(2) True by (intro bexI [of _ "f cur"]) auto
    next
      case False
      with h G(3) obtain w where w: "w \<in> set ws" "work_key w = gate_work_key h" "wi_status w = ''gated''" by auto
      then have "\<not> P w" using only cur(2) by auto
      with up [OF w(1)] w show ?thesis by auto
    qed
  next
    fix w assume w: "w \<in> set (upd_where P f ws)" "wi_status w = ''gated''"
    then obtain v where v: "v \<in> set ws" "w = (if P v then f v else v)" by (auto simp: set_upd_where)
    show "\<exists>g'\<in>set (gs @ [g]). pending g' \<and> gate_work_key g' = work_key w"
    proof (cases "P v")
      case True
      with v only f(1) g show ?thesis by auto
    next
      case False
      with v w(2) G(4) show ?thesis by auto
    qed
  next
    fix a b assume "a \<in> set (gs @ [g])" "b \<in> set (gs @ [g])" "pending a" "pending b"
      "gate_work_key a = gate_work_key b"
    then show "a = b" using G(5) none g(2) by (auto, metis+)
  qed
qed

lemma gates_inv_decide:
  assumes inv: "gates_inv ws gs" and gate: "gate \<in> set gs" "pending gate"
    and f: "\<And>w. work_key (f w) = work_key w" "\<And>w. wi_status (f w) \<noteq> ''gated''"
    and h: "\<And>g. gate_key (h g) = gate_key g" "\<And>g. \<not> pending (h g)"
    and P: "\<And>w. w \<in> set ws \<Longrightarrow> P w \<longleftrightarrow> work_key w = gate_work_key gate"
    and Q: "\<And>g. g \<in> set gs \<Longrightarrow> Q g \<longleftrightarrow> gate_key g = gate_key gate"
  shows "gates_inv (upd_where P f ws) (upd_where Q h gs)"
proof -
  note G = gates_invD [OF inv]
  have kw: "map work_key (upd_where P f ws) = map work_key ws" using f(1) by (intro map_upd_where_same)
  have kg: "map gate_key (upd_where Q h gs) = map gate_key gs" using h(1) by (intro map_upd_where_same)
  have only: "g = gate" if "g \<in> set gs" "Q g" for g
    using distinct_map_eq [OF G(2) that(1) gate(1)] Q [OF that(1)] that(2) by blast
  have pend: "g \<in> set (upd_where Q h gs) \<and> pending g \<longleftrightarrow> g \<in> set gs \<and> pending g \<and> g \<noteq> gate" for g
    unfolding upd_where_out [where Q = pending, OF h(2)] using only Q gate(1) by blast
  have gated: "w \<in> set (upd_where P f ws) \<and> wi_status w = ''gated'' \<longleftrightarrow>
      w \<in> set ws \<and> wi_status w = ''gated'' \<and> work_key w \<noteq> gate_work_key gate" for w
    unfolding upd_where_out [where Q = "\<lambda>w. wi_status w = ''gated''", OF f(2)] using P by blast
  show ?thesis
    unfolding gates_inv_def kw kg
  proof (intro conjI ballI impI G(1,2))
    fix g assume "g \<in> set (upd_where Q h gs)" "pending g"
    then have g: "g \<in> set gs" "pending g" "g \<noteq> gate" using pend by blast+
    then have "gate_work_key g \<noteq> gate_work_key gate" using G(5) gate by blast
    with G(3) [OF g(1,2)] gated
    show "\<exists>w\<in>set (upd_where P f ws). work_key w = gate_work_key g \<and> wi_status w = ''gated''" by metis
  next
    fix w assume "w \<in> set (upd_where P f ws)" "wi_status w = ''gated''"
    then have w: "w \<in> set ws" "wi_status w = ''gated''" "work_key w \<noteq> gate_work_key gate" using gated by blast+
    with G(4) pend show "\<exists>g\<in>set (upd_where Q h gs). pending g \<and> gate_work_key g = work_key w" by metis
  next
    fix a b assume "a \<in> set (upd_where Q h gs)" "b \<in> set (upd_where Q h gs)" "pending a" "pending b"
      "gate_work_key a = gate_work_key b"
    then show "a = b" using pend G(5) by blast
  qed
qed

section \<open>Progress\<close>

inductive work_move :: "string \<Rightarrow> string \<Rightarrow> bool" where
  "work_move ''new'' ''active''"
| "work_move ''active'' ''gated''"
| "work_move ''gated'' ''active''"
| "work_move ''active'' ''completed''"
| "work_move ''active'' ''error''"

inductive_simps work_move_completed: "work_move ''completed'' s"

inductive_simps work_move_error: "work_move ''error'' s"

lemma work_moves_terminal: "work_move\<^sup>*\<^sup>* s t \<Longrightarrow> s \<in> {''completed'', ''error''} \<Longrightarrow> t = s"
  by (induction rule: rtranclp_induct) (auto simp: work_move_completed work_move_error)

text \<open>Every work item stays; each change raises its version and moves its status along the
  state machine; a terminal one is untouched.\<close>

definition keeps_works :: "db \<Rightarrow> db \<Rightarrow> bool" where
  "keeps_works d d' = (\<forall>w\<in>set (db_works d). \<exists>v\<in>set (db_works d'). work_key v = work_key w
     \<and> wi_title v = wi_title w \<and> (v = w \<or> wi_version w < wi_version v)
     \<and> work_move\<^sup>*\<^sup>* (wi_status w) (wi_status v)
     \<and> (wi_status w \<in> {''completed'', ''error''} \<longrightarrow> v = w))"

lemma keeps_works_refl: "keeps_works d d"
  by (auto simp: keeps_works_def)

lemma keeps_works_mono: "set (db_works d) \<subseteq> set (db_works d') \<Longrightarrow> keeps_works d d'"
  by (auto simp: keeps_works_def)

lemma keeps_works_trans:
  assumes "keeps_works d e" "keeps_works e f"
  shows "keeps_works d f"
  unfolding keeps_works_def
proof
  fix w assume "w \<in> set (db_works d)"
  with assms(1) obtain v where v: "v \<in> set (db_works e)" "work_key v = work_key w" "wi_title v = wi_title w"
    "v = w \<or> wi_version w < wi_version v" "work_move\<^sup>*\<^sup>* (wi_status w) (wi_status v)"
    "wi_status w \<in> {''completed'', ''error''} \<longrightarrow> v = w" unfolding keeps_works_def by blast
  with assms(2) obtain u where u: "u \<in> set (db_works f)" "work_key u = work_key v" "wi_title u = wi_title v"
    "u = v \<or> wi_version v < wi_version u" "work_move\<^sup>*\<^sup>* (wi_status v) (wi_status u)"
    "wi_status v \<in> {''completed'', ''error''} \<longrightarrow> u = v" unfolding keeps_works_def by blast
  have "work_move\<^sup>*\<^sup>* (wi_status w) (wi_status u)" using v(5) u(5) by (rule rtranclp_trans)
  moreover have "u = w \<or> wi_version w < wi_version u" using v(4) u(4) by (elim disjE) auto
  moreover have "wi_status w \<in> {''completed'', ''error''} \<longrightarrow> u = w" using v(6) u(6) by metis
  ultimately show "\<exists>v\<in>set (db_works f). work_key v = work_key w \<and> wi_title v = wi_title w
      \<and> (v = w \<or> wi_version w < wi_version v) \<and> work_move\<^sup>*\<^sup>* (wi_status w) (wi_status v)
      \<and> (wi_status w \<in> {''completed'', ''error''} \<longrightarrow> v = w)"
    using u(1,2,3) v(2,3) by (intro bexI [of _ u]) simp_all
qed

lemma keeps_works_upd:
  assumes f: "\<And>w. w \<in> set (db_works d) \<Longrightarrow> P w \<Longrightarrow> work_key (f w) = work_key w \<and> wi_title (f w) = wi_title w
      \<and> wi_version w < wi_version (f w) \<and> (wi_status (f w) = wi_status w \<or> work_move (wi_status w) (wi_status (f w)))
      \<and> wi_status w \<notin> {''completed'', ''error''}"
    and d': "db_works d' = upd_where P f (db_works d)"
  shows "keeps_works d d'"
  unfolding keeps_works_def d'
proof
  fix w assume w: "w \<in> set (db_works d)"
  have m: "(if P w then f w else w) \<in> set (upd_where P f (db_works d))" using w by (auto simp: set_upd_where)
  show "\<exists>v\<in>set (upd_where P f (db_works d)). work_key v = work_key w \<and> wi_title v = wi_title w
      \<and> (v = w \<or> wi_version w < wi_version v) \<and> work_move\<^sup>*\<^sup>* (wi_status w) (wi_status v)
      \<and> (wi_status w \<in> {''completed'', ''error''} \<longrightarrow> v = w)"
  proof (cases "P w")
    case True
    note F = f [OF w True]
    from F have "work_move\<^sup>*\<^sup>* (wi_status w) (wi_status (f w))" by (auto intro: r_into_rtranclp)
    with F m True show ?thesis by (intro bexI [of _ "f w"]) auto
  next
    case False
    with m show ?thesis by (intro bexI [of _ w]) auto
  qed
qed

section \<open>Every step\<close>

lemma work_row_only:
  assumes "gates_inv (db_works d) gs" "work_row d p w = Some cur" "v \<in> set (db_works d)" "wi_project v = p" "wi_id v = w"
  shows "v = cur"
  using distinct_map_eq [OF gates_invD(1) [OF assms(1)] assms(3), of cur] work_rowD [OF assms(2)] assms(4,5)
  by (simp add: work_key_def)

lemma direct_transitions_move: "t \<in> set (direct_transitions s) \<Longrightarrow>
    work_move s t \<and> s \<noteq> ''gated'' \<and> t \<noteq> ''gated'' \<and> s \<notin> {''completed'', ''error''}"
  by (auto simp: direct_transitions_def split: if_splits intro: work_move.intros)

lemma approvals_inv_append:
  assumes "approvals_inv gs as" "set gs \<subseteq> set gs'" "distinct (map approval_key (as @ new))"
    "\<forall>a\<in>set new. ap_decision a = None"
  shows "approvals_inv gs' (as @ new)"
  using assms unfolding approvals_inv_def by auto (blast | metis)+

lemma approvals_inv_decide:
  assumes inv: "approvals_inv gs as" and ginv: "distinct (map gate_key gs)"
    and gate: "gate \<in> set gs" "pending gate" and ap: "ap \<in> set as" "approval_gate_key ap = gate_key gate"
    and h: "\<And>g. gate_key (h g) = gate_key g" "\<And>g. ga_status (h g) = gate_status_of dec"
    and f: "\<And>a. approval_key (f a) = approval_key a" "\<And>a. approval_gate_key (f a) = approval_gate_key a"
      "\<And>a. ap_decision (f a) = Some dec"
    and P: "\<And>a. a \<in> set as \<Longrightarrow> P a \<longleftrightarrow> approval_key a = approval_key ap"
    and Q: "\<And>g. g \<in> set gs \<Longrightarrow> Q g \<longleftrightarrow> gate_key g = gate_key gate"
  shows "approvals_inv (upd_where Q h gs) (upd_where P f as)"
proof -
  have d: "distinct (map approval_key as)"
    and res: "\<And>a x. a \<in> set as \<Longrightarrow> ap_decision a = Some x \<Longrightarrow>
          \<exists>g\<in>set gs. gate_key g = approval_gate_key a \<and> ga_status g = gate_status_of x"
    and one: "\<And>a b. a \<in> set as \<Longrightarrow> b \<in> set as \<Longrightarrow> ap_decision a \<noteq> None \<Longrightarrow> ap_decision b \<noteq> None \<Longrightarrow>
          approval_gate_key a = approval_gate_key b \<Longrightarrow> a = b"
    using inv unfolding approvals_inv_def by blast+
  have k: "map approval_key (upd_where P f as) = map approval_key as" using f(1) by (intro map_upd_where_same)
  have onlyA: "a = ap" if "a \<in> set as" "P a" for a
    using distinct_map_eq [OF d that(1) ap(1)] P [OF that(1)] that(2) by blast
  have onlyG: "g = gate" if "g \<in> set gs" "gate_key g = gate_key gate" for g
    using distinct_map_eq [OF ginv that(1) gate(1) that(2)] .
  have undecided: "approval_gate_key a \<noteq> gate_key gate" if "a \<in> set as" "ap_decision a = Some x" for a x
  proof
    assume "approval_gate_key a = gate_key gate"
    with res [OF that] onlyG have "ga_status gate = gate_status_of x" by metis
    with gate(2) show False by (simp add: pending_def gate_status_of_def split: decision.splits)
  qed
  have mem: "\<exists>b\<in>set as. a = (if P b then f b else b)" if "a \<in> set (upd_where P f as)" for a
    using that by (simp add: set_upd_where)
  have memG: "(if Q g then h g else g) \<in> set (upd_where Q h gs)" if "g \<in> set gs" for g
    using that by (auto simp: set_upd_where)
  have "\<exists>g\<in>set (upd_where Q h gs). gate_key g = approval_gate_key a \<and> ga_status g = gate_status_of x"
    if a: "a \<in> set (upd_where P f as)" "ap_decision a = Some x" for a x
  proof -
    from mem [OF a(1)] obtain b where b: "b \<in> set as" "a = (if P b then f b else b)" by blast
    show ?thesis
    proof (cases "P b")
      case True
      have "Q gate" using Q [OF gate(1)] by simp
      then have "h gate \<in> set (upd_where Q h gs)" using memG [OF gate(1)] by simp
      moreover have "x = dec" "approval_gate_key a = gate_key gate"
        using a(2) b True f onlyA ap(2) by auto
      ultimately show ?thesis using h by (intro bexI [of _ "h gate"]) auto
    next
      case False
      with b a(2) res obtain g where g: "g \<in> set gs" "gate_key g = approval_gate_key a" "ga_status g = gate_status_of x"
        by auto
      have "\<not> Q g" using undecided [of b x] Q [OF g(1)] g(2) b False a(2) by auto
      with memG [OF g(1)] g show ?thesis by auto
    qed
  qed
  moreover have "a = b" if ab: "a \<in> set (upd_where P f as)" "b \<in> set (upd_where P f as)"
    "ap_decision a \<noteq> None" "ap_decision b \<noteq> None" "approval_gate_key a = approval_gate_key b" for a b
  proof -
    from mem [OF ab(1)] mem [OF ab(2)] obtain a' b' where
      a': "a' \<in> set as" "a = (if P a' then f a' else a')" and b': "b' \<in> set as" "b = (if P b' then f b' else b')"
      by blast
    have "P a' \<longleftrightarrow> P b'"
      using a' b' ab(3-5) onlyA ap(2) f(2) undecided by (metis option.exhaust)
    then show ?thesis
      using a' b' ab onlyA one by (cases "P a'") metis+
  qed
  ultimately show ?thesis unfolding approvals_inv_def k using d by blast
qed

lemma gate_status_of_not_pending [simp]: "gate_status_of x \<noteq> GatePending"
  by (simp add: gate_status_of_def split: decision.splits)

lemma versions_upd:
  "\<forall>w\<in>set ws. 1 \<le> wi_version w \<Longrightarrow> (\<And>w. wi_version (f w) = wi_version w + 1) \<Longrightarrow>
     \<forall>w\<in>set (upd_where P f ws). 1 \<le> wi_version w"
  by (fastforce simp: set_upd_where split: if_splits)

lemma create_work_Inr:
  assumes "create_work_tx sha t p w title owner actor corr d = Inr (x, d')"
  shows "\<exists>r. wi_status r = ''new'' \<and> wi_version r = 1 \<and> work_key r \<notin> work_key ` set (db_works d)
    \<and> db_works d' = db_works d @ [r] \<and> db_gates d' = db_gates d \<and> db_approvals d' = db_approvals d
    \<and> db_sponsors d' = db_sponsors d"
proof -
  let ?r = "\<lparr>wi_project = strip p, wi_id = strip w, wi_title = strip title, wi_status = ''new'',
         wi_owner = Some (strip owner), wi_version = 1, wi_reason = None, wi_evidence = []\<rparr>"
  from assms obtain d1 where i: "insert_work ?r d = Inr d1"
    and r: "report sha t (strip p) (strip w) (strip actor) (strip corr) ''work.created'' ''new''
      [(''status'', JStr ''new'')] d1 = Inr d'"
    unfolding create_work_tx_def bindR_Inr_iff required_iff event_transaction_Inr
    by (elim exE conjE) simp
  have k: "db_works d1 = db_works d @ [?r]" "db_gates d1 = db_gates d" "db_approvals d1 = db_approvals d" "db_sponsors d1 = db_sponsors d"
    "\<not> has_work d (strip p) (strip w)"
    using i by (auto simp: insert_work_def split: if_splits)
  have "work_key ?r \<notin> work_key ` set (db_works d)"
    using k(5) by (auto simp: has_work_def has_row_iff work_key_def)
  with k report_frame(1-3,5) [OF r] show ?thesis by (intro exI [of _ ?r]) simp
qed

lemma transition_step:
  assumes inv: "work_inv d" and c: "transition_core sha t p w target actor corr version reason evidence d = Inr (x, d')"
  shows "work_inv d' \<and> keeps_works d d'"
proof -
  have g: "gates_inv (db_works d) (db_gates d)" using inv by (simp add: work_inv_def)
  from transition_Inr [OF c] obtain cur ev where cur: "work_row d p w = Some cur"
    and t: "target \<in> set (direct_transitions (wi_status cur))"
    and d': "db_works d' = upd_where (\<lambda>r. wi_project r = p \<and> wi_id r = w)
        (\<lambda>r. r\<lparr>wi_status := target, wi_version := wi_version r + 1, wi_reason := reason, wi_evidence := ev\<rparr>)
        (db_works d)" "db_gates d' = db_gates d" "db_approvals d' = db_approvals d" "db_sponsors d' = db_sponsors d" by blast
  note m = direct_transitions_move [OF t]
  have only: "v = cur" if "v \<in> set (db_works d)" "wi_project v = p \<and> wi_id v = w" for v
    using work_row_only [OF g cur that(1)] that(2) by blast
  have "gates_inv (db_works d') (db_gates d')"
    unfolding d' by (rule gates_inv_upd [OF g]) (use m only in \<open>auto simp: work_key_def\<close>)
  moreover have "keeps_works d d'"
  proof (rule keeps_works_upd [OF _ d'(1)])
    fix v assume "v \<in> set (db_works d)" "wi_project v = p \<and> wi_id v = w"
    then have "v = cur" by (rule only)
    with m show "work_key (v\<lparr>wi_status := target, wi_version := wi_version v + 1, wi_reason := reason, wi_evidence := ev\<rparr>) = work_key v
        \<and> wi_title (v\<lparr>wi_status := target, wi_version := wi_version v + 1, wi_reason := reason, wi_evidence := ev\<rparr>) = wi_title v
        \<and> wi_version v < wi_version (v\<lparr>wi_status := target, wi_version := wi_version v + 1, wi_reason := reason, wi_evidence := ev\<rparr>)
        \<and> (wi_status (v\<lparr>wi_status := target, wi_version := wi_version v + 1, wi_reason := reason, wi_evidence := ev\<rparr>) = wi_status v
           \<or> work_move (wi_status v) (wi_status (v\<lparr>wi_status := target, wi_version := wi_version v + 1, wi_reason := reason, wi_evidence := ev\<rparr>)))
        \<and> wi_status v \<notin> {''completed'', ''error''}"
      by (simp add: work_key_def)
  qed
  moreover have "\<forall>w\<in>set (db_works d'). 1 \<le> wi_version w"
    unfolding d' using inv by (intro versions_upd) (simp_all add: work_inv_def)
  ultimately show ?thesis using inv by (simp add: work_inv_def d'(2,3,4))
qed

lemma approvals_inv_gates:
  assumes inv: "approvals_inv gs as" and ginv: "distinct (map gate_key gs)"
    and gate: "gate \<in> set gs" "pending gate"
    and Q: "\<And>g. g \<in> set gs \<Longrightarrow> Q g \<longleftrightarrow> gate_key g = gate_key gate"
  shows "approvals_inv (upd_where Q h gs) as"
proof -
  have "\<exists>g\<in>set (upd_where Q h gs). gate_key g = approval_gate_key a \<and> ga_status g = gate_status_of x"
    if a: "a \<in> set as" "ap_decision a = Some x" for a x
  proof -
    from inv a obtain g where g: "g \<in> set gs" "gate_key g = approval_gate_key a" "ga_status g = gate_status_of x"
      unfolding approvals_inv_def by blast
    have "\<not> Q g"
    proof
      assume "Q g"
      then have "g = gate" using distinct_map_eq [OF ginv g(1) gate(1)] Q [OF g(1)] by blast
      with g(3) gate(2) show False by (simp add: pending_def)
    qed
    with g show ?thesis by (intro bexI [of _ g]) (auto simp: set_upd_where)
  qed
  with inv show ?thesis unfolding approvals_inv_def by blast
qed

lemma keeps_works_status:
  assumes g: "gates_inv (db_works d) gs" and cur: "work_row d p w = Some cur" and m: "work_move (wi_status cur) s"
    and d': "db_works d' = upd_where (\<lambda>r. wi_project r = p \<and> wi_id r = w)
        (\<lambda>r. r\<lparr>wi_status := s, wi_version := wi_version r + 1\<rparr>) (db_works d)"
  shows "keeps_works d d'"
proof (rule keeps_works_upd [OF _ d'])
  fix v assume "v \<in> set (db_works d)" "wi_project v = p \<and> wi_id v = w"
  then have "v = cur" using work_row_only [OF g cur] by blast
  with m show "work_key (v\<lparr>wi_status := s, wi_version := wi_version v + 1\<rparr>) = work_key v
      \<and> wi_title (v\<lparr>wi_status := s, wi_version := wi_version v + 1\<rparr>) = wi_title v
      \<and> wi_version v < wi_version (v\<lparr>wi_status := s, wi_version := wi_version v + 1\<rparr>)
      \<and> (wi_status (v\<lparr>wi_status := s, wi_version := wi_version v + 1\<rparr>) = wi_status v
         \<or> work_move (wi_status v) (wi_status (v\<lparr>wi_status := s, wi_version := wi_version v + 1\<rparr>)))
      \<and> wi_status v \<notin> {''completed'', ''error''}"
    by (auto simp: work_key_def work_move_completed work_move_error)
qed

text \<open>A gate is opened for an active item, and one that is pending is resolved.\<close>

lemma work_opened:
  assumes inv: "work_inv d" and cur: "work_row d p w = Some cur" "wi_status cur = ''active''"
    and gate: "ga_project gate = p" "ga_work gate = w" "ga_status gate = GatePending"
    and new: "\<not> has_row (\<lambda>r. ga_project r = p \<and> ga_id r = ga_id gate) (db_gates d)"
    and d': "db_gates d' = db_gates d @ [gate]"
      "db_works d' = upd_where (\<lambda>r. wi_project r = p \<and> wi_id r = w)
        (\<lambda>r. r\<lparr>wi_status := ''gated'', wi_version := wi_version r + 1\<rparr>) (db_works d)"
      "db_approvals d' = db_approvals d @ rows" "db_sponsors d' = db_sponsors d"
    and rows: "\<forall>r\<in>set rows. ap_project r = p \<and> ap_gate r = ga_id gate \<and> ap_decision r = None \<and> ap_approver r \<in> set ss
        \<and> ap_id r = ga_id gate @ '':'' @ ap_approver r"
      "distinct (map (\<lambda>a. (ap_project a, ap_id a)) (db_approvals d)) \<longrightarrow>
       distinct (map (\<lambda>a. (ap_project a, ap_id a)) (db_approvals d'))"
    and ss: "\<forall>s\<in>set ss. (p, s) \<in> set (db_sponsors d)"
  shows "work_inv d' \<and> keeps_works d d'"
proof -
  note I = work_invD [OF inv] and r = work_rowD [OF cur(1)]
  have "gates_inv (db_works d') (db_gates d')"
    unfolding d'
  proof (rule gates_inv_open [OF I(1)])
    show "cur \<in> set (db_works d)" "wi_status cur = ''active''" "pending gate" "gate_work_key gate = work_key cur"
      using r cur gate by (simp_all add: pending_def gate_work_key_def work_key_def)
    show "gate_key gate \<notin> gate_key ` set (db_gates d)"
      using new gate(1) by (auto simp: gate_key_def has_row_iff)
    show "(wi_project v = p \<and> wi_id v = w) = (work_key v = work_key cur)" for v
      using r by (auto simp: work_key_def)
  qed (simp_all add: work_key_def)
  moreover have "approvals_inv (db_gates d') (db_approvals d')"
    unfolding d'
  proof (rule approvals_inv_append [OF I(2)])
    have "map approval_key as = map (\<lambda>a. (ap_project a, ap_id a)) as" for as by (simp add: approval_key_def)
    with rows(2) I(2) show "distinct (map approval_key (db_approvals d @ rows))"
      by (simp only: d'(3) approvals_inv_def)
  qed (use rows(1) in auto)
  moreover have "approvers_ok (db_sponsors d') (db_approvals d')"
    using I(3) rows(1) ss unfolding d' by (auto simp: approvers_ok_def)
  moreover have "keeps_works d d'"
    using cur(2) by (intro keeps_works_status [OF I(1) cur(1) _ d'(2)]) (simp add: work_move.intros)
  moreover have "\<forall>w\<in>set (db_works d'). 1 \<le> wi_version w"
    unfolding d' using I(4) by (intro versions_upd) simp_all
  ultimately show ?thesis by (simp add: work_inv_def)
qed

lemma work_resolved:
  assumes inv: "work_inv d" and gate: "gate \<in> set (db_gates d)" "ga_status gate = GatePending"
    and cur: "work_row d (ga_project gate) (ga_work gate) = Some cur" "wi_status cur = ''gated''"
    and h: "\<And>g. gate_key (h g) = gate_key g" "\<And>g. \<not> pending (h g)"
    and d': "db_works d' = upd_where (\<lambda>r. wi_project r = ga_project gate \<and> wi_id r = ga_work gate)
        (\<lambda>r. r\<lparr>wi_status := ''active'', wi_version := wi_version r + 1\<rparr>) (db_works d)"
      "db_gates d' = upd_where (\<lambda>r. ga_project r = ga_project gate \<and> ga_id r = ga_id gate) h (db_gates d)"
    and ap: "approvals_inv (db_gates d') (db_approvals d')" "approvers_ok (db_sponsors d') (db_approvals d')"
  shows "work_inv d' \<and> keeps_works d d'"
proof -
  note I = work_invD [OF inv]
  have "gates_inv (db_works d') (db_gates d')"
    unfolding d'
    by (rule gates_inv_decide [OF I(1) gate(1)])
      (use gate(2) h in \<open>auto simp: pending_def work_key_def gate_key_def gate_work_key_def\<close>)
  moreover have "keeps_works d d'"
    using cur(2) by (intro keeps_works_status [OF I(1) cur(1) _ d'(1)]) (simp add: work_move.intros)
  moreover have "\<forall>w\<in>set (db_works d'). 1 \<le> wi_version w"
    unfolding d' using I(4) by (intro versions_upd) simp_all
  ultimately show ?thesis using ap by (simp add: work_inv_def)
qed

text \<open>The approval that a decision fills in.\<close>

lemma approvals_decided:
  assumes inv: "work_inv d" and gate: "gate \<in> set (db_gates d)" "ga_status gate = GatePending"
    and ap: "ap \<in> set (db_approvals d)" "ap_project ap = ga_project gate" "ap_gate ap = ga_id gate"
    and h: "\<And>g. gate_key (h g) = gate_key g" "\<And>g. ga_status (h g) = gate_status_of dec"
    and d': "db_gates d' = upd_where (\<lambda>r. ga_project r = ga_project gate \<and> ga_id r = ga_id gate) h (db_gates d)"
      "db_approvals d' = upd_where (\<lambda>r. ap_project r = ga_project gate \<and> ap_id r = ap_id ap)
        (\<lambda>r. r\<lparr>ap_decision := Some dec, ap_rationale := Some rationale, ap_evidence := evidence,
              ap_decided := Some t\<rparr>) (db_approvals d)" "db_sponsors d' = db_sponsors d"
  shows "approvals_inv (db_gates d') (db_approvals d') \<and> approvers_ok (db_sponsors d') (db_approvals d')"
proof
  note I = work_invD [OF inv]
  show "approvals_inv (db_gates d') (db_approvals d')"
    unfolding d'
    by (rule approvals_inv_decide [OF I(2) gates_invD(2) [OF I(1)] gate(1) _ ap(1), where dec = dec])
      (use ap gate(2) h in \<open>auto simp: pending_def gate_key_def approval_key_def approval_gate_key_def\<close>)
  show "approvers_ok (db_sponsors d') (db_approvals d')"
    using I(3) unfolding d' approvers_ok_def by (fastforce simp: set_upd_where split: if_splits)
qed

lemma open_gate_step:
  assumes inv: "work_inv d" and c: "open_gate_core sha t p w gate ss version d = Inr (x, d')"
    and gate: "ga_project gate = p" "ga_work gate = w" "ga_status gate = GatePending"
  shows "work_inv d' \<and> keeps_works d d'"
proof -
  from open_gate_Inr [OF c] obtain cur rows where cur: "work_row d p w = Some cur" "wi_status cur = ''active''"
    and ss: "\<forall>s\<in>set ss. (p, s) \<in> set (db_sponsors d)"
    and new: "\<not> has_row (\<lambda>r. ga_project r = p \<and> ga_id r = ga_id gate) (db_gates d)"
    and d': "db_gates d' = db_gates d @ [gate]"
      "db_works d' = upd_where (\<lambda>r. wi_project r = p \<and> wi_id r = w)
        (\<lambda>r. r\<lparr>wi_status := ''gated'', wi_version := wi_version r + 1\<rparr>) (db_works d)"
      "db_approvals d' = db_approvals d @ rows" "db_sponsors d' = db_sponsors d"
    and rows: "\<forall>r\<in>set rows. ap_project r = p \<and> ap_gate r = ga_id gate \<and> ap_decision r = None \<and> ap_approver r \<in> set ss
        \<and> ap_id r = ga_id gate @ '':'' @ ap_approver r"
      "distinct (map (\<lambda>a. (ap_project a, ap_id a)) (db_approvals d)) \<longrightarrow>
       distinct (map (\<lambda>a. (ap_project a, ap_id a)) (db_approvals d'))" by blast
  show ?thesis by (rule work_opened [OF inv cur gate new d' rows ss])
qed

lemma decide_gate_step:
  assumes inv: "work_inv d" and c: "decide_gate_core sha t p g sponsor dec decision rationale evidence d = Inr (x, d')"
  shows "work_inv d' \<and> keeps_works d d'"
proof -
  from decide_gate_Inr [OF c] obtain gate ap cur where
    gate: "fetchone (\<lambda>r. ga_project r = p \<and> ga_id r = g) (db_gates d) = Some gate" "ga_status gate = GatePending"
    and ap: "fetchone (\<lambda>r. ap_project r = p \<and> ap_gate r = g \<and> ap_approver r = sponsor) (db_approvals d) = Some ap"
    and cur: "work_row d p (ga_work gate) = Some cur" "wi_status cur = ''gated''"
    and d': "db_works d' = upd_where (\<lambda>r. wi_project r = p \<and> wi_id r = ga_work gate)
        (\<lambda>r. r\<lparr>wi_status := ''active'', wi_version := wi_version r + 1\<rparr>) (db_works d)"
      "db_gates d' = upd_where (\<lambda>r. ga_project r = p \<and> ga_id r = g)
        (\<lambda>r. r\<lparr>ga_status := gate_status_of dec, ga_resolved := Some t\<rparr>) (db_gates d)"
      "db_approvals d' = upd_where (\<lambda>r. ap_project r = p \<and> ap_id r = ap_id ap)
        (\<lambda>r. r\<lparr>ap_decision := Some dec, ap_rationale := Some rationale, ap_evidence := evidence,
              ap_decided := Some t\<rparr>) (db_approvals d)" "db_sponsors d' = db_sponsors d" by blast
  from fetchone_SomeD [OF gate(1)] have G: "gate \<in> set (db_gates d)" "ga_project gate = p" "ga_id gate = g" by simp_all
  from fetchone_SomeD [OF ap] have A: "ap \<in> set (db_approvals d)" "ap_project ap = p" "ap_gate ap = g" by simp_all
  let ?h = "\<lambda>r. r\<lparr>ga_status := gate_status_of dec, ga_resolved := Some t\<rparr> :: gate_row"
  have h: "gate_key (?h r) = gate_key r" "ga_status (?h r) = gate_status_of dec" "\<not> pending (?h r)" for r
    by (simp_all add: gate_key_def pending_def)
  note d'' = d' [folded G(2,3)]
  have "approvals_inv (db_gates d') (db_approvals d') \<and> approvers_ok (db_sponsors d') (db_approvals d')"
    using A G by (intro approvals_decided [OF inv G(1) gate(2) A(1) _ _ h(1,2) d''(2-4)]) simp_all
  then show ?thesis using cur [folded G(2)] by (intro work_resolved [OF inv G(1) gate(2) _ _ h(1,3) d''(1,2)]) simp_all
qed

section \<open>Every step of the sponsors' gates\<close>

lemma open_sponsor_step:
  assumes inv: "work_inv d" and c: "open_new sha t p w g oid by' sponsors corr version lifetime ev summary d = Inr (y, d')"
  shows "work_inv d' \<and> keeps_works d d'"
proof -
  from open_new_Inr [OF c] obtain cur run x r rows where
    cur: "work_row d p w = Some cur" "wi_status cur = ''active''"
    and ss: "\<forall>s\<in>set sponsors. (p, s) \<in> set (db_sponsors d)"
    and r: "r = opened_gate (t + seconds lifetime) p w g oid by' corr ev run x"
    and new: "\<not> has_row (\<lambda>k. ga_project k = p \<and> ga_id k = g) (db_gates d)"
    and d': "db_gates d' = db_gates d @ [r]"
      "db_works d' = upd_where (\<lambda>r. wi_project r = p \<and> wi_id r = w)
        (\<lambda>r. r\<lparr>wi_status := ''gated'', wi_version := wi_version r + 1\<rparr>) (db_works d)"
      "db_approvals d' = db_approvals d @ rows" "db_sponsors d' = db_sponsors d"
    and rows: "\<forall>a\<in>set rows. ap_project a = p \<and> ap_gate a = g \<and> ap_decision a = None \<and> ap_approver a \<in> set sponsors
        \<and> ap_id a = g @ '':'' @ ap_approver a"
      "distinct (map (\<lambda>a. (ap_project a, ap_id a)) (db_approvals d)) \<longrightarrow>
       distinct (map (\<lambda>a. (ap_project a, ap_id a)) (db_approvals d'))" by blast
  have "ga_project r = p" "ga_work r = w" "ga_status r = GatePending" "ga_id r = g" by (simp_all add: r opened_gate_def)
  then show ?thesis using new rows(1) by (intro work_opened [OF inv cur _ _ _ _ d' _ rows(2) ss]) simp_all
qed

lemma resolved_status_key [simp]:
  "gate_key (resolved_status s t timed op dg g) = gate_key g" "ga_status (resolved_status s t timed op dg g) = s"
  "pending (resolved_status s t timed op dg g) \<longleftrightarrow> s = GatePending"
  by (simp_all add: resolved_status_def gate_key_def pending_def)

lemma gate_row_ofD: "gate_row_of p g d = Some r \<Longrightarrow> r \<in> set (db_gates d) \<and> ga_project r = p \<and> ga_id r = g"
  by (auto simp: gate_row_of_def dest: fetchone_SomeD)

lemma decide_sponsor_step:
  assumes inv: "work_inv d" and r: "gate_row_of p g d = Some r" "ga_status r = GatePending"
    and a: "fetchone (\<lambda>a. ap_project a = p \<and> ap_gate a = g \<and> ap_approver a = sponsor) (db_approvals d) = Some a"
    and c: "decide_new sha t r l a sponsor dec decision rationale ev op dg d = Inr (y, d')"
  shows "work_inv d' \<and> keeps_works d d'"
proof -
  from gate_row_ofD [OF r(1)] have G: "r \<in> set (db_gates d)" "ga_project r = p" "ga_id r = g" by simp_all
  from fetchone_SomeD [OF a] have A: "a \<in> set (db_approvals d)" "ap_project a = p" "ap_gate a = g" "ap_approver a = sponsor"
    by simp_all
  have aid: "ga_id r @ '':'' @ sponsor = ap_id a"
    using work_invD(3) [OF inv] A G(3) by (simp add: approvers_ok_def)
  from decide_new_Inr [OF c] obtain cur run e where lock: "lock_gate r l d = Inr (cur, run, e)"
    and d': "db_works d' = upd_where (\<lambda>w. wi_project w = ga_project r \<and> wi_id w = ga_work r)
        (\<lambda>w. w\<lparr>wi_status := ''active'', wi_version := wi_version w + 1\<rparr>) (db_works d)"
      "db_gates d' = upd_where (\<lambda>x. ga_project x = ga_project r \<and> ga_id x = ga_id r)
        (resolved_status (gate_status_of dec) t None op dg) (db_gates d)"
      "db_approvals d' = upd_where (\<lambda>b. ap_project b = ga_project r \<and> ap_id b = ap_id a)
        (\<lambda>a. a\<lparr>ap_decision := Some dec, ap_rationale := Some rationale, ap_evidence := ev, ap_decided := Some t\<rparr>)
        (db_approvals d)" "db_sponsors d' = db_sponsors d"
    unfolding aid by blast
  have "approvals_inv (db_gates d') (db_approvals d') \<and> approvers_ok (db_sponsors d') (db_approvals d')"
    using A G by (intro approvals_decided [OF inv G(1) r(2) A(1) _ _ _ _ d'(2-4)]) simp_all
  moreover have cur: "work_row d (ga_project r) (ga_work r) = Some cur" "wi_status cur = ''gated''"
    using lock by (simp_all add: lock_gate_Inr)
  ultimately show ?thesis by (intro work_resolved [OF inv G(1) r(2) cur _ _ d'(1,2)]) simp_all
qed

lemma timeout_sponsor_step:
  assumes inv: "work_inv d" and r: "gate_row_of p g d = Some r" "ga_status r = GatePending"
    and c: "timeout_new sha t at r l actor op dg d = Inr (y, d')"
  shows "work_inv d' \<and> keeps_works d d'"
proof -
  note I = work_invD [OF inv]
  from gate_row_ofD [OF r(1)] have G: "r \<in> set (db_gates d)" by simp
  from timeout_new_Inr [OF c] obtain cur run e where lock: "lock_gate r l d = Inr (cur, run, e)"
    and d': "db_works d' = upd_where (\<lambda>w. wi_project w = ga_project r \<and> wi_id w = ga_work r)
        (\<lambda>w. w\<lparr>wi_status := ''active'', wi_version := wi_version w + 1\<rparr>) (db_works d)"
      "db_gates d' = upd_where (\<lambda>x. ga_project x = ga_project r \<and> ga_id x = ga_id r)
        (resolved_status GateTimedOut at (Some at) op dg) (db_gates d)"
      "db_approvals d' = db_approvals d" "db_sponsors d' = db_sponsors d" by blast
  have "approvals_inv (db_gates d') (db_approvals d')"
    unfolding d' using G r(2)
    by (intro approvals_inv_gates [OF I(2) gates_invD(2) [OF I(1)] G]) (auto simp: pending_def gate_key_def)
  moreover have cur: "work_row d (ga_project r) (ga_work r) = Some cur" "wi_status cur = ''gated''"
    using lock by (simp_all add: lock_gate_Inr)
  ultimately show ?thesis using I(3) d'(3,4) by (intro work_resolved [OF inv G r(2) cur _ _ d'(1,2)]) simp_all
qed

lemma work_step_inv_keeps:
  assumes "work_step sha d d'" and inv: "work_inv d"
  shows "work_inv d' \<and> keeps_works d d'"
  using assms(1)
proof cases
  case project
  then have "db_works d' = db_works d" "db_gates d' = db_gates d" "db_approvals d' = db_approvals d"
      "set (db_sponsors d) \<subseteq> set (db_sponsors d')"
    by (auto simp: create_project_def monad_simps)
  with inv show ?thesis by (simp add: work_inv_def keeps_works_mono approvers_ok_mono [OF work_invD(3) [OF inv]])
next
  case created
  from create_work_Inr [OF created] obtain r where "wi_status r = ''new''" "wi_version r = 1"
    "work_key r \<notin> work_key ` set (db_works d)" "db_works d' = db_works d @ [r]"
    "db_gates d' = db_gates d" "db_approvals d' = db_approvals d" "db_sponsors d' = db_sponsors d" by blast
  with inv show ?thesis by (auto simp: work_inv_def gates_inv_append intro!: keeps_works_mono)
next
  case transition
  from transition_tx_core [OF transition] transition_step [OF inv] show ?thesis by blast
next
  case opened
  from open_gate_tx_core [OF opened] open_gate_step [OF inv] show ?thesis by blast
next
  case decided
  from decide_gate_tx_core [OF decided] decide_gate_step [OF inv] show ?thesis by blast
next
  case (reassigned p w role)
  have "gates_inv (db_works d') (db_gates d')"
    unfolding reassigned using inv
    by (intro gates_inv_upd) (auto simp: work_inv_def work_key_def)
  moreover have "keeps_works d d'"
    by (rule keeps_works_upd [OF _ reassigned(1)]) (auto simp: work_key_def)
  moreover have "\<forall>w\<in>set (db_works d'). 1 \<le> wi_version w"
    unfolding reassigned using inv by (intro versions_upd) (simp_all add: work_inv_def)
  ultimately show ?thesis using inv reassigned(4) by (simp add: work_inv_def reassigned(2,3) approvers_ok_mono [OF work_invD(3) [OF inv]])
next
  case sponsor_opened
  from open_sponsor_fresh [OF this] open_sponsor_step [OF inv] inv keeps_works_refl show ?thesis by blast
next
  case sponsor_decided
  from decide_sponsor_fresh [OF this] decide_sponsor_step [OF inv] inv keeps_works_refl show ?thesis by blast
next
  case sponsor_timed_out
  from timeout_sponsor_fresh [OF this] timeout_sponsor_step [OF inv] inv keeps_works_refl show ?thesis by blast
next
  case other
  with inv show ?thesis by (simp add: work_inv_def keeps_works_mono approvers_ok_mono [OF work_invD(3) [OF inv]])
qed

interpretation work: invariant_system "work_step sha" work_inv for sha
  by unfold_locales (blast dest: work_step_inv_keeps)

lemma work_runs_keep:
  assumes "(work_step sha)\<^sup>*\<^sup>* d d'" and "work_inv d"
  shows "keeps_works d d'"
  using _ _ _ assms
proof (rule work.runs_rel)
  show "keeps_works s s" for s by (rule keeps_works_refl)
  show "keeps_works s u" if "keeps_works s t" "keeps_works t u" for s t u
    using that by (rule keeps_works_trans)
  show "keeps_works s t" if "work_step sha s t" "work_inv s" for s t
    using work_step_inv_keeps [OF that] by blast
qed

definition work_reachable :: "(string \<Rightarrow> string) \<Rightarrow> db \<Rightarrow> bool" where
  "work_reachable sha d = (work_step sha)\<^sup>*\<^sup>* empty_db d"

lemma work_inv_empty: "work_inv empty_db"
  by (simp add: work_inv_def gates_inv_def approvals_inv_def approvers_ok_def empty_db_def)

lemma work_reachable_inv: "work_reachable sha d \<Longrightarrow> work_inv d"
  unfolding work_reachable_def by (rule work.runs_inv [OF _ work_inv_empty])

lemma work_reachable_step: "work_reachable sha d \<Longrightarrow> work_step sha d d' \<Longrightarrow> work_reachable sha d'"
  by (simp add: work_reachable_def)

end
