(* ===== verification/LifecycleProperties.thy ===== *)
theory LifecycleProperties
  imports LifecycleSystem
begin

text \<open>
  The properties of the journal, the outbox and the lifecycle of work items, with instances
  on a project that opens a gate, has it approved and completes its item.
\<close>

section \<open>A sample project\<close>

definition key_sha :: "string \<Rightarrow> string" where
  "key_sha s = take 16 s"

definition the_db :: "('a \<times> db) res \<Rightarrow> db" where
  "the_db r = (case r of Inl e \<Rightarrow> empty_db | Inr (x, d) \<Rightarrow> d)"

lemma the_dbI: "\<not> isl r \<Longrightarrow> \<exists>x. r = Inr (x, the_db r)"
  by (cases r) (auto simp: the_db_def)

definition new_db :: db where
  "new_db = (the_db (create_project ''p'' ''Project'' [''ann'', ''bob''] empty_db))
     \<lparr>db_roles := [\<lparr>ro_project = ''p'', ro_id = ''dev'', ro_status = ''active''\<rparr>]\<rparr>"

definition planned_db :: db where
  "planned_db = the_db (create_work_tx key_sha 1 ''p'' ''w'' ''Title'' ''dev'' ''pm'' ''c1'' new_db)"

definition active_db :: db where
  "active_db = the_db (transition_tx key_sha 2 ''p'' ''w'' ''active'' ''pm'' ''c2'' 1 '''' [] planned_db)"

definition gated_db :: db where
  "gated_db = the_db (open_gate_tx key_sha 3 ''p'' ''w'' ''g'' ''release'' ''dev'' [''ann'', ''bob''] ''c3'' 2 [] active_db)"

definition approved_db :: db where
  "approved_db = the_db (decide_gate_tx key_sha 4 ''p'' ''g'' ''ann'' ''approved'' ''fine'' [] gated_db)"

definition completed_db :: db where
  "completed_db = the_db (transition_tx key_sha 5 ''p'' ''w'' ''completed'' ''pm'' ''c5'' 4 ''done'' [] approved_db)"

lemma sample_lifecycle:
  "\<not> isl (create_project ''p'' ''Project'' [''ann'', ''bob''] empty_db)"
  "\<not> isl (create_work_tx key_sha 1 ''p'' ''w'' ''Title'' ''dev'' ''pm'' ''c1'' new_db)"
  "\<not> isl (transition_tx key_sha 2 ''p'' ''w'' ''active'' ''pm'' ''c2'' 1 '''' [] planned_db)"
  "\<not> isl (open_gate_tx key_sha 3 ''p'' ''w'' ''g'' ''release'' ''dev'' [''ann'', ''bob''] ''c3'' 2 [] active_db)"
  "\<not> isl (decide_gate_tx key_sha 4 ''p'' ''g'' ''ann'' ''approved'' ''fine'' [] gated_db)"
  "\<not> isl (transition_tx key_sha 5 ''p'' ''w'' ''completed'' ''pm'' ''c5'' 4 ''done'' [] approved_db)"
  by code_simp+

lemma new_db_reachable: "work_reachable key_sha new_db"
proof -
  from the_dbI [OF sample_lifecycle(1)] obtain u where
    "create_project ''p'' ''Project'' [''ann'', ''bob''] empty_db
       = Inr (u, the_db (create_project ''p'' ''Project'' [''ann'', ''bob''] empty_db))" by blast
  then have "work_step key_sha empty_db (the_db (create_project ''p'' ''Project'' [''ann'', ''bob''] empty_db))"
    by (rule work_step.project)
  moreover have "work_step key_sha (the_db (create_project ''p'' ''Project'' [''ann'', ''bob''] empty_db)) new_db"
    by (rule work_step.other) (simp_all add: new_db_def)
  ultimately show ?thesis unfolding work_reachable_def by auto
qed

lemma planned_step: "work_step key_sha new_db planned_db"
  using the_dbI [OF sample_lifecycle(2)] unfolding planned_db_def by (blast intro: work_step.created)

lemma active_step: "work_step key_sha planned_db active_db"
  using the_dbI [OF sample_lifecycle(3)] unfolding active_db_def by (blast intro: work_step.transition)

lemma gated_step: "work_step key_sha active_db gated_db"
  using the_dbI [OF sample_lifecycle(4)] unfolding gated_db_def by (blast intro: work_step.opened)

lemma approved_step: "work_step key_sha gated_db approved_db"
  using the_dbI [OF sample_lifecycle(5)] unfolding approved_db_def by (blast intro: work_step.decided)

lemma completed_step: "work_step key_sha approved_db completed_db"
  using the_dbI [OF sample_lifecycle(6)] unfolding completed_db_def by (blast intro: work_step.transition)

lemma planned_db_reachable: "work_reachable key_sha planned_db"
  by (rule work_reachable_step [OF new_db_reachable planned_step])

lemma active_db_reachable: "work_reachable key_sha active_db"
  by (rule work_reachable_step [OF planned_db_reachable active_step])

lemma gated_db_reachable: "work_reachable key_sha gated_db"
  by (rule work_reachable_step [OF active_db_reachable gated_step])

lemma approved_db_reachable: "work_reachable key_sha approved_db"
  by (rule work_reachable_step [OF gated_db_reachable approved_step])

section \<open>Work items and gates\<close>

text \<open>C25. A work item is gated exactly while one pending gate waits on it: in every reachable
  state its status is \<open>gated\<close> if and only if there is exactly one pending gate for it.\<close>

theorem gated_iff_one_pending_gate:
  assumes "work_reachable sha d" and "w \<in> set (db_works d)"
  shows "wi_status w = ''gated'' \<longleftrightarrow>
    (\<exists>!g. g \<in> set (db_gates d) \<and> ga_status g = GatePending
       \<and> ga_project g = wi_project w \<and> ga_work g = wi_id w)"
proof -
  have inv: "gates_inv (db_works d) (db_gates d)"
    using work_reachable_inv [OF assms(1)] by (simp add: work_inv_def)
  note G = gates_invD [OF inv]
  have key: "gate_work_key g = work_key w \<longleftrightarrow> ga_project g = wi_project w \<and> ga_work g = wi_id w" for g
    by (auto simp: gate_work_key_def work_key_def)
  show ?thesis
  proof
    assume "wi_status w = ''gated''"
    from G(4) [OF assms(2) this] obtain g where g: "g \<in> set (db_gates d)" "pending g" "gate_work_key g = work_key w"
      by blast
    show "\<exists>!g. g \<in> set (db_gates d) \<and> ga_status g = GatePending \<and> ga_project g = wi_project w \<and> ga_work g = wi_id w"
    proof (rule ex1I [of _ g])
      fix h assume "h \<in> set (db_gates d) \<and> ga_status h = GatePending \<and> ga_project h = wi_project w \<and> ga_work h = wi_id w"
      with g key show "h = g" by (intro G(5)) (auto simp: pending_def gate_work_key_def)
    qed (use g key in \<open>auto simp: pending_def\<close>)
  next
    assume "\<exists>!g. g \<in> set (db_gates d) \<and> ga_status g = GatePending \<and> ga_project g = wi_project w \<and> ga_work g = wi_id w"
    then obtain g where g: "g \<in> set (db_gates d)" "pending g" "gate_work_key g = work_key w"
      using key by (auto simp: pending_def)
    from G(3) [OF g(1,2)] obtain v where v: "v \<in> set (db_works d)" "work_key v = work_key w" "wi_status v = ''gated''"
      unfolding g(3) by blast
    from distinct_map_eq [OF G(1) v(1) assms(2) v(2)] v(3) show "wi_status w = ''gated''" by simp
  qed
qed

theorem gated_iff_one_pending_gate_witness:
  "\<exists>!g. g \<in> set (db_gates gated_db) \<and> ga_status g = GatePending \<and> ga_project g = ''p'' \<and> ga_work g = ''w''"
proof -
  let ?w = "hd (db_works gated_db)"
  have w: "db_works gated_db \<noteq> []" "wi_status ?w = ''gated''" "wi_project ?w = ''p''" "wi_id ?w = ''w''"
    by code_simp+
  from gated_iff_one_pending_gate [OF gated_db_reachable hd_in_set [OF w(1)]] w(2-4) show ?thesis by simp
qed

text \<open>C26. Work items follow the state machine new -> active -> gated/completed/error,
  gated -> active: after any run an item is still there with its title, its status has moved
  along it, every change raised its version, and a completed or failed item is untouched.\<close>

theorem work_items_progress:
  assumes "work_reachable sha d" and "(work_step sha)\<^sup>*\<^sup>* d d'" and "w \<in> set (db_works d)"
  shows "\<exists>v\<in>set (db_works d'). work_key v = work_key w \<and> wi_title v = wi_title w
    \<and> (v = w \<or> wi_version w < wi_version v)
    \<and> work_move\<^sup>*\<^sup>* (wi_status w) (wi_status v)
    \<and> (wi_status w \<in> {''completed'', ''error''} \<longrightarrow> v = w)"
  using work_runs_keep [OF assms(2) work_reachable_inv [OF assms(1)]] assms(3)
  unfolding keeps_works_def by blast

theorem work_items_progress_witness:
  "\<exists>v\<in>set (db_works gated_db). work_move\<^sup>*\<^sup>* ''active'' (wi_status v)"
proof -
  let ?w = "hd (db_works active_db)"
  have w: "db_works active_db \<noteq> []" "wi_status ?w = ''active''" by code_simp+
  from work_items_progress [OF active_db_reachable r_into_rtranclp [of "work_step key_sha", OF gated_step]
      hd_in_set [OF w(1)]] w(2) show ?thesis by auto
qed

text \<open>Optimistic concurrency: a transition or a gate request made against another version
  than the current one is refused with a conflict and writes nothing; so of two requests made
  against the same version at most one succeeds.\<close>

theorem stale_version_conflicts:
  assumes "work_row d p w = Some cur" and "wi_version cur \<noteq> version" and "1 \<le> version"
    and "strip p = p" "p \<noteq> []" "strip w = w" "w \<noteq> []" "strip actor \<noteq> []" "strip corr \<noteq> []"
    and "strip target \<noteq> []" "strip reason \<noteq> []"
    and "strip g \<noteq> []" "strip ty \<noteq> []" "mapR required ss = Inr ss'" "ss' \<noteq> []" "distinct ss'"
  shows "transition_work_item sha t p w target actor corr version reason ev d = (Inl LifecycleConflict, d)
    \<and> open_gate sha t p w g ty actor ss corr version ev d = (Inl LifecycleConflict, d)"
proof
  show "transition_work_item sha t p w target actor corr version reason ev d = (Inl LifecycleConflict, d)"
    using assms(1-11)
    by (simp add: transition_work_item_def transition_tx_def transition_core_def lock_work_def required_def
        event_transaction_def event_wrap_def Let_def)
  show "open_gate sha t p w g ty actor ss corr version ev d = (Inl LifecycleConflict, d)"
    using assms(1-9) assms(12-16)
    by (simp add: open_gate_def open_gate_tx_def open_gate_core_def lock_work_def required_def
        event_transaction_def event_wrap_def Let_def)
qed

theorem stale_version_conflicts_witness:
  "transition_work_item key_sha 9 ''p'' ''w'' ''completed'' ''pm'' ''c9'' 1 ''x'' [] active_db
     = (Inl LifecycleConflict, active_db)"
proof -
  have "work_row active_db ''p'' ''w'' = Some (hd (db_works active_db))"
    "wi_version (hd (db_works active_db)) \<noteq> 1" "mapR required [''ann''] = Inr [''ann'']" by code_simp+
  moreover have "strip ''p'' = ''p''" "strip ''w'' = ''w''" "strip ''pm'' \<noteq> []" "strip ''c9'' \<noteq> []"
    "strip ''completed'' \<noteq> []" "strip ''x'' \<noteq> []" "strip ''g'' \<noteq> []" by code_simp+
  ultimately show ?thesis
    using stale_version_conflicts [where w = "''w''" and p = "''p''" and ss = "[''ann'']" and g = "''g''"
        and ty = "''g''" and version = 1] by simp
qed

text \<open>A gate is decided once: in every reachable state at most one approval of a gate carries
  a decision, and the gate's status is that decision.\<close>

theorem gate_is_decided_once:
  assumes "work_reachable sha d" and "a \<in> set (db_approvals d)" and "ap_decision a = Some x"
  shows "(\<exists>g\<in>set (db_gates d). ga_project g = ap_project a \<and> ga_id g = ap_gate a \<and> ga_status g = gate_status_of x)
    \<and> (\<forall>b\<in>set (db_approvals d). ap_project b = ap_project a \<longrightarrow> ap_gate b = ap_gate a \<longrightarrow>
         b = a \<or> ap_decision b = None)"
proof -
  have "approvals_inv (db_gates d) (db_approvals d)"
    using work_reachable_inv [OF assms(1)] by (simp add: work_inv_def)
  then have res: "\<exists>g\<in>set (db_gates d). gate_key g = approval_gate_key a \<and> ga_status g = gate_status_of x"
    and one: "\<And>b. b \<in> set (db_approvals d) \<Longrightarrow> ap_decision b \<noteq> None \<Longrightarrow>
      approval_gate_key b = approval_gate_key a \<Longrightarrow> b = a"
    using assms(2,3) unfolding approvals_inv_def by blast+
  from res show ?thesis
    using one by (auto simp: gate_key_def approval_gate_key_def)
qed

theorem gate_is_decided_once_witness:
  "\<exists>g\<in>set (db_gates approved_db). ga_id g = ''g'' \<and> ga_status g = GateApproved"
proof -
  let ?a = "hd (db_approvals approved_db)"
  have a: "db_approvals approved_db \<noteq> []" "ap_decision ?a = Some Approved" "ap_gate ?a = ''g''" by code_simp+
  from gate_is_decided_once [OF approved_db_reachable hd_in_set [OF a(1)] a(2)] a(3)
  show ?thesis by (auto simp: gate_status_of_def)
qed

lemma unique_incident:
  "fetchone P is = Some i \<Longrightarrow> i \<in> set is \<and> P i"
  by (rule fetchone_SomeD)

text \<open>C27. Failure handling guards the ends: an item is only completed while it has no unresolved
  failure incident, and only failed when one of its incidents has exhausted the recovery chain,
  which the same transaction marks terminal.\<close>

theorem terminal_status_respects_failures:
  assumes "transition_core sha t p w target actor corr version reason ev d = Inr (x, d')"
  shows "(target = ''completed'' \<longrightarrow> (\<forall>i\<in>set (db_incidents d). fi_project i = p \<longrightarrow> fi_work i = w \<longrightarrow>
        fi_status i \<notin> {IncActive, IncEligible}))
    \<and> (target = ''error'' \<longrightarrow> (\<exists>i\<in>set (db_incidents d). fi_project i = p \<and> fi_work i = w \<and> fi_status i = IncEligible
        \<and> i\<lparr>fi_status := IncTerminal, fi_resolved := Some t\<rparr> \<in> set (db_incidents d')))"
proof -
  from transition_Inr [OF assms] obtain i where i: "failure_gate p w target d = Inr i"
    and d': "db_incidents d' = db_incidents (close_incident t p i d)" by blast
  show ?thesis
  proof (intro conjI impI)
    assume "target = ''completed''"
    with i show "\<forall>i\<in>set (db_incidents d). fi_project i = p \<longrightarrow> fi_work i = w \<longrightarrow> fi_status i \<notin> {IncActive, IncEligible}"
      by (auto simp: failure_gate_def monad_simps incident_with_def fetchone_None_iff)
  next
    assume e: "target = ''error''"
    with i obtain r where r: "incident_with (\<lambda>s. s = IncEligible) p w d = Some r" "i = Some (fi_id r)"
      by (auto simp: failure_gate_def monad_simps)
    from fetchone_SomeD [OF r(1) [unfolded incident_with_def]]
    have m: "r \<in> set (db_incidents d)" "fi_project r = p" "fi_work r = w" "fi_status r = IncEligible" by auto
    then have "r\<lparr>fi_status := IncTerminal, fi_resolved := Some t\<rparr> \<in> set (db_incidents d')"
      unfolding d' r(2) close_incident_def by (auto simp: set_upd_where intro!: bexI [of _ r])
    with m show "\<exists>i\<in>set (db_incidents d). fi_project i = p \<and> fi_work i = w \<and> fi_status i = IncEligible
        \<and> i\<lparr>fi_status := IncTerminal, fi_resolved := Some t\<rparr> \<in> set (db_incidents d')" by blast
  qed
qed

theorem terminal_status_respects_failures_witness:
  "\<not> (\<exists>i. i \<in> set (db_incidents approved_db) \<and> fi_project i = ''p'' \<and> fi_work i = ''w''
     \<and> fi_status i \<in> {IncActive, IncEligible})"
proof -
  from the_dbI [OF sample_lifecycle(6)] obtain x where
    "transition_tx key_sha 5 ''p'' ''w'' ''completed'' ''pm'' ''c5'' 4 ''done'' [] approved_db = Inr (x, completed_db)"
    unfolding completed_db_def by blast
  from transition_tx_core [OF this] obtain reason where
    c: "transition_core key_sha 5 (strip ''p'') (strip ''w'') (strip ''completed'') (strip ''pm'') (strip ''c5'') 4
      reason [] approved_db = Inr (x, completed_db)" by blast
  have "strip ''p'' = ''p''" "strip ''w'' = ''w''" "strip ''completed'' = ''completed''" by code_simp+
  with terminal_status_respects_failures [OF c] show ?thesis by auto
qed

section \<open>Journal and outbox\<close>

text \<open>Transactional outbox: an append adds one event with a larger id than all before it
  and, in the same transaction, one undelivered message per topic that points at the event;
  nothing else of the database changes.\<close>

theorem append_is_atomic:
  assumes "journal_ok d" and "append_event sha t e out d = Inr (s, d')"
  shows "journal_ok d' \<and> (\<forall>x\<in>set (db_events d). ev_id x < ev_id s)
    \<and> (\<exists>rows. d' = d\<lparr>db_events := db_events d @ [s], db_outbox := db_outbox d @ rows\<rparr>
         \<and> map ob_topic rows = map od_topic out \<and> map ob_payload rows = map od_payload out
         \<and> (\<forall>r\<in>set rows. ob_project r = ed_project e \<and> ob_event r = ev_id s \<and> ob_dispatched r = None))"
  using append_event_shape [OF assms(2,1)] by blast

definition sample_event :: event_draft where
  "sample_event = work_event ''p'' ''w'' ''pm'' ''c'' ''work.noted'' []"

lemma sample_journal_ok: "journal_ok active_db"
  unfolding journal_ok_def by code_simp

theorem append_is_atomic_witness:
  "journal_ok (the_db (append_event key_sha 9 sample_event [work_outbound ''p'' ''w'' ''work.noted'' ''x''] active_db))"
proof -
  have "\<not> isl (append_event key_sha 9 sample_event [work_outbound ''p'' ''w'' ''work.noted'' ''x''] active_db)"
    by code_simp
  from the_dbI [OF this] append_is_atomic [OF sample_journal_ok] show ?thesis by blast
qed

text \<open>C40. Paging through the journal misses and repeats nothing: the page after the last event
  of a page continues it, so two pages are the one longer page.\<close>

theorem pages_concatenate:
  assumes "journal_ok d" and "read_events p a n d = Inr xs" and "xs \<noteq> []"
    and "read_events p (ev_id (last xs)) m d = Inr ys" and "n + m \<le> 1000"
  shows "read_events p a (n + m) d = Inr (xs @ ys)"
proof -
  let ?P = "\<lambda>a e. ev_project e = strip p \<and> a < ev_id e"
  let ?xs = "filter (?P a) (db_events d)"
  from assms(2) have b: "strip p \<noteq> []" "0 \<le> a" "1 \<le> n" and xs: "xs = take (nat n) ?xs"
    by (auto simp: read_events_def monad_simps journal_page [OF assms(1)])
  from assms(4) have m: "1 \<le> m" and ys: "ys = take (nat m) (filter (?P (ev_id (last xs))) (db_events d))"
    by (auto simp: read_events_def monad_simps journal_page [OF assms(1)])
  have "last xs \<in> set ?xs" using assms(3) last_in_set set_take_subset xs by (metis subsetD)
  then have "a < ev_id (last xs)" by simp
  then have "filter (?P (ev_id (last xs))) (db_events d) = filter (\<lambda>e. ev_id (last xs) < ev_id e) ?xs"
    by (auto intro!: filter_cong)
  also have "\<dots> = drop (nat n) ?xs"
    using sorted_drop_filter [of ev_id ?xs "nat n"] assms(1,3) sorted_wrt_filter_map xs
    by (auto simp: journal_ok_def)
  finally have "ys = take (nat m) (drop (nat n) ?xs)" using ys by simp
  then have "xs @ ys = take (nat n + nat m) ?xs" using xs by (simp add: take_add)
  moreover have "nat n + nat m = nat (n + m)" using b m by simp
  ultimately show ?thesis
    using b m assms(5) by (simp add: read_events_def required_def Let_def journal_page [OF assms(1)])
qed

theorem pages_concatenate_witness:
  "read_events ''p'' 0 (1 + 1) active_db
     = Inr (projr (read_events ''p'' 0 1 active_db) @ projr (read_events ''p'' 1 1 active_db))"
proof (rule pages_concatenate [OF sample_journal_ok])
  show "read_events ''p'' 0 1 active_db = Inr (projr (read_events ''p'' 0 1 active_db))" by code_simp
  show "projr (read_events ''p'' 0 1 active_db) \<noteq> []" by code_simp
  show "read_events ''p'' (ev_id (last (projr (read_events ''p'' 0 1 active_db)))) 1 active_db
      = Inr (projr (read_events ''p'' 1 1 active_db))" by code_simp
qed simp

text \<open>Delivery is at least once and in order: the dispatcher takes the first due message
  (project, availability, id); a message is marked dispatched only when the adapter returned
  its idempotency key, otherwise it stays queued and becomes available again
  \<open>2 ^ min attempts 8\<close> seconds later; all other messages are untouched.\<close>

theorem dispatch_takes_first_due:
  assumes "journal_ok d" and "dispatch_one t1 t2 locked deliver p d = Inr (res, d')"
    and "dr_status res \<noteq> Empty"
  shows "\<exists>q r m. optional_required p = Inr q \<and> r \<in> set (db_outbox d) \<and> ob_dispatched r = None
    \<and> ob_available r \<le> t1 \<and> message_of d r = Some m
    \<and> (\<forall>s\<in>set (db_outbox d). due t1 locked q d s \<longrightarrow> outbox_order r \<le> outbox_order s)
    \<and> (if deliver m = Inr (Some (ob_key r))
       then dr_status res = Delivered \<and> db_outbox d' = map (\<lambda>x. if ob_project x = ob_project r \<and> ob_id x = ob_id r
              then r\<lparr>ob_attempts := ob_attempts r + 1, ob_error := None, ob_dispatched := Some t2\<rparr> else x) (db_outbox d)
       else dr_status res = Failed_Delivery \<and> db_outbox d' = map (\<lambda>x. if ob_project x = ob_project r \<and> ob_id x = ob_id r
              then r\<lparr>ob_attempts := ob_attempts r + 1, ob_error := dr_error res,
                     ob_available := t2 + seconds (2 ^ nat (min (ob_attempts r + 1) 8))\<rparr> else x) (db_outbox d))"
proof -
  from assms(2,3) obtain q r m where p: "optional_required p = Inr q" and q: "next_outbox t1 locked q d = Some r" and m: "message_of d r = Some m"
    and e: "(case delivery_error m (deliver m) of
            Some err \<Rightarrow> (\<lparr>dr_status = Failed_Delivery, dr_outbox = Some (om_id m),
                dr_key = Some (om_key m), dr_error = Some err\<rparr>,
              upd_outbox r (\<lambda>x. x\<lparr>ob_error := Some err, ob_available := t2 + backoff (ob_attempts x)\<rparr>)
                (upd_outbox r (\<lambda>x. x\<lparr>ob_attempts := ob_attempts x + 1, ob_error := None\<rparr>) d))
          | None \<Rightarrow> (\<lparr>dr_status = Delivered, dr_outbox = Some (om_id m),
                dr_key = Some (om_key m), dr_error = None\<rparr>,
              upd_outbox r (\<lambda>x. x\<lparr>ob_dispatched := Some t2, ob_error := None\<rparr>)
                (upd_outbox r (\<lambda>x. x\<lparr>ob_attempts := ob_attempts x + 1, ob_error := None\<rparr>) d))) = (res, d')"
    by (auto simp: dispatch_one_def monad_simps Let_def split: option.splits)
  note n = next_outbox_Some [OF q]
  have k: "om_key m = ob_key r" using m by (auto simp: message_of_def)
  have only: "x = r" if "x \<in> set (db_outbox d)" "ob_project x = ob_project r \<and> ob_id x = ob_id r" for x
  proof -
    have "distinct (map ob_id (db_outbox d))"
      using assms(1) strict_sorted_iff by (auto simp: journal_ok_def)
    from distinct_map_eq [OF this that(1)] n that(2) show ?thesis by blast
  qed
  show ?thesis
  proof (intro exI [of _ q] exI [of _ r] exI [of _ m] conjI)
    show "optional_required p = Inr q" by (rule p)
    show "\<forall>s\<in>set (db_outbox d). due t1 locked q d s \<longrightarrow> outbox_order r \<le> outbox_order s" using n by blast
    show "r \<in> set (db_outbox d)" "ob_dispatched r = None" "ob_available r \<le> t1" using n by (auto simp: due_def)
    show "message_of d r = Some m" by (rule m)
    show "if deliver m = Inr (Some (ob_key r))
       then dr_status res = Delivered \<and> db_outbox d' = map (\<lambda>x. if ob_project x = ob_project r \<and> ob_id x = ob_id r
              then r\<lparr>ob_attempts := ob_attempts r + 1, ob_error := None, ob_dispatched := Some t2\<rparr> else x) (db_outbox d)
       else dr_status res = Failed_Delivery \<and> db_outbox d' = map (\<lambda>x. if ob_project x = ob_project r \<and> ob_id x = ob_id r
              then r\<lparr>ob_attempts := ob_attempts r + 1, ob_error := dr_error res,
                     ob_available := t2 + seconds (2 ^ nat (min (ob_attempts r + 1) 8))\<rparr> else x) (db_outbox d)"
    proof (cases "delivery_error m (deliver m)")
      case None
      then have "deliver m = Inr (Some (ob_key r))"
        by (auto simp: delivery_error_def k split: sum.splits if_splits)
      with e None show ?thesis by (auto simp: upd_outbox_def upd_where_def dest!: only)
    next
      case (Some err)
      then have "deliver m \<noteq> Inr (Some (ob_key r))"
        by (auto simp: delivery_error_def k split: sum.splits if_splits)
      with e Some show ?thesis by (auto simp: upd_outbox_def upd_where_def backoff_def dest!: only)
    qed
  qed
qed

theorem dispatch_takes_first_due_witness:
  "\<exists>res d'. dispatch_one 50 60 (\<lambda>_. False) (\<lambda>m. Inr (Some (om_key m))) None active_db = Inr (res, d')
     \<and> dr_status res = Delivered"
proof -
  let ?call = "dispatch_one 50 60 (\<lambda>_. False) (\<lambda>m. Inr (Some (om_key m))) None active_db"
  have "\<not> isl ?call" "dr_status (fst (projr ?call)) \<noteq> Empty" by code_simp+
  then obtain res d' where c: "?call = Inr (res, d')" "dr_status res \<noteq> Empty"
    by (cases ?call) auto
  from dispatch_takes_first_due [OF sample_journal_ok c] obtain r m where
    "message_of active_db r = Some m" "om_key m = ob_key r \<longrightarrow> dr_status res = Delivered"
    by (auto split: if_splits)
  then show ?thesis using c(1) by (auto simp: message_of_def)
qed

end
