(* ===== verification/FlowDefinitionProperties.thy ===== *)
theory FlowDefinitionProperties
  imports FlowDefinition
begin

text \<open>
  What a flow that passed \<open>validate_flow\<close> guarantees to the engine that runs it, with
  instances on a three-state flow.
\<close>

definition sample_state :: "string \<Rightarrow> (string \<times> json) list \<Rightarrow> json \<Rightarrow> bool \<Rightarrow> json" where
  "sample_state owner extra routes terminal = JObj ([(''owner_role'', JStr owner),
     (''purpose'', JStr ''work''), (''artifact'', JStr ''docs/{work_item_id}.md''),
     (''routes'', routes), (''terminal'', JBool terminal)] @ extra)"

definition sample_route_json :: "string \<Rightarrow> string \<Rightarrow> string \<Rightarrow> string \<Rightarrow> json \<Rightarrow> json" where
  "sample_route_json i out s r w = JObj [(''id'', JStr i), (''outcome'', JStr out),
     (''target_state'', JStr s), (''target_role'', JStr r), (''when'', w)]"

definition sample_flow_json :: json where
  "sample_flow_json = JObj [(''schema_version'', JInt 1), (''flow_id'', JStr ''main''),
     (''leader_role'', JStr ''dev''), (''entry_state'', JStr ''build''),
     (''terminal_states'', JList [JStr ''done'']),
     (''states'', JObj [
        (''build'', sample_state ''dev'' [(''consults'', JList [JObj [(''role'', JStr ''qa'')]])]
           (JList [sample_route_json ''r1'' ''ready'' ''test'' ''qa'' (JObj [(''size'', JList [JStr ''big''])]),
                   sample_route_json ''r2'' ''ready'' ''done'' ''dev'' (JObj [(''size'', JList [JStr ''small''])])])
           False),
        (''test'', sample_state ''qa'' []
           (JList [sample_route_json ''r3'' ''pass'' ''done'' ''dev'' JNull]) False),
        (''done'', sample_state ''dev'' [] (JList []) True)])]"

definition sample_digest :: string where
  "sample_digest = replicate 64 CHR ''a''"

definition sample_flow :: flow_definition where
  "sample_flow = projr (validate_flow sample_flow_json sample_digest)"

lemma sample_flow_valid: "validate_flow sample_flow_json sample_digest = Inr sample_flow"
proof -
  have "\<not> isl (validate_flow sample_flow_json sample_digest)" by code_simp
  then show ?thesis unfolding sample_flow_def by (cases "validate_flow sample_flow_json sample_digest") auto
qed

text \<open>C12. A validated flow is a closed graph without dead ends: the entry state exists, every
  route leads to a state of the role it names, a state has no route exactly when it is
  terminal, and every state can be reached from the entry along routes.\<close>

theorem validated_flow_is_closed:
  assumes "validate_flow v digest = Inr f" and "map_of (fd_states f) s = Some st"
  shows "map_of (fd_states f) (fd_entry f) \<noteq> None
    \<and> (\<forall>r\<in>set (fs_routes st). \<exists>t. map_of (fd_states f) (ft_state r) = Some t \<and> fs_owner t = ft_role r)
    \<and> (fs_terminal st \<longleftrightarrow> fs_routes st = [])
    \<and> (fd_entry f, s) \<in> (edges (fd_states f))\<^sup>*"
proof -
  have "(s, st) \<in> set (fd_states f)" using assms(2) by (rule map_of_SomeD)
  with validate_flow_valid [OF assms(1)]
  have "map_of (fd_states f) (fd_entry f) \<noteq> None" "check_state (fd_states f) st"
    "(fd_entry f, s) \<in> (edges (fd_states f))\<^sup>*" by (auto simp: valid_flow_def)
  then show ?thesis by (fastforce simp: check_state_def list_all_iff split: option.splits)
qed

theorem validated_flow_is_closed_witness:
  "map_of (fd_states sample_flow) (fd_entry sample_flow) \<noteq> None
   \<and> (fd_entry sample_flow, ''test'') \<in> (edges (fd_states sample_flow))\<^sup>*"
proof -
  have "map_of (fd_states sample_flow) ''test'' \<noteq> None" by code_simp
  then obtain st where "map_of (fd_states sample_flow) ''test'' = Some st" by blast
  from validated_flow_is_closed [OF sample_flow_valid this] show ?thesis by blast
qed

text \<open>C13. Routing decisions of a validated flow are never ambiguous: in every state, for every
  outcome and fields at most one route matches, so choosing a route either returns the one that
  matches or fails because none does.\<close>

theorem route_choice_is_unambiguous:
  assumes "validate_flow v digest = Inr f" and "map_of (fd_states f) s = Some st"
  shows "(select_route st out fv = Inr r \<longleftrightarrow> r \<in> set (fs_routes st) \<and> route_matches out fv r)
    \<and> (select_route st out fv = Inl e \<longleftrightarrow> e = FlowDefinitionError
         \<and> (\<forall>r\<in>set (fs_routes st). \<not> route_matches out fv r))"
proof -
  have "(s, st) \<in> set (fd_states f)" using assms(2) by (rule map_of_SomeD)
  with validate_flow_valid [OF assms(1)] have "no_overlaps (fs_routes st)"
    by (auto simp: valid_flow_def check_state_def)
  from select_route_iff [OF this] show ?thesis by blast
qed

theorem route_choice_is_unambiguous_witness:
  "\<exists>r. select_route (the (map_of (fd_states sample_flow) ''build'')) ''ready'' [(''size'', JStr ''small'')] = Inr r
     \<and> ft_state r = ''done''"
proof -
  have "map_of (fd_states sample_flow) ''build'' \<noteq> None" by code_simp
  then have s: "map_of (fd_states sample_flow) ''build'' = Some (the (map_of (fd_states sample_flow) ''build''))"
    by auto
  let ?r = "fs_routes (the (map_of (fd_states sample_flow) ''build'')) ! 1"
  have "length (fs_routes (the (map_of (fd_states sample_flow) ''build''))) = 2"
    "route_matches ''ready'' [(''size'', JStr ''small'')] ?r" "ft_state ?r = ''done''" by code_simp+
  with route_choice_is_unambiguous [OF sample_flow_valid s, of "''ready''" "[(''size'', JStr ''small'')]" ?r]
  show ?thesis by (intro exI [of _ ?r]) simp
qed

text \<open>The obligations of a state carry distinct identifiers whatever the fields, and the
  artifact is always among them, so an evidence record names exactly one obligation.\<close>

theorem obligations_are_identified:
  assumes "validate_flow v digest = Inr f" and "map_of (fd_states f) s = Some st"
  shows "distinct (map ac_id (state_obligations st fv)) \<and> artifact_action st \<in> set (state_obligations st fv)"
proof -
  have "(s, st) \<in> set (fd_states f)" using assms(2) by (rule map_of_SomeD)
  with validate_flow_valid [OF assms(1)]
  have "distinct (state_ids (fs_consults st) (fs_gates st) (fs_informs st) (fs_routes st))"
    by (auto simp: valid_flow_def)
  from obligation_ids_distinct [OF this] show ?thesis by (simp add: state_obligations_def)
qed

theorem obligations_are_identified_witness:
  "map ac_id (state_obligations (the (map_of (fd_states sample_flow) ''build'')) []) = [''artifact'', ''consult-1'']
   \<and> distinct [''artifact'', ''consult-1'']"
proof -
  have "map_of (fd_states sample_flow) ''build'' \<noteq> None" by code_simp
  then have s: "map_of (fd_states sample_flow) ''build'' = Some (the (map_of (fd_states sample_flow) ''build''))"
    by auto
  have "map ac_id (state_obligations (the (map_of (fd_states sample_flow) ''build'')) []) = [''artifact'', ''consult-1'']"
    by code_simp
  with obligations_are_identified [OF sample_flow_valid s, of "[]"] show ?thesis by simp
qed

end
