(* ===== verification/FlowSystem.thy ===== *)
theory FlowSystem
  imports FlowEngine
begin

text \<open>
  The transactions of \<open>flow_engine.py\<close> as one transition system. A method that runs several
  transactions appears as its transactions, with arbitrary arguments, so a crash or another
  process between two of them is just another run. The abstract machine \<open>flow_move\<close> is what a
  run does to somebody who sees only its state, status and version.
\<close>

section \<open>What the statements do\<close>

definition fo_key :: "flow_obligation \<Rightarrow> string \<times> string \<times> string \<times> int \<times> obligation_kind \<times> string" where
  "fo_key o' = (fo_project o', fo_work o', fo_state o', fo_entry o', fo_kind o', fo_id o')"

text \<open>What dispatching and governance leave of an obligation: all but status and evidence.\<close>

definition fo_core :: "flow_obligation \<Rightarrow> (string \<times> string \<times> string \<times> int \<times> obligation_kind \<times> string)
    \<times> string \<times> (string \<times> json) list" where
  "fo_core o' = (fo_key o', fo_role o', fo_payload o')"

definition new_obligation :: "string \<Rightarrow> string \<Rightarrow> string \<Rightarrow> int \<Rightarrow> flow_action \<Rightarrow> flow_obligation" where
  "new_obligation p w s v a = \<lparr>fo_project = p, fo_work = w, fo_state = s, fo_entry = v, fo_kind = ac_kind a,
     fo_id = ac_id a, fo_role = ac_role a, fo_payload = ac_payload a, fo_status = ObPending, fo_evidence = []\<rparr>"

lemma insert_obligations_Inr:
  "insert_obligations p w s v as d = Inr d' \<Longrightarrow>
     d' = d\<lparr>db_obligations := db_obligations d @ map (new_obligation p w s v) as\<rparr>
     \<and> (distinct (map fo_key (db_obligations d)) \<longrightarrow> distinct (map fo_key (db_obligations d')))"
proof (induction as arbitrary: d)
  case (Cons a as)
  let ?d = "d\<lparr>db_obligations := db_obligations d @ [new_obligation p w s v a]\<rparr>"
  from Cons.prems have no: "\<forall>o'\<in>set (db_obligations d). fo_key o' \<noteq> (p, w, s, v, ac_kind a, ac_id a)"
    and rest: "insert_obligations p w s v as ?d = Inr d'"
    by (auto simp: table_simps new_obligation_def fo_key_def split: if_splits)
  note IH = Cons.IH [OF rest]
  have "distinct (map fo_key (db_obligations d)) \<Longrightarrow> distinct (map fo_key (db_obligations ?d))"
    using no by (auto simp: new_obligation_def fo_key_def)
  then have "distinct (map fo_key (db_obligations d)) \<longrightarrow> distinct (map fo_key (db_obligations d'))"
    using IH by blast
  moreover have "d' = d\<lparr>db_obligations := db_obligations d @ map (new_obligation p w s v) (a # as)\<rparr>"
    using conjunct1 [OF IH] by simp
  ultimately show ?case by blast
qed simp

lemma insert_journal_Inr:
  "insert_journal j d = Inr d' \<longleftrightarrow>
     (\<forall>x\<in>set (db_journal d). jo_project x = jo_project j \<longrightarrow> jo_operation x \<noteq> jo_operation j)
     \<and> d' = d\<lparr>db_journal := db_journal d @ [j\<lparr>jo_sequence := next_id (map jo_sequence
        (filter (\<lambda>x. jo_project x = jo_project j \<and> jo_work x = jo_work j) (db_journal d)))\<rparr>]\<rparr>"
  by (auto simp: insert_journal_def table_simps)

lemma flow_event_fields:
  assumes "flow_event sha t p w actor op ty payload d = Inr d'"
  shows "db_runs d' = db_runs d" "db_obligations d' = db_obligations d" "db_journal d' = db_journal d"
    "db_works d' = db_works d" "db_handoffs d' = db_handoffs d" "db_governance d' = db_governance d"
    "db_items d' = db_items d"
  using assms append_event_fields by (auto simp: flow_event_def monad_simps)

lemma update_run_Inr [monad_simps]:
  "update_run p w f d = Inr d' \<longleftrightarrow>
     (\<forall>r\<in>set (db_runs d). fr_project r = p \<and> fr_work r = w \<longrightarrow> run_check (f r))
     \<and> d' = d\<lparr>db_runs := upd_where (\<lambda>r. fr_project r = p \<and> fr_work r = w) f (db_runs d)\<rparr>"
  by (auto simp: update_run_def Let_def monad_simps table_simps)

lemma replayed_iff:
  "replayed p op digest d = Inr None \<longleftrightarrow> (\<forall>j\<in>set (db_journal d). jo_project j = p \<longrightarrow> jo_operation j \<noteq> op)"
  "replayed p op digest d = Inr (Some w) \<Longrightarrow>
     \<exists>j\<in>set (db_journal d). jo_project j = p \<and> jo_operation j = op \<and> jo_digest j = digest \<and> jo_work j = w"
  by (auto simp: replayed_def table_simps split: option.splits if_splits dest: fetchone_SomeD)

lemma lock_run_Inr [monad_simps]: "lock_run p w d = Inr r \<longleftrightarrow> run_of p w d = Some r"
  by (simp add: lock_run_def monad_simps)

lemma run_ofD: "run_of p w d = Some r \<Longrightarrow> r \<in> set (db_runs d) \<and> fr_project r = p \<and> fr_work r = w"
  unfolding run_of_def by (auto dest: fetchone_SomeD)

lemma same_pending_Inr [monad_simps]:
  "same_pending r op digest = Inr u \<longleftrightarrow> fr_operation r = Some op \<and> fr_request r = Some digest"
  by (simp add: same_pending_def monad_simps)


section \<open>The effect of each transaction on the runs\<close>

lemma replaying_Inr [monad_simps]:
  "replaying p op digest d fresh = Inr (x, d') \<longleftrightarrow>
     (\<exists>w r. replayed p op digest d = Inr (Some w) \<and> get_run p w d = Inr r \<and> x = Inl r \<and> d' = d)
     \<or> (\<forall>j\<in>set (db_journal d). jo_project j = p \<longrightarrow> jo_operation j \<noteq> op)
       \<and> (\<exists>y. fresh = Inr (y, d') \<and> x = Inr y)"
  using replayed_iff(1) [of p op digest d]
  by (cases "replayed p op digest d") (auto simp: replaying_def monad_simps split: option.splits)

definition journalled :: "string \<Rightarrow> string \<Rightarrow> string \<Rightarrow> string \<Rightarrow> string \<Rightarrow> string \<Rightarrow> db \<Rightarrow> db \<Rightarrow> bool" where
  "journalled p w op digest action to' d d' = (\<exists>j. db_journal d' = db_journal d @ [j]
     \<and> jo_project j = p \<and> jo_work j = w \<and> jo_operation j = op \<and> jo_digest j = digest
     \<and> jo_action j = action \<and> jo_to j = to'
     \<and> jo_sequence j = next_id (map jo_sequence (filter (\<lambda>x. jo_project x = p \<and> jo_work x = w) (db_journal d)))
     \<and> (\<forall>x\<in>set (db_journal d). jo_project x = p \<longrightarrow> jo_operation x \<noteq> op))"

lemma journalledI:
  assumes "insert_journal (journal_entry p w op digest action from to' rt h actor ev) d1 = Inr d2"
    and "db_journal d1 = db_journal d" and "db_journal d' = db_journal d2"
  shows "journalled p w op digest action to' d d'"
  using assms by (auto simp: insert_journal_Inr journal_entry_def journalled_def)

lemma insert_journal_fields:
  assumes "insert_journal j d1 = Inr d2"
  shows "db_runs d2 = db_runs d1" "db_obligations d2 = db_obligations d1" "db_works d2 = db_works d1"
    "db_handoffs d2 = db_handoffs d1"
  using assms by (auto simp: insert_journal_Inr)

lemma start_new_Inr:
  assumes "start_new sha t p w flow st fv actor op digest d = Inr (x, d')"
  shows "\<exists>r :: flow_row. db_runs d' = db_runs d @ [r] \<and> run_key r = (p, w) \<and> (p, w) \<notin> run_key ` set (db_runs d)
    \<and> fr_flow r = fd_id flow \<and> fr_digest r = fd_digest flow \<and> fr_snapshot r = fd_snapshot flow
    \<and> fr_state r = fs_id st \<and> fr_owner r = fs_owner st \<and> fr_status r = FlowActive \<and> fr_version r = 1
    \<and> fr_fields r = fv \<and> run_check r
    \<and> db_obligations d' = db_obligations d @ map (new_obligation p w (fs_id st) 1) (state_obligations st fv)
    \<and> (distinct (map fo_key (db_obligations d)) \<longrightarrow> distinct (map fo_key (db_obligations d')))
    \<and> journalled p w op digest ''start'' (fs_id st) d d'
    \<and> (\<exists>work. work_row d p w = Some work \<and> wi_status work = ''active'' \<and> wi_owner work = Some (fs_owner st))"
proof -
  from assms [unfolded start_new_def] obtain work d1 d2 d3 where
    work: "work_row d p w = Some work" "wi_status work = ''active''" "wi_owner work = Some (fs_owner st)"
    and run: "insert_run \<lparr>fr_project = p, fr_work = w, fr_flow = fd_id flow, fr_digest = fd_digest flow,
           fr_state = fs_id st, fr_owner = fs_owner st, fr_status = FlowActive, fr_fields = fv,
           fr_version = 1, fr_route = None, fr_target = None, fr_target_role = None, fr_handoff = None,
           fr_snapshot = fd_snapshot flow, fr_operation = None, fr_request = None\<rparr> d = Inr d1" (is "insert_run ?r d = _")
    and ob: "insert_obligations p w (fs_id st) 1 (state_obligations st fv) d1 = Inr d2"
    and jo: "insert_journal (journal_entry p w op digest ''start'' None (fs_id st) None None actor
           [(''flow_digest'', JStr (fd_digest flow))]) d2 = Inr d3"
    and ev: "flow_event sha t p w actor op ''flow.started''
           [(''state'', JStr (fs_id st)), (''owner_role_id'', JStr (fs_owner st))] d3 = Inr d'"
    by (auto simp: monad_simps)
  from run have d1: "d1 = d\<lparr>db_runs := db_runs d @ [?r]\<rparr>" "(p, w) \<notin> run_key ` set (db_runs d)"
    by (auto simp: insert_run_def table_simps run_key_def split: if_splits)
  note O = insert_obligations_Inr [OF ob] and E = flow_event_fields [OF ev] and J = insert_journal_fields [OF jo]
  have "journalled p w op digest ''start'' (fs_id st) d d'"
    by (rule journalledI [OF jo]) (use O E d1 in simp_all)
  moreover have "db_runs d' = db_runs d @ [?r]" "db_obligations d' = db_obligations d2" using O E J d1 by simp_all
  moreover have "db_obligations d2 = db_obligations d @ map (new_obligation p w (fs_id st) 1) (state_obligations st fv)"
    "distinct (map fo_key (db_obligations d)) \<longrightarrow> distinct (map fo_key (db_obligations d2))"
    using conjunct1 [OF O] conjunct2 [OF O] unfolding d1(1) by (simp, simp del: distinct_map)
  ultimately show ?thesis using d1(2) work
    by (intro exI [of _ ?r]) (simp add: run_key_def run_check_def)
qed

text \<open>What the other transactions do to the run they work on: \<open>f\<close> is applied to its row.\<close>

definition run_updated :: "flow_row \<Rightarrow> (flow_row \<Rightarrow> flow_row) \<Rightarrow> db \<Rightarrow> db \<Rightarrow> bool" where
  "run_updated r f d d' = (run_of (fr_project r) (fr_work r) d = Some r \<and> run_check (f r)
     \<and> db_runs d' = upd_where (\<lambda>x. fr_project x = fr_project r \<and> fr_work x = fr_work r) f (db_runs d))"

lemma run_updatedI:
  assumes "run_of p w d = Some r" and "update_run p w f d = Inr d1" and "db_runs d' = db_runs d1"
  shows "run_updated r f d d'"
  using assms run_ofD [OF assms(1)] by (auto simp: run_updated_def monad_simps)

lemma pin_new_Inr:
  assumes "pin_new p w outcome fv version op digest d = Inr (rt, d')"
  shows "d' = d \<or> (\<exists>r merged flow st. run_of p w d = Some r
    \<and> fr_status r = FlowActive \<and> fr_version r = version \<and> merge_impact r fv d = Inr merged
    \<and> pinned_flow r = Inr flow \<and> flow_state_of flow (fr_state r) = Inr st \<and> \<not> fs_terminal st
    \<and> require_ready r d = Inr () \<and> select_route st outcome merged = Inr rt
    \<and> run_updated r (\<lambda>r. r\<lparr>fr_status := HandoffPreparing, fr_fields := merged,
             fr_route := Some (ft_id rt), fr_target := Some (ft_state rt),
             fr_target_role := Some (ft_role rt), fr_operation := Some op, fr_request := Some digest\<rparr>) d d'
    \<and> db_obligations d' = db_obligations d \<and> db_journal d' = db_journal d)"
proof -
  from assms [unfolded pin_new_def] obtain r where r: "run_of p w d = Some r" by (auto simp: monad_simps)
  show ?thesis
  proof (cases "fr_status r = HandoffPreparing")
    case True
    with assms r show ?thesis by (auto simp: pin_new_def monad_simps)
  next
    case False
    with assms r obtain merged flow st where
      *: "fr_status r = FlowActive" "fr_version r = version" "merge_impact r fv d = Inr merged"
        "pinned_flow r = Inr flow" "flow_state_of flow (fr_state r) = Inr st" "\<not> fs_terminal st"
        "require_ready r d = Inr ()" "select_route st outcome merged = Inr rt"
      and u: "update_run p w (\<lambda>r. r\<lparr>fr_status := HandoffPreparing, fr_fields := merged,
             fr_route := Some (ft_id rt), fr_target := Some (ft_state rt),
             fr_target_role := Some (ft_role rt), fr_operation := Some op, fr_request := Some digest\<rparr>) d = Inr d'"
      by (simp add: pin_new_def bindR_Inr_iff ensure_iff lock_run_Inr) blast
    from u have "db_obligations d' = db_obligations d" "db_journal d' = db_journal d"
      by (simp_all add: update_run_Inr)
    with * r run_updatedI [OF r u refl] show ?thesis by blast
  qed
qed

lemma handoff_new_Inr:
  assumes "handoff_new sha t p w rt h actor op digest r d = Inr (x, d')" and "run_of p w d = Some r"
  shows "fr_operation r = Some op \<and> fr_request r = Some digest \<and> handoff_row_of p h d \<noteq> None
    \<and> run_updated r (\<lambda>r. r\<lparr>fr_status := HandoffPending, fr_handoff := Some h, fr_version := fr_version r + 1\<rparr>) d d'
    \<and> db_obligations d' = db_obligations d \<and> journalled p w op digest ''prepare'' (ft_state rt) d d'"
proof -
  from assms(1) [unfolded handoff_new_def] obtain d1 d2 where
    s: "fr_operation r = Some op" "fr_request r = Some digest" "handoff_row_of p h d \<noteq> None"
    and u: "update_run p w (\<lambda>r. r\<lparr>fr_status := HandoffPending, fr_handoff := Some h, fr_version := fr_version r + 1\<rparr>) d
        = Inr d1"
    and jo: "insert_journal (journal_entry p w op digest ''prepare'' (Some (fr_state r)) (ft_state rt)
           (Some (ft_id rt)) (Some h) actor []) d1 = Inr d2"
    and ev: "flow_event sha t p w actor op ''flow.handoff_prepared''
           [(''route_id'', JStr (ft_id rt)), (''handoff_id'', JStr h)] d2 = Inr d'"
    by (simp add: bindR_Inr_iff ensure_iff same_pending_Inr) blast
  note J = insert_journal_fields [OF jo] and E = flow_event_fields [OF ev]
  have d1: "db_obligations d1 = db_obligations d" "db_journal d1 = db_journal d"
    using u by (simp_all add: update_run_Inr)
  from s run_updatedI [OF assms(2) u] journalledI [OF jo d1(2)] J E d1 show ?thesis by simp
qed

lemma pickup_new_Inr:
  assumes "pickup_new sha t p w version actor op digest d = Inr (x, d')"
  shows "\<exists>r flow target h. run_of p w d = Some r \<and> fr_status r = HandoffPending \<and> fr_version r = version
    \<and> fr_handoff r = Some h \<and> map_option ho_status (handoff_row_of p h d) = Some Accepted
    \<and> pinned_flow r = Inr flow \<and> flow_state_of flow (the (fr_target r)) = Inr target
    \<and> fr_target_role r = Some (fs_owner target)
    \<and> run_updated r (\<lambda>r. r\<lparr>fr_state := fs_id target, fr_owner := fs_owner target,
             fr_status := FlowActive, fr_route := None, fr_target := None, fr_target_role := None,
             fr_handoff := None, fr_operation := None, fr_request := None, fr_version := version + 1\<rparr>) d d'
    \<and> db_works d' = upd_where (\<lambda>r. wi_project r = p \<and> wi_id r = w \<and> wi_status r = ''active'')
             (\<lambda>r. r\<lparr>wi_owner := Some (fs_owner target), wi_version := wi_version r + 1\<rparr>) (db_works d)
    \<and> has_row (\<lambda>r. wi_project r = p \<and> wi_id r = w \<and> wi_status r = ''active'') (db_works d)
    \<and> db_obligations d' = db_obligations d
        @ map (new_obligation p w (fs_id target) (version + 1)) (state_obligations target (fr_fields r))
    \<and> (distinct (map fo_key (db_obligations d)) \<longrightarrow> distinct (map fo_key (db_obligations d')))
    \<and> journalled p w op digest ''pickup'' (fs_id target) d d'"
proof -
  from assms [unfolded pickup_new_def] obtain r where r: "run_of p w d = Some r" by (auto simp: monad_simps)
  from assms r obtain flow target h d1 work d3 d4 where
    s: "fr_status r = HandoffPending" "fr_version r = version" "fr_handoff r = Some h"
      "map_option ho_status (handoff_row_of p h d) = Some Accepted" "pinned_flow r = Inr flow"
      "flow_state_of flow (the (fr_target r)) = Inr target" "Some (fs_owner target) = fr_target_role r"
    and u: "update_run p w (\<lambda>r. r\<lparr>fr_state := fs_id target, fr_owner := fs_owner target,
             fr_status := FlowActive, fr_route := None, fr_target := None, fr_target_role := None,
             fr_handoff := None, fr_operation := None, fr_request := None, fr_version := version + 1\<rparr>) d = Inr d1"
    and wk: "fetchone (\<lambda>r. wi_project r = p \<and> wi_id r = w \<and> wi_status r = ''active'') (db_works d1) = Some work"
    and ob: "insert_obligations p w (fs_id target) (version + 1) (state_obligations target (fr_fields r))
      (d1\<lparr>db_works := upd_where (\<lambda>r. wi_project r = p \<and> wi_id r = w \<and> wi_status r = ''active'')
             (\<lambda>r. r\<lparr>wi_owner := Some (fs_owner target), wi_version := wi_version r + 1\<rparr>) (db_works d1)\<rparr>) = Inr d3"
    and jo: "insert_journal (journal_entry p w op digest ''pickup'' (Some (fr_state r)) (fs_id target)
           (fr_route r) (fr_handoff r) actor []) d3 = Inr d4"
    and ev: "flow_event sha t p w actor op ''flow.transition_picked_up''
           [(''state'', JStr (fs_id target)), (''owner_role_id'', JStr (fs_owner target))] d4 = Inr d'"
    by (simp add: pickup_new_def Let_def bindR_Inr_iff ensure_iff of_row_iff lock_run_Inr) (elim exE conjE, force)
  note O = insert_obligations_Inr [OF ob] and J = insert_journal_fields [OF jo] and E = flow_event_fields [OF ev]
  have d1: "db_works d1 = db_works d" "db_obligations d1 = db_obligations d" "db_journal d1 = db_journal d"
    using u by (simp_all add: update_run_Inr)
  have d3: "db_runs d3 = db_runs d1" "db_journal d3 = db_journal d1" using conjunct1 [OF O] by simp_all
  have "db_works d' = upd_where (\<lambda>r. wi_project r = p \<and> wi_id r = w \<and> wi_status r = ''active'')
             (\<lambda>r. r\<lparr>wi_owner := Some (fs_owner target), wi_version := wi_version r + 1\<rparr>) (db_works d)"
    using conjunct1 [OF O] J E d1 by simp
  moreover have "db_obligations d' = db_obligations d3" using J E by simp
  moreover have "db_obligations d3 = db_obligations d
        @ map (new_obligation p w (fs_id target) (version + 1)) (state_obligations target (fr_fields r))"
    using conjunct1 [OF O] d1 by simp
  moreover have "distinct (map fo_key (db_obligations d)) \<longrightarrow> distinct (map fo_key (db_obligations d3))"
    using conjunct2 [OF O] d1 by (simp del: distinct_map)
  moreover have "journalled p w op digest ''pickup'' (fs_id target) d d'"
    by (rule journalledI [OF jo]) (use d1 d3 E in simp_all)
  moreover have "db_runs d' = db_runs d1" using J E d3 by simp
  note run_updatedI [OF r u this]
  moreover have "has_row (\<lambda>r. wi_project r = p \<and> wi_id r = w \<and> wi_status r = ''active'') (db_works d)"
    using fetchone_SomeD [OF wk] unfolding d1 by (auto simp: table_simps)
  ultimately show ?thesis using r s by (intro exI [of _ r] exI [of _ flow] exI [of _ target] exI [of _ h]) simp
qed

lemma mark_new_Inr:
  assumes "mark_new p w version op digest d = Inr (x, d')"
  shows "d' = d \<or> (\<exists>r flow st. run_of p w d = Some r \<and> pinned_flow r = Inr flow
    \<and> fr_status r = FlowActive \<and> fr_version r = version \<and> flow_state_of flow (fr_state r) = Inr st
    \<and> fs_terminal st \<and> require_ready r d = Inr ()
    \<and> run_updated r (\<lambda>r. r\<lparr>fr_status := CompletionPreparing, fr_operation := Some op, fr_request := Some digest\<rparr>) d d'
    \<and> db_obligations d' = db_obligations d \<and> db_journal d' = db_journal d)"
proof -
  from assms [unfolded mark_new_def] obtain r where r: "run_of p w d = Some r" by (auto simp: monad_simps)
  show ?thesis
  proof (cases "fr_status r = CompletionPreparing")
    case True
    with assms r show ?thesis by (auto simp: mark_new_def monad_simps)
  next
    case False
    with assms r obtain flow st where
      *: "pinned_flow r = Inr flow" "fr_status r = FlowActive" "fr_version r = version"
        "flow_state_of flow (fr_state r) = Inr st" "fs_terminal st" "require_ready r d = Inr ()"
      and u: "update_run p w (\<lambda>r. r\<lparr>fr_status := CompletionPreparing, fr_operation := Some op,
             fr_request := Some digest\<rparr>) d = Inr d'"
      by (simp add: mark_new_def bindR_Inr_iff ensure_iff lock_run_Inr) blast
    from u have "db_obligations d' = db_obligations d" "db_journal d' = db_journal d"
      by (simp_all add: update_run_Inr)
    with * r run_updatedI [OF r u refl] show ?thesis by blast
  qed
qed

lemma completion_new_Inr:
  assumes "completion_new sha t p w actor op digest ev r d = Inr (x, d')" and "run_of p w d = Some r"
  shows "fr_operation r = Some op \<and> fr_request r = Some digest
    \<and> run_updated r (\<lambda>r. r\<lparr>fr_status := FlowCompleted, fr_operation := None, fr_request := None,
             fr_version := fr_version r + 1\<rparr>) d d'
    \<and> db_obligations d' = db_obligations d \<and> journalled p w op digest ''complete'' (fr_state r) d d'"
proof -
  from assms(1) [unfolded completion_new_def] obtain d1 d2 where
    s: "fr_operation r = Some op" "fr_request r = Some digest"
    and u: "update_run p w (\<lambda>r. r\<lparr>fr_status := FlowCompleted, fr_operation := None, fr_request := None,
             fr_version := fr_version r + 1\<rparr>) d = Inr d1"
    and jo: "insert_journal (journal_entry p w op digest ''complete'' (Some (fr_state r)) (fr_state r)
           None None actor ev) d1 = Inr d2"
    and ev: "flow_event sha t p w actor op ''flow.completed'' [(''state'', JStr (fr_state r))] d2 = Inr d'"
    by (simp add: bindR_Inr_iff ensure_iff same_pending_Inr) blast
  note J = insert_journal_fields [OF jo] and E = flow_event_fields [OF ev]
  have d1: "db_obligations d1 = db_obligations d" "db_journal d1 = db_journal d"
    using u by (simp_all add: update_run_Inr)
  from s run_updatedI [OF assms(2) u] journalledI [OF jo d1(2)] J E d1 show ?thesis by simp
qed

lemma dispatch_tx_Inr:
  assumes "dispatch_tx t sha p w k oid actor d = Inr (x, d')"
  shows "db_runs d' = db_runs d \<and> db_journal d' = db_journal d
    \<and> map fo_core (db_obligations d') = map fo_core (db_obligations d)"
proof -
  from assms [unfolded dispatch_tx_def] obtain run row draft i d1 where
    rt: "route_in_transaction t sha draft d = Inr (i, d1)"
    and d': "d' = d1\<lparr>db_obligations := upd_where (\<lambda>o'. current_obligation run o' \<and> fo_kind o' = k \<and> fo_id o' = oid)
        (\<lambda>o'. o'\<lparr>fo_status := ObDispatched\<rparr>) (db_obligations d1)\<rparr>"
    by (auto simp: monad_simps Let_def)
  have "db_runs d1 = db_runs d" "db_journal d1 = db_journal d" "db_obligations d1 = db_obligations d"
    using rt by (auto simp: route_Inr insert_item_Inr)
  moreover have "map fo_core (upd_where P (\<lambda>o'. o'\<lparr>fo_status := ObDispatched\<rparr>) os) = map fo_core os" for P os
    by (rule map_upd_where_same) (simp add: fo_core_def fo_key_def)
  ultimately show ?thesis by (simp add: d')
qed

section \<open>The transition system\<close>

text \<open>\<open>start\<close> is called with a flow that \<open>load_flow\<close> produced. \<open>other\<close> is everything else in
  the program: handoffs, queues, the work items, and governance, which changes the status and
  evidence of obligations and adds evidence rows.\<close>

inductive flow_step :: "(string \<Rightarrow> string) \<Rightarrow> db \<Rightarrow> db \<Rightarrow> bool" for sha where
  started: "load_flow settings dg = Inr flow \<Longrightarrow> flow_state_of flow (fd_entry flow) = Inr st \<Longrightarrow>
    start_tx sha t p w flow st fv actor op digest d = Inr (x, d') \<Longrightarrow> flow_step sha d d'"
| dispatched: "dispatch_tx t sha p w k oid actor d = Inr (y, d') \<Longrightarrow> flow_step sha d d'"
| pinned: "pin_route p w outcome fv version op digest d = Inr (z, d') \<Longrightarrow> flow_step sha d d'"
| prepared: "commit_handoff sha t p w rt h actor op digest d = Inr (x, d') \<Longrightarrow> flow_step sha d d'"
| picked_up: "pickup_tx sha t p w version actor op digest d = Inr (x, d') \<Longrightarrow> flow_step sha d d'"
| marked: "mark_completion p w version op digest d = Inr (x, d') \<Longrightarrow> flow_step sha d d'"
| completed: "commit_completion sha t p w actor op digest ev d = Inr (x, d') \<Longrightarrow> flow_step sha d d'"
| other: "db_runs d' = db_runs d \<Longrightarrow> db_journal d' = db_journal d \<Longrightarrow>
    map fo_core (db_obligations d') = map fo_core (db_obligations d) \<Longrightarrow> flow_step sha d d'"

text \<open>A run in the eyes of an observer, and the moves of a run of the flow \<open>f\<close>.\<close>

definition run_view :: "flow_row \<Rightarrow> string \<times> flow_status \<times> int" where
  "run_view r = (fr_state r, fr_status r, fr_version r)"

inductive flow_move :: "flow_definition \<Rightarrow> string \<times> flow_status \<times> int \<Rightarrow> string \<times> flow_status \<times> int \<Rightarrow> bool"
  for f where
  pin: "flow_move f (s, FlowActive, n) (s, HandoffPreparing, n)"
| hand: "flow_move f (s, HandoffPreparing, n) (s, HandoffPending, n + 1)"
| enter: "(s, s') \<in> edges (fd_states f) \<Longrightarrow> flow_move f (s, HandoffPending, n) (s', FlowActive, n + 1)"
| mark: "s \<in> set (fd_terminals f) \<Longrightarrow> flow_move f (s, FlowActive, n) (s, CompletionPreparing, n)"
| finish: "s \<in> set (fd_terminals f) \<Longrightarrow> flow_move f (s, CompletionPreparing, n) (s, FlowCompleted, n + 1)"

inductive_cases flow_move_completed: "flow_move f (s, FlowCompleted, n) v"

text \<open>The invariant of one run.\<close>

definition run_at :: "flow_row \<Rightarrow> flow_definition \<Rightarrow> flow_state \<Rightarrow> bool" where
  "run_at r f st = (pinned_flow r = Inr f \<and> flow_state_of f (fr_state r) = Inr st
     \<and> fr_flow r = fd_id f \<and> fr_owner r = fs_owner st
     \<and> (fr_status r = HandoffPreparing \<or> fr_status r = HandoffPending \<longrightarrow>
          (\<exists>rt\<in>set (fs_routes st). fr_route r = Some (ft_id rt) \<and> fr_target r = Some (ft_state rt)
             \<and> fr_target_role r = Some (ft_role rt)))
     \<and> (fr_status r = CompletionPreparing \<or> fr_status r = FlowCompleted \<longrightarrow> fs_terminal st))"

definition run_ok :: "flow_row \<Rightarrow> bool" where
  "run_ok r = (run_check r \<and> 1 \<le> fr_version r \<and> (\<exists>f st. run_at r f st))"

text \<open>The obligations of the present entry of a run.\<close>

definition current_cores :: "flow_row \<Rightarrow> flow_obligation list \<Rightarrow>
    ((string \<times> string \<times> string \<times> int \<times> obligation_kind \<times> string) \<times> string \<times> (string \<times> json) list) set" where
  "current_cores r os = fo_core ` {o' \<in> set os. current_obligation r o'}"

definition entry_cores :: "flow_row \<Rightarrow> flow_state \<Rightarrow>
    ((string \<times> string \<times> string \<times> int \<times> obligation_kind \<times> string) \<times> string \<times> (string \<times> json) list) set" where
  "entry_cores r st = (\<lambda>a. fo_core (new_obligation (fr_project r) (fr_work r) (fr_state r) (fr_version r) a))
     ` set (state_obligations st (fr_fields r))"

definition obligations_inv :: "flow_row list \<Rightarrow> flow_obligation list \<Rightarrow> bool" where
  "obligations_inv rs os = (distinct (map fo_key os)
     \<and> (\<forall>o'\<in>set os. \<exists>r\<in>set rs. run_key r = (fo_project o', fo_work o') \<and> fo_entry o' \<le> fr_version r)
     \<and> (\<forall>r\<in>set rs. \<forall>f st. fr_status r = FlowActive \<longrightarrow> run_at r f st \<longrightarrow> current_cores r os = entry_cores r st))"

definition runs_inv :: "flow_row list \<Rightarrow> bool" where
  "runs_inv rs = (distinct (map run_key rs) \<and> (\<forall>r\<in>set rs. run_ok r))"

text \<open>The journal: operation ids are unique, the entries of a run are numbered from 1, a pending
  handoff is recorded, and the last entry into a state is the run's state.\<close>

definition run_journal :: "string \<times> string \<Rightarrow> journal_row list \<Rightarrow> journal_row list" where
  "run_journal k js = filter (\<lambda>j. (jo_project j, jo_work j) = k) js"

definition entered :: "journal_row list \<Rightarrow> string option" where
  "entered js = fold (\<lambda>j s. if jo_action j = ''start'' \<or> jo_action j = ''pickup'' then Some (jo_to j) else s) js None"

definition journal_inv :: "flow_row list \<Rightarrow> journal_row list \<Rightarrow> bool" where
  "journal_inv rs js = (distinct (map (\<lambda>j. (jo_project j, jo_operation j)) js)
     \<and> (\<forall>k. map jo_sequence (run_journal k js) = [1..int (length (run_journal k js))])
     \<and> (\<forall>r\<in>set rs. fr_status r = HandoffPending \<longrightarrow>
          (\<exists>j\<in>set js. jo_project j = fr_project r \<and> fr_operation r = Some (jo_operation j)))
     \<and> (\<forall>r\<in>set rs. entered (run_journal (run_key r) js) = Some (fr_state r)))"

definition flow_inv :: "db \<Rightarrow> bool" where
  "flow_inv d = (runs_inv (db_runs d) \<and> obligations_inv (db_runs d) (db_obligations d)
     \<and> journal_inv (db_runs d) (db_journal d))"

section \<open>Preservation\<close>

text \<open>The snapshot a run pins is the flow it was started with.\<close>

lemma insort_key_map_fst:
  assumes "\<And>x. fst (g x) = fst x"
  shows "insort_key fst (g x) (map g xs) = map g (insort_key fst x xs)"
  by (induction xs) (simp_all add: assms)

lemma sort_key_map_fst:
  assumes "\<And>x. fst (g x) = fst x"
  shows "sort_key fst (map g xs) = map g (sort_key fst xs)"
  by (induction xs) (simp_all add: insort_key_map_fst [OF assms])

lemma sorted_members_map: "sorted_members m = map (\<lambda>(k, v). (k, sorted_json v)) m"
  by (induction m) auto

lemma sorted_json_idem [simp]: "sorted_json (sorted_json v) = sorted_json v"
proof -
  have "sorted_json (sorted_json v) = sorted_json v" "sorted_items (sorted_items vs) = sorted_items vs"
    "sorted_members (sorted_members m) = sorted_members m" for vs m
  proof (induction v and vs and m rule: sorted_json_sorted_items_sorted_members.induct)
    case (2 m)
    have "sorted_members (sort_key fst (sorted_members m)) = sort_key fst (sorted_members (sorted_members m))"
      by (simp only: sorted_members_map [of "sort_key fst _"] sorted_members_map [of "sorted_members m"])
        (rule sort_key_map_fst [symmetric], simp add: case_prod_beta)
    with 2 show ?case by (simp add: sort_key_id_if_sorted)
  qed simp_all
  then show ?thesis by blast
qed

lemma load_flow_pinned:
  assumes "load_flow settings dg = Inr flow"
  shows "validate_flow (fd_snapshot flow) (fd_digest flow) = Inr flow"
proof -
  from assms obtain m where v: "validate_flow (sorted_json (JObj m)) dg = Inr flow"
    by (auto simp: load_flow_def monad_simps)
  then have "fd_snapshot flow = sorted_json (JObj m)" "fd_digest flow = dg"
    by (auto simp: validate_flow_def monad_simps simp del: sorted_json.simps)
  with v show ?thesis by simp
qed

lemma state_in_flow:
  assumes "pinned_flow r = Inr f" and "flow_state_of f s = Inr st"
  shows "fs_id st = s" "\<And>rt. rt \<in> set (fs_routes st) \<Longrightarrow> (s, ft_state rt) \<in> edges (fd_states f)"
    "fs_terminal st \<Longrightarrow> s \<in> set (fd_terminals f)"
proof -
  from assms(1) have v: "valid_flow f" unfolding pinned_flow_def by (rule validate_flow_valid)
  from assms(2) have m: "map_of (fd_states f) s = Some st" by (simp add: flow_state_of_def monad_simps)
  then have i: "(s, st) \<in> set (fd_states f)" by (rule map_of_SomeD)
  have all: "\<forall>(s, st)\<in>set (fd_states f). fs_id st = s"
    using v unfolding valid_flow_def by blast
  from bspec [OF all i] show "fs_id st = s" by simp
  show "(s, ft_state rt) \<in> edges (fd_states f)" if "rt \<in> set (fs_routes st)" for rt
    using that m by (simp add: edges_def targets_def)
  have ts: "set (fd_terminals f) = fst ` {x \<in> set (fd_states f). fs_terminal (snd x)}"
    using v unfolding valid_flow_def by blast
  show "s \<in> set (fd_terminals f)" if "fs_terminal st"
    unfolding ts using i that by (intro image_eqI [of _ _ "(s, st)"]) simp_all
qed

text \<open>Updating the row of one run.\<close>

lemma run_updated_rows:
  assumes inv: "runs_inv (db_runs d)" and u: "run_updated r f d d'" and k: "\<And>x. run_key (f x) = run_key x"
  shows "r \<in> set (db_runs d)" "map run_key (db_runs d') = map run_key (db_runs d)"
    "x \<in> set (db_runs d') \<longleftrightarrow> x = f r \<or> x \<in> set (db_runs d) \<and> run_key x \<noteq> run_key r"
proof -
  from u have r: "r \<in> set (db_runs d)" by (auto simp: run_updated_def dest: run_ofD)
  then show "r \<in> set (db_runs d)" .
  show "map run_key (db_runs d') = map run_key (db_runs d)"
    using u k by (simp add: run_updated_def map_upd_where_same)
  have only: "y = r" if "y \<in> set (db_runs d)" "run_key y = run_key r" for y
    using inv distinct_map_eq [OF _ that(1) r that(2)] by (simp add: runs_inv_def)
  have d': "db_runs d' = upd_where (\<lambda>x. run_key x = run_key r) f (db_runs d)"
    using u by (simp add: run_updated_def run_key_def)
  show "x \<in> set (db_runs d') \<longleftrightarrow> x = f r \<or> x \<in> set (db_runs d) \<and> run_key x \<noteq> run_key r"
    unfolding d' set_upd_where using r only by metis
qed

lemma runs_inv_updated:
  assumes "runs_inv (db_runs d)" and "run_updated r f d d'" and "\<And>x. run_key (f x) = run_key x"
    and "run_ok r \<Longrightarrow> run_ok (f r)"
  shows "runs_inv (db_runs d')"
  using assms(1,4) run_updated_rows [OF assms(1-3)] by (auto simp: runs_inv_def)

lemma obligations_inv_updated:
  assumes inv: "obligations_inv (db_runs d) os" and R: "runs_inv (db_runs d)"
    and u: "run_updated r f d d'" "\<And>x. run_key (f x) = run_key x"
    and f: "fr_version r \<le> fr_version (f r)" "fr_status (f r) \<noteq> FlowActive"
  shows "obligations_inv (db_runs d') os"
proof -
  note rows = run_updated_rows [OF R u]
  have "\<exists>x\<in>set (db_runs d'). run_key x = (fo_project o', fo_work o') \<and> fo_entry o' \<le> fr_version x"
    if "o' \<in> set os" for o'
  proof -
    from inv that obtain x where x: "x \<in> set (db_runs d)" "run_key x = (fo_project o', fo_work o')"
      "fo_entry o' \<le> fr_version x" by (auto simp: obligations_inv_def)
    show ?thesis
    proof (cases "run_key x = run_key r")
      case True
      then have "x = r" using R distinct_map_eq [of run_key, OF _ x(1) rows(1)] by (simp add: runs_inv_def)
      with x f(1) u(2) rows(3) show ?thesis by (intro bexI [of _ "f r"]) auto
    next
      case False
      with x rows(3) show ?thesis by (intro bexI [of _ x]) auto
    qed
  qed
  with inv rows(3) f(2) show ?thesis by (auto simp: obligations_inv_def)
qed

text \<open>The journal.\<close>

lemma next_id_upto: "next_id [1..int n] = int n + 1"
proof -
  have "fold max [1..int n] 0 = int n"
    by (induction n) (simp_all add: upto_rec2)
  then show ?thesis by (simp add: next_id_def)
qed

lemma entered_snoc: "entered (js @ [j]) =
    (if jo_action j = ''start'' \<or> jo_action j = ''pickup'' then Some (jo_to j) else entered js)"
  by (simp add: entered_def)

lemma run_journal_snoc: "run_journal k (js @ [j]) =
    (if (jo_project j, jo_work j) = k then run_journal k js @ [j] else run_journal k js)"
  by (auto simp: run_journal_def)

lemma journal_inv_entry:
  assumes inv: "journal_inv rs (db_journal d)" and j: "journalled p w op dg action to' d d'"
    and others: "\<And>x. x \<in> set rs' \<Longrightarrow> run_key x \<noteq> (p, w) \<Longrightarrow> x \<in> set rs"
    and this': "\<And>x. x \<in> set rs' \<Longrightarrow> run_key x = (p, w) \<Longrightarrow>
      (fr_status x = HandoffPending \<longrightarrow> fr_operation x = Some op)
      \<and> (if action = ''start'' \<or> action = ''pickup'' then fr_state x = to'
         else \<exists>r\<in>set rs. run_key r = run_key x \<and> fr_state r = fr_state x)"
  shows "journal_inv rs' (db_journal d')"
proof -
  let ?js = "db_journal d"
  from j obtain e where e: "db_journal d' = ?js @ [e]" "jo_project e = p" "jo_work e = w" "jo_operation e = op"
    "jo_action e = action" "jo_to e = to'"
    "jo_sequence e = next_id (map jo_sequence (run_journal (p, w) ?js))"
    "\<forall>x\<in>set ?js. jo_project x = p \<longrightarrow> jo_operation x \<noteq> op"
    by (auto simp: journalled_def run_journal_def)
  have q: "map jo_sequence (run_journal k ?js) = [1..int (length (run_journal k ?js))]" for k
    using inv unfolding journal_inv_def by blast
  have "distinct (map (\<lambda>j. (jo_project j, jo_operation j)) (?js @ [e]))"
    using inv e by (auto simp: journal_inv_def)
  moreover have "map jo_sequence (run_journal k (?js @ [e])) = [1..int (length (run_journal k (?js @ [e])))]" for k
    using q [of k] e(2,3,7) by (auto simp: run_journal_snoc next_id_upto upto_rec2)
  moreover have "\<exists>j\<in>set (?js @ [e]). jo_project j = fr_project x \<and> fr_operation x = Some (jo_operation j)"
    if "x \<in> set rs'" "fr_status x = HandoffPending" for x
  proof (cases "run_key x = (p, w)")
    case True
    with this' [OF that(1)] that(2) e show ?thesis by (auto simp: run_key_def)
  next
    case False
    from others [OF that(1) False] inv that(2) show ?thesis by (auto simp: journal_inv_def)
  qed
  moreover have "entered (run_journal (run_key x) (?js @ [e])) = Some (fr_state x)" if "x \<in> set rs'" for x
  proof (cases "run_key x = (p, w)")
    case True
    with this' [OF that True] e inv show ?thesis
      by (auto simp: run_journal_snoc entered_snoc journal_inv_def split: if_splits)
  next
    case False
    from others [OF that False] inv e(2,3) False show ?thesis by (auto simp: run_journal_snoc journal_inv_def)
  qed
  ultimately show ?thesis unfolding e(1) journal_inv_def by blast
qed

lemma journal_inv_same:
  assumes inv: "journal_inv rs js"
    and x: "\<And>x. x \<in> set rs' \<Longrightarrow> \<exists>r\<in>set rs. run_key r = run_key x \<and> fr_state r = fr_state x
      \<and> (fr_status x = HandoffPending \<longrightarrow> r = x)"
  shows "journal_inv rs' js"
  using inv x unfolding journal_inv_def by metis

lemma journal_inv_updated:
  assumes inv: "journal_inv (db_runs d) js" and R: "runs_inv (db_runs d)"
    and u: "run_updated r f d d'" "\<And>x. run_key (f x) = run_key x"
    and f: "fr_state (f r) = fr_state r" "fr_status (f r) \<noteq> HandoffPending"
  shows "journal_inv (db_runs d') js"
proof (rule journal_inv_same [OF inv])
  fix x assume "x \<in> set (db_runs d')"
  then consider "x = f r" | "x \<in> set (db_runs d)" unfolding run_updated_rows(3) [OF R u] by blast
  then show "\<exists>y\<in>set (db_runs d). run_key y = run_key x \<and> fr_state y = fr_state x
      \<and> (fr_status x = HandoffPending \<longrightarrow> y = x)"
    using run_updated_rows(1) [OF R u] u(2) f by cases (auto intro: bexI [of _ r])
qed

lemma journal_inv_updated_entry:
  assumes inv: "journal_inv (db_runs d) (db_journal d)" and R: "runs_inv (db_runs d)"
    and u: "run_updated r f d d'" "\<And>x. run_key (f x) = run_key x"
    and j: "journalled p w op dg action to' d d'" and k: "run_key r = (p, w)"
    and f: "fr_status (f r) = HandoffPending \<Longrightarrow> fr_operation (f r) = Some op"
      "fr_state (f r) = (if action = ''start'' \<or> action = ''pickup'' then to' else fr_state r)"
  shows "journal_inv (db_runs d') (db_journal d')"
proof (rule journal_inv_entry [OF inv j])
  fix x assume x: "x \<in> set (db_runs d')"
  note row = x [unfolded run_updated_rows(3) [OF R u]]
  show "x \<in> set (db_runs d)" if "run_key x \<noteq> (p, w)" using row that u(2) k by auto
  assume "run_key x = (p, w)"
  with row k have "x = f r" by auto
  with f run_updated_rows(1) [OF R u] u(2) k
  show "(fr_status x = HandoffPending \<longrightarrow> fr_operation x = Some op)
      \<and> (if action = ''start'' \<or> action = ''pickup'' then fr_state x = to'
         else \<exists>r\<in>set (db_runs d). run_key r = run_key x \<and> fr_state r = fr_state x)"
    by (auto intro: bexI [of _ r])
qed

text \<open>Entering a state creates its obligations, at a version no older obligation has.\<close>

lemma run_at_unique: "run_at r f st \<Longrightarrow> run_at r f' st' \<Longrightarrow> f' = f \<and> st' = st"
  by (auto simp: run_at_def)

lemma current_cores_new:
  "current_cores r (map (new_obligation p w s v) as) =
     (if fr_project r = p \<and> fr_work r = w \<and> fr_state r = s \<and> fr_version r = v
      then (\<lambda>a. fo_core (new_obligation p w s v a)) ` set as else {})"
  by (auto simp: current_cores_def current_obligation_def new_obligation_def)

lemma current_cores_append: "current_cores r (os @ os') = current_cores r os \<union> current_cores r os'"
  by (auto simp: current_cores_def)

lemma current_cores_core: "map fo_core os' = map fo_core os \<Longrightarrow> current_cores r os' = current_cores r os"
proof -
  have cur: "current_obligation r o' \<longleftrightarrow>
      (\<exists>k i. fst (fo_core o') = (fr_project r, fr_work r, fr_state r, fr_version r, k, i))" for o'
    by (auto simp: current_obligation_def fo_core_def fo_key_def)
  have *: "current_cores r os = {c \<in> fo_core ` set os. \<exists>k i. fst c = (fr_project r, fr_work r, fr_state r, fr_version r, k, i)}"
    for os
    unfolding current_cores_def cur by blast
  assume "map fo_core os' = map fo_core os"
  then have "fo_core ` set os' = fo_core ` set os" by (metis set_map)
  then show ?thesis unfolding * by simp
qed

lemma obligations_inv_enter:
  assumes inv: "obligations_inv rs os" and k: "run_key r = (p, w)" and at: "run_at r f st"
    and rows: "\<And>x. x \<in> set rs' \<longleftrightarrow> x = r \<or> x \<in> set rs \<and> run_key x \<noteq> (p, w)"
    and old: "\<And>x. x \<in> set rs \<Longrightarrow> run_key x = (p, w) \<Longrightarrow> fr_version x < fr_version r"
    and os': "os' = os @ map (new_obligation p w (fr_state r) (fr_version r)) (state_obligations st (fr_fields r))"
    and d: "distinct (map fo_key os) \<longrightarrow> distinct (map fo_key os')"
  shows "obligations_inv rs' os'"
proof -
  have D: "\<exists>x\<in>set rs. run_key x = (fo_project o', fo_work o') \<and> fo_entry o' \<le> fr_version x" if "o' \<in> set os" for o'
    using inv that unfolding obligations_inv_def by blast
  have "\<exists>x\<in>set rs'. run_key x = (fo_project o', fo_work o') \<and> fo_entry o' \<le> fr_version x" if "o' \<in> set os'" for o'
  proof (cases "o' \<in> set os")
    case True
    from D [OF this] obtain x where x: "x \<in> set rs" "run_key x = (fo_project o', fo_work o')"
      "fo_entry o' \<le> fr_version x" by blast
    show ?thesis
    proof (cases "run_key x = (p, w)")
      case True
      with old [OF x(1) True] x k rows show ?thesis by (intro bexI [of _ r]) auto
    next
      case False
      with x rows show ?thesis by (intro bexI [of _ x]) auto
    qed
  next
    case False
    with that os' k rows show ?thesis by (intro bexI [of _ r]) (auto simp: new_obligation_def)
  qed
  moreover have "current_cores x os' = entry_cores x st'"
    if x: "x \<in> set rs'" "fr_status x = FlowActive" "run_at x f' st'" for x f' st'
  proof (cases "x = r")
    case True
    have "current_cores r os = {}"
    proof -
      have "\<not> current_obligation r o'" if "o' \<in> set os" for o'
      proof
        assume c: "current_obligation r o'"
        from D [OF that] obtain y where y: "y \<in> set rs" "run_key y = (fo_project o', fo_work o')" "fo_entry o' \<le> fr_version y"
          by blast
        with c k old [OF y(1)] show False by (auto simp: current_obligation_def run_key_def)
      qed
      then show ?thesis by (auto simp: current_cores_def)
    qed
    moreover have "st' = st" using run_at_unique [OF at] x(3) True by blast
    ultimately show ?thesis unfolding True os' using k
      by (simp add: current_cores_append current_cores_new entry_cores_def run_key_def)
  next
    case False
    with x(1) rows have r: "x \<in> set rs" "run_key x \<noteq> (p, w)" by auto
    then have "current_cores x os' = current_cores x os"
      unfolding os' by (auto simp: current_cores_append current_cores_new run_key_def)
    with inv r(1) x(2,3) show ?thesis by (auto simp: obligations_inv_def)
  qed
  ultimately show ?thesis using inv d by (auto simp: obligations_inv_def)
qed

text \<open>What every step keeps of a run.\<close>

definition keeps_runs :: "db \<Rightarrow> db \<Rightarrow> bool" where
  "keeps_runs d d' = (\<forall>r\<in>set (db_runs d). \<exists>r'\<in>set (db_runs d'). run_key r' = run_key r
     \<and> fr_flow r' = fr_flow r \<and> fr_digest r' = fr_digest r \<and> fr_snapshot r' = fr_snapshot r
     \<and> (run_view r' = run_view r
        \<or> (\<exists>f. pinned_flow r = Inr f \<and> flow_move f (run_view r) (run_view r'))))"

lemma keeps_runs_mono: "set (db_runs d) \<subseteq> set (db_runs d') \<Longrightarrow> keeps_runs d d'"
  unfolding keeps_runs_def by blast

lemma keeps_runs_updated:
  assumes "runs_inv (db_runs d)" and "run_updated r f d d'" and "\<And>x. run_key (f x) = run_key x"
    and "fr_flow (f r) = fr_flow r" "fr_digest (f r) = fr_digest r" "fr_snapshot (f r) = fr_snapshot r"
    and "pinned_flow r = Inr flow" and "flow_move flow (run_view r) (run_view (f r))"
  shows "keeps_runs d d'"
  unfolding keeps_runs_def
proof
  fix x assume x: "x \<in> set (db_runs d)"
  note rows = run_updated_rows [OF assms(1-3)]
  show "\<exists>r'\<in>set (db_runs d'). run_key r' = run_key x \<and> fr_flow r' = fr_flow x \<and> fr_digest r' = fr_digest x
     \<and> fr_snapshot r' = fr_snapshot x \<and> (run_view r' = run_view x
        \<or> (\<exists>f. pinned_flow x = Inr f \<and> flow_move f (run_view x) (run_view r')))"
  proof (cases "run_key x = run_key r")
    case True
    then have "x = r" using assms(1) distinct_map_eq [of run_key, OF _ x rows(1)] by (simp add: runs_inv_def)
    with rows(3) assms(3-8) show ?thesis by (intro bexI [of _ "f r"]) auto
  next
    case False
    with rows(3) x show ?thesis by (intro bexI [of _ x]) auto
  qed
qed

lemma select_route_member: "select_route st outcome fv = Inr rt \<Longrightarrow> rt \<in> set (fs_routes st)"
proof -
  assume "select_route st outcome fv = Inr rt"
  then have "filter (route_matches outcome fv) (fs_routes st) = [rt]"
    by (auto simp: select_route_def split: list.splits)
  then have "rt \<in> set (filter (route_matches outcome fv) (fs_routes st))" by simp
  then show ?thesis by simp
qed

section \<open>Every step keeps the invariant and moves runs along their flow\<close>

lemma flow_invD:
  assumes "flow_inv d"
  shows "runs_inv (db_runs d)" "obligations_inv (db_runs d) (db_obligations d)"
    "journal_inv (db_runs d) (db_journal d)"
    "r \<in> set (db_runs d) \<Longrightarrow> run_check r \<and> 1 \<le> fr_version r \<and> (\<exists>f st. run_at r f st)"
  using assms by (auto simp: flow_inv_def runs_inv_def run_ok_def)

lemma started_keeps:
  assumes inv: "flow_inv d" and flow: "load_flow settings dg = Inr flow" "flow_state_of flow (fd_entry flow) = Inr st"
    and s: "start_new sha t p w flow st fv actor op digest d = Inr (x, d')"
  shows "flow_inv d' \<and> keeps_runs d d'"
proof -
  from start_new_Inr [OF s] obtain r :: flow_row where r: "db_runs d' = db_runs d @ [r]" "run_key r = (p, w)"
    "(p, w) \<notin> run_key ` set (db_runs d)"
    "fr_flow r = fd_id flow" "fr_digest r = fd_digest flow" "fr_snapshot r = fd_snapshot flow"
    "fr_state r = fs_id st" "fr_owner r = fs_owner st" "fr_status r = FlowActive" "fr_version r = 1"
    "fr_fields r = fv" "run_check r"
    and ob: "db_obligations d' = db_obligations d @ map (new_obligation p w (fs_id st) 1) (state_obligations st fv)"
    "distinct (map fo_key (db_obligations d)) \<longrightarrow> distinct (map fo_key (db_obligations d'))"
    and j: "journalled p w op digest ''start'' (fs_id st) d d'" by blast
  have pin: "pinned_flow r = Inr flow" using load_flow_pinned [OF flow(1)] r by (simp add: pinned_flow_def)
  have id: "fs_id st = fd_entry flow" by (rule state_in_flow(1) [OF pin flow(2)])
  have at: "run_at r flow st" using pin flow(2) r id by (simp add: run_at_def)
  have "runs_inv (db_runs d')"
    using flow_invD(1) [OF inv] r at by (auto simp: runs_inv_def run_ok_def)
  moreover have "obligations_inv (db_runs d') (db_obligations d')"
    by (rule obligations_inv_enter [OF flow_invD(2) [OF inv] r(2) at])
      (use r ob in \<open>auto simp: image_iff\<close>)
  moreover have "journal_inv (db_runs d') (db_journal d')"
    by (rule journal_inv_entry [OF flow_invD(3) [OF inv] j])
      (use r in \<open>auto simp: image_iff\<close>)
  ultimately show ?thesis using keeps_runs_mono [of d d'] r(1) by (auto simp: flow_inv_def)
qed

lemma pinned_keeps:
  assumes inv: "flow_inv d" and s: "pin_new p w outcome fv version op digest d = Inr (rt, d')"
  shows "flow_inv d' \<and> keeps_runs d d'"
  using pin_new_Inr [OF s]
proof (elim disjE exE conjE)
  assume "d' = d"
  with inv show ?thesis by (simp add: keeps_runs_mono)
next
  fix r merged flow st
  let ?f = "\<lambda>r :: flow_row. r\<lparr>fr_status := HandoffPreparing, fr_fields := merged,
             fr_route := Some (ft_id rt), fr_target := Some (ft_state rt),
             fr_target_role := Some (ft_role rt), fr_operation := Some op, fr_request := Some digest\<rparr>"
  assume r: "fr_status r = FlowActive" "pinned_flow r = Inr flow"
    "flow_state_of flow (fr_state r) = Inr st" "select_route st outcome merged = Inr rt"
    and u: "run_updated r ?f d d'" and same: "db_obligations d' = db_obligations d" "db_journal d' = db_journal d"
  have k: "run_key (?f x) = run_key x" for x by (simp add: run_key_def)
  note R = flow_invD(1) [OF inv]
  have ck: "run_check (?f r)" using u by (simp add: run_updated_def)
  have "run_ok r \<Longrightarrow> run_ok (?f r)"
    using ck r select_route_member [OF r(4)] by (auto simp: run_ok_def run_at_def pinned_flow_def)
  from runs_inv_updated [OF R u k this] have "runs_inv (db_runs d')" .
  moreover have "obligations_inv (db_runs d') (db_obligations d')"
    unfolding same by (rule obligations_inv_updated [OF flow_invD(2) [OF inv] R u k]) simp_all
  moreover have "journal_inv (db_runs d') (db_journal d')"
    unfolding same by (rule journal_inv_updated [OF flow_invD(3) [OF inv] R u k]) simp_all
  moreover have "keeps_runs d d'"
    by (rule keeps_runs_updated [OF R u k _ _ _ r(2)]) (use r(1) in \<open>simp_all add: run_view_def flow_move.pin\<close>)
  ultimately show ?thesis by (simp add: flow_inv_def)
qed

lemma marked_keeps:
  assumes inv: "flow_inv d" and s: "mark_new p w version op digest d = Inr (x, d')"
  shows "flow_inv d' \<and> keeps_runs d d'"
  using mark_new_Inr [OF s]
proof (elim disjE exE conjE)
  assume "d' = d"
  with inv show ?thesis by (simp add: keeps_runs_mono)
next
  fix r flow st
  let ?f = "\<lambda>r :: flow_row. r\<lparr>fr_status := CompletionPreparing, fr_operation := Some op, fr_request := Some digest\<rparr>"
  assume r: "fr_status r = FlowActive" "pinned_flow r = Inr flow"
    "flow_state_of flow (fr_state r) = Inr st" "fs_terminal st"
    and u: "run_updated r ?f d d'" and same: "db_obligations d' = db_obligations d" "db_journal d' = db_journal d"
  have k: "run_key (?f x) = run_key x" for x by (simp add: run_key_def)
  note R = flow_invD(1) [OF inv]
  have ck: "run_check (?f r)" using u by (simp add: run_updated_def)
  have "run_ok r \<Longrightarrow> run_ok (?f r)"
    using ck r by (auto simp: run_ok_def run_at_def pinned_flow_def)
  from runs_inv_updated [OF R u k this] have "runs_inv (db_runs d')" .
  moreover have "obligations_inv (db_runs d') (db_obligations d')"
    unfolding same by (rule obligations_inv_updated [OF flow_invD(2) [OF inv] R u k]) simp_all
  moreover have "journal_inv (db_runs d') (db_journal d')"
    unfolding same by (rule journal_inv_updated [OF flow_invD(3) [OF inv] R u k]) simp_all
  moreover have "keeps_runs d d'"
    by (rule keeps_runs_updated [OF R u k _ _ _ r(2)])
      (use r(1) state_in_flow(3) [OF r(2-4)] in \<open>simp_all add: run_view_def flow_move.mark\<close>)
  ultimately show ?thesis by (simp add: flow_inv_def)
qed

lemma run_of_key: "run_of p w d = Some r \<Longrightarrow> run_key r = (p, w)"
  by (auto simp: run_key_def dest: run_ofD)

lemma prepared_keeps:
  assumes inv: "flow_inv d" and run: "run_of p w d = Some r"
    and new: "\<forall>j\<in>set (db_journal d). jo_project j = p \<longrightarrow> jo_operation j \<noteq> op"
    and s: "handoff_new sha t p w rt h actor op digest r d = Inr (x, d')"
  shows "flow_inv d' \<and> keeps_runs d d' \<and> fr_status r = HandoffPreparing"
proof -
  let ?f = "\<lambda>r :: flow_row. r\<lparr>fr_status := HandoffPending, fr_handoff := Some h, fr_version := fr_version r + 1\<rparr>"
  from handoff_new_Inr [OF s run] have op: "fr_operation r = Some op" and u: "run_updated r ?f d d'"
    and ob: "db_obligations d' = db_obligations d" and j: "journalled p w op digest ''prepare'' (ft_state rt) d d'"
    by blast+
  have k: "run_key (?f x) = run_key x" for x :: flow_row by (simp add: run_key_def)
  note R = flow_invD(1) [OF inv]
  have r: "r \<in> set (db_runs d)" "fr_project r = p" using run_ofD [OF run] by blast+
  have ck: "run_check (?f r)" using u by (simp add: run_updated_def)
  have st: "fr_status r = HandoffPreparing"
  proof -
    have "fr_status r \<noteq> HandoffPending"
      using flow_invD(3) [OF inv] new op r unfolding journal_inv_def by fastforce
    with ck flow_invD(4) [OF inv r(1)] show ?thesis by (auto simp: run_check_def split: if_splits)
  qed
  from flow_invD(4) [OF inv r(1)] obtain f s' where at: "run_at r f s'" by blast
  have "run_ok r \<Longrightarrow> run_ok (?f r)"
    using ck st by (auto simp: run_ok_def run_at_def pinned_flow_def)
  from runs_inv_updated [OF R u k this] have "runs_inv (db_runs d')" .
  moreover have "obligations_inv (db_runs d') (db_obligations d')"
    unfolding ob by (rule obligations_inv_updated [OF flow_invD(2) [OF inv] R u k]) simp_all
  moreover have "journal_inv (db_runs d') (db_journal d')"
    by (rule journal_inv_updated_entry [OF flow_invD(3) [OF inv] R u k j run_of_key [OF run]]) (simp_all add: op)
  moreover have "keeps_runs d d'"
    by (rule keeps_runs_updated [OF R u k, where flow = f])
      (use at st in \<open>simp_all add: run_at_def run_view_def flow_move.hand\<close>)
  ultimately show ?thesis by (simp add: flow_inv_def st)
qed

lemma picked_up_keeps:
  assumes inv: "flow_inv d" and s: "pickup_new sha t p w version actor op digest d = Inr (x, d')"
  shows "flow_inv d' \<and> keeps_runs d d'"
proof -
  from pickup_new_Inr [OF s] obtain r flow target where
    run: "run_of p w d = Some r" and r: "fr_status r = HandoffPending" "fr_version r = version"
    "pinned_flow r = Inr flow" "flow_state_of flow (the (fr_target r)) = Inr target"
    and u: "run_updated r (\<lambda>r. r\<lparr>fr_state := fs_id target, fr_owner := fs_owner target,
             fr_status := FlowActive, fr_route := None, fr_target := None, fr_target_role := None,
             fr_handoff := None, fr_operation := None, fr_request := None, fr_version := version + 1\<rparr>) d d'"
      (is "run_updated r ?f d d'")
    and ob: "db_obligations d' = db_obligations d
        @ map (new_obligation p w (fs_id target) (version + 1)) (state_obligations target (fr_fields r))"
    "distinct (map fo_key (db_obligations d)) \<longrightarrow> distinct (map fo_key (db_obligations d'))"
    and j: "journalled p w op digest ''pickup'' (fs_id target) d d'" by blast
  have k: "run_key (?f x) = run_key x" for x :: flow_row by (simp add: run_key_def)
  note R = flow_invD(1) [OF inv] and key = run_of_key [OF run]
  have rd: "r \<in> set (db_runs d)" using run_ofD [OF run] by blast
  have ck: "run_check (?f r)" using u by (simp add: run_updated_def)
  from flow_invD(4) [OF inv rd] obtain st where at: "run_at r flow st"
    using r(3) by (auto simp: run_at_def)
  then obtain rt where rt: "rt \<in> set (fs_routes st)" "fr_target r = Some (ft_state rt)"
    using r(1) by (auto simp: run_at_def)
  have id: "fs_id target = ft_state rt" using state_in_flow(1) [OF r(3,4)] rt(2) by simp
  have edge: "(fr_state r, fs_id target) \<in> edges (fd_states flow)"
    using state_in_flow(2) [OF r(3) _ rt(1)] at id by (auto simp: run_at_def)
  have at': "run_at (?f r) flow target"
    using at r(3,4) id rt(2) by (simp add: run_at_def pinned_flow_def)
  have "run_ok r \<Longrightarrow> run_ok (?f r)" using ck at' r(2) by (auto simp: run_ok_def)
  from runs_inv_updated [OF R u k this] have "runs_inv (db_runs d')" .
  moreover have "obligations_inv (db_runs d') (db_obligations d')"
  proof (rule obligations_inv_enter [OF flow_invD(2) [OF inv] _ at'])
    show "run_key (?f r) = (p, w)" using k key by simp
    show "x \<in> set (db_runs d') \<longleftrightarrow> x = ?f r \<or> x \<in> set (db_runs d) \<and> run_key x \<noteq> (p, w)" for x
      using run_updated_rows(3) [OF R u k] key by simp
    show "fr_version x < fr_version (?f r)" if "x \<in> set (db_runs d)" "run_key x = (p, w)" for x
    proof -
      have "x = r" using R distinct_map_eq [of run_key, OF _ that(1) rd] that(2) key by (simp add: runs_inv_def)
      with r(2) show ?thesis by simp
    qed
  qed (use ob in simp_all)
  moreover have "journal_inv (db_runs d') (db_journal d')"
    by (rule journal_inv_updated_entry [OF flow_invD(3) [OF inv] R u k j key]) simp_all
  moreover have "keeps_runs d d'"
    by (rule keeps_runs_updated [OF R u k _ _ _ r(3)])
      (use r(1,2) edge in \<open>simp_all add: run_view_def flow_move.enter\<close>)
  ultimately show ?thesis by (simp add: flow_inv_def)
qed

lemma completed_keeps:
  assumes inv: "flow_inv d" and run: "run_of p w d = Some r"
    and s: "completion_new sha t p w actor op digest ev r d = Inr (x, d')"
  shows "flow_inv d' \<and> keeps_runs d d' \<and> fr_status r = CompletionPreparing"
proof -
  let ?f = "\<lambda>r :: flow_row. r\<lparr>fr_status := FlowCompleted, fr_operation := None, fr_request := None,
             fr_version := fr_version r + 1\<rparr>"
  from completion_new_Inr [OF s run] have op: "fr_operation r = Some op" and u: "run_updated r ?f d d'"
    and ob: "db_obligations d' = db_obligations d" and j: "journalled p w op digest ''complete'' (fr_state r) d d'"
    by blast+
  have k: "run_key (?f x) = run_key x" for x :: flow_row by (simp add: run_key_def)
  note R = flow_invD(1) [OF inv]
  have r: "r \<in> set (db_runs d)" using run_ofD [OF run] by blast
  have ck: "run_check (?f r)" using u by (simp add: run_updated_def)
  have st: "fr_status r = CompletionPreparing"
    using ck op flow_invD(4) [OF inv r] by (auto simp: run_check_def split: if_splits)
  from flow_invD(4) [OF inv r] obtain f s' where at: "run_at r f s'" by blast
  have "run_ok r \<Longrightarrow> run_ok (?f r)"
    using ck st by (auto simp: run_ok_def run_at_def pinned_flow_def)
  from runs_inv_updated [OF R u k this] have "runs_inv (db_runs d')" .
  moreover have "obligations_inv (db_runs d') (db_obligations d')"
    unfolding ob by (rule obligations_inv_updated [OF flow_invD(2) [OF inv] R u k]) simp_all
  moreover have "journal_inv (db_runs d') (db_journal d')"
    by (rule journal_inv_updated_entry [OF flow_invD(3) [OF inv] R u k j run_of_key [OF run]]) simp_all
  moreover have "keeps_runs d d'"
    by (rule keeps_runs_updated [OF R u k, where flow = f])
      (use at st state_in_flow(3) [of r f "fr_state r" s'] in \<open>simp_all add: run_at_def run_view_def flow_move.finish\<close>)
  ultimately show ?thesis by (simp add: flow_inv_def st)
qed

lemma obligations_inv_core:
  assumes "obligations_inv rs os" and c: "map fo_core os' = map fo_core os"
  shows "obligations_inv rs os'"
proof -
  have "map fst (map fo_core os') = map fst (map fo_core os)" using c by simp
  then have k: "map fo_key os' = map fo_key os" by (simp add: fo_core_def comp_def)
  have "\<exists>r\<in>set rs. run_key r = (fo_project o', fo_work o') \<and> fo_entry o' \<le> fr_version r" if "o' \<in> set os'" for o'
  proof -
    from that have "fo_key o' \<in> set (map fo_key os)" unfolding k [symmetric] by simp
    then obtain o2 where o2: "o2 \<in> set os" "fo_key o2 = fo_key o'" by auto
    from assms(1) o2(1) have "\<exists>r\<in>set rs. run_key r = (fo_project o2, fo_work o2) \<and> fo_entry o2 \<le> fr_version r"
      unfolding obligations_inv_def by blast
    with o2(2) show ?thesis by (simp add: fo_key_def)
  qed
  with assms k show ?thesis unfolding obligations_inv_def by (simp add: current_cores_core [OF c])
qed

lemma flow_step_inv_keeps:
  assumes "flow_step sha d d'" and inv: "flow_inv d"
  shows "flow_inv d' \<and> keeps_runs d d'"
proof -
  have same: ?thesis if "d' = d" using that inv by (simp add: keeps_runs_mono)
  from assms(1) show ?thesis
  proof cases
    case started
    with same started_keeps [OF inv] show ?thesis by (auto simp: start_tx_def monad_simps)
  next
    case dispatched
    from dispatch_tx_Inr [OF dispatched] have "db_runs d' = db_runs d" "db_journal d' = db_journal d"
      "map fo_core (db_obligations d') = map fo_core (db_obligations d)" by blast+
    with inv obligations_inv_core show ?thesis by (auto simp: flow_inv_def intro!: keeps_runs_mono)
  next
    case pinned
    with same pinned_keeps [OF inv] show ?thesis by (auto simp: pin_route_def monad_simps)
  next
    case prepared
    with same prepared_keeps [OF inv] show ?thesis by (fastforce simp: commit_handoff_def monad_simps)
  next
    case picked_up
    with same picked_up_keeps [OF inv] show ?thesis by (auto simp: pickup_tx_def monad_simps)
  next
    case marked
    with same marked_keeps [OF inv] show ?thesis by (auto simp: mark_completion_def monad_simps)
  next
    case completed
    with same completed_keeps [OF inv] show ?thesis by (fastforce simp: commit_completion_def monad_simps)
  next
    case other
    with inv obligations_inv_core show ?thesis by (auto simp: flow_inv_def intro!: keeps_runs_mono)
  qed
qed

interpretation flow: invariant_system "flow_step sha" flow_inv for sha
  by unfold_locales (blast dest: flow_step_inv_keeps)

definition flow_reachable :: "(string \<Rightarrow> string) \<Rightarrow> db \<Rightarrow> bool" where
  "flow_reachable sha d = (flow_step sha)\<^sup>*\<^sup>* empty_db d"

lemma flow_inv_empty: "flow_inv empty_db"
  by (simp add: flow_inv_def runs_inv_def obligations_inv_def journal_inv_def run_journal_def empty_db_def)

lemma flow_reachable_inv: "flow_reachable sha d \<Longrightarrow> flow_inv d"
  unfolding flow_reachable_def by (rule flow.runs_inv [OF _ flow_inv_empty])

lemma flow_reachable_step: "flow_reachable sha d \<Longrightarrow> flow_step sha d d' \<Longrightarrow> flow_reachable sha d'"
  by (simp add: flow_reachable_def)

lemma run_of_updated:
  assumes "run_updated r f d d'" and "\<And>x. run_key (f x) = run_key x"
  shows "run_of (fr_project r) (fr_work r) d' = Some (f r)"
proof -
  have "run_of (fr_project r) (fr_work r) d'
      = map_option (\<lambda>x. if fr_project x = fr_project r \<and> fr_work x = fr_work r then f x else x)
          (run_of (fr_project r) (fr_work r) d)"
    unfolding run_of_def using assms
    by (simp only: run_updated_def) (rule fetchone_upd_where, simp add: run_key_def)
  with assms(1) show ?thesis by (simp add: run_updated_def)
qed

lemma no_later_obligation:
  assumes inv: "flow_inv d" and r: "r \<in> set (db_runs d)"
    and o': "o' \<in> set (db_obligations d)" "fo_project o' = fr_project r" "fo_work o' = fr_work r"
  shows "fo_entry o' \<le> fr_version r"
proof -
  from flow_invD(2) [OF inv] o'(1) obtain x where x: "x \<in> set (db_runs d)"
    "run_key x = (fo_project o', fo_work o')" "fo_entry o' \<le> fr_version x" by (auto simp: obligations_inv_def)
  have "run_key x = run_key r" using x(2) o' by (simp add: run_key_def)
  then have "x = r" using flow_invD(1) [OF inv] distinct_map_eq [of run_key, OF _ x(1) r] by (simp add: runs_inv_def)
  with x(3) show ?thesis by simp
qed

end
