(* ===== verification/FlowRequests.thy ===== *)
theory FlowRequests
  imports FlowSystem
begin

text \<open>
  The transactions of the flow engine that carry an operation id, as requests: running one
  records it in the journal, and from then on the same request answers with the recorded run
  and writes nothing. They instantiate the interface of keyed requests of \<open>Prelude\<close>.
\<close>

text \<open>The journal only grows, and a recorded operation stays recorded.\<close>

lemma journal_grows:
  assumes "flow_step sha d d'"
  shows "\<exists>js. db_journal d' = db_journal d @ js"
  using assms
proof cases
  case started
  then show ?thesis using start_new_Inr by (fastforce simp: start_tx_def monad_simps journalled_def)
next
  case dispatched
  with dispatch_tx_Inr show ?thesis by fastforce
next
  case pinned
  then show ?thesis using pin_new_Inr by (fastforce simp: pin_route_def monad_simps)
next
  case prepared
  then show ?thesis using handoff_new_Inr by (fastforce simp: commit_handoff_def monad_simps journalled_def)
next
  case picked_up
  then show ?thesis using pickup_new_Inr by (fastforce simp: pickup_tx_def monad_simps journalled_def)
next
  case marked
  then show ?thesis using mark_new_Inr by (fastforce simp: mark_completion_def monad_simps)
next
  case completed
  then show ?thesis using completion_new_Inr by (fastforce simp: commit_completion_def monad_simps journalled_def)
next
  case other
  then show ?thesis by simp
qed

lemma runs_stay:
  assumes "flow_step sha d d'" and "flow_inv d" and "run_of p w d \<noteq> None"
  shows "run_of p w d' \<noteq> None"
proof -
  from assms(3) obtain r where "run_of p w d = Some r" by blast
  then have "r \<in> set (db_runs d)" "run_key r = (p, w)" by (auto dest: run_ofD run_of_key)
  then obtain r' where "r' \<in> set (db_runs d')" "run_key r' = (p, w)"
    using flow_step_inv_keeps [OF assms(1,2)] unfolding keeps_runs_def by metis
  then show ?thesis by (auto simp: run_of_def run_key_def table_simps)
qed

text \<open>The transactions that write the journal, by request. Each answers a repetition from it.\<close>

datatype flow_request =
    StartReq "(string \<times> json) list" string string string "(string \<times> json) list" string string string
  | HandoffReq string string flow_route string string string string
  | PickupReq string string int string string string
  | CompletionReq string string string string string "(string \<times> json) list"

fun run_request :: "(string \<Rightarrow> string) \<Rightarrow> timestamp \<Rightarrow> flow_request \<Rightarrow> db \<Rightarrow> ((flow_run + unit) \<times> db) res" where
  "run_request sha t (StartReq settings dg p w fv actor op digest) d =
     bindR (load_flow settings dg) (\<lambda>flow. bindR (flow_state_of flow (fd_entry flow)) (\<lambda>st.
       start_tx sha t p w flow st fv actor op digest d))"
| "run_request sha t (HandoffReq p w rt h actor op digest) d = commit_handoff sha t p w rt h actor op digest d"
| "run_request sha t (PickupReq p w version actor op digest) d = pickup_tx sha t p w version actor op digest d"
| "run_request sha t (CompletionReq p w actor op digest ev) d = commit_completion sha t p w actor op digest ev d"

fun request_id :: "flow_request \<Rightarrow> string \<times> string \<times> string" where
  "request_id (StartReq settings dg p w fv actor op digest) = (p, op, digest)"
| "request_id (HandoffReq p w rt h actor op digest) = (p, op, digest)"
| "request_id (PickupReq p w version actor op digest) = (p, op, digest)"
| "request_id (CompletionReq p w actor op digest ev) = (p, op, digest)"

text \<open>What a repetition needs: the journal entry with its run, and the run the request locks first.\<close>

fun locks_run :: "flow_request \<Rightarrow> db \<Rightarrow> bool" where
  "locks_run (HandoffReq p w rt h actor op digest) d = (run_of p w d \<noteq> None)"
| "locks_run (CompletionReq p w actor op digest ev) d = (run_of p w d \<noteq> None)"
| "locks_run (StartReq settings dg p w fv actor op digest) d =
     (case load_flow settings dg of Inl e \<Rightarrow> False | Inr flow \<Rightarrow> \<not> isl (flow_state_of flow (fd_entry flow)))"
| "locks_run (PickupReq p w version actor op digest) d = True"

definition recorded :: "flow_request \<Rightarrow> flow_run + unit \<Rightarrow> db \<Rightarrow> bool" where
  "recorded q x d = (locks_run q d \<and> (\<exists>j\<in>set (db_journal d).
     (jo_project j, jo_operation j, jo_digest j) = request_id q
     \<and> run_of (jo_project j) (jo_work j) d \<noteq> None))"

lemma replayed_Some:
  assumes inv: "flow_inv d" and j: "j \<in> set (db_journal d)"
  shows "replayed (jo_project j) (jo_operation j) (jo_digest j) d = Inr (Some (jo_work j))"
proof -
  have "fetchone (\<lambda>x. jo_project x = jo_project j \<and> jo_operation x = jo_operation j) (db_journal d) = Some j"
    using flow_invD(3) [OF inv] unfolding journal_inv_def
    by (intro fetchone_unique [where k = "\<lambda>j. (jo_project j, jo_operation j)", OF _ j]) auto
  then show ?thesis by (simp add: replayed_def)
qed

lemma replaying_recorded:
  assumes "flow_inv d" and "j \<in> set (db_journal d)"
    and "(jo_project j, jo_operation j, jo_digest j) = (p, op, digest)" and "run_of (jo_project j) (jo_work j) d = Some r"
  shows "replaying p op digest d fresh = Inr (Inl (run_record r), d)"
  using replayed_Some [OF assms(1,2)] assms(3,4) by (simp add: replaying_def get_run_def lock_run_def)

lemma recorded_replays:
  assumes "recorded q x d" and inv: "flow_inv d"
  shows "\<exists>j r. j \<in> set (db_journal d) \<and> (jo_project j, jo_operation j, jo_digest j) = request_id q
    \<and> run_of (jo_project j) (jo_work j) d = Some r \<and> run_request sha t q d = Inr (Inl (run_record r), d)"
proof -
  from assms(1) obtain j r where j: "locks_run q d" "j \<in> set (db_journal d)"
    "(jo_project j, jo_operation j, jo_digest j) = request_id q" "run_of (jo_project j) (jo_work j) d = Some r"
    by (auto simp: recorded_def)
  have "run_request sha t q d = Inr (Inl (run_record r), d)"
    using j(1,3) replaying_recorded [OF inv j(2) _ j(4)]
    by (cases q) (auto simp: start_tx_def commit_handoff_def pickup_tx_def commit_completion_def lock_run_def
      isl_def bindR_def split: sum.splits)
  with j show ?thesis by blast
qed

lemma request_step: "run_request sha t q d = Inr (x, d') \<Longrightarrow> flow_step sha d d'"
  by (cases q) (auto simp: monad_simps intro: flow_step.intros)

lemma replaying_records:
  assumes "replaying p op digest d fresh = Inr (x, d')"
    and "\<And>y. fresh = Inr (y, d') \<Longrightarrow> (\<exists>a to'. journalled p w op digest a to' d d') \<and> run_of p w d' \<noteq> None"
  shows "\<exists>j\<in>set (db_journal d'). (jo_project j, jo_operation j, jo_digest j) = (p, op, digest)
    \<and> run_of (jo_project j) (jo_work j) d' \<noteq> None"
  using assms by (fastforce simp: monad_simps journalled_def get_run_def dest: replayed_iff(2))

lemma request_records:
  assumes s: "run_request sha t q d = Inr (x, d')" and inv: "flow_inv d"
  shows "recorded q x d'"
proof -
  note keep = runs_stay [OF request_step [OF s] inv]
  show ?thesis
  proof (cases q)
    case (StartReq settings dg p w fv actor op digest)
    with s obtain flow st where f: "load_flow settings dg = Inr flow" "flow_state_of flow (fd_entry flow) = Inr st"
      and r: "replaying p op digest d (start_new sha t p w flow st fv actor op digest d) = Inr (x, d')"
      by (auto simp: monad_simps start_tx_def)
    have "\<exists>j\<in>set (db_journal d'). (jo_project j, jo_operation j, jo_digest j) = (p, op, digest)
        \<and> run_of (jo_project j) (jo_work j) d' \<noteq> None"
    proof (rule replaying_records [OF r])
      fix y assume "start_new sha t p w flow st fv actor op digest d = Inr (y, d')"
      from start_new_Inr [OF this] show "(\<exists>a to'. journalled p w op digest a to' d d') \<and> run_of p w d' \<noteq> None"
        by (auto simp: run_of_def run_key_def table_simps)
    qed
    with f StartReq show ?thesis by (simp add: recorded_def)
  next
    case (HandoffReq p w rt h actor op digest)
    with s obtain r where run: "run_of p w d = Some r"
      and r: "replaying p op digest d (handoff_new sha t p w rt h actor op digest r d) = Inr (x, d')"
      by (auto simp: monad_simps commit_handoff_def)
    have "run_of p w d' \<noteq> None" using keep run by simp
    then have "\<exists>j\<in>set (db_journal d'). (jo_project j, jo_operation j, jo_digest j) = (p, op, digest)
        \<and> run_of (jo_project j) (jo_work j) d' \<noteq> None"
      by (intro replaying_records [OF r]) (use handoff_new_Inr [OF _ run] in blast)
    with HandoffReq \<open>run_of p w d' \<noteq> None\<close> show ?thesis by (simp add: recorded_def)
  next
    case (PickupReq p w version actor op digest)
    with s have r: "replaying p op digest d (pickup_new sha t p w version actor op digest d) = Inr (x, d')"
      by (auto simp: pickup_tx_def)
    have "\<exists>j\<in>set (db_journal d'). (jo_project j, jo_operation j, jo_digest j) = (p, op, digest)
        \<and> run_of (jo_project j) (jo_work j) d' \<noteq> None"
    proof (rule replaying_records [OF r])
      fix y assume "pickup_new sha t p w version actor op digest d = Inr (y, d')"
      from pickup_new_Inr [OF this] have "run_of p w d \<noteq> None" "\<exists>a to'. journalled p w op digest a to' d d'"
        by blast+
      with keep show "(\<exists>a to'. journalled p w op digest a to' d d') \<and> run_of p w d' \<noteq> None" by blast
    qed
    with PickupReq show ?thesis by (simp add: recorded_def)
  next
    case (CompletionReq p w actor op digest ev)
    with s obtain r where run: "run_of p w d = Some r"
      and r: "replaying p op digest d (completion_new sha t p w actor op digest ev r d) = Inr (x, d')"
      by (auto simp: monad_simps commit_completion_def)
    have "run_of p w d' \<noteq> None" using keep run by simp
    then have "\<exists>j\<in>set (db_journal d'). (jo_project j, jo_operation j, jo_digest j) = (p, op, digest)
        \<and> run_of (jo_project j) (jo_work j) d' \<noteq> None"
      by (intro replaying_records [OF r]) (use completion_new_Inr [OF _ run] in blast)
    with CompletionReq \<open>run_of p w d' \<noteq> None\<close> show ?thesis by (simp add: recorded_def)
  qed
qed

lemma recorded_stays:
  assumes st: "flow_step sha d d'" and inv: "flow_inv d" and r: "recorded q x d"
  shows "recorded q x d'"
proof -
  have "locks_run q d \<Longrightarrow> locks_run q d'" using runs_stay [OF st inv] by (cases q) auto
  moreover from r obtain j where "j \<in> set (db_journal d)" "(jo_project j, jo_operation j, jo_digest j) = request_id q"
    "run_of (jo_project j) (jo_work j) d \<noteq> None" by (auto simp: recorded_def)
  moreover from journal_grows [OF st] have "set (db_journal d) \<subseteq> set (db_journal d')" by auto
  ultimately show ?thesis using r runs_stay [OF st inv] unfolding recorded_def by blast
qed

interpretation operations: keyed_requests "flow_step sha" flow_inv "run_request sha" recorded "\<lambda>x y. isl y" for sha
proof
  show "flow_inv s'" if "run_request sha t r s = Inr (x, s')" "flow_inv s" for t r s x s'
    using flow_step_inv_keeps [OF request_step [OF that(1)] that(2)] by blast
  show "recorded r x s'" if "run_request sha t r s = Inr (x, s')" "flow_inv s" for t r s x s'
    using that by (rule request_records)
  show "\<exists>y. run_request sha t r s = Inr (y, s) \<and> isl y" if "recorded r x s" "flow_inv s" for r x s t
    using recorded_replays [OF that] by fastforce
  show "recorded r x s'" if "flow_step sha s s'" "flow_inv s" "recorded r x s" for s s' r x
    using that by (rule recorded_stays)
qed

end
