(* ===== verification/FlowSamples.thy ===== *)
theory FlowSamples
  imports FlowRequests Samples FlowDefinitionProperties
begin

text \<open>
  A run of a two-state flow over the sample project, for instances of the properties: started,
  made ready, prepared, picked up.
\<close>

section \<open>A sample run\<close>

definition tiny_json :: json where
  "tiny_json = JObj [(''entry_state'', JStr ''a''), (''flow_id'', JStr ''f''), (''leader_role'', JStr ''dev''),
     (''schema_version'', JInt 1),
     (''states'', JObj [
        (''a'', JObj [(''artifact'', JStr ''{work_item_id}''), (''gates'', JList [JObj [(''id'', JStr ''g'')]]),
           (''owner_role'', JStr ''dev''), (''purpose'', JStr ''x''),
           (''routes'', JList [JObj [(''id'', JStr ''r''), (''outcome'', JStr ''ok''), (''target_role'', JStr ''qa''),
              (''target_state'', JStr ''b'')]]),
           (''terminal'', JBool False)]),
        (''b'', JObj [(''artifact'', JStr ''{work_item_id}''), (''owner_role'', JStr ''qa''),
           (''purpose'', JStr ''x''), (''terminal'', JBool True)])]),
     (''terminal_states'', JList [JStr ''b''])]"

definition route_r :: flow_route where
  "route_r = \<lparr>ft_id = ''r'', ft_outcome = ''ok'', ft_state = ''b'', ft_role = ''qa'', ft_when = None\<rparr>"

definition state_a :: flow_state where
  "state_a = \<lparr>fs_id = ''a'', fs_owner = ''dev'', fs_purpose = ''x'', fs_artifact = ''{work_item_id}'', fs_consults = [],
     fs_gates = [\<lparr>ac_id = ''g'', ac_kind = KGate, ac_role = ''dev'', ac_payload = [(''id'', JStr ''g'')], ac_when = None\<rparr>],
     fs_informs = [], fs_routes = [route_r], fs_terminal = False\<rparr>"

definition state_b :: flow_state where
  "state_b = \<lparr>fs_id = ''b'', fs_owner = ''qa'', fs_purpose = ''x'', fs_artifact = ''{work_item_id}'', fs_consults = [],
     fs_gates = [], fs_informs = [], fs_routes = [], fs_terminal = True\<rparr>"

definition tiny_flow :: flow_definition where
  "tiny_flow = \<lparr>fd_id = ''f'', fd_leader = ''dev'', fd_entry = ''a'', fd_terminals = [''b''],
     fd_states = [(''a'', state_a), (''b'', state_b)], fd_snapshot = tiny_json, fd_digest = sample_digest\<rparr>"

definition base_db :: db where
  "base_db = project_db\<lparr>db_handoffs := [the_handoff\<lparr>ho_status := Accepted\<rparr>]\<rparr>"

definition a_run :: flow_row where
  "a_run = \<lparr>fr_project = ''p'', fr_work = ''w'', fr_flow = ''f'', fr_digest = sample_digest, fr_state = ''a'',
     fr_owner = ''dev'', fr_status = FlowActive, fr_fields = [], fr_version = 1, fr_route = None, fr_target = None,
     fr_target_role = None, fr_handoff = None, fr_snapshot = tiny_json, fr_operation = None, fr_request = None\<rparr>"

definition run_pinned :: flow_row where
  "run_pinned = a_run\<lparr>fr_status := HandoffPreparing, fr_route := Some ''r'', fr_target := Some ''b'',
     fr_target_role := Some ''qa'', fr_operation := Some ''op2'', fr_request := Some ''x2''\<rparr>"

definition a_obligation :: "obligation_kind \<Rightarrow> string \<Rightarrow> (string \<times> json) list \<Rightarrow> obligation_status \<Rightarrow> flow_obligation" where
  "a_obligation k i payload st = \<lparr>fo_project = ''p'', fo_work = ''w'', fo_state = ''a'', fo_entry = 1, fo_kind = k,
     fo_id = i, fo_role = ''dev'', fo_payload = payload, fo_status = st, fo_evidence = []\<rparr>"

definition a_obligations :: "obligation_status \<Rightarrow> flow_obligation list" where
  "a_obligations st = [a_obligation KArtifact ''artifact'' [(''path'', JStr ''{work_item_id}'')] st,
     a_obligation KGate ''g'' [(''id'', JStr ''g'')] st]"

definition an_entry :: "int \<Rightarrow> string \<Rightarrow> string \<Rightarrow> string \<Rightarrow> string option \<Rightarrow> string \<Rightarrow> string option \<Rightarrow>
    string option \<Rightarrow> string \<Rightarrow> (string \<times> json) list \<Rightarrow> journal_row" where
  "an_entry n op dg action from to' rt h actor ev = \<lparr>jo_project = ''p'', jo_work = ''w'', jo_sequence = n,
     jo_operation = op, jo_digest = dg, jo_action = action, jo_from = from, jo_to = to', jo_route = rt,
     jo_handoff = h, jo_actor = actor, jo_evidence = ev\<rparr>"

definition an_event :: "int \<Rightarrow> string \<Rightarrow> string \<Rightarrow> string \<Rightarrow> (string \<times> json) list \<Rightarrow> stored_event" where
  "an_event n actor op ty payload = \<lparr>ev_id = n, ev_project = ''p'', ev_work = ''w'', ev_actor = actor,
     ev_correlation = op, ev_causation = None, ev_agg_type = ''flow-run'', ev_agg_id = ''w'', ev_type = ty,
     ev_payload = payload, ev_occurred = 59 + n\<rparr>"

definition a_message :: "int \<Rightarrow> string \<Rightarrow> (string \<times> json) list \<Rightarrow> string \<Rightarrow> outbox_row" where
  "a_message n ty payload k = \<lparr>ob_id = n, ob_project = ''p'', ob_event = n, ob_topic = ty, ob_payload = payload,
     ob_key = k, ob_available = 59 + n, ob_dispatched = None, ob_attempts = 0, ob_error = None\<rparr>"

definition started_db :: db where
  "started_db = base_db\<lparr>db_runs := [a_run], db_obligations := a_obligations ObPending,
     db_journal := [an_entry 1 ''op1'' ''x1'' ''start'' None ''a'' None None ''dev1'' [(''flow_digest'', JStr sample_digest)]],
     db_events := [an_event 1 ''dev1'' ''op1'' ''flow.started'' [(''state'', JStr ''a''), (''owner_role_id'', JStr ''dev'')]],
     db_outbox := [a_message 1 ''flow.started'' [(''state'', JStr ''a''), (''owner_role_id'', JStr ''dev'')] ''p:1:w'']\<rparr>"

definition met :: "obligation_kind \<Rightarrow> string \<Rightarrow> gov_decision \<Rightarrow> governance_row" where
  "met k i x = \<lparr>go_project = ''p'', go_work = ''w'', go_id = i, go_state = ''a'', go_entry = 1,
     go_kind = k, go_obligation = i, go_decision = x, go_actor = ''qa'', go_reason = [], go_evidence = [],
     go_path = None, go_etag = None, go_recorded = 0, go_digest = []\<rparr>"

definition ready_db :: db where
  "ready_db = started_db\<lparr>db_obligations := a_obligations ObSatisfied,
      db_governance := [met KArtifact ''artifact'' Verified, met KGate ''g'' GovApproved]\<rparr>"

definition pinned_db :: db where
  "pinned_db = ready_db\<lparr>db_runs := [run_pinned]\<rparr>"

definition prepared_db :: db where
  "prepared_db = pinned_db\<lparr>
     db_runs := [run_pinned\<lparr>fr_status := HandoffPending, fr_handoff := Some ''handoff-k2'', fr_version := 2\<rparr>],
     db_journal := db_journal started_db
       @ [an_entry 2 ''op2'' ''x2'' ''prepare'' (Some ''a'') ''b'' (Some ''r'') (Some ''handoff-k2'') ''dev1'' []],
     db_events := db_events started_db @ [an_event 2 ''dev1'' ''op2'' ''flow.handoff_prepared''
       [(''route_id'', JStr ''r''), (''handoff_id'', JStr ''handoff-k2'')]],
     db_outbox := db_outbox started_db @ [a_message 2 ''flow.handoff_prepared''
       [(''route_id'', JStr ''r''), (''handoff_id'', JStr ''handoff-k2'')] ''p:2:w'']\<rparr>"

definition entered_db :: db where
  "entered_db = prepared_db\<lparr>
     db_runs := [a_run\<lparr>fr_state := ''b'', fr_owner := ''qa'', fr_version := 3\<rparr>],
     db_works := map (\<lambda>r. r\<lparr>wi_owner := Some ''qa'', wi_version := 3\<rparr>) (db_works base_db),
     db_obligations := a_obligations ObSatisfied
       @ [(a_obligation KArtifact ''artifact'' [(''path'', JStr ''{work_item_id}'')] ObPending)
          \<lparr>fo_state := ''b'', fo_entry := 3, fo_role := ''qa''\<rparr>],
     db_journal := db_journal prepared_db
       @ [an_entry 3 ''op3'' ''x3'' ''pickup'' (Some ''a'') ''b'' (Some ''r'') (Some ''handoff-k2'') ''qa1'' []],
     db_events := db_events prepared_db @ [an_event 3 ''qa1'' ''op3'' ''flow.transition_picked_up''
       [(''state'', JStr ''b''), (''owner_role_id'', JStr ''qa'')]],
     db_outbox := db_outbox prepared_db @ [a_message 3 ''flow.transition_picked_up''
       [(''state'', JStr ''b''), (''owner_role_id'', JStr ''qa'')] ''p:3:wk'']\<rparr>"

lemma loads_by_parts:
  assumes "as_obj v \<noteq> None" and "sorted_json v = v" and "validate_flow v digest = Inr f"
  shows "load_flow [(''flow'', v)] digest = Inr f"
  using assms by (cases v) (simp_all add: load_flow_def get_def get_or_def)

lemma tiny_loads: "load_flow [(''flow'', tiny_json)] sample_digest = Inr tiny_flow"
  by (rule loads_by_parts) code_simp+

lemma start_runs:
  "start_tx sample_sha 60 ''p'' ''w'' tiny_flow state_a [] ''dev1'' ''op1'' ''x1'' base_db = Inr (Inr (), started_db)"
  by code_simp

lemma pin_runs: "pin_route ''p'' ''w'' ''ok'' [] 1 ''op2'' ''x2'' ready_db = Inr (Inr route_r, pinned_db)"
  by code_simp

lemma commit_runs:
  "commit_handoff sample_sha 61 ''p'' ''w'' route_r ''handoff-k2'' ''dev1'' ''op2'' ''x2'' pinned_db = Inr (Inr (), prepared_db)"
  by code_simp

lemma pickup_runs:
  "pickup_tx sample_sha 62 ''p'' ''w'' 2 ''qa1'' ''op3'' ''x3'' prepared_db = Inr (Inr (), entered_db)"
  by code_simp

lemma base_db_reachable: "flow_reachable sample_sha base_db"
  unfolding flow_reachable_def
  by (rule r_into_rtranclp, rule flow_step.other) (simp_all add: base_db_def project_db_def empty_db_def)

lemma started_step: "flow_step sample_sha base_db started_db"
  using tiny_loads _ start_runs
  by (rule flow_step.started) (simp add: flow_state_of_def tiny_flow_def)

lemma started_db_reachable: "flow_reachable sample_sha started_db"
  by (rule flow_reachable_step [OF base_db_reachable started_step])

lemma ready_db_reachable: "flow_reachable sample_sha ready_db"
  by (rule flow_reachable_step [OF started_db_reachable], rule flow_step.other)
    (simp_all add: ready_db_def started_db_def a_obligations_def a_obligation_def fo_core_def fo_key_def)

lemma pinned_step: "flow_step sample_sha ready_db pinned_db"
  using pin_runs by (rule flow_step.pinned)

lemma prepared_step: "flow_step sample_sha pinned_db prepared_db"
  using commit_runs by (rule flow_step.prepared)

lemma prepared_db_reachable: "flow_reachable sample_sha prepared_db"
  by (rule flow_reachable_step [OF flow_reachable_step [OF ready_db_reachable pinned_step] prepared_step])

lemma entered_step: "flow_step sample_sha prepared_db entered_db"
  using pickup_runs by (rule flow_step.picked_up)

lemma entered_db_reachable: "flow_reachable sample_sha entered_db"
  by (rule flow_reachable_step [OF prepared_db_reachable entered_step])

end
