(* ===== verification/FlowProperties.thy ===== *)
theory FlowProperties
  imports FlowSamples
begin

text \<open>
  The properties of the flow engine, with instances on the run of \<open>FlowSamples\<close>.
\<close>

section \<open>Runs and their flow\<close>

text \<open>C3. A run follows its flow: in any interleaving of transactions, every step leaves a run as it
  was or makes one move of the machine of the flow it was started with (prepare, hand over,
  enter a state along a route, complete in a terminal state), and the pinned flow never changes.\<close>

theorem runs_follow_their_flow:
  assumes "flow_reachable sha d" and "flow_step sha d d'" and "r \<in> set (db_runs d)"
  shows "\<exists>r'\<in>set (db_runs d'). run_key r' = run_key r \<and> fr_snapshot r' = fr_snapshot r
    \<and> fr_digest r' = fr_digest r \<and> (run_view r' = run_view r
       \<or> (\<exists>f. validate_flow (fr_snapshot r) (fr_digest r) = Inr f \<and> flow_move f (run_view r) (run_view r')))"
  using flow_step_inv_keeps [OF assms(2) flow_reachable_inv [OF assms(1)]] assms(3)
  unfolding keeps_runs_def pinned_flow_def by blast

theorem runs_follow_their_flow_witness:
  "\<exists>r'\<in>set (db_runs entered_db). run_key r' = (''p'', ''w'') \<and> fr_snapshot r' = tiny_json"
proof -
  let ?r = "run_pinned\<lparr>fr_status := HandoffPending, fr_handoff := Some ''handoff-k2'', fr_version := 2\<rparr>"
  have r: "?r \<in> set (db_runs prepared_db)" "run_key ?r = (''p'', ''w'')" "fr_snapshot ?r = tiny_json"
    by (simp_all add: prepared_db_def run_pinned_def a_run_def run_key_def)
  from runs_follow_their_flow [OF prepared_db_reachable entered_step r(1)] show ?thesis
    unfolding r(2,3) by blast
qed

text \<open>C4. A run and its flow agree: in every reachable state the pinned flow of a run is valid,
  the run is in one of its states and owned by that state's owner, its pending columns are the
  ones its status requires, and a pending target is reached by a route of the state and is
  owned by the pending role.\<close>

theorem runs_match_their_flow:
  assumes "flow_reachable sha d" and "r \<in> set (db_runs d)"
  shows "\<exists>f st. validate_flow (fr_snapshot r) (fr_digest r) = Inr f \<and> map_of (fd_states f) (fr_state r) = Some st
    \<and> fr_owner r = fs_owner st \<and> run_check r \<and> 1 \<le> fr_version r
    \<and> (case fr_target r of None \<Rightarrow> True | Some s \<Rightarrow> (fr_state r, s) \<in> edges (fd_states f)
         \<and> map_option fs_owner (map_of (fd_states f) s) = fr_target_role r)"
proof -
  from flow_invD(4) [OF flow_reachable_inv [OF assms(1)] assms(2)] obtain f st where
    ck: "run_check r" "1 \<le> fr_version r" and at: "run_at r f st" by blast
  then have f: "pinned_flow r = Inr f" "flow_state_of f (fr_state r) = Inr st" "map_of (fd_states f) (fr_state r) = Some st"
    by (auto simp: run_at_def flow_state_of_def monad_simps)
  have "(fr_state r, s) \<in> edges (fd_states f) \<and> map_option fs_owner (map_of (fd_states f) s) = fr_target_role r"
    if s: "fr_target r = Some s" for s
  proof -
    from ck(1) s have "fr_status r = HandoffPreparing \<or> fr_status r = HandoffPending"
      by (auto simp: run_check_def split: if_splits)
    with at s obtain rt where rt: "rt \<in> set (fs_routes st)" "s = ft_state rt" "fr_target_role r = Some (ft_role rt)"
      by (auto simp: run_at_def)
    have "validate_flow (fr_snapshot r) (fr_digest r) = Inr f" using f(1) by (simp add: pinned_flow_def)
    then have "valid_flow f" by (rule validate_flow_valid)
    moreover have "(fr_state r, st) \<in> set (fd_states f)" using f(3) by (rule map_of_SomeD)
    ultimately have "check_state (fd_states f) st" by (auto simp: valid_flow_def)
    with rt have "map_option fs_owner (map_of (fd_states f) s) = fr_target_role r"
      by (auto simp: check_state_def list_all_iff split: option.splits)
    with state_in_flow(2) [OF f(1,2) rt(1)] rt(2) show ?thesis by simp
  qed
  with f ck at show ?thesis by (auto simp: run_at_def pinned_flow_def split: option.splits)
qed

theorem runs_match_their_flow_witness:
  "\<exists>f st. validate_flow tiny_json sample_digest = Inr f \<and> map_of (fd_states f) ''a'' = Some st \<and> fs_owner st = ''dev''
     \<and> (''a'', ''b'') \<in> edges (fd_states f)"
proof -
  have r: "run_pinned \<in> set (db_runs pinned_db)" by (simp add: pinned_db_def)
  from runs_match_their_flow [OF flow_reachable_step [OF ready_db_reachable pinned_step] r]
  show ?thesis by (auto simp: run_pinned_def a_run_def)
qed

text \<open>What leaving a state demands of an obligation, and the evidence for one.\<close>

definition evidence_for :: "db \<Rightarrow> flow_row \<Rightarrow> flow_action \<Rightarrow> gov_decision \<Rightarrow> bool" where
  "evidence_for d r a x = (\<exists>e\<in>set (db_governance d). go_project e = fr_project r \<and> go_work e = fr_work r
     \<and> go_state e = fr_state r \<and> go_entry e = fr_version r \<and> go_kind e = ac_kind a \<and> go_obligation e = ac_id a
     \<and> go_decision e = x)"

definition obligation_met :: "db \<Rightarrow> flow_row \<Rightarrow> flow_action \<Rightarrow> bool" where
  "obligation_met d r a = (\<exists>o'\<in>set (db_obligations d). current_obligation r o'
     \<and> fo_kind o' = ac_kind a \<and> fo_id o' = ac_id a \<and> fo_role o' = ac_role a \<and> fo_payload o' = ac_payload a
     \<and> (case ac_kind a of
          KArtifact \<Rightarrow> fo_status o' = ObSatisfied \<and> evidence_for d r a Verified
        | KGate \<Rightarrow> fo_status o' = ObSatisfied \<and> (evidence_for d r a GovApproved \<or> evidence_for d r a GovException)
        | KConsult \<Rightarrow> evidence_for d r a GovException
            \<or> fo_status o' = ObDispatched \<and> evidence_for d r a Responded
        | KInform \<Rightarrow> fo_status o' = ObDispatched))"

lemma has_evidence_for:
  assumes "current_obligation r o'" and "fo_kind o' = ac_kind a" and "fo_id o' = ac_id a"
  shows "has_evidence o' D d \<longleftrightarrow> (\<exists>x. D x \<and> evidence_for d r a x)"
  using assms by (auto simp: has_evidence_def evidence_for_def current_obligation_def table_simps)

lemma ready_obligation_met:
  assumes inv: "flow_inv d" and run: "r \<in> set (db_runs d)" "fr_status r = FlowActive" "run_at r f st"
    and a: "a \<in> set (state_obligations st (fr_fields r))" and ready: "require_ready r d = Inr ()"
  shows "obligation_met d r a"
proof -
  let ?n = "new_obligation (fr_project r) (fr_work r) (fr_state r) (fr_version r) a"
  from flow_invD(2) [OF inv] run have "current_cores r (db_obligations d) = entry_cores r st"
    unfolding obligations_inv_def by blast
  then have "fo_core ?n \<in> current_cores r (db_obligations d)" using a by (auto simp: entry_cores_def)
  then obtain o' where o': "o' \<in> set (db_obligations d)" "current_obligation r o'" "fo_core o' = fo_core ?n"
    unfolding current_cores_def by force
  then have f: "fo_kind o' = ac_kind a" "fo_id o' = ac_id a" "fo_role o' = ac_role a" "fo_payload o' = ac_payload a"
    by (simp_all add: fo_core_def fo_key_def new_obligation_def)
  from ready o' have "\<not> blocking d o'" by (auto simp: require_ready_def monad_simps table_simps)
  with f(1) has_evidence_for [OF o'(2) f(1,2)]
  have "case ac_kind a of
          KArtifact \<Rightarrow> fo_status o' = ObSatisfied \<and> evidence_for d r a Verified
        | KGate \<Rightarrow> fo_status o' = ObSatisfied \<and> (evidence_for d r a GovApproved \<or> evidence_for d r a GovException)
        | KConsult \<Rightarrow> evidence_for d r a GovException \<or> fo_status o' = ObDispatched \<and> evidence_for d r a Responded
        | KInform \<Rightarrow> fo_status o' = ObDispatched"
    by (auto simp: blocking_def split: obligation_kind.splits)
  with o' f show ?thesis unfolding obligation_met_def by blast
qed

text \<open>C20. No state is left before its work is done: a transition is only prepared, and a run only
  completed, when for every obligation of the present state that applies to the run's fields there
  is the demanded evidence for this very entry: a verified artifact, an approved or excepted
  gate, a response to a dispatched consult or an exception, a dispatched inform.\<close>

theorem ready_before_leaving:
  assumes "flow_reachable sha d" and "run_of p w d = Some r" and "fr_status r = FlowActive"
    and "validate_flow (fr_snapshot r) (fr_digest r) = Inr f" and "map_of (fd_states f) (fr_state r) = Some st"
    and "a \<in> set (state_obligations st (fr_fields r))"
    and "pin_route p w outcome fv version op digest d = Inr (Inr rt, d')
      \<or> mark_completion p w version op digest d = Inr (Inr (), d')"
  shows "obligation_met d r a"
proof -
  have r: "r \<in> set (db_runs d)" using run_ofD [OF assms(2)] by blast
  note inv = flow_reachable_inv [OF assms(1)]
  from flow_invD(4) [OF inv r] obtain f' st' where at': "run_at r f' st'" by blast
  then have "f' = f" "st' = st" using assms(4,5)
    by (auto simp: run_at_def pinned_flow_def flow_state_of_def)
  with at' have at: "run_at r f st" by simp
  from assms(7) have "require_ready r d = Inr ()"
    using assms(2,3)
    by (auto simp: pin_route_def mark_completion_def pin_new_def mark_new_def monad_simps split: if_splits)
  from ready_obligation_met [OF inv r assms(3) at assms(6) this] show ?thesis .
qed

theorem ready_before_leaving_witness:
  "obligation_met ready_db a_run (hd (fs_gates state_a)) \<and> obligation_met ready_db a_run (artifact_action state_a)"
proof -
  have run: "run_of ''p'' ''w'' ready_db = Some a_run" "fr_status a_run = FlowActive" by code_simp+
  have v: "validate_flow (fr_snapshot a_run) (fr_digest a_run) = Inr tiny_flow" by code_simp
  have m: "map_of (fd_states tiny_flow) (fr_state a_run) = Some state_a" by code_simp
  have "hd (fs_gates state_a) \<in> set (state_obligations state_a (fr_fields a_run))"
    "artifact_action state_a \<in> set (state_obligations state_a (fr_fields a_run))"
    by (simp_all add: state_obligations_def state_a_def applies_def)
  from this [THEN ready_before_leaving [OF ready_db_reachable run v m _ disjI1 [OF pin_runs]]] show ?thesis by blast
qed

text \<open>A state is entered only through an accepted handoff: when a pickup takes effect, the
  pending handoff of the run was accepted, the new state is the target the run was prepared for,
  run and work item now belong to the role the target state names, and the new entry has exactly
  the obligations of that state, all pending.\<close>

theorem pickup_follows_acceptance:
  assumes "flow_reachable sha d" and "pickup_tx sha t p w version actor op digest d = Inr (Inr (), d')"
  shows "\<exists>r f st h r'. run_of p w d = Some r \<and> handoff_row_of p h d \<noteq> None \<and> fr_handoff r = Some h
    \<and> map_option ho_status (handoff_row_of p h d) = Some Accepted
    \<and> validate_flow (fr_snapshot r) (fr_digest r) = Inr f \<and> map_of (fd_states f) (fr_state r') = Some st
    \<and> run_of p w d' = Some r' \<and> fr_target r = Some (fr_state r') \<and> fr_status r' = FlowActive
    \<and> fr_version r' = fr_version r + 1
    \<and> fr_target_role r = Some (fr_owner r') \<and> fr_owner r' = fs_owner st
    \<and> (\<exists>x\<in>set (db_works d'). work_key x = (p, w) \<and> wi_owner x = Some (fr_owner r'))
    \<and> filter (current_obligation r') (db_obligations d')
        = map (new_obligation p w (fr_state r') (fr_version r')) (state_obligations st (fr_fields r))"
proof -
  note inv = flow_reachable_inv [OF assms(1)]
  from assms(2) have s: "pickup_new sha t p w version actor op digest d = Inr ((), d')"
    by (auto simp: pickup_tx_def monad_simps)
  from pickup_new_Inr [OF s] obtain r flow target h where
    run: "run_of p w d = Some r" and r: "fr_status r = HandoffPending" "fr_version r = version" "fr_handoff r = Some h"
      "map_option ho_status (handoff_row_of p h d) = Some Accepted"
      "pinned_flow r = Inr flow" "flow_state_of flow (the (fr_target r)) = Inr target"
      "fr_target_role r = Some (fs_owner target)"
    and u: "run_updated r (\<lambda>r. r\<lparr>fr_state := fs_id target, fr_owner := fs_owner target,
             fr_status := FlowActive, fr_route := None, fr_target := None, fr_target_role := None,
             fr_handoff := None, fr_operation := None, fr_request := None, fr_version := version + 1\<rparr>) d d'"
      (is "run_updated r ?f d d'")
    and wk: "db_works d' = upd_where (\<lambda>r. wi_project r = p \<and> wi_id r = w \<and> wi_status r = ''active'')
             (\<lambda>r. r\<lparr>wi_owner := Some (fs_owner target), wi_version := wi_version r + 1\<rparr>) (db_works d)"
      "has_row (\<lambda>r. wi_project r = p \<and> wi_id r = w \<and> wi_status r = ''active'') (db_works d)"
    and ob: "db_obligations d' = db_obligations d
        @ map (new_obligation p w (fs_id target) (version + 1)) (state_obligations target (fr_fields r))" by blast
  have rd: "r \<in> set (db_runs d)" "fr_project r = p" "fr_work r = w" using run_ofD [OF run] by blast+
  have "run_check r" using flow_invD(4) [OF inv rd(1)] by blast
  with r(1) obtain s' where tgt: "fr_target r = Some s'" by (auto simp: run_check_def)
  have id: "fs_id target = s'" using state_in_flow(1) [OF r(5,6)] tgt by simp
  have k: "run_key (?f x) = run_key x" for x :: flow_row by (simp add: run_key_def)
  have run': "run_of p w d' = Some (?f r)" using run_of_updated [OF u k] rd by simp
  have "filter (current_obligation (?f r)) (db_obligations d')
      = map (new_obligation p w (fs_id target) (version + 1)) (state_obligations target (fr_fields r))"
  proof -
    have "filter (current_obligation (?f r)) (db_obligations d) = []"
      using no_later_obligation [OF inv rd(1)] rd r(2) by (fastforce simp: filter_empty_conv current_obligation_def)
    moreover have "current_obligation (?f r) (new_obligation p w (fs_id target) (version + 1) a)" for a
      using rd by (simp add: current_obligation_def new_obligation_def)
    ultimately show ?thesis unfolding ob by (simp add: filter_map comp_def)
  qed
  moreover have "\<exists>x\<in>set (db_works d'). work_key x = (p, w) \<and> wi_owner x = Some (fs_owner target)"
  proof -
    from wk(2) obtain x where x: "x \<in> set (db_works d)" "wi_project x = p" "wi_id x = w" "wi_status x = ''active''"
      by (auto simp: table_simps)
    then show ?thesis unfolding wk(1)
      by (intro bexI [of _ "x\<lparr>wi_owner := Some (fs_owner target), wi_version := wi_version x + 1\<rparr>"])
        (auto simp: work_key_def set_upd_where)
  qed
  moreover have "map_of (fd_states flow) (fs_id target) = Some target"
    using r(6) tgt id by (simp add: flow_state_of_def monad_simps)
  ultimately show ?thesis using run run' r tgt id
    by (intro exI [of _ r] exI [of _ flow] exI [of _ target] exI [of _ h] exI [of _ "?f r"])
      (auto simp: pinned_flow_def)
qed

theorem pickup_follows_acceptance_witness:
  "\<exists>r'. run_of ''p'' ''w'' entered_db = Some r' \<and> fr_state r' = ''b''
    \<and> (\<exists>x\<in>set (db_works entered_db). work_key x = (''p'', ''w'') \<and> wi_owner x = Some (fr_owner r'))"
proof -
  have s: "map_option fr_state (run_of ''p'' ''w'' entered_db) = Some ''b''" by code_simp
  from pickup_follows_acceptance [OF prepared_db_reachable pickup_runs] obtain r' where
    "run_of ''p'' ''w'' entered_db = Some r'"
    "\<exists>x\<in>set (db_works entered_db). work_key x = (''p'', ''w'') \<and> wi_owner x = Some (fr_owner r')" by blast
  with s show ?thesis by auto
qed

text \<open>The journal tells the story of a run: operation ids are never used twice in a project, the
  entries of a run are numbered without gaps, and the state the run is in is the one its last
  start or pickup entry entered.\<close>

theorem journal_is_a_log:
  assumes "flow_reachable sha d" and "r \<in> set (db_runs d)"
  shows "distinct (map (\<lambda>j. (jo_project j, jo_operation j)) (db_journal d))
    \<and> map jo_sequence (run_journal (run_key r) (db_journal d))
        = [1..int (length (run_journal (run_key r) (db_journal d)))]
    \<and> entered (run_journal (run_key r) (db_journal d)) = Some (fr_state r)"
  using flow_invD(3) [OF flow_reachable_inv [OF assms(1)]] assms(2) unfolding journal_inv_def by blast

theorem journal_is_a_log_witness:
  "entered (run_journal (''p'', ''w'') (db_journal entered_db)) = Some ''b''"
proof -
  let ?r = "a_run\<lparr>fr_state := ''b'', fr_owner := ''qa'', fr_version := 3\<rparr>"
  have "?r \<in> set (db_runs entered_db)" "run_key ?r = (''p'', ''w'')" "fr_state ?r = ''b''"
    by (simp_all add: entered_db_def a_run_def run_key_def)
  with journal_is_a_log [OF entered_db_reachable this(1)] show ?thesis by simp
qed

section \<open>Operation ids\<close>

text \<open>C21. Operations are idempotent: once a start, handover, pickup or completion has been executed,
  the same request at any later time, after whatever other transactions, answers with the
  current run of the recorded work item and changes nothing.\<close>

theorem operations_replay:
  assumes "flow_reachable sha d" and "run_request sha t q d = Inr (x, d1)" and "(flow_step sha)\<^sup>*\<^sup>* d1 d2"
  shows "\<exists>j r. j \<in> set (db_journal d2) \<and> (jo_project j, jo_operation j, jo_digest j) = request_id q
    \<and> run_of (jo_project j) (jo_work j) d2 = Some r
    \<and> run_request sha t' q d2 = Inr (Inl (run_record r), d2)"
proof -
  note inv = flow_reachable_inv [OF assms(1)]
  have "flow_inv d1" using operations.run_inv [OF assms(2) inv] .
  moreover have "recorded q x d1" using operations.records [OF assms(2) inv] .
  ultimately have "recorded q x d2" "flow_inv d2"
    using operations.runs_keep [OF assms(3)] flow.runs_inv [OF assms(3)] by blast+
  then show ?thesis by (rule recorded_replays)
qed

theorem operations_replay_witness:
  "\<exists>r. run_request sample_sha 99 (HandoffReq ''p'' ''w'' route_r ''handoff-k2'' ''dev1'' ''op2'' ''x2'') entered_db
     = Inr (Inl (run_record r), entered_db)"
proof -
  have q: "run_request sample_sha 61 (HandoffReq ''p'' ''w'' route_r ''handoff-k2'' ''dev1'' ''op2'' ''x2'') pinned_db
      = Inr (Inr (), prepared_db)" using commit_runs by simp
  from operations_replay [OF flow_reachable_step [OF ready_db_reachable pinned_step] q r_into_rtranclp [of "flow_step sample_sha", OF entered_step]]
  show ?thesis by blast
qed

lemma replaying_conflict:
  assumes "flow_inv d" and "j \<in> set (db_journal d)" and "jo_digest j \<noteq> digest"
  shows "replaying (jo_project j) (jo_operation j) digest d fresh = Inl FlowEngineConflict"
proof -
  have "fetchone (\<lambda>x. jo_project x = jo_project j \<and> jo_operation x = jo_operation j) (db_journal d) = Some j"
    using flow_invD(3) [OF assms(1)] unfolding journal_inv_def
    by (intro fetchone_unique [where k = "\<lambda>j. (jo_project j, jo_operation j)", OF _ assms(2)]) auto
  with assms(3) show ?thesis by (simp add: replaying_def replayed_def)
qed

text \<open>An operation id cannot be reused for something else: a transaction under a recorded id
  with another request digest is refused as a conflict, whatever its other arguments.\<close>

theorem operation_id_conflict:
  assumes "flow_reachable sha d" and "j \<in> set (db_journal d)" and "jo_digest j \<noteq> digest"
  shows "start_tx sha t (jo_project j) w flow st fv actor (jo_operation j) digest d = Inl FlowEngineConflict
    \<and> pin_route (jo_project j) w outcome fv version (jo_operation j) digest d = Inl FlowEngineConflict
    \<and> pickup_tx sha t (jo_project j) w version actor (jo_operation j) digest d = Inl FlowEngineConflict
    \<and> mark_completion (jo_project j) w version (jo_operation j) digest d = Inl FlowEngineConflict"
  unfolding start_tx_def pin_route_def pickup_tx_def mark_completion_def
  by (intro conjI replaying_conflict [OF flow_reachable_inv [OF assms(1)] assms(2,3)])

theorem operation_id_conflict_witness:
  "pickup_tx sample_sha 70 ''p'' ''w'' 3 ''dev1'' ''op2'' ''x9'' entered_db = Inl FlowEngineConflict"
proof -
  let ?j = "an_entry 2 ''op2'' ''x2'' ''prepare'' (Some ''a'') ''b'' (Some ''r'') (Some ''handoff-k2'') ''dev1'' []"
  have j: "?j \<in> set (db_journal entered_db)" "jo_digest ?j \<noteq> ''x9''" "jo_project ?j = ''p''" "jo_operation ?j = ''op2''"
    by (simp_all add: entered_db_def prepared_db_def an_entry_def)
  from operation_id_conflict [OF entered_db_reachable j(1,2)] show ?thesis unfolding j(3,4) by blast
qed

text \<open>Starting a run twice, under a new operation id, changes nothing but is reported as a plain
  database error: the transaction wrapper has already converted the unique violation when the
  handler that would make it a flow conflict looks at it.\<close>

theorem second_start_is_a_database_error:
  assumes "run_of p w d \<noteq> None" and "\<forall>j\<in>set (db_journal d). jo_project j = p \<longrightarrow> jo_operation j \<noteq> op"
    and "flow_identifiers [p, w, actor, op] = Inr ids" and "flow_fields fv = Inr fv'"
    and "flow_state_of flow (fd_entry flow) = Inr st"
    and "work_row d p w = Some x" and "wi_status x = ''active''" and "wi_owner x = Some (fs_owner st)"
  shows "start sha t p w flow fv actor op d = (Inl DatabaseError, d)"
proof -
  have "has_row (\<lambda>x. fr_project x = p \<and> fr_work x = w) (db_runs d)"
    using assms(1) by (auto simp: run_of_def table_simps)
  then have "start_new sha t p w flow st fv' actor op digest d = Inl UniqueViolation" for digest
    using assms(6-8) by (simp add: start_new_def insert_run_def)
  moreover have "replayed p op digest d = Inr None" for digest using assms(2) by (simp add: replayed_iff(1))
  ultimately have "start_tx sha t p w flow st fv' actor op digest d = Inl UniqueViolation" for digest
    by (simp add: start_tx_def replaying_def)
  then show ?thesis using assms(3-5)
    by (simp add: start_def Let_def event_transaction_def event_wrap_def start_wrap_def database_error_def value_error_def
        atomically_def then_read_def)
qed

theorem second_start_is_a_database_error_witness:
  "start sample_sha 80 ''p'' ''w'' tiny_flow [] ''dev1'' ''op9'' started_db = (Inl DatabaseError, started_db)"
proof -
  have "run_of ''p'' ''w'' started_db \<noteq> None" "\<forall>j\<in>set (db_journal started_db). jo_project j = ''p'' \<longrightarrow> jo_operation j \<noteq> ''op9''"
    "flow_identifiers [''p'', ''w'', ''dev1'', ''op9''] = Inr [''p'', ''w'', ''dev1'', ''op9'']" "flow_fields [] = Inr []"
    "flow_state_of tiny_flow (fd_entry tiny_flow) = Inr state_a"
    "work_row started_db ''p'' ''w'' = Some (hd (db_works started_db))"
    "wi_status (hd (db_works started_db)) = ''active''" "wi_owner (hd (db_works started_db)) = Some (fs_owner state_a)"
    by code_simp+
  then show ?thesis by (rule second_start_is_a_database_error)
qed

text \<open>The digest of a start leaves out the work item: after a run was started, the same start
  for another work item does not conflict but answers with the first item's run, and the
  second item is not started.\<close>

theorem start_ignores_the_work_item:
  assumes "flow_reachable sha d" and "flow_identifiers [p, w2, actor, op] = Inr ids" and "flow_fields fv = Inr fv'"
    and "load_flow settings dg = Inr flow" and "flow_state_of flow (fd_entry flow) = Inr st"
    and "start_tx sha t p w flow st fv' actor op (request_digest sha
        [JStr ''start'', JStr (fd_digest flow), fd_snapshot flow, JObj fv', JStr actor]) d = Inr (Inr (), d1)"
  shows "\<exists>r. start sha t2 p w2 flow fv actor op d1 = (Inr r, d1) \<and> fr_work r = w"
proof -
  let ?dg = "request_digest sha [JStr ''start'', JStr (fd_digest flow), fd_snapshot flow, JObj fv', JStr actor]"
  have inv: "flow_inv d1"
    using flow_reachable_inv [OF flow_reachable_step [OF assms(1) flow_step.started [OF assms(4-6)]]] .
  from assms(6) have "start_new sha t p w flow st fv' actor op ?dg d = Inr ((), d1)"
    by (auto simp: start_tx_def monad_simps)
  from start_new_Inr [OF this] obtain r :: flow_row where r: "db_runs d1 = db_runs d @ [r]" "run_key r = (p, w)"
    and "journalled p w op ?dg ''start'' (fs_id st) d d1" by blast
  then obtain j where j: "j \<in> set (db_journal d1)" "jo_project j = p" "jo_work j = w" "jo_operation j = op" "jo_digest j = ?dg"
    unfolding journalled_def by force
  from r have "run_of p w d1 \<noteq> None" by (auto simp: run_of_def run_key_def table_simps)
  then obtain r' where r': "run_of p w d1 = Some r'" by blast
  have "start_tx sha t2 p w2 flow st fv' actor op ?dg d1 = Inr (Inl (run_record r'), d1)"
    unfolding start_tx_def by (rule replaying_recorded [OF inv j(1)]) (use j r' in simp_all)
  then have "start sha t2 p w2 flow fv actor op d1 = (Inr (run_record r'), d1)"
    using assms(2,3,5) by (simp add: start_def Let_def event_transaction_def atomically_def then_read_def or_get_def)
  moreover have "fr_work (run_record r') = w" using run_ofD [OF r'] by (simp add: run_record_def flow_run.defs)
  ultimately show ?thesis by blast
qed

theorem start_ignores_the_work_item_witness:
  "\<exists>d1 r. start sample_sha 81 ''p'' ''w2'' tiny_flow [] ''dev1'' ''op1'' d1 = (Inr r, d1) \<and> fr_work r = ''w''"
proof -
  let ?dg = "request_digest sample_sha
        [JStr ''start'', JStr (fd_digest tiny_flow), fd_snapshot tiny_flow, JObj [], JStr ''dev1'']"
  let ?r = "start_tx sample_sha 60 ''p'' ''w'' tiny_flow state_a [] ''dev1'' ''op1'' ?dg base_db"
  have "succeeds ?r" "(case ?r of Inl e \<Rightarrow> False | Inr (x, d) \<Rightarrow> \<not> isl x)" by code_simp+
  then obtain d1 where s: "?r = Inr (Inr (), d1)" by (auto split: sum.splits simp: isl_def) (metis old.sum.exhaust unit.exhaust)
  have i: "flow_identifiers [''p'', ''w2'', ''dev1'', ''op1''] = Inr [''p'', ''w2'', ''dev1'', ''op1'']"
    and f: "flow_fields [] = Inr []" and e: "flow_state_of tiny_flow (fd_entry tiny_flow) = Inr state_a" by code_simp+
  from start_ignores_the_work_item [OF base_db_reachable i f tiny_loads e s] show ?thesis by blast
qed

end
