(* ===== verification/Reliability.thy ===== *)
theory Reliability
  imports Routing Events Secrets
begin

text \<open>
  \<open>reliability.py\<close>: the fixed retry policy for failed work. An incident allows three technical
  attempts, then three corrections by the project manager, then one independent recovery; each
  failed attempt routes the next one, and an incident whose whole chain failed makes its work
  item eligible for the status \<open>error\<close>. One reading \<open>t\<close> of the clock stands for those of a
  transaction. Audit records are only written, by no component read, and not kept here.
\<close>

section \<open>Records\<close>

record reliability_status =
  rs_incident :: failure_incident
  rs_attempts :: "failure_attempt list"
  rs_request :: "recovery_request option"

fun stage_text :: "stage \<Rightarrow> string" where
  "stage_text Technical = ''technical''"
| "stage_text PmCorrection = ''pm_correction''"
| "stage_text Recovery = ''recovery''"
| "stage_text NoStage = ''none''"

fun outcome_text :: "attempt_outcome \<Rightarrow> string" where
  "outcome_text Succeeded = ''succeeded''"
| "outcome_text Failed = ''failed''"

definition parse_stage :: "string \<Rightarrow> stage res" where
  "parse_stage s = (if s = ''technical'' then Inr Technical else if s = ''pm_correction'' then Inr PmCorrection
     else if s = ''recovery'' then Inr Recovery else Inl ValueError)"

definition parse_outcome :: "string \<Rightarrow> attempt_outcome res" where
  "parse_outcome s = (if s = ''succeeded'' then Inr Succeeded else if s = ''failed'' then Inr Failed
     else Inl ValueError)"

text \<open>\<open>_ordinal\<close>, \<open>_derived_id\<close>, \<open>_json_object\<close>.\<close>

fun ordinal :: "stage \<Rightarrow> int \<Rightarrow> int" where
  "ordinal Technical n = n"
| "ordinal PmCorrection n = 3 + n"
| "ordinal Recovery n = 7"
| "ordinal NoStage n = 7"

definition derived_id :: "(string \<Rightarrow> string) \<Rightarrow> string \<Rightarrow> string \<Rightarrow> string \<Rightarrow> string" where
  "derived_id sha prefix p k = prefix @ ''-'' @ take 32 (sha (p @ [char_of (0::nat)] @ k))"

definition json_object :: "(string \<times> json) list option \<Rightarrow> (string \<times> json) list res" where
  "json_object ev = (let m = (case ev of None \<Rightarrow> [] | Some m \<Rightarrow> m) in
     if no_nan_members m then Inr m else Inl ValueError)"

section \<open>The tables of migration 0015\<close>

definition open_incident :: "('a failure_incident_scheme) \<Rightarrow> bool" where
  "open_incident i = (fi_status i = IncActive \<or> fi_status i = IncEligible)"

definition incident_check :: "('a failure_incident_scheme) \<Rightarrow> bool" where
  "incident_check i = ((case fi_number i of None \<Rightarrow> True | Some n \<Rightarrow> 1 \<le> n \<and> n \<le> 3)
     \<and> (case fi_status i of
          IncActive \<Rightarrow> fi_stage i \<noteq> NoStage \<and> fi_number i \<noteq> None
            \<and> (fi_stage i \<noteq> Recovery \<or> fi_number i = Some 1) \<and> fi_resolved i = None
        | IncEligible \<Rightarrow> fi_stage i = NoStage \<and> fi_number i = None \<and> fi_resolved i = None
        | _ \<Rightarrow> fi_stage i = NoStage \<and> fi_number i = None \<and> fi_resolved i \<noteq> None))"

definition insert_incident :: "incident_row \<Rightarrow> db \<Rightarrow> db res" where
  "insert_incident i d =
     (if has_row (\<lambda>x. fi_project x = fi_project i \<and> (fi_id x = fi_id i \<or> fi_key x = fi_key i
          \<or> open_incident x \<and> open_incident i \<and> fi_work x = fi_work i)) (db_incidents d)
      then Inl UniqueViolation
      else if \<not> has_work d (fi_project i) (fi_work i) \<or> \<not> has_role d (fi_project i) (fi_owner i)
      then Inl ForeignKeyViolation
      else if \<not> incident_check i then Inl CheckViolation
      else Inr (d\<lparr>db_incidents := db_incidents d @ [i]\<rparr>))"

text \<open>No update of the code moves an incident into the partial index of open incidents, so only
  the row check can refuse one.\<close>

definition update_incident :: "string \<Rightarrow> string \<Rightarrow> (incident_row \<Rightarrow> bool) \<Rightarrow> (incident_row \<Rightarrow> incident_row) \<Rightarrow>
    db \<Rightarrow> db res" where
  "update_incident p i Q f d =
     (let t = upd_where (\<lambda>x. fi_project x = p \<and> fi_id x = i \<and> Q x) f (db_incidents d) in
      if list_all incident_check t then Inr (d\<lparr>db_incidents := t\<rparr>) else Inl CheckViolation)"

definition attempt_check :: "attempt_row \<Rightarrow> bool" where
  "attempt_check a = (1 \<le> fa_ordinal a \<and> fa_ordinal a \<le> 7 \<and> 1 \<le> fa_number a \<and> fa_number a \<le> 3
     \<and> fa_stage a \<noteq> NoStage \<and> (fa_stage a = Recovery \<longrightarrow> fa_number a = 1)
     \<and> (if fa_stage a = PmCorrection
        then (case fa_correction a of None \<Rightarrow> False | Some c \<Rightarrow> strip c \<noteq> [] \<and> length c \<le> 2000)
          \<and> fa_correction_digest a \<noteq> None
        else fa_correction a = None \<and> fa_correction_digest a = None))"

text \<open>The trigger of migration 0016: a recovery attempt repeats, as \<open>jsonb\<close>, the evidence of a
  reported supervisor run of that id and outcome, of a request of that incident. Python compares
  the same members first; it takes \<open>True\<close> for the number 1, which \<open>jsonb\<close> does not.\<close>

definition supervisor_result :: "string \<Rightarrow> string \<Rightarrow> string \<Rightarrow> attempt_outcome \<Rightarrow> db \<Rightarrow> supervisor_run option" where
  "supervisor_result p a i o' d = fetchone (\<lambda>r. sr_project r = p \<and> sr_id r = a
     \<and> sr_status r = Reported \<and> sr_outcome r = Some o'
     \<and> has_row (\<lambda>q. rr_project q = sr_project r \<and> rr_id q = sr_request r \<and> rr_incident q = i) (db_requests d))
     (db_supervisors d)"

definition result_evidence :: "supervisor_run \<Rightarrow> (string \<times> json) list" where
  "result_evidence r = [(''recovery_run_id'', JStr (sr_id r)), (''safe_summary'', opt_str (sr_summary r)),
     (''verification_ref'', opt_str (sr_verification r)),
     (''usage_used'', (case sr_usage r of None \<Rightarrow> JNull | Some n \<Rightarrow> JInt n)), (''usage_limit'', JInt (sr_limit r)),
     (''tool_profile_reference'', JStr (sr_profile r)), (''tool_profile_digest'', JStr (sr_profile_digest r))]"

fun scalar_eq :: "json \<Rightarrow> json \<Rightarrow> bool" where
  "scalar_eq v (JInt n) = eq_int v n"
| "scalar_eq v w = (v = w)"

definition same_members :: "(json \<Rightarrow> json \<Rightarrow> bool) \<Rightarrow> (string \<times> json) list \<Rightarrow> (string \<times> json) list \<Rightarrow> bool" where
  "same_members eq a b = (list_all (\<lambda>(k, _). k \<in> set (map fst b)) a
     \<and> list_all (\<lambda>(k, w). (case map_of a k of None \<Rightarrow> False | Some v \<Rightarrow> eq v w)) b)"

fun is_bool :: "json \<Rightarrow> bool" where
  "is_bool (JBool b) = True"
| "is_bool _ = False"

definition supervised :: "attempt_row \<Rightarrow> db \<Rightarrow> bool" where
  "supervised a d = (fa_stage a \<noteq> Recovery
     \<or> (case supervisor_result (fa_project a) (fa_id a) (fa_incident a) (fa_outcome a) d of
          None \<Rightarrow> False
        | Some r \<Rightarrow> same_members (\<lambda>v w. scalar_eq v w \<and> \<not> is_bool v) (fa_evidence a) (result_evidence r)))"

definition insert_attempt :: "attempt_row \<Rightarrow> db \<Rightarrow> db res" where
  "insert_attempt a d =
     (if \<not> supervised a d then Inl TriggerException
      else if \<not> attempt_check a then Inl CheckViolation
      else if has_row (\<lambda>x. fa_project x = fa_project a \<and> (fa_id x = fa_id a
          \<or> fa_incident x = fa_incident a \<and> (fa_ordinal x = fa_ordinal a
            \<or> fa_stage x = fa_stage a \<and> fa_number x = fa_number a
            \<or> fa_correction_digest x = fa_correction_digest a \<and> fa_correction_digest a \<noteq> None)))
          (db_attempts d)
      then Inl UniqueViolation
      else if \<not> has_row (\<lambda>x. fi_project x = fa_project a \<and> fi_id x = fa_incident a) (db_incidents d)
      then Inl ForeignKeyViolation
      else Inr (d\<lparr>db_attempts := db_attempts d @ [a]\<rparr>))"

definition insert_request :: "recovery_request \<Rightarrow> db \<Rightarrow> db res" where
  "insert_request q d =
     (if has_row (\<lambda>x. rr_project x = rr_project q \<and> (rr_id x = rr_id q \<or> rr_incident x = rr_incident q)) (db_requests d)
      then Inl UniqueViolation
      else if 4000 < length (rr_goal q) then Inl CheckViolation
      else if \<not> has_row (\<lambda>x. fi_project x = rr_project q \<and> fi_id x = rr_incident q) (db_incidents d)
        \<or> \<not> has_work d (rr_project q) (rr_work q)
      then Inl ForeignKeyViolation
      else Inr (d\<lparr>db_requests := db_requests d @ [q]\<rparr>))"

definition resolve_request :: "timestamp \<Rightarrow> string \<Rightarrow> string \<Rightarrow> request_status \<Rightarrow> (string \<times> json) list \<Rightarrow> db \<Rightarrow> db" where
  "resolve_request t p i s ev d = d\<lparr>db_requests :=
     upd_where (\<lambda>q. rr_project q = p \<and> rr_incident q = i \<and> rr_status q = RqPending)
       (\<lambda>q. q\<lparr>rr_status := s, rr_resolved := Some t, rr_evidence := ev\<rparr>) (db_requests d)\<rparr>"

section \<open>Helpers of a transaction\<close>

definition incident_of :: "string \<Rightarrow> string \<Rightarrow> db \<Rightarrow> incident_row option" where
  "incident_of p i d = fetchone (\<lambda>x. fi_project x = p \<and> fi_id x = i) (db_incidents d)"

definition attempts_of :: "string \<Rightarrow> string \<Rightarrow> db \<Rightarrow> attempt_row list" where
  "attempts_of p i d = filter (\<lambda>a. fa_project a = p \<and> fa_incident a = i) (db_attempts d)"

text \<open>\<open>_status\<close>.\<close>

definition status_in :: "string \<Rightarrow> string \<Rightarrow> db \<Rightarrow> reliability_status res" where
  "status_in p i d = bindR (of_row ReliabilityNotFound (incident_of p i d)) (\<lambda>x.
     Inr \<lparr>rs_incident = failure_incident.truncate x,
       rs_attempts = map failure_attempt.truncate (sort_key fa_ordinal (attempts_of p i d)),
       rs_request = fetchone (\<lambda>q. rr_project q = p \<and> rr_incident q = i) (db_requests d)\<rparr>)"

definition required_action :: "stage \<Rightarrow> bool \<Rightarrow> string" where
  "required_action st resumed =
     (if resumed then ''Resume normal work after verified independent recovery.''
      else if st = PmCorrection then ''Produce and execute one distinct, minimal corrective instruction; ''
        @ ''do not repeat an earlier correction or over-engineer the repair.''
      else ''Retry the same bounded operation using the recorded evidence.'')"

definition retry_draft :: "incident_row \<Rightarrow> string \<Rightarrow> stage \<Rightarrow> int \<Rightarrow> bool \<Rightarrow> route_draft" where
  "retry_draft i role st n resumed =
     \<lparr>rd_project = fi_project i, rd_work = fi_work i, rd_role = role,
      rd_key = ''reliability:'' @ fi_id i @ '':''
        @ (if resumed then ''resume'' else stage_text st @ ''-'' @ dec_int n),
      rd_payload = [(''reliability'', JObj [
        (''incident_id'', JStr (fi_id i)), (''stage'', JStr (stage_text st)), (''attempt_number'', JInt n),
        (''safe_summary'', JStr (fi_summary i)), (''source_ref'', JStr (fi_source i)),
        (''resumed_after_recovery'', JBool resumed),
        (''required_action'', JStr (required_action st resumed))])],
      rd_capability = None, rd_priority = 200, rd_available = None\<rparr>"

text \<open>\<open>_route\<close> and \<open>_journal\<close>.\<close>

definition route_retry :: "(string \<Rightarrow> string) \<Rightarrow> timestamp \<Rightarrow> incident_row \<Rightarrow> string \<Rightarrow> stage \<Rightarrow> int \<Rightarrow> bool \<Rightarrow> db \<Rightarrow> db res" where
  "route_retry sha t i role st n resumed d =
     bindR (make_route_draft (retry_draft i role st n resumed)) (\<lambda>r.
     bindR (route_in_transaction t sha r d) (\<lambda>(_, d'). Inr d'))"

definition journal_incident :: "(string \<Rightarrow> string) \<Rightarrow> timestamp \<Rightarrow> string \<Rightarrow> string \<Rightarrow> string \<Rightarrow> string \<Rightarrow> string \<Rightarrow>
    string \<Rightarrow> (string \<times> json) list \<Rightarrow> db \<Rightarrow> db res" where
  "journal_incident sha t p w actor corr i ty payload d =
     bindR (make_event_draft \<lparr>ed_project = p, ed_work = w, ed_actor = actor, ed_correlation = corr,
       ed_agg_type = ''failure-incident'', ed_agg_id = i, ed_type = ty, ed_payload = payload,
       ed_causation = None\<rparr>) (\<lambda>e.
     bindR (make_outbound_draft \<lparr>od_topic = ''reliability.changed'', od_payload = payload\<rparr>) (\<lambda>m.
     bindR (append_event sha t e [m] d) (\<lambda>(_, d'). Inr d')))"

text \<open>The handlers: errors of this module pass, a missing route is a conflict, everything else
  raised inside the block is the generic \<open>ReliabilityError\<close>.\<close>

definition reliability_wrap :: "exn \<Rightarrow> exn" where
  "reliability_wrap e = (if e \<in> {ReliabilityError, ReliabilityNotFound, ReliabilityConflict} then e
     else if e \<in> {RoutingNotFound, RoutingConflict} then ReliabilityConflict else ReliabilityError)"

section \<open>Starting an incident\<close>

definition failure_fingerprint :: "(string \<Rightarrow> string) \<Rightarrow> string \<Rightarrow> string \<Rightarrow> string \<Rightarrow> string \<Rightarrow> string \<Rightarrow> string res" where
  "failure_fingerprint sha p w category summary source = bindR (canonical (JObj [
     (''project_id'', JStr p), (''work_item_id'', JStr w), (''failure_category'', JStr category),
     (''safe_summary'', JStr summary), (''source_ref'', JStr source)])) (\<lambda>c. Inr (sha c))"

definition keyed_incident :: "string \<Rightarrow> string \<Rightarrow> db \<Rightarrow> incident_row option" where
  "keyed_incident p k d = fetchone (\<lambda>x. fi_project x = p \<and> fi_key x = k) (db_incidents d)"

text \<open>The identifiers among the texts of a row.\<close>

type_synonym key = string

definition new_incident :: "(string \<Rightarrow> string) \<Rightarrow> timestamp \<Rightarrow> key \<Rightarrow> key \<Rightarrow> key \<Rightarrow> key \<Rightarrow> string \<Rightarrow>
    key \<Rightarrow> string \<Rightarrow> string \<Rightarrow> string \<Rightarrow> incident_row" where
  "new_incident sha t p w owner k fp category summary source actor =
     \<lparr>fi_project = p, fi_id = derived_id sha ''incident'' p k, fi_work = w, fi_owner = owner,
      fi_category = category, fi_summary = summary, fi_source = source, fi_status = IncActive,
      fi_stage = Technical, fi_number = Some 1, fi_started_by = actor, fi_started = t, fi_resolved = None,
      fi_key = k, fi_fingerprint = fp\<rparr>"

definition begin_incident :: "(string \<Rightarrow> string) \<Rightarrow> timestamp \<Rightarrow> incident_row \<Rightarrow> db \<Rightarrow> db res" where
  "begin_incident sha t i d =
     bindR (insert_incident i d) (\<lambda>d1.
     bindR (route_retry sha t i (fi_owner i) Technical 1 False d1) (\<lambda>d2.
     journal_incident sha t (fi_project i) (fi_work i) (fi_started_by i) (fi_key i) (fi_id i)
       ''reliability.incident_started''
       [(''incident_id'', JStr (fi_id i)), (''next_stage'', JStr ''technical''),
        (''next_attempt_number'', JInt 1), (''failure_category'', JStr (fi_category i))] d2))"

definition incident_start_tx :: "(string \<Rightarrow> string) \<Rightarrow> timestamp \<Rightarrow> string \<Rightarrow> string \<Rightarrow> string \<Rightarrow> string \<Rightarrow> string \<Rightarrow>
    string \<Rightarrow> string \<Rightarrow> db \<Rightarrow> (reliability_status \<times> db) res" where
  "incident_start_tx sha t p w k category summary source actor d =
     bindR (failure_fingerprint sha p w category summary source) (\<lambda>fp.
     bindR (of_row ReliabilityNotFound (work_row d p w)) (\<lambda>work.
     case keyed_incident p k d of
       Some x \<Rightarrow>
         bindR (ensure (fi_fingerprint x = fp) ReliabilityConflict) (\<lambda>_.
         bindR (status_in p (fi_id x) d) (\<lambda>s. Inr (s, d)))
     | None \<Rightarrow> (case wi_owner work of
         None \<Rightarrow> Inl ReliabilityConflict
       | Some owner \<Rightarrow>
         bindR (ensure (wi_status work = ''active'') ReliabilityConflict) (\<lambda>_.
         bindR (ensure (\<not> has_row (\<lambda>x. fi_project x = p \<and> fi_work x = w \<and> open_incident x) (db_incidents d))
           ReliabilityConflict) (\<lambda>_.
         let i = new_incident sha t p w owner k fp category summary source actor in
         bindR (begin_incident sha t i d) (\<lambda>d1.
         bindR (status_in p (fi_id i) d1) (\<lambda>s. Inr (s, d1))))))))"

definition start_incident :: "(string \<Rightarrow> string) \<Rightarrow> timestamp \<Rightarrow> string \<Rightarrow> string \<Rightarrow> string \<Rightarrow> string \<Rightarrow> string \<Rightarrow>
    string \<Rightarrow> string \<Rightarrow> db \<Rightarrow> (reliability_status \<times> db) res" where
  "start_incident sha t p w k category summary source actor d =
     bindR (ident p) (\<lambda>p. bindR (ident w) (\<lambda>w. bindR (ident k) (\<lambda>k. bindR (ident category) (\<lambda>category.
     bindR (bounded 1000 summary) (\<lambda>summary. bindR (bounded 1000 source) (\<lambda>source.
     bindR (reject_sensitive_content summary) (\<lambda>_. bindR (reject_sensitive_content source) (\<lambda>_.
     bindR (bounded 512 actor) (\<lambda>actor.
     except_map reliability_wrap (incident_start_tx sha t p w k category summary source actor d))))))))))"

section \<open>Recording an attempt\<close>

record attempt_request =
  ar_project :: string
  ar_work :: string
  ar_incident :: string
  ar_id :: string
  ar_stage :: stage
  ar_number :: int
  ar_outcome :: attempt_outcome
  ar_actor :: string
  ar_correction :: "string option"
  ar_evidence :: "(string \<times> json) list"

definition attempt_fingerprint :: "(string \<Rightarrow> string) \<Rightarrow> attempt_request \<Rightarrow> string res" where
  "attempt_fingerprint sha q = bindR (canonical (JObj [
     (''project_id'', JStr (ar_project q)), (''work_item_id'', JStr (ar_work q)),
     (''incident_id'', JStr (ar_incident q)), (''stage'', JStr (stage_text (ar_stage q))),
     (''attempt_number'', JInt (ar_number q)), (''outcome'', JStr (outcome_text (ar_outcome q))),
     (''correction_instruction'', opt_str (ar_correction q)), (''evidence'', JObj (ar_evidence q))]))
     (\<lambda>c. Inr (sha c))"

text \<open>The validation at the head of \<open>record_attempt\<close>.\<close>

definition make_attempt :: "string \<Rightarrow> string \<Rightarrow> string \<Rightarrow> string \<Rightarrow> string \<Rightarrow> int \<Rightarrow> string \<Rightarrow> string \<Rightarrow> string option \<Rightarrow>
    (string \<times> json) list option \<Rightarrow> attempt_request res" where
  "make_attempt p w i a st n o' actor correction ev =
     bindR (ident p) (\<lambda>p. bindR (ident w) (\<lambda>w. bindR (ident i) (\<lambda>i. bindR (ident a) (\<lambda>a.
     bindR (bounded 512 actor) (\<lambda>actor. bindR (parse_stage st) (\<lambda>st. bindR (parse_outcome o') (\<lambda>o'.
     bindR (ensure (1 \<le> n \<and> n \<le> (if st = Recovery then 1 else 3)) ValueError) (\<lambda>_.
     bindR (if st = PmCorrection
         then (case correction of None \<Rightarrow> Inl ValueError | Some c \<Rightarrow> bindR (bounded 2000 c) (\<lambda>c. Inr (Some c)))
         else bindR (ensure (correction = None) ValueError) (\<lambda>_. Inr None)) (\<lambda>correction.
     bindR (json_object ev) (\<lambda>ev.
     Inr \<lparr>ar_project = p, ar_work = w, ar_incident = i, ar_id = a, ar_stage = st, ar_number = n,
       ar_outcome = o', ar_actor = actor, ar_correction = correction, ar_evidence = ev\<rparr>))))))))))"

definition attempt_of :: "(string \<Rightarrow> string) \<Rightarrow> timestamp \<Rightarrow> string \<Rightarrow> attempt_request \<Rightarrow> attempt_row" where
  "attempt_of sha t fp q =
     \<lparr>fa_project = ar_project q, fa_id = ar_id q, fa_incident = ar_incident q,
      fa_ordinal = ordinal (ar_stage q) (ar_number q), fa_stage = ar_stage q, fa_number = ar_number q,
      fa_outcome = ar_outcome q, fa_correction = ar_correction q, fa_actor = ar_actor q,
      fa_evidence = ar_evidence q, fa_recorded = t,
      fa_correction_digest = map_option sha (ar_correction q), fa_fingerprint = fp\<rparr>"

text \<open>\<open>_set_next\<close>, \<open>_advance_failed\<close> and \<open>_succeed\<close>.\<close>

definition set_next :: "string \<Rightarrow> string \<Rightarrow> stage \<Rightarrow> int \<Rightarrow> db \<Rightarrow> db res" where
  "set_next p i st n d = update_incident p i (\<lambda>x. fi_status x = IncActive)
     (\<lambda>x. x\<lparr>fi_stage := st, fi_number := Some n\<rparr>) d"

definition recovery_goal :: "incident_row \<Rightarrow> string" where
  "recovery_goal i = ''Restore Agentic Mesh work item '' @ fi_work i @ '' after its technical ''
     @ ''retries and PM corrections were exhausted. Resolve this verified ''
     @ ''failure: '' @ fi_summary i @ '' Source: '' @ fi_source i @ ''. Leave the Mesh in a ''
     @ ''verified working state and record the repair evidence.''"

definition retry_at :: "(string \<Rightarrow> string) \<Rightarrow> timestamp \<Rightarrow> incident_row \<Rightarrow> string \<Rightarrow> stage \<Rightarrow> int \<Rightarrow> string \<Rightarrow> db \<Rightarrow>
    (string \<times> db) res" where
  "retry_at sha t i role st n action d =
     bindR (set_next (fi_project i) (fi_id i) st n d) (\<lambda>d1.
     bindR (route_retry sha t i role st n False d1) (\<lambda>d2. Inr (action, d2)))"

definition advance_failed :: "(string \<Rightarrow> string) \<Rightarrow> timestamp \<Rightarrow> incident_row \<Rightarrow> stage \<Rightarrow> int \<Rightarrow>
    (string \<times> json) list \<Rightarrow> db \<Rightarrow> (string \<times> db) res" where
  "advance_failed sha t i st n ev d =
     (if st = Technical
      then (if n < 3 then retry_at sha t i (fi_owner i) Technical (n + 1) ''reliability.retry_routed'' d
        else retry_at sha t i ''project-manager'' PmCorrection 1 ''reliability.retry_routed'' d)
      else if st = PmCorrection \<and> n < 3
      then retry_at sha t i ''project-manager'' PmCorrection (n + 1) ''reliability.pm_correction_routed'' d
      else if st = PmCorrection
      then bindR (insert_request \<lparr>rr_project = fi_project i,
             rr_id = derived_id sha ''recovery'' (fi_project i) (fi_id i), rr_incident = fi_id i,
             rr_work = fi_work i, rr_goal = recovery_goal i, rr_status = RqPending, rr_requested = t,
             rr_resolved = None, rr_evidence = []\<rparr> d) (\<lambda>d1.
           bindR (set_next (fi_project i) (fi_id i) Recovery 1 d1) (\<lambda>d2.
           Inr (''reliability.recovery_requested'', d2)))
      else bindR (update_incident (fi_project i) (fi_id i) (\<lambda>_. True)
             (\<lambda>x. x\<lparr>fi_status := IncEligible, fi_stage := NoStage, fi_number := None\<rparr>)
             (resolve_request t (fi_project i) (fi_id i) RqFailed ev d)) (\<lambda>d1.
           Inr (''reliability.terminal_error_eligible'', d1)))"

definition succeed :: "(string \<Rightarrow> string) \<Rightarrow> timestamp \<Rightarrow> incident_row \<Rightarrow> stage \<Rightarrow> (string \<times> json) list \<Rightarrow> db \<Rightarrow>
    (string \<times> db) res" where
  "succeed sha t i st ev d =
     bindR (if st = Recovery
       then route_retry sha t i (fi_owner i) Recovery 1 True
         (resolve_request t (fi_project i) (fi_id i) RqSucceeded ev d)
       else Inr d) (\<lambda>d1.
     bindR (update_incident (fi_project i) (fi_id i) (\<lambda>_. True)
       (\<lambda>x. x\<lparr>fi_status := IncRecovered, fi_stage := NoStage, fi_number := None, fi_resolved := Some t\<rparr>) d1)
       (\<lambda>d2. Inr (''reliability.incident_recovered'', d2)))"

text \<open>The checks on a new attempt, in their order, and its effect.\<close>

definition attempt_allowed :: "(string \<Rightarrow> string) \<Rightarrow> work_item_record \<Rightarrow> incident_row \<Rightarrow> attempt_request \<Rightarrow> db \<Rightarrow> bool" where
  "attempt_allowed sha work i q d = (fi_status i = IncActive \<and> wi_status work = ''active''
     \<and> fi_stage i = ar_stage q \<and> fi_number i = Some (ar_number q)
     \<and> (ar_stage q = Recovery \<longrightarrow>
         (case supervisor_result (ar_project q) (ar_id q) (ar_incident q) (ar_outcome q) d of
            None \<Rightarrow> False
          | Some r \<Rightarrow> same_members scalar_eq (ar_evidence q) (result_evidence r)))
     \<and> (case ar_correction q of None \<Rightarrow> True
        | Some c \<Rightarrow> \<not> has_row (\<lambda>a. fa_project a = ar_project q \<and> fa_incident a = ar_incident q
            \<and> fa_correction_digest a = Some (sha c)) (db_attempts d)))"

definition apply_attempt :: "(string \<Rightarrow> string) \<Rightarrow> timestamp \<Rightarrow> string \<Rightarrow> incident_row \<Rightarrow> attempt_request \<Rightarrow> db \<Rightarrow> db res" where
  "apply_attempt sha t fp i q d =
     bindR (insert_attempt (attempt_of sha t fp q) d) (\<lambda>d1.
     bindR (case ar_outcome q of
         Succeeded \<Rightarrow> succeed sha t i (ar_stage q) (ar_evidence q) d1
       | Failed \<Rightarrow> advance_failed sha t i (ar_stage q) (ar_number q) (ar_evidence q) d1) (\<lambda>(action, d2).
     journal_incident sha t (ar_project q) (ar_work q) (ar_actor q) (ar_id q) (ar_incident q)
       ''reliability.attempt_recorded''
       [(''incident_id'', JStr (ar_incident q)), (''attempt_id'', JStr (ar_id q)),
        (''stage'', JStr (stage_text (ar_stage q))), (''attempt_number'', JInt (ar_number q)),
        (''outcome'', JStr (outcome_text (ar_outcome q))), (''result'', JStr action)] d2))"

definition attempt_tx :: "(string \<Rightarrow> string) \<Rightarrow> timestamp \<Rightarrow> attempt_request \<Rightarrow> db \<Rightarrow> (reliability_status \<times> db) res" where
  "attempt_tx sha t q d =
     bindR (attempt_fingerprint sha q) (\<lambda>fp.
     bindR (of_row ReliabilityNotFound (work_row d (ar_project q) (ar_work q))) (\<lambda>work.
     bindR (of_row ReliabilityNotFound (incident_of (ar_project q) (ar_incident q) d)) (\<lambda>i.
     bindR (ensure (fi_work i = ar_work q) ReliabilityNotFound) (\<lambda>_.
     case fetchone (\<lambda>a. fa_project a = ar_project q \<and> fa_id a = ar_id q) (db_attempts d) of
       Some a \<Rightarrow>
         bindR (ensure (fa_fingerprint a = fp) ReliabilityConflict) (\<lambda>_.
         bindR (status_in (ar_project q) (ar_incident q) d) (\<lambda>s. Inr (s, d)))
     | None \<Rightarrow>
         bindR (ensure (attempt_allowed sha work i q d) ReliabilityConflict) (\<lambda>_.
         bindR (apply_attempt sha t fp i q d) (\<lambda>d1.
         bindR (status_in (ar_project q) (ar_incident q) d1) (\<lambda>s. Inr (s, d1))))))))"

definition record_attempt :: "(string \<Rightarrow> string) \<Rightarrow> timestamp \<Rightarrow> string \<Rightarrow> string \<Rightarrow> string \<Rightarrow> string \<Rightarrow> string \<Rightarrow> int \<Rightarrow>
    string \<Rightarrow> string \<Rightarrow> string option \<Rightarrow> (string \<times> json) list option \<Rightarrow> db \<Rightarrow> (reliability_status \<times> db) res" where
  "record_attempt sha t p w i a st n o' actor correction ev d =
     bindR (make_attempt p w i a st n o' actor correction ev) (\<lambda>q.
     except_map reliability_wrap (attempt_tx sha t q d))"

section \<open>Reading\<close>

text \<open>\<open>status\<close>: the named incident, or the latest one of the work item.\<close>

definition latest_incident :: "string \<Rightarrow> string \<Rightarrow> db \<Rightarrow> incident_row option" where
  "latest_incident p w d = (case rev (sort_key (\<lambda>x. (fi_started x, fi_id x))
       (filter (\<lambda>x. fi_project x = p \<and> fi_work x = w) (db_incidents d))) of [] \<Rightarrow> None | x # _ \<Rightarrow> Some x)"

definition reliability_status_of :: "string \<Rightarrow> string \<Rightarrow> string option \<Rightarrow> db \<Rightarrow> reliability_status res" where
  "reliability_status_of p w i d =
     bindR (ident p) (\<lambda>p. bindR (ident w) (\<lambda>w. bindR (optional_identifier i) (\<lambda>i.
     bindR (case i of Some i \<Rightarrow> Inr i
       | None \<Rightarrow> bindR (of_row ReliabilityNotFound (latest_incident p w d)) (\<lambda>x. Inr (fi_id x))) (\<lambda>i.
     bindR (status_in p i d) (\<lambda>s.
     bindR (ensure (fi_work (rs_incident s) = w) ReliabilityNotFound) (\<lambda>_. Inr s))))))"

end
