(* ===== verification/Supervisor.thy ===== *)
theory Supervisor
  imports Reliability
begin

text \<open>
  \<open>recovery_supervisor.py\<close>: the independent recovery of an exhausted retry chain. A supervisor
  claims the oldest pending recovery request under a lease and a deadline, an external launcher
  repairs the mesh, and the verified result is reported under the lease token; reconciling turns
  reported results into recovery attempts of the incident. \<open>txt\<close> is the text the database gives
  a time stamp; the run record keeps time stamps as such. Sets of projects and scopes are lists.
\<close>

section \<open>Records\<close>

record principal =
  pr_subject :: string
  pr_projects :: "string list"
  pr_scopes :: "string list"

text \<open>What this module reads of a tool profile.\<close>

record tool_profile =
  tp_reference :: string
  tp_digest :: string
  tp_repository :: string
  tp_tag :: string
  tp_mounts :: "string list"
  tp_credentials :: "string list"

record recovery_run =
  ru_project :: string
  ru_request :: string
  ru_incident :: string
  ru_work :: string
  ru_goal :: string
  ru_id :: string
  ru_status :: run_status
  ru_claims :: int
  ru_owner :: string
  ru_token :: string
  ru_claimed :: timestamp
  ru_expires :: timestamp
  ru_deadline :: timestamp
  ru_minutes :: int
  ru_limit :: int
  ru_profile :: string
  ru_profile_digest :: string
  ru_outcome :: "attempt_outcome option"
  ru_summary :: "string option"
  ru_verification :: "string option"
  ru_usage :: "int option"
  ru_reported :: "timestamp option"
  ru_applied :: "timestamp option"

record recovery_job =
  rj_project :: string
  rj_request :: string
  rj_incident :: string
  rj_work :: string
  rj_run :: string
  rj_goal :: string
  rj_deadline :: timestamp
  rj_limit :: int
  rj_profile :: string
  rj_profile_digest :: string
  rj_image :: string
  rj_mounts :: "string list"
  rj_credentials :: "string list"

record recovery_result =
  re_outcome :: string
  re_summary :: string
  re_verification :: string
  re_usage :: int

section \<open>Validation and authorisation\<close>

text \<open>\<open>_identifier\<close> of this module matches without stripping.\<close>

definition exact_ident :: "string \<Rightarrow> string res" where
  "exact_ident v = (if ident_ok v then Inr v else Inl ValueError)"

definition positive_integer :: "int option \<Rightarrow> int \<Rightarrow> unit res" where
  "positive_integer maximum n =
     ensure (0 < n \<and> (case maximum of None \<Rightarrow> True | Some m \<Rightarrow> n \<le> m)) ValueError"

definition authorize_scope :: "principal \<Rightarrow> unit res" where
  "authorize_scope pr = ensure (''recovery:execute'' \<in> set (pr_scopes pr)) RecoveryAuthorizationError"

definition permitted :: "principal \<Rightarrow> string \<Rightarrow> bool" where
  "permitted pr p = (''*'' \<in> set (pr_projects pr) \<or> p \<in> set (filter (\<lambda>x. x \<noteq> ''*'') (pr_projects pr)))"

definition authorize_project :: "principal \<Rightarrow> string \<Rightarrow> unit res" where
  "authorize_project pr p = bindR (authorize_scope pr) (\<lambda>_.
     ensure (''*'' \<in> set (pr_projects pr) \<or> p \<in> set (pr_projects pr)) RecoveryAuthorizationError)"

definition validated_result :: "recovery_result \<Rightarrow> (attempt_outcome \<times> string \<times> string \<times> int) res" where
  "validated_result x =
     bindR (parse_outcome (re_outcome x)) (\<lambda>o'.
     bindR (bounded_raw 1000 (re_summary x)) (\<lambda>s. bindR (bounded_raw 1000 (re_verification x)) (\<lambda>v.
     bindR (reject_sensitive_content s) (\<lambda>_. bindR (reject_sensitive_content v) (\<lambda>_.
     bindR (ensure (0 \<le> re_usage x) ValueError) (\<lambda>_. Inr (o', s, v, re_usage x)))))))"

definition result_fingerprint :: "(string \<Rightarrow> string) \<Rightarrow> attempt_outcome \<Rightarrow> string \<Rightarrow> string \<Rightarrow> int \<Rightarrow> string" where
  "result_fingerprint sha o' s v u = sha (dumps True '','' '':'' (JObj [
     (''outcome'', JStr (outcome_text o')), (''safe_summary'', JStr s), (''usage_used'', JInt u),
     (''verification_ref'', JStr v)]))"

definition time_limit_summary :: string where
  "time_limit_summary = ''Recovery execution reached its configured time limit.''"

definition usage_limit_summary :: string where
  "usage_limit_summary = ''Recovery execution exceeded its configured usage limit.''"

definition time_limit_ref :: "string \<Rightarrow> string" where
  "time_limit_ref run = ''supervisor://time-limit/'' @ run"

definition usage_limit_ref :: "string \<Rightarrow> string" where
  "usage_limit_ref run = ''supervisor://usage-limit/'' @ run"

definition run_id_of :: "(string \<Rightarrow> string) \<Rightarrow> string \<Rightarrow> string \<Rightarrow> string" where
  "run_id_of sha p q = derived_id sha ''recovery-run'' p q"

definition int8 :: "int \<Rightarrow> bool" where
  "int8 n = (- 9223372036854775808 \<le> n \<and> n \<le> 9223372036854775807)"

text \<open>\<open>except RecoverySupervisorError: raise\<close>, then everything else.\<close>

definition supervisor_wrap :: "exn \<Rightarrow> exn" where
  "supervisor_wrap e = (if e \<in> {RecoverySupervisorError, RecoveryAuthorizationError, RecoveryConflict} then e
     else RecoverySupervisorError)"

section \<open>Events\<close>

definition run_event :: "(string \<Rightarrow> string) \<Rightarrow> timestamp \<Rightarrow> string \<Rightarrow> string \<Rightarrow> string \<Rightarrow> string \<Rightarrow> string \<Rightarrow>
    (string \<times> json) list \<Rightarrow> db \<Rightarrow> db res" where
  "run_event sha t p w actor run ty payload d =
     bindR (make_event_draft \<lparr>ed_project = p, ed_work = w, ed_actor = actor, ed_correlation = run,
       ed_agg_type = ''recovery-run'', ed_agg_id = run, ed_type = ty, ed_payload = payload,
       ed_causation = None\<rparr>) (\<lambda>e.
     bindR (make_outbound_draft \<lparr>od_topic = ty, od_payload = payload\<rparr>) (\<lambda>m.
     bindR (append_event sha t e [m] d) (\<lambda>(_, d'). Inr d')))"

section \<open>Claiming\<close>

definition run_of_request :: "recovery_request \<Rightarrow> db \<Rightarrow> supervisor_run option" where
  "run_of_request q d = fetchone (\<lambda>r. sr_project r = rr_project q \<and> sr_request r = rr_id q) (db_supervisors d)"

definition lapsed_run :: "timestamp \<Rightarrow> supervisor_run \<Rightarrow> bool" where
  "lapsed_run t r = (sr_status r = Running \<and> sr_expires r \<le> t \<and> t < sr_deadline r)"

definition claimable_request :: "timestamp \<Rightarrow> (string \<times> string \<Rightarrow> bool) \<Rightarrow> principal \<Rightarrow> db \<Rightarrow> recovery_request \<Rightarrow> bool" where
  "claimable_request t locked pr d q = (rr_status q = RqPending \<and> permitted pr (rr_project q)
     \<and> (case run_of_request q d of None \<Rightarrow> True | Some r \<Rightarrow> lapsed_run t r)
     \<and> \<not> locked (rr_project q, rr_id q))"

definition request_order :: "recovery_request \<Rightarrow> int \<times> string \<times> string" where
  "request_order q = (rr_requested q, rr_project q, rr_id q)"

definition next_request :: "timestamp \<Rightarrow> (string \<times> string \<Rightarrow> bool) \<Rightarrow> principal \<Rightarrow> db \<Rightarrow> recovery_request option" where
  "next_request t locked pr d =
     (case sort_key request_order (filter (claimable_request t locked pr d) (db_requests d)) of
        [] \<Rightarrow> None | q # _ \<Rightarrow> Some q)"

definition new_run :: "(string \<Rightarrow> string) \<Rightarrow> timestamp \<Rightarrow> recovery_request \<Rightarrow> string \<Rightarrow> string \<Rightarrow> tool_profile \<Rightarrow>
    int \<Rightarrow> int \<Rightarrow> int \<Rightarrow> supervisor_run" where
  "new_run sha t q owner token pf minutes limit lease =
     \<lparr>sr_project = rr_project q, sr_request = rr_id q, sr_id = run_id_of sha (rr_project q) (rr_id q),
      sr_status = Running, sr_claims = 1, sr_owner = owner, sr_token = token, sr_claimed = t,
      sr_expires = min (t + seconds lease) (t + seconds (60 * minutes)), sr_deadline = t + seconds (60 * minutes),
      sr_minutes = minutes, sr_limit = limit, sr_profile = tp_reference pf, sr_profile_digest = tp_digest pf,
      sr_outcome = None, sr_summary = None, sr_verification = None, sr_usage = None, sr_fingerprint = None,
      sr_reported = None, sr_applied = None\<rparr>"

definition insert_run_row :: "supervisor_run \<Rightarrow> db \<Rightarrow> db res" where
  "insert_run_row r d =
     (if has_row (\<lambda>x. sr_project x = sr_project r \<and> (sr_request x = sr_request r \<or> sr_id x = sr_id r)
          \<or> sr_token x = sr_token r) (db_supervisors d)
      then Inl UniqueViolation
      else if \<not> int8 (sr_limit r) then Inl DataError
      else Inr (d\<lparr>db_supervisors := db_supervisors d @ [r]\<rparr>))"

definition update_run_row :: "(supervisor_run \<Rightarrow> bool) \<Rightarrow> (supervisor_run \<Rightarrow> supervisor_run) \<Rightarrow> db \<Rightarrow> db" where
  "update_run_row P f d = d\<lparr>db_supervisors := upd_where P f (db_supervisors d)\<rparr>"

definition claimed_run :: "recovery_request \<Rightarrow> supervisor_run \<Rightarrow> recovery_run" where
  "claimed_run q r = \<lparr>ru_project = rr_project q, ru_request = rr_id q, ru_incident = rr_incident q,
     ru_work = rr_work q, ru_goal = rr_goal q, ru_id = sr_id r, ru_status = Running, ru_claims = sr_claims r,
     ru_owner = sr_owner r, ru_token = sr_token r, ru_claimed = sr_claimed r, ru_expires = sr_expires r,
     ru_deadline = sr_deadline r, ru_minutes = sr_minutes r, ru_limit = sr_limit r, ru_profile = sr_profile r,
     ru_profile_digest = sr_profile_digest r, ru_outcome = None, ru_summary = None, ru_verification = None,
     ru_usage = None, ru_reported = None, ru_applied = None\<rparr>"

text \<open>Taking over a lapsed run, at a later reading of the clock than the one that selected it.\<close>

definition taken_over :: "timestamp \<Rightarrow> string \<Rightarrow> string \<Rightarrow> int \<Rightarrow> supervisor_run \<Rightarrow> supervisor_run" where
  "taken_over t owner token lease r = r\<lparr>sr_owner := owner, sr_token := token, sr_claimed := t,
     sr_expires := min (sr_deadline r) (t + seconds lease), sr_claims := sr_claims r + 1\<rparr>"

definition take_over :: "timestamp \<Rightarrow> supervisor_run \<Rightarrow> string \<Rightarrow> string \<Rightarrow> tool_profile \<Rightarrow> int \<Rightarrow> db \<Rightarrow>
    (supervisor_run \<times> db) res" where
  "take_over t r owner token pf lease d =
     bindR (ensure (sr_profile r = tp_reference pf \<and> sr_profile_digest r = tp_digest pf) RecoveryConflict) (\<lambda>_.
     bindR (ensure (lapsed_run t r) RecoveryConflict) (\<lambda>_.
     bindR (ensure (int4 (sr_claims r + 1)) DataError) (\<lambda>_.
     bindR (ensure (\<not> has_row (\<lambda>x. sr_token x = token
         \<and> (sr_project x, sr_request x) \<noteq> (sr_project r, sr_request r)) (db_supervisors d)) UniqueViolation) (\<lambda>_.
     Inr (taken_over t owner token lease r,
       update_run_row (\<lambda>x. sr_project x = sr_project r \<and> sr_request x = sr_request r \<and> lapsed_run t x)
         (taken_over t owner token lease) d)))))"

definition claim_request :: "(string \<Rightarrow> string) \<Rightarrow> timestamp \<Rightarrow> recovery_request \<Rightarrow> string \<Rightarrow> string \<Rightarrow>
    tool_profile \<Rightarrow> int \<Rightarrow> int \<Rightarrow> int \<Rightarrow> db \<Rightarrow> (supervisor_run \<times> db) res" where
  "claim_request sha t q owner token pf minutes limit lease d = (case run_of_request q d of
     None \<Rightarrow> let r = new_run sha t q owner token pf minutes limit lease in
       bindR (insert_run_row r d) (\<lambda>d1. Inr (r, d1))
   | Some r \<Rightarrow> take_over t r owner token pf lease d)"

definition claim_payload :: "(timestamp \<Rightarrow> string) \<Rightarrow> supervisor_run \<Rightarrow> (string \<times> json) list" where
  "claim_payload txt r = [(''recovery_request_id'', JStr (sr_request r)), (''run_id'', JStr (sr_id r)),
     (''claim_count'', JInt (sr_claims r)),
     (''deadline_at'', JStr ((if sr_claims r = 1 then txt else isoformat) (sr_deadline r)))]"

definition supervisor_claim_tx :: "(string \<Rightarrow> string) \<Rightarrow> (timestamp \<Rightarrow> string) \<Rightarrow> timestamp \<Rightarrow> timestamp \<Rightarrow>
    (string \<times> string \<Rightarrow> bool) \<Rightarrow> principal \<Rightarrow> string \<Rightarrow> string \<Rightarrow> tool_profile \<Rightarrow> int \<Rightarrow> int \<Rightarrow> int \<Rightarrow> db \<Rightarrow>
    (recovery_run option \<times> db) res" where
  "supervisor_claim_tx sha txt t1 t2 locked pr owner token pf minutes limit lease d =
     (case next_request t1 locked pr d of
        None \<Rightarrow> Inr (None, d)
      | Some q \<Rightarrow>
        bindR (claim_request sha t2 q owner token pf minutes limit lease d) (\<lambda>(r, d1).
        bindR (run_event sha t2 (rr_project q) (rr_work q) (pr_subject pr) (sr_id r)
          ''recovery.supervisor_claimed'' (claim_payload txt r) d1) (\<lambda>d2.
        Inr (Some (claimed_run q r), d2))))"

definition supervisor_claim :: "(string \<Rightarrow> string) \<Rightarrow> (timestamp \<Rightarrow> string) \<Rightarrow> timestamp \<Rightarrow> timestamp \<Rightarrow>
    (string \<times> string \<Rightarrow> bool) \<Rightarrow> principal \<Rightarrow> string \<Rightarrow> string \<Rightarrow> tool_profile \<Rightarrow> int \<Rightarrow> int \<Rightarrow> int \<Rightarrow> db \<Rightarrow>
    (recovery_run option \<times> db) res" where
  "supervisor_claim sha txt t1 t2 locked pr owner token pf minutes limit lease d =
     bindR (exact_ident owner) (\<lambda>owner. bindR (positive_integer (Some 1440) minutes) (\<lambda>_.
     bindR (positive_integer None limit) (\<lambda>_. bindR (positive_integer (Some 3600) lease) (\<lambda>_.
     bindR (authorize_scope pr) (\<lambda>_.
     except_map supervisor_wrap
       (supervisor_claim_tx sha txt t1 t2 locked pr owner token pf minutes limit lease d))))))"

section \<open>Keeping the lease, reporting\<close>

definition live_run :: "timestamp \<Rightarrow> recovery_run \<Rightarrow> supervisor_run \<Rightarrow> bool" where
  "live_run t u r = (sr_project r = ru_project u \<and> sr_request r = ru_request u \<and> sr_id r = ru_id u
     \<and> sr_owner r = ru_owner u \<and> sr_token r = ru_token u \<and> sr_status r = Running
     \<and> t < sr_expires r \<and> t < sr_deadline r)"

definition supervisor_heartbeat_tx :: "timestamp \<Rightarrow> recovery_run \<Rightarrow> int \<Rightarrow> db \<Rightarrow> (recovery_run \<times> db) res" where
  "supervisor_heartbeat_tx t u lease d =
     bindR (of_row RecoveryConflict (fetchone (live_run t u) (db_supervisors d))) (\<lambda>r.
     let f = (\<lambda>x. x\<lparr>sr_expires := min (sr_deadline x) (t + seconds lease)\<rparr>) in
     Inr (u\<lparr>ru_expires := sr_expires (f r)\<rparr>, update_run_row (live_run t u) f d))"

definition supervisor_heartbeat :: "timestamp \<Rightarrow> principal \<Rightarrow> recovery_run \<Rightarrow> int \<Rightarrow> db \<Rightarrow> (recovery_run \<times> db) res" where
  "supervisor_heartbeat t pr u lease d =
     bindR (authorize_project pr (ru_project u)) (\<lambda>_. bindR (positive_integer (Some 3600) lease) (\<lambda>_.
     except_map supervisor_wrap (supervisor_heartbeat_tx t u lease d)))"

definition the_run :: "string \<Rightarrow> string \<Rightarrow> string \<Rightarrow> supervisor_run \<Rightarrow> bool" where
  "the_run p q i r = (sr_project r = p \<and> sr_request r = q \<and> sr_id r = i)"

definition reported_as :: "(string \<Rightarrow> string) \<Rightarrow> timestamp \<Rightarrow> attempt_outcome \<Rightarrow> string \<Rightarrow> string \<Rightarrow> int \<Rightarrow>
    supervisor_run \<Rightarrow> supervisor_run" where
  "reported_as sha t o' s v u r = r\<lparr>sr_status := Reported, sr_outcome := Some o', sr_summary := Some s,
     sr_verification := Some v, sr_usage := Some u,
     sr_fingerprint := Some (result_fingerprint sha o' s v u), sr_reported := Some t\<rparr>"

definition reported_run :: "recovery_run \<Rightarrow> supervisor_run \<Rightarrow> recovery_run" where
  "reported_run u r = u\<lparr>ru_status := Reported, ru_outcome := sr_outcome r, ru_summary := sr_summary r,
     ru_verification := sr_verification r, ru_usage := sr_usage r, ru_reported := sr_reported r\<rparr>"

text \<open>The fingerprints under which a result that is reported already may be reported again: the
  result itself, and the result the limits put in its place.\<close>

definition accepted_fingerprints :: "(string \<Rightarrow> string) \<Rightarrow> timestamp \<Rightarrow> supervisor_run \<Rightarrow> string \<Rightarrow>
    attempt_outcome \<times> string \<times> string \<times> int \<Rightarrow> string list" where
  "accepted_fingerprints sha t r run = (\<lambda>(o', s, v, u).
     [result_fingerprint sha o' s v u]
     @ (if sr_limit r < u then [result_fingerprint sha Failed usage_limit_summary (usage_limit_ref run) u] else [])
     @ (if sr_deadline r \<le> t
        then [result_fingerprint sha Failed time_limit_summary (time_limit_ref run)
          (case sr_usage r of None \<Rightarrow> 0 | Some n \<Rightarrow> n)]
        else []))"

text \<open>What the limits make of a result.\<close>

definition limited :: "timestamp \<Rightarrow> supervisor_run \<Rightarrow> string \<Rightarrow> attempt_outcome \<times> string \<times> string \<times> int \<Rightarrow>
    attempt_outcome \<times> string \<times> string \<times> int" where
  "limited t r run = (\<lambda>(o', s, v, u).
     if sr_limit r < u then (Failed, usage_limit_summary, usage_limit_ref run, u)
     else if sr_deadline r \<le> t then (Failed, time_limit_summary, time_limit_ref run, u)
     else (o', s, v, u))"

text \<open>A report reads the clock three times: \<open>t1\<close> against the lease and \<open>t2\<close> against the deadline,
  both in its \<open>SELECT\<close>, and \<open>t3\<close> in the \<open>UPDATE\<close> that stamps the row.\<close>

definition report_new :: "(string \<Rightarrow> string) \<Rightarrow> timestamp \<Rightarrow> principal \<Rightarrow> recovery_run \<Rightarrow> supervisor_run \<Rightarrow>
    attempt_outcome \<times> string \<times> string \<times> int \<Rightarrow> db \<Rightarrow> (recovery_run \<times> db) res" where
  "report_new sha t3 pr u r = (\<lambda>(o', s, v, n) d.
     bindR (ensure (int8 n) DataError) (\<lambda>_.
     bindR (run_event sha t3 (ru_project u) (ru_work u) (pr_subject pr) (ru_id u) ''recovery.result_reported''
       [(''recovery_request_id'', JStr (ru_request u)), (''run_id'', JStr (ru_id u)),
        (''outcome'', JStr (outcome_text o')), (''verification_ref'', JStr v), (''usage_used'', JInt n)]
       (update_run_row (\<lambda>x. the_run (ru_project u) (ru_request u) (ru_id u) x \<and> sr_status x = Running)
         (reported_as sha t3 o' s v n) d)) (\<lambda>d1.
     Inr (reported_run u (reported_as sha t3 o' s v n r), d1))))"

definition supervisor_report_tx :: "(string \<Rightarrow> string) \<Rightarrow> timestamp \<Rightarrow> timestamp \<Rightarrow> timestamp \<Rightarrow> principal \<Rightarrow>
    recovery_run \<Rightarrow>
    attempt_outcome \<times> string \<times> string \<times> int \<Rightarrow> db \<Rightarrow> (recovery_run \<times> db) res" where
  "supervisor_report_tx sha t1 t2 t3 pr u x d =
     bindR (of_row RecoveryConflict
       (fetchone (the_run (ru_project u) (ru_request u) (ru_id u)) (db_supervisors d))) (\<lambda>r.
     bindR (ensure (sr_owner r = ru_owner u \<and> sr_token r = ru_token u) RecoveryAuthorizationError) (\<lambda>_.
     if sr_status r = Reported
     then bindR (ensure (case sr_fingerprint r of None \<Rightarrow> False
            | Some fp \<Rightarrow> fp \<in> set (accepted_fingerprints sha t2 r (ru_id u) x)) RecoveryConflict) (\<lambda>_.
          Inr ((reported_run u r)\<lparr>ru_applied := sr_applied r\<rparr>, d))
     else bindR (ensure (sr_deadline r \<le> t2 \<or> t1 < sr_expires r) RecoveryConflict) (\<lambda>_.
          report_new sha t3 pr u r (limited t2 r (ru_id u) x) d)))"

definition supervisor_report :: "(string \<Rightarrow> string) \<Rightarrow> timestamp \<Rightarrow> timestamp \<Rightarrow> timestamp \<Rightarrow> principal \<Rightarrow> recovery_run \<Rightarrow>
    recovery_result \<Rightarrow>
    db \<Rightarrow> (recovery_run \<times> db) res" where
  "supervisor_report sha t1 t2 t3 pr u x d =
     bindR (authorize_project pr (ru_project u)) (\<lambda>_. bindR (validated_result x) (\<lambda>x.
     except_map supervisor_wrap (supervisor_report_tx sha t1 t2 t3 pr u x d)))"

section \<open>Reconciling\<close>

definition request_of_run :: "supervisor_run \<Rightarrow> db \<Rightarrow> recovery_request option" where
  "request_of_run r d = fetchone (\<lambda>q. rr_project q = sr_project r \<and> rr_id q = sr_request r) (db_requests d)"

text \<open>\<open>_expire_deadlines\<close>: one transaction over the overdue runs, which the query returns in no
  particular order; here in that of the table.\<close>

definition overdue :: "timestamp \<Rightarrow> (string \<times> string \<Rightarrow> bool) \<Rightarrow> principal \<Rightarrow> db \<Rightarrow> supervisor_run \<Rightarrow> bool" where
  "overdue t locked pr d r = (sr_status r = Running \<and> sr_deadline r \<le> t \<and> permitted pr (sr_project r)
     \<and> request_of_run r d \<noteq> None \<and> \<not> locked (sr_project r, sr_request r))"

fun expire_runs :: "(string \<Rightarrow> string) \<Rightarrow> timestamp \<Rightarrow> principal \<Rightarrow> supervisor_run list \<Rightarrow> db \<Rightarrow> db res" where
  "expire_runs sha t pr [] d = Inr d"
| "expire_runs sha t pr (r # rs) d = (case request_of_run r d of
     None \<Rightarrow> expire_runs sha t pr rs d
   | Some q \<Rightarrow>
     bindR (run_event sha t (sr_project r) (rr_work q) (pr_subject pr) (sr_id r) ''recovery.deadline_reached''
       [(''recovery_request_id'', JStr (sr_request r)), (''run_id'', JStr (sr_id r)),
        (''verification_ref'', JStr (time_limit_ref (sr_id r)))]
       (update_run_row (\<lambda>x. sr_project x = sr_project r \<and> sr_request x = sr_request r \<and> sr_status x = Running)
         (reported_as sha t Failed time_limit_summary (time_limit_ref (sr_id r)) 0) d))
     (expire_runs sha t pr rs))"

definition expire_deadlines :: "(string \<Rightarrow> string) \<Rightarrow> timestamp \<Rightarrow> (string \<times> string \<Rightarrow> bool) \<Rightarrow> principal \<Rightarrow> db \<Rightarrow>
    (unit \<times> db) res" where
  "expire_deadlines sha t locked pr d = except_map supervisor_wrap
     (bindR (expire_runs sha t pr (filter (overdue t locked pr d) (db_supervisors d)) d) (\<lambda>d1. Inr ((), d1)))"

text \<open>The reported results nobody has applied, oldest first, and the loop over them: recording the
  attempt and marking the run applied are transactions of their own, and the first that fails
  ends the loop.\<close>

definition report_order :: "supervisor_run \<Rightarrow> int \<times> string \<times> string" where
  "report_order r = ((case sr_reported r of None \<Rightarrow> 0 | Some t \<Rightarrow> t), sr_project r, sr_id r)"

definition unapplied :: "principal \<Rightarrow> db \<Rightarrow> supervisor_run list" where
  "unapplied pr d = sort_key report_order (filter (\<lambda>r. sr_status r = Reported \<and> sr_applied r = None
     \<and> permitted pr (sr_project r) \<and> request_of_run r d \<noteq> None) (db_supervisors d))"

definition apply_result :: "(string \<Rightarrow> string) \<Rightarrow> timestamp \<Rightarrow> principal \<Rightarrow> supervisor_run \<Rightarrow> recovery_request \<Rightarrow> db \<Rightarrow>
    (reliability_status \<times> db) res" where
  "apply_result sha t pr r q d = record_attempt sha t (sr_project r) (rr_work q) (rr_incident q) (sr_id r)
     ''recovery'' 1 (case sr_outcome r of None \<Rightarrow> [] | Some o' \<Rightarrow> outcome_text o') (pr_subject pr) None
     (Some (result_evidence r)) d"

definition applies_to :: "supervisor_run \<Rightarrow> supervisor_run \<Rightarrow> bool" where
  "applies_to r x = (the_run (sr_project r) (sr_request r) (sr_id r) x
     \<and> sr_fingerprint x = sr_fingerprint r \<and> sr_applied x = None)"

definition mark_applied :: "timestamp \<Rightarrow> supervisor_run \<Rightarrow> db \<Rightarrow> int \<times> db" where
  "mark_applied t r d = ((if has_row (applies_to r) (db_supervisors d) then 1 else 0),
     update_run_row (applies_to r) (\<lambda>x. x\<lparr>sr_applied := Some t\<rparr>) d)"

fun apply_results :: "(string \<Rightarrow> string) \<Rightarrow> timestamp \<Rightarrow> principal \<Rightarrow> (supervisor_run \<times> recovery_request) list \<Rightarrow>
    int \<Rightarrow> db \<Rightarrow> int res \<times> db" where
  "apply_results sha t pr [] n d = (Inr n, d)"
| "apply_results sha t pr ((r, q) # rs) n d = (case apply_result sha t pr r q d of
     Inl e \<Rightarrow> (Inl e, d)
   | Inr (_, d1) \<Rightarrow> (let (k, d2) = mark_applied t r d1 in apply_results sha t pr rs (n + k) d2))"

definition reconcile :: "(string \<Rightarrow> string) \<Rightarrow> timestamp \<Rightarrow> (string \<times> string \<Rightarrow> bool) \<Rightarrow> principal \<Rightarrow> db \<Rightarrow>
    int res \<times> db" where
  "reconcile sha t locked pr d =
     (case bindR (authorize_scope pr) (\<lambda>_. expire_deadlines sha t locked pr d) of
        Inl e \<Rightarrow> (Inl e, d)
      | Inr (_, d1) \<Rightarrow> apply_results sha t pr
          (map (\<lambda>r. (r, the (request_of_run r d1))) (unapplied pr d1)) 0 d1)"

section \<open>Reading and the supervisor's turn\<close>

definition list_project :: "string \<Rightarrow> db \<Rightarrow> (recovery_request \<times> supervisor_run option) list res" where
  "list_project p d = bindR (exact_ident p) (\<lambda>p.
     Inr (map (\<lambda>q. (q, run_of_request q d))
       (sort_key (\<lambda>q. (- rr_requested q, rr_id q)) (filter (\<lambda>q. rr_project q = p) (db_requests d)))))"

definition recovery_job_of :: "recovery_run \<Rightarrow> tool_profile \<Rightarrow> recovery_job res" where
  "recovery_job_of u pf =
     bindR (ensure (ru_profile u = tp_reference pf \<and> ru_profile_digest u = tp_digest pf) RecoveryConflict) (\<lambda>_.
     bindR (reject_sensitive_content (ru_goal u)) (\<lambda>_.
     Inr \<lparr>rj_project = ru_project u, rj_request = ru_request u, rj_incident = ru_incident u, rj_work = ru_work u,
       rj_run = ru_id u, rj_goal = ru_goal u, rj_deadline = ru_deadline u, rj_limit = ru_limit u,
       rj_profile = ru_profile u, rj_profile_digest = ru_profile_digest u,
       rj_image = tp_repository pf @ '':'' @ tp_tag pf, rj_mounts = tp_mounts pf,
       rj_credentials = tp_credentials pf\<rparr>))"

text \<open>A statement after another, each keeping what it committed when the next raises.\<close>

definition then_do :: "'a res \<times> db \<Rightarrow> ('a \<Rightarrow> db \<Rightarrow> 'b res \<times> db) \<Rightarrow> 'b res \<times> db" where
  "then_do x f = (case x of (Inl e, d) \<Rightarrow> (Inl e, d) | (Inr y, d) \<Rightarrow> f y d)"

text \<open>\<open>execute_once\<close>. The launcher is a parameter: the result it returns or the exception it
  raises, the database as it leaves it to this process (other sessions and the heartbeat thread
  have run meanwhile), and whether a heartbeat failed; \<open>clock\<close> gives the successive readings.\<close>

datatype execution = Idle int | Completed int recovery_run

definition execute_once :: "(string \<Rightarrow> string) \<Rightarrow> (timestamp \<Rightarrow> string) \<Rightarrow> (nat \<Rightarrow> timestamp) \<Rightarrow>
    (string \<times> string \<Rightarrow> bool) \<Rightarrow> principal \<Rightarrow> string \<Rightarrow> string \<Rightarrow> tool_profile res \<Rightarrow> int \<Rightarrow> int \<Rightarrow> int \<Rightarrow>
    (recovery_job \<Rightarrow> db \<Rightarrow> recovery_result res \<times> bool \<times> db) \<Rightarrow> db \<Rightarrow> execution res \<times> db" where
  "execute_once sha txt clock locked pr owner token profile minutes limit lease launch d =
     then_do (reconcile sha (clock 0) locked pr d) (\<lambda>n d1.
     then_do (profile, d1) (\<lambda>pf d1.
     then_do (atomically (supervisor_claim sha txt (clock 1) (clock 2) locked pr owner token pf minutes limit lease d1) d1)
       (\<lambda>u d2. case u of
         None \<Rightarrow> (Inr (Idle n), d2)
       | Some u \<Rightarrow>
         then_do (recovery_job_of u pf, d2) (\<lambda>job d2.
         let (x, lost, d3) = launch job d2 in
         then_do (x, d3) (\<lambda>x d3.
         if lost then (Inl RecoveryConflict, d3)
         else then_do (atomically (supervisor_report sha (clock 3) (clock 4) (clock 5) pr u x d3) d3) (\<lambda>v d4.
           then_do (reconcile sha (clock 6) locked pr d4) (\<lambda>m d5. (Inr (Completed (n + m) v), d5))))))))"

end
