(* ===== verification/RecoverySystem.thy ===== *)
theory RecoverySystem
  imports Supervisor Lifecycle
begin

text \<open>
  The retry chain as a transition system: the transactions of \<open>reliability.py\<close> and
  \<open>recovery_supervisor.py\<close>, the lifecycle transition that closes an incident, and any
  transaction that leaves the failure tables alone, in every order. The invariant ties each
  incident to its attempts, its recovery request and the supervisor's runs; the abstract view
  of an incident is how far along the chain of seven attempts it is.
\<close>

inductive recovery_step :: "(string \<Rightarrow> string) \<Rightarrow> db \<Rightarrow> db \<Rightarrow> bool" for sha where
  opened: "incident_start_tx sha t p w k category summary source actor d = Inr (s, d') \<Longrightarrow> recovery_step sha d d'"
| attempted: "attempt_tx sha t q d = Inr (s, d') \<Longrightarrow> recovery_step sha d d'"
| ended: "transition_tx sha t p w target actor corr version reason evidence d = Inr (x, d') \<Longrightarrow>
    recovery_step sha d d'"
| claimed: "supervisor_claim_tx sha txt t1 t2 locked pr owner token pf minutes limit lease d = Inr (u, d') \<Longrightarrow>
    recovery_step sha d d'"
| beaten: "supervisor_heartbeat_tx t u lease d = Inr (v, d') \<Longrightarrow> recovery_step sha d d'"
| reported: "supervisor_report_tx sha t1 t2 t3 pr u x d = Inr (v, d') \<Longrightarrow> recovery_step sha d d'"
| expired: "expire_deadlines sha t locked pr d = Inr (u, d') \<Longrightarrow> recovery_step sha d d'"
| applied: "mark_applied t r d = (k, d') \<Longrightarrow> recovery_step sha d d'"
| other: "db_incidents d' = db_incidents d \<Longrightarrow> db_attempts d' = db_attempts d \<Longrightarrow>
    db_requests d' = db_requests d \<Longrightarrow> db_supervisors d' = db_supervisors d \<Longrightarrow> recovery_step sha d d'"

section \<open>What the transactions do to the failure tables\<close>

definition failure_tables :: "db \<Rightarrow> incident_row list \<times> attempt_row list \<times> recovery_request list \<times> supervisor_run list" where
  "failure_tables d = (db_incidents d, db_attempts d, db_requests d, db_supervisors d)"

lemma append_event_tables: "append_event sha t e ms d = Inr (s, d') \<Longrightarrow> failure_tables d' = failure_tables d"
  using append_event_frame [of sha t e ms d s d'] by (cases d; cases d'; simp add: failure_tables_def)

lemma route_retry_tables: "route_retry sha t i role st n b d = Inr d' \<Longrightarrow> failure_tables d' = failure_tables d"
  by (auto simp: route_retry_def monad_simps route_Inr insert_item_Inr failure_tables_def split: prod.splits)

lemma journal_incident_tables: "journal_incident sha t p w a c i ty m d = Inr d' \<Longrightarrow> failure_tables d' = failure_tables d"
  by (auto simp: journal_incident_def monad_simps split: prod.splits dest: append_event_tables)

lemma run_event_tables: "run_event sha t p w a r ty m d = Inr d' \<Longrightarrow> failure_tables d' = failure_tables d"
  by (auto simp: run_event_def monad_simps split: prod.splits dest: append_event_tables)

lemma report_tables: "report sha t p w actor corr ty status payload d = Inr d' \<Longrightarrow> failure_tables d' = failure_tables d"
  by (auto simp: report_def monad_simps split: prod.splits dest: append_event_tables)

lemmas failure_frames = route_retry_tables journal_incident_tables run_event_tables report_tables

text \<open>The chain of attempts, and what an attempt at position \<open>k\<close> makes of its incident.\<close>

definition chain :: "(stage \<times> int) list" where
  "chain = [(Technical, 1), (Technical, 2), (Technical, 3), (PmCorrection, 1), (PmCorrection, 2),
     (PmCorrection, 3), (Recovery, 1)]"

definition next_incident :: "timestamp \<Rightarrow> nat \<Rightarrow> attempt_outcome \<Rightarrow> incident_row \<Rightarrow> incident_row" where
  "next_incident t k o' x = (case o' of
     Succeeded \<Rightarrow> x\<lparr>fi_status := IncRecovered, fi_stage := NoStage, fi_number := None, fi_resolved := Some t\<rparr>
   | Failed \<Rightarrow> if k < 6 then x\<lparr>fi_stage := fst (chain ! Suc k), fi_number := Some (snd (chain ! Suc k))\<rparr>
       else x\<lparr>fi_status := IncEligible, fi_stage := NoStage, fi_number := None\<rparr>)"

definition request_for :: "(string \<Rightarrow> string) \<Rightarrow> timestamp \<Rightarrow> incident_row \<Rightarrow> recovery_request" where
  "request_for sha t i = \<lparr>rr_project = fi_project i, rr_id = derived_id sha ''recovery'' (fi_project i) (fi_id i),
     rr_incident = fi_id i, rr_work = fi_work i, rr_goal = recovery_goal i, rr_status = RqPending,
     rr_requested = t, rr_resolved = None, rr_evidence = []\<rparr>"

definition next_requests :: "(string \<Rightarrow> string) \<Rightarrow> timestamp \<Rightarrow> nat \<Rightarrow> attempt_outcome \<Rightarrow> incident_row \<Rightarrow>
    (string \<times> json) list \<Rightarrow> db \<Rightarrow> recovery_request list" where
  "next_requests sha t k o' i ev d =
     (if k = 5 \<and> o' = Failed then db_requests d @ [request_for sha t i]
      else if k = 6 then db_requests (resolve_request t (fi_project i) (fi_id i)
        (case o' of Succeeded \<Rightarrow> RqSucceeded | Failed \<Rightarrow> RqFailed) ev d)
      else db_requests d)"

definition is_incident :: "incident_row \<Rightarrow> incident_row \<Rightarrow> bool" where
  "is_incident i x = (fi_project x = fi_project i \<and> fi_id x = fi_id i)"

lemma chain_cases:
  assumes "k < length chain"
  obtains "k = 0" | "k = 1" | "k = 2" | "k = 3" | "k = 4" | "k = 5" | "k = 6"
  using assms by (auto simp: chain_def less_Suc_eq numeral_eq_Suc)

lemma chain_simps [simp]:
  "length chain = 7" "chain ! 0 = (Technical, 1)" "chain ! 1 = (Technical, 2)" "chain ! Suc 0 = (Technical, 2)"
  "chain ! 2 = (Technical, 3)" "chain ! 3 = (PmCorrection, 1)" "chain ! 4 = (PmCorrection, 2)"
  "chain ! 5 = (PmCorrection, 3)" "chain ! 6 = (Recovery, 1)"
  by (simp_all add: chain_def numeral_eq_Suc)

lemma ordinal_chain: "k < 7 \<Longrightarrow> ordinal (fst (chain ! k)) (snd (chain ! k)) = int k + 1"
  by (rule chain_cases [of k]) (simp_all)

lemma update_incident_Inr [monad_simps]: "update_incident p i Q f d = Inr d' \<longleftrightarrow>
    d' = d\<lparr>db_incidents := upd_where (\<lambda>x. fi_project x = p \<and> fi_id x = i \<and> Q x) f (db_incidents d)\<rparr>
    \<and> (\<forall>x\<in>set (db_incidents d'). incident_check x)"
  by (auto simp: update_incident_def Let_def list_all_iff)

lemma upd_where_cong: "(\<And>x. x \<in> set t \<Longrightarrow> P x = Q x) \<Longrightarrow> (\<And>x. x \<in> set t \<Longrightarrow> Q x \<Longrightarrow> f x = g x) \<Longrightarrow>
    upd_where P f t = upd_where Q g t"
  by (auto simp: upd_where_def)

lemma insert_attempt_Inr [monad_simps]: "insert_attempt a d = Inr d' \<longleftrightarrow>
    supervised a d \<and> attempt_check a
    \<and> (\<forall>x\<in>set (db_attempts d). fa_project x = fa_project a \<longrightarrow> fa_id x \<noteq> fa_id a
        \<and> (fa_incident x = fa_incident a \<longrightarrow> fa_ordinal x \<noteq> fa_ordinal a
          \<and> (fa_stage x = fa_stage a \<longrightarrow> fa_number x \<noteq> fa_number a)
          \<and> (fa_correction_digest a \<noteq> None \<longrightarrow> fa_correction_digest x \<noteq> fa_correction_digest a)))
    \<and> (\<exists>x\<in>set (db_incidents d). fi_project x = fa_project a \<and> fi_id x = fa_incident a)
    \<and> d' = d\<lparr>db_attempts := db_attempts d @ [a]\<rparr>"
  unfolding insert_attempt_def has_row_iff by (auto split: if_splits)

lemma insert_request_Inr [monad_simps]: "insert_request q d = Inr d' \<longleftrightarrow>
    (\<forall>x\<in>set (db_requests d). rr_project x = rr_project q \<longrightarrow> rr_id x \<noteq> rr_id q \<and> rr_incident x \<noteq> rr_incident q)
    \<and> length (rr_goal q) \<le> 4000
    \<and> (\<exists>x\<in>set (db_incidents d). fi_project x = rr_project q \<and> fi_id x = rr_incident q)
    \<and> has_work d (rr_project q) (rr_work q) \<and> d' = d\<lparr>db_requests := db_requests d @ [q]\<rparr>"
  unfolding insert_request_def has_row_iff by (auto split: if_splits)

lemma resolve_request_fields [simp]:
  "db_incidents (resolve_request t p i s ev d) = db_incidents d"
  "db_attempts (resolve_request t p i s ev d) = db_attempts d"
  "db_supervisors (resolve_request t p i s ev d) = db_supervisors d"
  by (simp_all add: resolve_request_def)

text \<open>The tables after a transaction that recorded attempt \<open>k\<close> of an active incident.\<close>

definition chained :: "(string \<Rightarrow> string) \<Rightarrow> timestamp \<Rightarrow> nat \<Rightarrow> attempt_outcome \<Rightarrow> incident_row \<Rightarrow>
    (string \<times> json) list \<Rightarrow> db \<Rightarrow> db \<Rightarrow> bool" where
  "chained sha t k o' i ev d d' = (db_attempts d' = db_attempts d \<and> db_supervisors d' = db_supervisors d
     \<and> db_incidents d' = upd_where (is_incident i) (next_incident t k o') (db_incidents d)
     \<and> (\<forall>x\<in>set (db_incidents d'). incident_check x)
     \<and> db_requests d' = next_requests sha t k o' i ev d
     \<and> (k = 5 \<and> o' = Failed \<longrightarrow> (\<forall>x\<in>set (db_requests d). rr_project x = fi_project i \<longrightarrow>
         rr_id x \<noteq> rr_id (request_for sha t i) \<and> rr_incident x \<noteq> fi_id i)))"

lemma succeed_chained:
  assumes "succeed sha t i st ev d = Inr (a, d')" and "k < 7" and "st = fst (chain ! k)"
  shows "chained sha t k Succeeded i ev d d'"
proof -
  have st: "st = Recovery \<longleftrightarrow> k = 6" using assms(2,3) by (auto elim: chain_cases [of k, simplified])
  have n: "next_incident t k Succeeded = (\<lambda>x. x\<lparr>fi_status := IncRecovered, fi_stage := NoStage, fi_number := None,
      fi_resolved := Some t\<rparr>)" by (simp add: next_incident_def fun_eq_iff)
  have m: "is_incident i = (\<lambda>x. fi_project x = fi_project i \<and> fi_id x = fi_id i)"
    by (simp add: is_incident_def fun_eq_iff)
  from assms(1) obtain d1 where d1: "(if st = Recovery then route_retry sha t i (fi_owner i) Recovery 1 True
        (resolve_request t (fi_project i) (fi_id i) RqSucceeded ev d) else Inr d) = Inr d1"
    and d': "d' = d1\<lparr>db_incidents := upd_where (is_incident i) (next_incident t k Succeeded) (db_incidents d1)\<rparr>"
      "\<forall>x\<in>set (db_incidents d'). incident_check x"
    unfolding n m by (auto simp: succeed_def monad_simps)
  have "failure_tables d1 = failure_tables (if k = 6 then resolve_request t (fi_project i) (fi_id i) RqSucceeded ev d else d)"
    using d1 failure_frames(1) unfolding st by (cases "k = 6") auto
  then show ?thesis using d' by (auto simp: chained_def failure_tables_def next_requests_def)
qed

lemma set_next_upd:
  assumes "set_next (fi_project i) (fi_id i) st n d = Inr d'"
    and "\<And>x. x \<in> set (db_incidents d) \<Longrightarrow> is_incident i x \<Longrightarrow> fi_status x = IncActive"
  shows "d' = d\<lparr>db_incidents := upd_where (is_incident i) (\<lambda>x. x\<lparr>fi_stage := st, fi_number := Some n\<rparr>) (db_incidents d)\<rparr>
    \<and> (\<forall>x\<in>set (db_incidents d'). incident_check x)"
proof -
  have "upd_where (\<lambda>x. fi_project x = fi_project i \<and> fi_id x = fi_id i \<and> fi_status x = IncActive) f (db_incidents d)
      = upd_where (is_incident i) f (db_incidents d)" for f :: "incident_row \<Rightarrow> incident_row"
    using assms(2) by (intro upd_where_cong) (auto simp: is_incident_def)
  then show ?thesis using assms(1) by (auto simp: set_next_def monad_simps)
qed

lemma retry_at_chained:
  assumes "retry_at sha t i role st n action d = Inr (a, d')"
    and "\<And>x. x \<in> set (db_incidents d) \<Longrightarrow> is_incident i x \<Longrightarrow> fi_status x = IncActive"
    and "k < 6" and "k \<noteq> 5" and "(st, n) = chain ! Suc k"
  shows "chained sha t k Failed i ev d d'"
proof -
  from assms(1) obtain d1 where d1: "set_next (fi_project i) (fi_id i) st n d = Inr d1"
    and r: "route_retry sha t i role st n False d1 = Inr d'"
    by (auto simp: retry_at_def monad_simps)
  have n: "next_incident t k Failed = (\<lambda>x. x\<lparr>fi_stage := st, fi_number := Some n\<rparr>)"
    using assms(3,5) by (cases "chain ! Suc k") (auto simp: next_incident_def)
  show ?thesis using set_next_upd [OF d1 assms(2)] failure_frames(1) [OF r] assms(3,4)
    by (auto simp: chained_def failure_tables_def next_requests_def n)
qed

lemma advance_chained:
  assumes a: "advance_failed sha t i st n ev d = Inr (a, d')"
    and act: "\<And>x. x \<in> set (db_incidents d) \<Longrightarrow> is_incident i x \<Longrightarrow> fi_status x = IncActive"
    and k: "k < 7" "(st, n) = chain ! k"
  shows "chained sha t k Failed i ev d d'"
proof (cases "k < 5")
  case True
  with k have "k = 0 \<or> k = 1 \<or> k = 2 \<or> k = 3 \<or> k = 4" by auto
  then have "\<exists>role action. retry_at sha t i role (fst (chain ! Suc k)) (snd (chain ! Suc k)) action d = Inr (a, d')"
    using a k(2) by (elim disjE) (auto simp: advance_failed_def chain_def)
  then obtain role action where
    "retry_at sha t i role (fst (chain ! Suc k)) (snd (chain ! Suc k)) action d = Inr (a, d')" by blast
  from retry_at_chained [OF this act] True show ?thesis by simp
next
  case False
  with k(1) consider "k = 5" | "k = 6" by linarith
  then show ?thesis
  proof cases
    case 1
    from a k(2) 1 obtain d1 where d1: "insert_request (request_for sha t i) d = Inr d1"
      "set_next (fi_project i) (fi_id i) Recovery 1 d1 = Inr d'"
      by (auto simp: advance_failed_def monad_simps request_for_def)
    then have i: "db_incidents d1 = db_incidents d" by (auto simp: monad_simps)
    have n: "next_incident t 5 Failed = (\<lambda>x. x\<lparr>fi_stage := Recovery, fi_number := Some 1\<rparr>)"
      by (simp add: next_incident_def fun_eq_iff)
    show ?thesis using set_next_upd [OF d1(2), unfolded i, OF act] d1(1) 1
      by (auto simp: chained_def next_requests_def monad_simps n request_for_def)
  next
    case 2
    have m: "is_incident i = (\<lambda>x. fi_project x = fi_project i \<and> fi_id x = fi_id i)"
      by (simp add: is_incident_def fun_eq_iff)
    have n: "next_incident t 6 Failed = (\<lambda>x. x\<lparr>fi_status := IncEligible, fi_stage := NoStage, fi_number := None\<rparr>)"
      by (simp add: next_incident_def fun_eq_iff)
    from a k(2) 2 show ?thesis
      by (auto simp: advance_failed_def chained_def next_requests_def monad_simps n m)
  qed
qed

section \<open>The invariant\<close>

definition incident_key :: "incident_row \<Rightarrow> string \<times> string" where
  "incident_key i = (fi_project i, fi_id i)"

definition request_key :: "recovery_request \<Rightarrow> string \<times> string" where
  "request_key q = (rr_project q, rr_id q)"

definition supervisor_key :: "supervisor_run \<Rightarrow> string \<times> string" where
  "supervisor_key r = (sr_project r, sr_request r)"

definition tries :: "db \<Rightarrow> incident_row \<Rightarrow> attempt_row list" where
  "tries d i = attempts_of (fi_project i) (fi_id i) d"

definition requests_of :: "db \<Rightarrow> incident_row \<Rightarrow> recovery_request list" where
  "requests_of d i = filter (\<lambda>q. rr_project q = fi_project i \<and> rr_incident q = fi_id i) (db_requests d)"

definition all_failed :: "attempt_row list \<Rightarrow> bool" where
  "all_failed as = (\<forall>a\<in>set as. fa_outcome a = Failed)"

text \<open>The attempts of an incident are the first places of the chain; an active incident asks for
  the next place, a recovered one ended with a success, and the others exhausted the chain.\<close>

definition incident_ok :: "attempt_row list \<Rightarrow> incident_row \<Rightarrow> bool" where
  "incident_ok as i = (length as \<le> 7 \<and> map (\<lambda>a. (fa_stage a, fa_number a)) as = take (length as) chain
     \<and> incident_check i
     \<and> (case fi_status i of
          IncActive \<Rightarrow> length as < 7 \<and> all_failed as \<and> fi_stage i = fst (chain ! length as)
            \<and> fi_number i = Some (snd (chain ! length as))
        | IncRecovered \<Rightarrow> (\<exists>bs a. as = bs @ [a] \<and> all_failed bs \<and> fa_outcome a = Succeeded)
        | _ \<Rightarrow> length as = 7 \<and> all_failed as))"

text \<open>A recovery request exists from the sixth failure on and is resolved with the incident.\<close>

definition request_ok :: "recovery_request list \<Rightarrow> attempt_row list \<Rightarrow> incident_row \<Rightarrow> bool" where
  "request_ok qs as i = (if length (filter (\<lambda>a. fa_outcome a = Failed) as) < 6 then qs = []
     else \<exists>q. qs = [q] \<and> rr_work q = fi_work i \<and> rr_status q = (case fi_status i of
       IncActive \<Rightarrow> RqPending | IncRecovered \<Rightarrow> RqSucceeded | _ \<Rightarrow> RqFailed))"

definition incidents_inv :: "db \<Rightarrow> bool" where
  "incidents_inv d = (distinct (map incident_key (db_incidents d))
     \<and> (\<forall>i\<in>set (db_incidents d). incident_ok (tries d i) i \<and> request_ok (requests_of d i) (tries d i) i)
     \<and> (\<forall>i\<in>set (db_incidents d). \<forall>j\<in>set (db_incidents d). open_incident i \<longrightarrow> open_incident j \<longrightarrow>
          fi_project i = fi_project j \<longrightarrow> fi_work i = fi_work j \<longrightarrow> i = j)
     \<and> (\<forall>a\<in>set (db_attempts d). \<exists>i\<in>set (db_incidents d). fa_project a = fi_project i \<and> fa_incident a = fi_id i)
     \<and> (\<forall>q\<in>set (db_requests d). \<exists>i\<in>set (db_incidents d). rr_project q = fi_project i \<and> rr_incident q = fi_id i))"

lemma incidents_invD:
  assumes "incidents_inv d"
  shows "distinct (map incident_key (db_incidents d))"
    "\<And>i. i \<in> set (db_incidents d) \<Longrightarrow> incident_ok (tries d i) i"
    "\<And>i. i \<in> set (db_incidents d) \<Longrightarrow> request_ok (requests_of d i) (tries d i) i"
    "\<And>i j. i \<in> set (db_incidents d) \<Longrightarrow> j \<in> set (db_incidents d) \<Longrightarrow> open_incident i \<Longrightarrow> open_incident j \<Longrightarrow>
       fi_project i = fi_project j \<Longrightarrow> fi_work i = fi_work j \<Longrightarrow> i = j"
    "\<And>a. a \<in> set (db_attempts d) \<Longrightarrow> \<exists>i\<in>set (db_incidents d). fa_project a = fi_project i \<and> fa_incident a = fi_id i"
    "\<And>q. q \<in> set (db_requests d) \<Longrightarrow> \<exists>i\<in>set (db_incidents d). rr_project q = fi_project i \<and> rr_incident q = fi_id i"
  using assms unfolding incidents_inv_def by blast+

lemma incidents_inv_cong:
  "db_incidents d' = db_incidents d \<Longrightarrow> db_attempts d' = db_attempts d \<Longrightarrow> db_requests d' = db_requests d \<Longrightarrow>
   incidents_inv d' = incidents_inv d"
  by (simp add: incidents_inv_def tries_def attempts_of_def requests_of_def)

text \<open>The abstract view: how far along the chain an incident is, and the moves it can make.\<close>

datatype chain_standing = Trying nat | Solved nat | Exhausted | Closed

definition standing :: "db \<Rightarrow> incident_row \<Rightarrow> chain_standing" where
  "standing d i = (case fi_status i of IncActive \<Rightarrow> Trying (length (tries d i))
     | IncRecovered \<Rightarrow> Solved (length (tries d i)) | IncEligible \<Rightarrow> Exhausted | IncTerminal \<Rightarrow> Closed)"

text \<open>What a move records: the place of the chain and the outcome of each new attempt. A failure leads
  to the next place, the failure of the seventh and last exhausts the chain, a success at any
  place solves it, and only closing an exhausted chain records nothing.\<close>

type_synonym attempt_mark = "stage \<times> int \<times> attempt_outcome"

definition mark :: "attempt_row \<Rightarrow> attempt_mark" where
  "mark a = (fa_stage a, fa_number a, fa_outcome a)"

inductive chain_move :: "chain_standing \<Rightarrow> attempt_mark list \<Rightarrow> chain_standing \<Rightarrow> bool" where
  failed: "n < 6 \<Longrightarrow> chain ! n = (s, k) \<Longrightarrow> chain_move (Trying n) [(s, k, Failed)] (Trying (Suc n))"
| exhausted: "chain_move (Trying 6) [(Recovery, 1, Failed)] Exhausted"
| solved: "n < 7 \<Longrightarrow> chain ! n = (s, k) \<Longrightarrow> chain_move (Trying n) [(s, k, Succeeded)] (Solved (Suc n))"
| closed: "chain_move Exhausted [] Closed"

inductive_cases chain_moveE: "chain_move s as t"

inductive_simps chain_move_Trying: "chain_move (Trying n) as t"

inductive_simps chain_move_Exhausted: "chain_move Exhausted as t"

inductive_simps chain_move_Solved: "chain_move (Solved n) as t"

inductive_simps chain_move_Closed: "chain_move Closed as t"

text \<open>A new attempt at the end of the chain of an active incident.\<close>

lemma incident_ok_active:
  assumes "incident_ok as i" and "fi_status i = IncActive"
  shows "length as < 7" "all_failed as" "fi_stage i = fst (chain ! length as)"
    "fi_number i = Some (snd (chain ! length as))" "map (\<lambda>a. (fa_stage a, fa_number a)) as = take (length as) chain"
  using assms by (auto simp: incident_ok_def)

lemma next_incident_key [simp]:
  "fi_project (next_incident t k o' x) = fi_project x" "fi_id (next_incident t k o' x) = fi_id x"
  "fi_work (next_incident t k o' x) = fi_work x" "incident_key (next_incident t k o' x) = incident_key x"
  "fi_owner (next_incident t k o' x) = fi_owner x" "fi_summary (next_incident t k o' x) = fi_summary x"
  "fi_source (next_incident t k o' x) = fi_source x" "fi_key (next_incident t k o' x) = fi_key x"
  "fi_fingerprint (next_incident t k o' x) = fi_fingerprint x"
  by (simp_all add: next_incident_def incident_key_def split: attempt_outcome.splits)

lemma incident_ok_next:
  assumes ok: "incident_ok as i" "fi_status i = IncActive"
    and a: "(fa_stage a, fa_number a) = chain ! length as"
    and c: "incident_check (next_incident t (length as) (fa_outcome a) i)"
  shows "incident_ok (as @ [a]) (next_incident t (length as) (fa_outcome a) i)"
proof -
  note A = incident_ok_active [OF ok]
  have t: "take (Suc (length as)) chain = take (length as) chain @ [chain ! length as]"
    using A(1) by (simp add: take_Suc_conv_app_nth)
  show ?thesis
    using A(1,2,5) a c t ok(2) by (auto simp: incident_ok_def next_incident_def all_failed_def
        split: attempt_outcome.splits incident_status.splits)
qed

lemma chain_move_next:
  assumes "fi_status i = IncActive" and "tries d' (next_incident t n (fa_outcome a) i) = tries d i @ [a]"
    and "n = length (tries d i)" and "n < 7" and "(fa_stage a, fa_number a) = chain ! n"
  shows "chain_move (standing d i) (map mark [a]) (standing d' (next_incident t n (fa_outcome a) i))"
proof (cases "fa_outcome a")
  case Succeeded
  with assms show ?thesis by (simp add: standing_def next_incident_def mark_def chain_move.solved)
next
  case Failed
  show ?thesis
  proof (cases "n < 6")
    case True
    with Failed assms show ?thesis by (simp add: standing_def next_incident_def mark_def chain_move.failed)
  next
    case False
    with assms(4) have "n = 6" by linarith
    with Failed assms show ?thesis by (simp add: standing_def next_incident_def mark_def chain_move.exhausted)
  qed
qed

section \<open>Steps keep the invariant\<close>

lemma filter_upd_where_other:
  "(\<And>q. P q \<Longrightarrow> \<not> Q q \<and> \<not> Q (f q)) \<Longrightarrow> filter Q (upd_where P f t) = filter Q t"
  by (induction t) (auto simp: upd_where_def)

lemma filter_upd_where_same:
  "(\<And>q. Q (f q) = Q q) \<Longrightarrow> filter Q (upd_where P f t) = upd_where P f (filter Q t)"
  by (induction t) (auto simp: upd_where_def)

definition incident_core :: "incident_row \<Rightarrow> string \<times> string \<times> string \<times> string \<times> string \<times> string \<times> string" where
  "incident_core i = (fi_project i, fi_id i, fi_work i, fi_owner i, fi_summary i, fi_source i, fi_key i)"

text \<open>What one transaction makes of an incident: nothing, or one move that its new attempts label.\<close>

definition incident_moves :: "db \<Rightarrow> db \<Rightarrow> incident_row \<Rightarrow> incident_row \<Rightarrow> bool" where
  "incident_moves d d' i j = (incident_core j = incident_core i \<and> (\<exists>as. tries d' j = tries d i @ as
     \<and> (as = [] \<and> standing d' j = standing d i \<or> chain_move (standing d i) (map mark as) (standing d' j))))"

text \<open>No incident is lost, each makes at most one move, and a new one starts at the first place.\<close>

definition keeps_incidents :: "db \<Rightarrow> db \<Rightarrow> bool" where
  "keeps_incidents d d' = ((\<forall>i\<in>set (db_incidents d). \<exists>j\<in>set (db_incidents d'). incident_moves d d' i j)
     \<and> (\<forall>j\<in>set (db_incidents d'). (\<exists>i\<in>set (db_incidents d). incident_core j = incident_core i)
          \<or> standing d' j = Trying 0))"

lemma incident_stays:
  "tries d' i = tries d i \<Longrightarrow> incident_moves d d' i i"
  by (simp add: incident_moves_def standing_def split: incident_status.split)

lemma keeps_incidents_same:
  assumes "db_incidents d' = db_incidents d" and "db_attempts d' = db_attempts d"
  shows "keeps_incidents d d'"
proof -
  have "incident_moves d d' i i" for i
    using assms(2) by (intro incident_stays) (simp add: tries_def attempts_of_def)
  then show ?thesis unfolding keeps_incidents_def assms(1) by blast
qed

lemma keeps_incidents_refl: "keeps_incidents d d"
  by (rule keeps_incidents_same) simp_all

text \<open>Two changes of which one leaves the incidents and the attempts alone.\<close>

lemma keeps_incidents_cong:
  assumes "db_incidents d' = db_incidents e" and "db_attempts d' = db_attempts e"
  shows "keeps_incidents d d' = keeps_incidents d e"
proof -
  have "tries d' i = tries e i" for i using assms(2) by (simp add: tries_def attempts_of_def)
  then have "standing d' i = standing e i" "incident_moves d d' j i = incident_moves d e j i" for i j
    by (simp_all add: incident_moves_def standing_def split: incident_status.split)
  then show ?thesis by (simp add: keeps_incidents_def assms(1))
qed

lemma request_ok_next:
  assumes ok: "incident_ok as i" "fi_status i = IncActive" and q: "request_ok qs as i"
    and n: "n = length as"
    and qs: "qs' = (if n = 5 \<and> fa_outcome a = Failed then qs @ [request_for sha t i]
        else if n = 6 then upd_where (\<lambda>q. rr_status q = RqPending) (\<lambda>q. q\<lparr>rr_status :=
            (case fa_outcome a of Succeeded \<Rightarrow> RqSucceeded | Failed \<Rightarrow> RqFailed), rr_resolved := Some t, rr_evidence := ev\<rparr>) qs
        else qs)"
  shows "request_ok qs' (as @ [a]) (next_incident t n (fa_outcome a) i)"
proof -
  note A = incident_ok_active [OF ok]
  have f: "length (filter (\<lambda>a. fa_outcome a = Failed) as) = n"
    using A(2) n by (simp add: all_failed_def)
  show ?thesis
  proof (cases "n < 6")
    case True
    with q f have "qs = []" by (simp add: request_ok_def)
    with True f qs ok(2) show ?thesis
      by (cases "fa_outcome a") (auto simp: request_ok_def next_incident_def request_for_def)
  next
    case False
    with A(1) n have n6: "n = 6" by linarith
    with q f ok(2) obtain x where "qs = [x]" "rr_work x = fi_work i" "rr_status x = RqPending"
      by (auto simp: request_ok_def)
    with n6 f qs show ?thesis
      by (cases "fa_outcome a") (auto simp: request_ok_def next_incident_def upd_where_def)
  qed
qed

lemma attempt_recorded:
  assumes inv: "incidents_inv d" and i: "i \<in> set (db_incidents d)" "fi_status i = IncActive"
    and a: "fa_project a = fi_project i" "fa_incident a = fi_id i"
      "fa_stage a = fi_stage i" "fi_number i = Some (fa_number a)"
    and c: "chained sha t (length (tries d i)) (fa_outcome a) i ev (d\<lparr>db_attempts := db_attempts d @ [a]\<rparr>) d'"
  shows "incidents_inv d' \<and> keeps_incidents d d'"
proof -
  let ?n = "length (tries d i)" and ?f = "next_incident t (length (tries d i)) (fa_outcome a)"
  note I = incidents_invD [OF inv]
  note A = incident_ok_active [OF I(2) [OF i(1)] i(2)]
  from c have at: "db_attempts d' = db_attempts d @ [a]"
    and inc: "db_incidents d' = upd_where (is_incident i) ?f (db_incidents d)"
    and chk: "\<forall>x\<in>set (db_incidents d'). incident_check x"
    and rq: "db_requests d' = next_requests sha t ?n (fa_outcome a) i ev d"
    by (auto simp: chained_def next_requests_def resolve_request_def)
  have only: "x = i" if "x \<in> set (db_incidents d)" "is_incident i x" for x
    using distinct_map_eq [OF I(1) that(1) i(1)] that(2) by (simp add: is_incident_def incident_key_def)
  have self: "is_incident i i" by (simp add: is_incident_def)
  have fi: "?f i \<in> set (db_incidents d')" unfolding inc set_upd_where using i(1) self by (intro bexI [of _ i]) auto
  have rows: "x \<in> set (db_incidents d') \<longleftrightarrow> x = ?f i \<or> x \<in> set (db_incidents d) \<and> \<not> is_incident i x" for x
    unfolding inc set_upd_where using only i(1) self by metis
  have tr: "tries d' (?f i) = tries d i @ [a]" using a at by (simp add: tries_def attempts_of_def)
  have tr': "tries d' x = tries d x" if "\<not> is_incident i x" for x
    using a at that by (auto simp: tries_def attempts_of_def is_incident_def)
  have place: "(fa_stage a, fa_number a) = chain ! ?n" using A(3,4) a(3,4) by (simp add: prod_eq_iff)
  have ok: "incident_ok (tries d' (?f i)) (?f i)"
    unfolding tr using incident_ok_next [OF I(2) [OF i(1)] i(2) place] chk fi by blast
  have rq_i: "requests_of d' (?f i) = (if ?n = 5 \<and> fa_outcome a = Failed then requests_of d i @ [request_for sha t i]
        else if ?n = 6 then upd_where (\<lambda>q. rr_status q = RqPending) (\<lambda>q. q\<lparr>rr_status :=
            (case fa_outcome a of Succeeded \<Rightarrow> RqSucceeded | Failed \<Rightarrow> RqFailed), rr_resolved := Some t, rr_evidence := ev\<rparr>)
          (requests_of d i)
        else requests_of d i)"
  proof -
    have "filter (\<lambda>q. rr_project q = fi_project i \<and> rr_incident q = fi_id i) (upd_where
        (\<lambda>q. rr_project q = fi_project i \<and> rr_incident q = fi_id i \<and> rr_status q = RqPending) g (db_requests d))
      = upd_where (\<lambda>q. rr_status q = RqPending) g (requests_of d i)"
      if "\<And>q. rr_project (g q) = rr_project q \<and> rr_incident (g q) = rr_incident q" for g
      using that by (subst filter_upd_where_same) (auto simp: requests_of_def intro: upd_where_cong)
    then show ?thesis unfolding requests_of_def [of d'] rq next_requests_def
      by (auto simp: resolve_request_def requests_of_def request_for_def)
  qed
  have rok: "request_ok (requests_of d' (?f i)) (tries d' (?f i)) (?f i)"
    unfolding tr by (rule request_ok_next [OF I(2) [OF i(1)] i(2) I(3) [OF i(1)] refl rq_i])
  have rq': "requests_of d' x = requests_of d x" if "\<not> is_incident i x" for x
    using that unfolding requests_of_def rq next_requests_def resolve_request_def
    by (auto simp: is_incident_def request_for_def intro!: filter_upd_where_other)
  have keep_row: "\<exists>y\<in>set (db_incidents d'). fi_project y = fi_project x \<and> fi_id y = fi_id x" if "x \<in> set (db_incidents d)" for x
  proof (cases "is_incident i x")
    case True
    with that only have "x = i" by blast
    with fi show ?thesis by (intro bexI [of _ "?f i"]) auto
  next
    case False
    with that rows show ?thesis by (intro bexI [of _ x]) auto
  qed
  have "incidents_inv d'"
    unfolding incidents_inv_def
  proof (intro conjI ballI impI)
    show "distinct (map incident_key (db_incidents d'))"
      unfolding inc using I(1) by (subst map_upd_where_same) auto
  next
    fix x assume x: "x \<in> set (db_incidents d')"
    show "incident_ok (tries d' x) x" using x rows ok tr' I(2) by metis
    show "request_ok (requests_of d' x) (tries d' x) x" using x rows rok tr' rq' I(3) by metis
  next
    have op: "open_incident (?f i) \<Longrightarrow> open_incident i" using i(2) by (simp add: open_incident_def)
    fix x y assume xy: "x \<in> set (db_incidents d')" "y \<in> set (db_incidents d')" "open_incident x" "open_incident y"
      "fi_project x = fi_project y" "fi_work x = fi_work y"
    show "x = y"
    proof (rule ccontr)
      assume ne: "x \<noteq> y"
      have "\<exists>x0 y0. x0 \<in> set (db_incidents d) \<and> y0 \<in> set (db_incidents d) \<and> open_incident x0 \<and> open_incident y0
          \<and> fi_project x0 = fi_project y0 \<and> fi_work x0 = fi_work y0 \<and> x0 \<noteq> y0"
        using xy ne rows [of x] rows [of y] op i(1) self next_incident_key(1,3) [of t ?n "fa_outcome a" i] by metis
      then show False using I(4) by blast
    qed
  next
    fix b assume "b \<in> set (db_attempts d')"
    then consider "b = a" | "b \<in> set (db_attempts d)" using at by auto
    then have "\<exists>x\<in>set (db_incidents d). fa_project b = fi_project x \<and> fa_incident b = fi_id x"
      by cases (use a i(1) I(5) in auto)
    then show "\<exists>x\<in>set (db_incidents d'). fa_project b = fi_project x \<and> fa_incident b = fi_id x"
      using keep_row by metis
  next
    fix q assume "q \<in> set (db_requests d')"
    then have "\<exists>x\<in>set (db_incidents d). rr_project q = fi_project x \<and> rr_incident q = fi_id x"
      using I(6) i(1) unfolding rq next_requests_def
      by (auto simp: resolve_request_def request_for_def set_upd_where split: if_splits)
    then show "\<exists>x\<in>set (db_incidents d'). rr_project q = fi_project x \<and> rr_incident q = fi_id x"
      using keep_row by metis
  qed
  moreover have "keeps_incidents d d'"
    unfolding keeps_incidents_def
  proof (intro conjI ballI)
    have "incident_moves d d' i (?f i)"
      using chain_move_next [where d' = d', OF i(2) tr refl A(1) place] tr by (auto simp: incident_moves_def incident_core_def)
    moreover have "incident_moves d d' x x" if "\<not> is_incident i x" for x using tr' [OF that] by (rule incident_stays)
    ultimately show "\<exists>j\<in>set (db_incidents d'). incident_moves d d' x j" if "x \<in> set (db_incidents d)" for x
      using that fi rows only by (cases "is_incident i x") blast+
    have "incident_core (?f i) = incident_core i" by (simp add: incident_core_def)
    then show "(\<exists>x\<in>set (db_incidents d). incident_core y = incident_core x) \<or> standing d' y = Trying 0"
      if "y \<in> set (db_incidents d')" for y using that rows i(1) by metis
  qed
  ultimately show ?thesis by blast
qed

section \<open>Attempts and supervised runs\<close>

definition attempt_key :: "attempt_row \<Rightarrow> string \<times> string" where
  "attempt_key a = (fa_project a, fa_id a)"

definition digests :: "attempt_row list \<Rightarrow> string option list" where
  "digests as = filter (\<lambda>x. x \<noteq> None) (map fa_correction_digest as)"

text \<open>A corrected attempt stores its correction with the digest, and no digest comes twice among
  the attempts of an incident; a recovery attempt has a reported run behind it.\<close>

definition attempts_inv :: "(string \<Rightarrow> string) \<Rightarrow> db \<Rightarrow> bool" where
  "attempts_inv sha d = (distinct (map attempt_key (db_attempts d))
     \<and> (\<forall>a\<in>set (db_attempts d). fa_correction_digest a = map_option sha (fa_correction a)
          \<and> (fa_correction a \<noteq> None \<longleftrightarrow> fa_stage a = PmCorrection)
          \<and> fa_ordinal a = ordinal (fa_stage a) (fa_number a))
     \<and> (\<forall>p i. distinct (digests (attempts_of p i d)))
     \<and> (\<forall>a\<in>set (db_attempts d). fa_stage a = Recovery \<longrightarrow> (\<exists>r\<in>set (db_supervisors d).
          sr_project r = fa_project a \<and> sr_id r = fa_id a \<and> sr_status r = Reported \<and> sr_outcome r = Some (fa_outcome a))))"

definition supervised_run_ok :: "supervisor_run \<Rightarrow> bool" where
  "supervised_run_ok r = (sr_expires r \<le> sr_deadline r \<and> 1 \<le> sr_claims r \<and> (sr_status r = Reported \<longleftrightarrow> sr_outcome r \<noteq> None)
     \<and> (sr_outcome r = Some Succeeded \<longrightarrow> (\<exists>n. sr_usage r = Some n \<and> n \<le> sr_limit r)))"

definition supervisors_inv :: "db \<Rightarrow> bool" where
  "supervisors_inv d = (distinct (map supervisor_key (db_supervisors d)) \<and> (\<forall>r\<in>set (db_supervisors d). supervised_run_ok r))"

text \<open>What stays of a run: its identity, pinned profile and limits; everything but the mark of
  its application once it is reported.\<close>

definition run_kept :: "supervisor_run \<Rightarrow> supervisor_run \<Rightarrow> bool" where
  "run_kept r r' = (supervisor_key r' = supervisor_key r \<and> sr_id r' = sr_id r \<and> sr_deadline r' = sr_deadline r
     \<and> sr_limit r' = sr_limit r \<and> sr_profile r' = sr_profile r \<and> sr_profile_digest r' = sr_profile_digest r
     \<and> sr_claims r \<le> sr_claims r'
     \<and> (sr_status r = Reported \<longrightarrow> r' = r\<lparr>sr_applied := sr_applied r'\<rparr>))"

definition keeps_supervisors :: "db \<Rightarrow> db \<Rightarrow> bool" where
  "keeps_supervisors d d' = (\<forall>r\<in>set (db_supervisors d). \<exists>r'\<in>set (db_supervisors d'). run_kept r r')"

lemma run_kept_refl: "run_kept r r"
  by (simp add: run_kept_def)

lemma run_kept_trans:
  assumes "run_kept r s" and "run_kept s u"
  shows "run_kept r u"
proof -
  have "u = r\<lparr>sr_applied := sr_applied u\<rparr>" if r: "sr_status r = Reported"
  proof -
    have s: "s = r\<lparr>sr_applied := sr_applied s\<rparr>" using assms(1) r by (simp add: run_kept_def)
    then have "sr_status s = sr_status r" by (metis supervisor_run.select_convs(4) supervisor_run.surjective supervisor_run.update_convs(21))
    with r have "u = s\<lparr>sr_applied := sr_applied u\<rparr>" using assms(2) by (simp add: run_kept_def)
    with s show ?thesis by (metis supervisor_run.surjective supervisor_run.update_convs(21))
  qed
  then show ?thesis using assms unfolding run_kept_def by (elim conjE, intro conjI impI) (metis order_trans)+
qed

lemma keeps_supervisors_refl: "keeps_supervisors d d"
  unfolding keeps_supervisors_def using run_kept_refl by blast

lemma keeps_supervisors_trans: "keeps_supervisors d e \<Longrightarrow> keeps_supervisors e f \<Longrightarrow> keeps_supervisors d f"
  unfolding keeps_supervisors_def using run_kept_trans by blast

lemma keeps_supervisors_mono: "set (db_supervisors d) \<subseteq> set (db_supervisors d') \<Longrightarrow> keeps_supervisors d d'"
  unfolding keeps_supervisors_def using run_kept_refl by blast

text \<open>The two ways the table of runs changes: a new running run, or an update of rows.\<close>

lemma supervisors_upd:
  assumes d': "db_supervisors d' = upd_where P f (db_supervisors d)" "db_attempts d' = db_attempts d"
    and f: "\<And>r. r \<in> set (db_supervisors d) \<Longrightarrow> P r \<Longrightarrow> supervised_run_ok (f r) \<and> run_kept r (f r)"
    and inv: "supervisors_inv d" "attempts_inv sha d"
  shows "supervisors_inv d' \<and> attempts_inv sha d' \<and> keeps_supervisors d d'"
proof -
  have "map supervisor_key (upd_where P f (db_supervisors d)) = map supervisor_key (db_supervisors d)"
    using f by (intro map_upd_where_same) (auto simp: run_kept_def)
  then have s: "supervisors_inv d'"
    using inv(1) f unfolding supervisors_inv_def d'(1) by (auto simp: set_upd_where)
  have k: "keeps_supervisors d d'"
    unfolding keeps_supervisors_def d'(1)
  proof
    fix r assume r: "r \<in> set (db_supervisors d)"
    then have "(if P r then f r else r) \<in> set (upd_where P f (db_supervisors d))" unfolding set_upd_where by blast
    moreover have "run_kept r (if P r then f r else r)" using f [OF r] run_kept_refl by simp
    ultimately show "\<exists>r'\<in>set (upd_where P f (db_supervisors d)). run_kept r r'" by blast
  qed
  have "\<exists>r'\<in>set (db_supervisors d'). sr_project r' = p \<and> sr_id r' = i \<and> sr_status r' = Reported \<and> sr_outcome r' = o'"
    if "r \<in> set (db_supervisors d)" "sr_project r = p" "sr_id r = i" "sr_status r = Reported" "sr_outcome r = o'" for r p i o'
  proof -
    from k that(1) obtain r' where r': "r' \<in> set (db_supervisors d')" "run_kept r r'" unfolding keeps_supervisors_def by blast
    with that(4) have "r' = r\<lparr>sr_applied := sr_applied r'\<rparr>" by (simp add: run_kept_def)
    with r'(1) that show ?thesis
      by (metis supervisor_run.select_convs supervisor_run.surjective supervisor_run.update_convs(21))
  qed
  with inv(2) have "attempts_inv sha d'" unfolding attempts_inv_def attempts_of_def d'(2) by (elim conjE) (intro conjI; blast)
  with s k show ?thesis by blast
qed

lemma supervisors_append:
  assumes d': "db_supervisors d' = db_supervisors d @ [r]" "db_attempts d' = db_attempts d"
    and r: "supervised_run_ok r" "supervisor_key r \<notin> supervisor_key ` set (db_supervisors d)"
    and inv: "supervisors_inv d" "attempts_inv sha d"
  shows "supervisors_inv d' \<and> attempts_inv sha d' \<and> keeps_supervisors d d'"
proof -
  have "attempts_inv sha d'" using inv(2) unfolding attempts_inv_def attempts_of_def d'(2) d'(1) by auto
  moreover have "supervisors_inv d'" using inv(1) r by (auto simp: supervisors_inv_def d'(1))
  moreover have "keeps_supervisors d d'" by (rule keeps_supervisors_mono) (auto simp: d'(1))
  ultimately show ?thesis by blast
qed

section \<open>Every step keeps the invariant\<close>

definition recovery_inv :: "(string \<Rightarrow> string) \<Rightarrow> db \<Rightarrow> bool" where
  "recovery_inv sha d = (incidents_inv d \<and> attempts_inv sha d \<and> supervisors_inv d)"

text \<open>The runs that count as successes, by their keys.\<close>

definition successes :: "db \<Rightarrow> (string \<times> string) set" where
  "successes d = supervisor_key ` {r \<in> set (db_supervisors d). sr_outcome r = Some Succeeded}"

text \<open>What a transaction keeps; \<open>new\<close> bounds the runs it may turn into successes.\<close>

definition recovery_keeps :: "(string \<times> string) set \<Rightarrow> db \<Rightarrow> db \<Rightarrow> bool" where
  "recovery_keeps new d d' = (keeps_incidents d d' \<and> keeps_supervisors d d' \<and> successes d' \<subseteq> successes d \<union> new)"

lemma recovery_keeps_refl: "recovery_keeps new d d"
  by (auto simp: recovery_keeps_def keeps_incidents_refl keeps_supervisors_refl)

lemma recovery_keeps_mono: "recovery_keeps new d d' \<Longrightarrow> new \<subseteq> new2 \<Longrightarrow> recovery_keeps new2 d d'"
  by (auto simp: recovery_keeps_def)

text \<open>Writing events or items after a change of the tables does not matter.\<close>

lemma tables_after:
  assumes "failure_tables d' = failure_tables e" and "recovery_inv sha e \<and> recovery_keeps new d e"
  shows "recovery_inv sha d' \<and> recovery_keeps new d d'"
proof -
  have e: "db_incidents d' = db_incidents e" "db_attempts d' = db_attempts e" "db_requests d' = db_requests e"
    "db_supervisors d' = db_supervisors e" using assms(1) by (simp_all add: failure_tables_def)
  have "attempts_inv sha d' = attempts_inv sha e" "supervisors_inv d' = supervisors_inv e"
    using e by (simp_all add: attempts_inv_def attempts_of_def supervisors_inv_def)
  moreover have "keeps_supervisors d d' = keeps_supervisors d e" "successes d' = successes e"
    by (simp_all add: keeps_supervisors_def successes_def e(4))
  ultimately show ?thesis
    using assms(2) incidents_inv_cong [OF e(1-3)] keeps_incidents_cong [OF e(1,2)]
    by (simp add: recovery_inv_def recovery_keeps_def)
qed

lemma same_tables:
  assumes "failure_tables d' = failure_tables d" and "recovery_inv sha d"
  shows "recovery_inv sha d' \<and> recovery_keeps new d d'"
  using tables_after [OF assms(1)] assms(2) recovery_keeps_refl by blast

subsection \<open>Attempts\<close>

lemma attempt_tx_new:
  assumes "attempt_tx sha t q d = Inr (s, d')"
  shows "d' = d \<or> (\<exists>work i fp. work_row d (ar_project q) (ar_work q) = Some work
    \<and> incident_of (ar_project q) (ar_incident q) d = Some i \<and> fi_work i = ar_work q
    \<and> attempt_allowed sha work i q d \<and> apply_attempt sha t fp i q d = Inr d')"
  using assms by (auto simp: attempt_tx_def monad_simps split: option.splits)

lemma incident_ofD: "incident_of p i d = Some x \<Longrightarrow> x \<in> set (db_incidents d) \<and> fi_project x = p \<and> fi_id x = i"
  unfolding incident_of_def by (auto dest: fetchone_SomeD)

lemma apply_attempt_chained:
  assumes a: "apply_attempt sha t fp i q d = Inr d'" and inv: "incidents_inv d"
    and i: "i \<in> set (db_incidents d)" "fi_status i = IncActive" "fi_project i = ar_project q" "fi_id i = ar_incident q"
      "fi_stage i = ar_stage q" "fi_number i = Some (ar_number q)"
  shows "\<exists>e. insert_attempt (attempt_of sha t fp q) d = Inr (d\<lparr>db_attempts := db_attempts d @ [attempt_of sha t fp q]\<rparr>)
    \<and> chained sha t (length (tries d i)) (ar_outcome q) i (ar_evidence q)
        (d\<lparr>db_attempts := db_attempts d @ [attempt_of sha t fp q]\<rparr>) e
    \<and> failure_tables d' = failure_tables e"
proof -
  let ?d1 = "d\<lparr>db_attempts := db_attempts d @ [attempt_of sha t fp q]\<rparr>"
  note A = incident_ok_active [OF incidents_invD(2) [OF inv i(1)] i(2)]
  have k: "(ar_stage q, ar_number q) = chain ! length (tries d i)" using A(3,4) i(5,6) by (simp add: prod_eq_iff)
  from a obtain d1 x d2 where d1: "insert_attempt (attempt_of sha t fp q) d = Inr d1"
    and d2: "(case ar_outcome q of Succeeded \<Rightarrow> succeed sha t i (ar_stage q) (ar_evidence q) d1
       | Failed \<Rightarrow> advance_failed sha t i (ar_stage q) (ar_number q) (ar_evidence q) d1) = Inr (x, d2)"
    and j: "failure_tables d' = failure_tables d2"
    unfolding apply_attempt_def bindR_Inr_iff by (auto dest: journal_incident_tables)
  have d1': "d1 = ?d1" using d1 by (simp add: monad_simps)
  then have inc: "db_incidents d1 = db_incidents d" by simp
  have act: "fi_status y = IncActive" if "y \<in> set (db_incidents d1)" "is_incident i y" for y
    using distinct_map_eq [OF incidents_invD(1) [OF inv] _ i(1), of y] that i(2)
    unfolding inc by (simp add: is_incident_def incident_key_def)
  have "chained sha t (length (tries d i)) (ar_outcome q) i (ar_evidence q) d1 d2"
  proof (cases "ar_outcome q")
    case Succeeded
    with d2 have "succeed sha t i (ar_stage q) (ar_evidence q) d1 = Inr (x, d2)" by simp
    from succeed_chained [OF this A(1)] k Succeeded show ?thesis by (simp add: prod_eq_iff)
  next
    case Failed
    with d2 have "advance_failed sha t i (ar_stage q) (ar_number q) (ar_evidence q) d1 = Inr (x, d2)" by simp
    from advance_chained [OF this act A(1) k] Failed show ?thesis by simp
  qed
  with d1 j show ?thesis unfolding d1' by blast
qed

lemma digests_append: "digests (as @ bs) = digests as @ digests bs"
  by (simp add: digests_def)

lemma attempts_inv_new:
  assumes inv: "attempts_inv sha d" and a: "insert_attempt a d = Inr d1"
    and c: "fa_correction_digest a = map_option sha (fa_correction a)" "fa_ordinal a = ordinal (fa_stage a) (fa_number a)"
  shows "attempts_inv sha d1"
proof -
  note J = a [unfolded insert_attempt_Inr]
  from J have at: "db_attempts d1 = db_attempts d @ [a]" and sup: "db_supervisors d1 = db_supervisors d" by auto
  have key: "attempt_key a \<notin> attempt_key ` set (db_attempts d)" using J by (auto simp: attempt_key_def)
  have pm: "fa_correction a \<noteq> None \<longleftrightarrow> fa_stage a = PmCorrection"
    using J by (auto simp: attempt_check_def split: if_splits option.splits)
  have dig: "distinct (digests (attempts_of p i d1))" for p i
  proof -
    have "distinct (digests (attempts_of p i d))" using inv by (simp add: attempts_inv_def)
    moreover have "fa_correction_digest a \<notin> set (digests (attempts_of p i d))"
      if "fa_project a = p" "fa_incident a = i"
      using J that by (auto simp: digests_def attempts_of_def)
    moreover have "attempts_of p i d1 = attempts_of p i d
        @ (if fa_project a = p \<and> fa_incident a = i then [a] else [])" by (simp add: attempts_of_def at)
    moreover have "digests [] = []" "digests [a] = (if fa_correction_digest a = None then [] else [fa_correction_digest a])"
      by (simp_all add: digests_def)
    ultimately show ?thesis by (simp add: digests_append)
  qed
  have rec: "\<exists>r\<in>set (db_supervisors d). sr_project r = fa_project a \<and> sr_id r = fa_id a \<and> sr_status r = Reported
      \<and> sr_outcome r = Some (fa_outcome a)" if "fa_stage a = Recovery"
  proof -
    from J that obtain r where "supervisor_result (fa_project a) (fa_id a) (fa_incident a) (fa_outcome a) d = Some r"
      by (auto simp: supervised_def split: option.splits)
    then show ?thesis unfolding supervisor_result_def by (auto dest: fetchone_SomeD)
  qed
  show ?thesis
    using inv key c pm dig rec unfolding attempts_inv_def at sup by auto
qed

lemma attempted_keeps:
  assumes s: "attempt_tx sha t q d = Inr (s, d')" and inv: "recovery_inv sha d"
  shows "recovery_inv sha d' \<and> recovery_keeps {} d d'"
proof (cases "d' = d")
  case True
  with inv recovery_keeps_refl show ?thesis by simp
next
  case False
  with attempt_tx_new [OF s] obtain work i fp where i: "incident_of (ar_project q) (ar_incident q) d = Some i"
    and al: "attempt_allowed sha work i q d" and ap: "apply_attempt sha t fp i q d = Inr d'" by blast
  let ?a = "attempt_of sha t fp q" and ?d1 = "d\<lparr>db_attempts := db_attempts d @ [attempt_of sha t fp q]\<rparr>"
  have I: "incidents_inv d" "attempts_inv sha d" "supervisors_inv d" using inv by (simp_all add: recovery_inv_def)
  have m: "i \<in> set (db_incidents d)" "fi_status i = IncActive" "fi_project i = ar_project q" "fi_id i = ar_incident q"
    "fi_stage i = ar_stage q" "fi_number i = Some (ar_number q)"
    using incident_ofD [OF i] al by (simp_all add: attempt_allowed_def)
  from apply_attempt_chained [OF ap I(1) m] obtain e where e: "insert_attempt ?a d = Inr ?d1"
    "chained sha t (length (tries d i)) (ar_outcome q) i (ar_evidence q) ?d1 e" "failure_tables d' = failure_tables e"
    by blast
  have f: "fa_project ?a = fi_project i" "fa_incident ?a = fi_id i" "fa_stage ?a = fi_stage i"
    "fi_number i = Some (fa_number ?a)" "fa_outcome ?a = ar_outcome q" using m by (simp_all add: attempt_of_def)
  have "incidents_inv e \<and> keeps_incidents d e"
    using attempt_recorded [OF I(1) m(1,2) f(1-4)] e(2) f(5) by simp
  moreover have "attempts_inv sha ?d1" by (rule attempts_inv_new [OF I(2) e(1)]) (simp_all add: attempt_of_def)
  then have "attempts_inv sha e" using e(2) by (simp add: attempts_inv_def attempts_of_def chained_def)
  moreover have "db_supervisors e = db_supervisors d" using e(2) by (simp add: chained_def)
  then have "supervisors_inv e" "keeps_supervisors d e" "successes e = successes d"
    using I(3) by (auto simp: supervisors_inv_def successes_def intro: keeps_supervisors_mono)
  ultimately have "recovery_inv sha e \<and> recovery_keeps {} d e" by (simp add: recovery_inv_def recovery_keeps_def)
  with e(3) show ?thesis by (rule tables_after)
qed

subsection \<open>Starting and closing an incident\<close>

lemma incident_started_keeps:
  assumes s: "incident_start_tx sha t p w k category summary source actor d = Inr (s, d')"
    and inv: "recovery_inv sha d"
  shows "recovery_inv sha d' \<and> recovery_keeps {} d d'"
proof (cases "d' = d")
  case True
  with inv recovery_keeps_refl show ?thesis by simp
next
  case False
  with s obtain fp owner where
    b: "begin_incident sha t (new_incident sha t p w owner k fp category summary source actor) d = Inr d'"
    by (auto simp: incident_start_tx_def monad_simps Let_def split: option.splits)
  define i where "i = new_incident sha t p w owner k fp category summary source actor"
  then have i: "fi_status i = IncActive" "fi_stage i = Technical" "fi_number i = Some 1" "fi_resolved i = None"
    by (simp_all add: new_incident_def)
  from b obtain d1 where d1: "insert_incident i d = Inr d1" and t: "failure_tables d' = failure_tables d1"
    unfolding begin_incident_def bindR_Inr_iff i_def by (metis route_retry_tables journal_incident_tables)
  from d1 have fresh: "\<And>x. x \<in> set (db_incidents d) \<Longrightarrow> fi_project x = fi_project i \<Longrightarrow> fi_id x \<noteq> fi_id i
      \<and> (open_incident x \<longrightarrow> fi_work x \<noteq> fi_work i)"
    and e: "d1 = d\<lparr>db_incidents := db_incidents d @ [i]\<rparr>"
    using i(1) unfolding insert_incident_def has_row_iff open_incident_def by (auto split: if_splits)
  have I: "incidents_inv d" "attempts_inv sha d" "supervisors_inv d" using inv by (simp_all add: recovery_inv_def)
  note J = incidents_invD [OF I(1)]
  have none: "tries d i = []" "requests_of d i = []"
    using J(5,6) fresh by (fastforce simp: tries_def attempts_of_def requests_of_def filter_empty_conv)+
  have same: "tries d1 x = tries d x" "requests_of d1 x = requests_of d x" for x
    by (simp_all add: e tries_def attempts_of_def requests_of_def)
  have "incident_ok [] i" using i by (simp add: incident_ok_def incident_check_def all_failed_def)
  moreover have "request_ok [] [] i" by (simp add: request_ok_def)
  moreover have "incident_key i \<notin> incident_key ` set (db_incidents d)" using fresh by (fastforce simp: incident_key_def)
  moreover have "x = i" if "x \<in> set (db_incidents d)" "open_incident x" "fi_project x = fi_project i" "fi_work x = fi_work i" for x
    using fresh that by blast
  ultimately have "incidents_inv d1"
    using I(1) none unfolding incidents_inv_def same by (auto simp: e)
  moreover have "attempts_inv sha d1" "supervisors_inv d1"
    using I(2,3) by (simp_all add: e attempts_inv_def attempts_of_def supervisors_inv_def)
  moreover have "standing d1 i = Trying 0" using i(1) none(1) same by (simp add: standing_def)
  moreover have "incident_moves d d1 x x" for x using same(1) by (rule incident_stays)
  ultimately have "incidents_inv d1" "attempts_inv sha d1" "supervisors_inv d1" "keeps_incidents d d1"
    by (auto simp: keeps_incidents_def e)
  moreover have "keeps_supervisors d d1" by (rule keeps_supervisors_mono) (simp add: e)
  moreover have "successes d1 = successes d" by (simp add: successes_def e)
  ultimately have "recovery_inv sha d1 \<and> recovery_keeps {} d d1" by (simp add: recovery_inv_def recovery_keeps_def)
  with t show ?thesis by (rule tables_after)
qed

definition close_row :: "timestamp \<Rightarrow> incident_row \<Rightarrow> incident_row" where
  "close_row t x = x\<lparr>fi_status := IncTerminal, fi_resolved := Some t\<rparr>"

lemma close_incident_keeps:
  assumes inv: "recovery_inv sha d"
  shows "recovery_inv sha (close_incident t p i d) \<and> recovery_keeps {} d (close_incident t p i d)"
proof (cases i)
  case None
  with inv recovery_keeps_refl show ?thesis by (simp add: close_incident_def)
next
  case (Some n)
  let ?P = "\<lambda>x :: incident_row. fi_project x = p \<and> fi_id x = n \<and> fi_status x = IncEligible" and ?e = "close_incident t p i d"
  have e: "?e = d\<lparr>db_incidents := upd_where ?P (close_row t) (db_incidents d)\<rparr>"
    using Some by (simp add: close_incident_def close_row_def [abs_def])
  have I: "incidents_inv d" "attempts_inv sha d" "supervisors_inv d" using inv by (simp_all add: recovery_inv_def)
  note J = incidents_invD [OF I(1)]
  have same: "tries ?e x = tries d x" "requests_of ?e x = requests_of d x"
    "tries d (close_row t x) = tries d x" "requests_of d (close_row t x) = requests_of d x" for x
    by (simp_all add: e tries_def attempts_of_def requests_of_def close_row_def)
  have row: "x \<in> set (db_incidents ?e) \<longleftrightarrow> (\<exists>y\<in>set (db_incidents d). x = (if ?P y then close_row t y else y))" for x
    by (simp add: e set_upd_where)
  have ok: "incident_ok (tries d x) (close_row t x) \<and> request_ok (requests_of d x) (tries d x) (close_row t x)"
    if "x \<in> set (db_incidents d)" "?P x" for x
    using J(2,3) [OF that(1)] that(2)
    by (auto simp: incident_ok_def request_ok_def close_row_def incident_check_def split: if_splits)
  have op: "open_incident (if ?P y then close_row t y else y) \<Longrightarrow> open_incident y \<and> \<not> ?P y" for y
    by (auto simp: open_incident_def close_row_def split: if_splits)
  have key: "\<exists>x\<in>set (db_incidents ?e). fi_project y = fi_project x \<and> fi_id y = fi_id x" if "y \<in> set (db_incidents d)" for y
  proof (intro bexI)
    show "(if ?P y then close_row t y else y) \<in> set (db_incidents ?e)" unfolding row using that by blast
  qed (simp add: close_row_def)
  have "incidents_inv ?e"
    unfolding incidents_inv_def
  proof (intro conjI ballI impI)
    show "distinct (map incident_key (db_incidents ?e))"
      unfolding e using J(1) by (simp, subst map_upd_where_same) (auto simp: incident_key_def close_row_def)
  next
    fix x assume "x \<in> set (db_incidents ?e)"
    then obtain y where y: "y \<in> set (db_incidents d)" "x = (if ?P y then close_row t y else y)" unfolding row by blast
    show "incident_ok (tries ?e x) x" "request_ok (requests_of ?e x) (tries ?e x) x"
      using ok [OF y(1)] J(2,3) [OF y(1)] y(2) same by (cases "?P y"; simp)+
  next
    fix x y assume "x \<in> set (db_incidents ?e)" "y \<in> set (db_incidents ?e)" and o': "open_incident x" "open_incident y"
      "fi_project x = fi_project y" "fi_work x = fi_work y"
    then obtain x0 y0 where "x0 \<in> set (db_incidents d)" "x = (if ?P x0 then close_row t x0 else x0)"
      "y0 \<in> set (db_incidents d)" "y = (if ?P y0 then close_row t y0 else y0)" unfolding row by blast
    note x0 = this(1,2) and y0 = this(3,4)
    have "open_incident x0 \<and> \<not> ?P x0" using o'(1) unfolding x0(2) by (rule op)
    moreover have "open_incident y0 \<and> \<not> ?P y0" using o'(2) unfolding y0(2) by (rule op)
    ultimately have "open_incident x0" "open_incident y0" "x = x0" "y = y0" using x0(2) y0(2) by presburger+
    with J(4) x0(1) y0(1) o'(3,4) show "x = y" by blast
  next
    fix a assume "a \<in> set (db_attempts ?e)"
    then have "a \<in> set (db_attempts d)" by (simp add: e)
    with J(5) obtain y where "y \<in> set (db_incidents d)" "fa_project a = fi_project y" "fa_incident a = fi_id y" by blast
    with key [of y] show "\<exists>x\<in>set (db_incidents ?e). fa_project a = fi_project x \<and> fa_incident a = fi_id x" by simp
  next
    fix q assume "q \<in> set (db_requests ?e)"
    then have "q \<in> set (db_requests d)" by (simp add: e)
    with J(6) obtain y where "y \<in> set (db_incidents d)" "rr_project q = fi_project y" "rr_incident q = fi_id y" by blast
    with key [of y] show "\<exists>x\<in>set (db_incidents ?e). rr_project q = fi_project x \<and> rr_incident q = fi_id x" by simp
  qed
  moreover have "attempts_inv sha ?e" "supervisors_inv ?e"
    using I(2,3) by (simp_all add: e attempts_inv_def attempts_of_def supervisors_inv_def)
  moreover have "keeps_incidents d ?e"
    unfolding keeps_incidents_def
  proof (intro conjI ballI)
    have core: "incident_core (close_row t x) = incident_core x" for x by (simp add: incident_core_def close_row_def)
    have "incident_moves d ?e x (close_row t x)" if "?P x" for x
      using that same core chain_move.closed by (simp add: incident_moves_def standing_def close_row_def)
    moreover have "incident_moves d ?e x x" for x using same(1) by (rule incident_stays)
    ultimately have "incident_moves d ?e x (if ?P x then close_row t x else x)" for x by simp
    then show "\<exists>j\<in>set (db_incidents ?e). incident_moves d ?e x j" if "x \<in> set (db_incidents d)" for x
      using that row by blast
    show "(\<exists>i\<in>set (db_incidents d). incident_core j = incident_core i) \<or> standing ?e j = Trying 0"
      if "j \<in> set (db_incidents ?e)" for j using that row core by metis
  qed
  moreover have "keeps_supervisors d ?e" by (rule keeps_supervisors_mono) (simp add: e)
  moreover have "successes ?e = successes d" by (simp add: successes_def e)
  ultimately show ?thesis by (simp add: recovery_inv_def recovery_keeps_def)
qed

lemma ended_keeps:
  assumes "transition_tx sha t p w target actor corr version reason evidence d = Inr (x, d')" and "recovery_inv sha d"
  shows "recovery_inv sha d' \<and> recovery_keeps {} d d'"
proof -
  obtain p' w' target' actor' corr' reason' where
    "transition_core sha t p' w' target' actor' corr' version reason' evidence d = Inr (x, d')"
    using assms(1) by (auto simp: transition_tx_def monad_simps)
  then obtain i ev where "failure_tables d' = failure_tables (close_incident t p' i (update_work p' w'
      (\<lambda>r. r\<lparr>wi_status := target', wi_version := wi_version r + 1, wi_reason := reason', wi_evidence := ev\<rparr>) d))"
    by (auto simp: transition_core_def monad_simps Let_def dest!: report_tables)
  moreover have "failure_tables (close_incident t p' i (update_work p' w' f d)) = failure_tables (close_incident t p' i d)" for f
    by (simp add: failure_tables_def close_incident_def update_work_def split: option.splits)
  ultimately have "failure_tables d' = failure_tables (close_incident t p' i d)" by simp
  from tables_after [OF this close_incident_keeps [OF assms(2)]] show ?thesis .
qed

subsection \<open>The supervisor\<close>

lemma supervisors_change:
  assumes "db_incidents d' = db_incidents d" "db_attempts d' = db_attempts d" "db_requests d' = db_requests d"
    and "recovery_inv sha d" and "supervisors_inv d' \<and> attempts_inv sha d' \<and> keeps_supervisors d d'"
    and "successes d' \<subseteq> successes d \<union> new"
  shows "recovery_inv sha d' \<and> recovery_keeps new d d'"
  using assms incidents_inv_cong [OF assms(1-3)] keeps_incidents_same [OF assms(1,2)]
  by (simp add: recovery_inv_def recovery_keeps_def)

text \<open>An update of rows that keeps them well formed.\<close>

lemma update_run_keeps:
  assumes inv: "recovery_inv sha d"
    and f: "\<And>r. r \<in> set (db_supervisors d) \<Longrightarrow> supervised_run_ok r \<Longrightarrow> P r \<Longrightarrow> supervised_run_ok (f r) \<and> run_kept r (f r)"
    and new: "\<And>r. P r \<Longrightarrow> sr_outcome (f r) = Some Succeeded \<Longrightarrow> sr_outcome r = Some Succeeded \<or> supervisor_key r \<in> new"
  shows "recovery_inv sha (update_run_row P f d) \<and> recovery_keeps new d (update_run_row P f d)"
proof (rule supervisors_change [OF _ _ _ inv])
  have s: "supervisors_inv d" "attempts_inv sha d" using inv by (simp_all add: recovery_inv_def)
  have ok: "supervised_run_ok (f r) \<and> run_kept r (f r)" if "r \<in> set (db_supervisors d)" "P r" for r
    using f [OF that(1) _ that(2)] s(1) that(1) by (simp add: supervisors_inv_def)
  from supervisors_upd [OF _ _ this s, of "update_run_row P f d"]
  show "supervisors_inv (update_run_row P f d) \<and> attempts_inv sha (update_run_row P f d)
      \<and> keeps_supervisors d (update_run_row P f d)"
    by (simp add: update_run_row_def)
  show "successes (update_run_row P f d) \<subseteq> successes d \<union> new"
  proof
    fix k assume "k \<in> successes (update_run_row P f d)"
    then obtain r where r: "r \<in> set (db_supervisors d)" "k = supervisor_key (if P r then f r else r)"
      "sr_outcome (if P r then f r else r) = Some Succeeded"
      by (auto simp: successes_def update_run_row_def set_upd_where)
    moreover have "supervisor_key (f r) = supervisor_key r" if "P r" using ok [OF r(1) that] by (simp add: run_kept_def)
    ultimately show "k \<in> successes d \<union> new" using new [of r] by (cases "P r") (auto simp: successes_def)
  qed
qed (simp_all add: update_run_row_def)

lemma taken_over_ok:
  "supervised_run_ok r \<Longrightarrow> lapsed_run t r \<Longrightarrow> supervised_run_ok (taken_over t owner token lease r) \<and> run_kept r (taken_over t owner token lease r)"
  by (auto simp: supervised_run_ok_def run_kept_def taken_over_def lapsed_run_def supervisor_key_def)

lemma reported_as_ok:
  assumes "supervised_run_ok r" and "sr_status r = Running" and "o' = Succeeded \<Longrightarrow> u \<le> sr_limit r"
  shows "supervised_run_ok (reported_as sha t o' s v u r) \<and> run_kept r (reported_as sha t o' s v u r)"
  using assms by (auto simp: supervised_run_ok_def run_kept_def reported_as_def supervisor_key_def)

lemma limited_success:
  "limited t r run x = (Succeeded, s, v, u) \<Longrightarrow> u \<le> sr_limit r \<and> t < sr_deadline r \<and> fst x = Succeeded"
  by (cases x) (auto simp: limited_def split: if_splits)

lemma claimed_keeps:
  assumes c: "supervisor_claim_tx sha txt t1 t2 locked pr owner token pf minutes limit lease d = Inr (u, d')"
    and inv: "recovery_inv sha d"
  shows "recovery_inv sha d' \<and> recovery_keeps {} d d'"
proof (cases "next_request t1 locked pr d")
  case None
  with c inv recovery_keeps_refl show ?thesis by (auto simp: supervisor_claim_tx_def)
next
  case (Some q)
  with c obtain r d1 where r: "claim_request sha t2 q owner token pf minutes limit lease d = Inr (r, d1)"
    and t: "failure_tables d' = failure_tables d1"
    by (auto simp: supervisor_claim_tx_def monad_simps dest!: run_event_tables)
  have "recovery_inv sha d1 \<and> recovery_keeps {} d d1"
  proof (cases "run_of_request q d")
    case None
    let ?r = "new_run sha t2 q owner token pf minutes limit lease"
    from r None have i: "insert_run_row ?r d = Inr d1" by (auto simp: claim_request_def monad_simps Let_def)
    then have d1: "d1 = d\<lparr>db_supervisors := db_supervisors d @ [?r]\<rparr>"
      and fresh: "supervisor_key ?r \<notin> supervisor_key ` set (db_supervisors d)"
      unfolding insert_run_row_def has_row_iff by (auto simp: supervisor_key_def split: if_splits)
    have "supervised_run_ok ?r" by (simp add: supervised_run_ok_def new_run_def)
    then have "supervisors_inv d1 \<and> attempts_inv sha d1 \<and> keeps_supervisors d d1"
      using inv fresh by (intro supervisors_append [where r = ?r]) (simp_all add: d1 recovery_inv_def)
    moreover have "sr_outcome ?r = None" by (simp add: new_run_def)
    then have "successes d1 = successes d" by (auto simp: successes_def d1)
    ultimately show ?thesis using inv by (intro supervisors_change) (simp_all add: d1)
  next
    case (Some x)
    with r have "d1 = update_run_row (\<lambda>y. sr_project y = sr_project x \<and> sr_request y = sr_request x \<and> lapsed_run t2 y)
        (taken_over t2 owner token lease) d"
      by (auto simp: claim_request_def take_over_def monad_simps)
    with update_run_keeps [OF inv, of "\<lambda>y. sr_project y = sr_project x \<and> sr_request y = sr_request x \<and> lapsed_run t2 y"
        "taken_over t2 owner token lease" "{}"] taken_over_ok show ?thesis by (simp add: taken_over_def)
  qed
  with t show ?thesis by (rule tables_after)
qed

lemma beaten_keeps:
  assumes "supervisor_heartbeat_tx t u lease d = Inr (v, d')" and "recovery_inv sha d"
  shows "recovery_inv sha d' \<and> recovery_keeps {} d d'"
proof -
  let ?f = "\<lambda>x. x\<lparr>sr_expires := min (sr_deadline x) (t + seconds lease)\<rparr>"
  from assms(1) have "d' = update_run_row (live_run t u) ?f d"
    by (auto simp: supervisor_heartbeat_tx_def monad_simps Let_def)
  moreover have "supervised_run_ok (?f r) \<and> run_kept r (?f r)" if "supervised_run_ok r" "live_run t u r" for r
    using that by (auto simp: supervised_run_ok_def run_kept_def live_run_def supervisor_key_def)
  ultimately show ?thesis using update_run_keeps [OF assms(2), of "live_run t u" ?f "{}"] by simp
qed

lemma supervisor_row_unique:
  assumes "supervisors_inv d" and "r \<in> set (db_supervisors d)" and "s \<in> set (db_supervisors d)"
    and "sr_project s = sr_project r" and "sr_request s = sr_request r"
  shows "s = r"
  using distinct_map_eq [of supervisor_key "db_supervisors d" s r] assms by (simp add: supervisors_inv_def supervisor_key_def)

lemma report_cases:
  assumes "supervisor_report_tx sha t1 t2 t3 pr u x d = Inr (v, d')"
  obtains r where "r \<in> set (db_supervisors d)" "the_run (ru_project u) (ru_request u) (ru_id u) r"
    "sr_owner r = ru_owner u" "sr_token r = ru_token u" "sr_status r = Reported" "d' = d"
    "\<exists>fp\<in>set (accepted_fingerprints sha t2 r (ru_id u) x). sr_fingerprint r = Some fp"
    "v = (reported_run u r)\<lparr>ru_applied := sr_applied r\<rparr>"
  | r o' s w n where "r \<in> set (db_supervisors d)" "the_run (ru_project u) (ru_request u) (ru_id u) r"
    "sr_owner r = ru_owner u" "sr_token r = ru_token u" "sr_status r = Running"
    "sr_deadline r \<le> t2 \<or> t1 < sr_expires r" "limited t2 r (ru_id u) x = (o', s, w, n)"
    "failure_tables d' = failure_tables (update_run_row
       (\<lambda>y. the_run (ru_project u) (ru_request u) (ru_id u) y \<and> sr_status y = Running) (reported_as sha t3 o' s w n) d)"
    "v = reported_run u (reported_as sha t3 o' s w n r)"
proof -
  from assms obtain r where r: "fetchone (the_run (ru_project u) (ru_request u) (ru_id u)) (db_supervisors d) = Some r"
    and o': "sr_owner r = ru_owner u" "sr_token r = ru_token u"
    by (auto simp: supervisor_report_tx_def monad_simps)
  note m = fetchone_SomeD [OF r]
  show ?thesis
  proof (cases "sr_status r")
    case Reported
    with assms r o' show ?thesis
      by (intro that(1) [of r]) (use m in \<open>auto simp: supervisor_report_tx_def monad_simps split: option.splits\<close>)
  next
    case Running
    obtain a s w n where l: "limited t2 r (ru_id u) x = (a, s, w, n)" by (metis prod_cases4)
    with assms r o' Running show ?thesis
      by (intro that(2) [of r a s w n]) (use m in \<open>auto simp: supervisor_report_tx_def report_new_def monad_simps dest!: run_event_tables\<close>)
  qed
qed

lemma reported_keeps:
  assumes rep: "supervisor_report_tx sha t1 t2 t3 pr u x d = Inr (v, d')" and inv: "recovery_inv sha d"
  shows "recovery_inv sha d' \<and> recovery_keeps {(ru_project u, ru_request u)} d d'"
  using rep
proof (cases rule: report_cases)
  case 1
  with inv recovery_keeps_refl show ?thesis by simp
next
  case (2 r a s w n)
  let ?P = "\<lambda>y. the_run (ru_project u) (ru_request u) (ru_id u) y \<and> sr_status y = Running"
  have s: "supervisors_inv d" using inv by (simp add: recovery_inv_def)
  have "y = r" if "y \<in> set (db_supervisors d)" "?P y" for y
    using supervisor_row_unique [OF s 2(1) that(1)] that(2) 2(2) by (simp add: the_run_def)
  then have ok: "supervised_run_ok (reported_as sha t3 a s w n y) \<and> run_kept y (reported_as sha t3 a s w n y)"
    if "y \<in> set (db_supervisors d)" "supervised_run_ok y" "?P y" for y
    using that 2(7) limited_success by (intro reported_as_ok) blast+
  have "supervisor_key y \<in> {(ru_project u, ru_request u)}" if "?P y" for y
    using that by (simp add: the_run_def supervisor_key_def)
  with update_run_keeps [OF inv ok, of ?P "{(ru_project u, ru_request u)}"]
  show ?thesis by (intro tables_after [OF 2(8)]) blast
qed

text \<open>The overdue runs are reported in one transaction; the incidents stay as they are.\<close>

lemma expire_runs_keeps:
  "expire_runs sha t pr rs d = Inr d' \<Longrightarrow> recovery_inv sha d \<Longrightarrow> recovery_inv sha d' \<and> keeps_supervisors d d'
     \<and> successes d' \<subseteq> successes d \<and> db_incidents d' = db_incidents d \<and> db_attempts d' = db_attempts d"
proof (induction rs arbitrary: d)
  case Nil
  then show ?case using keeps_supervisors_refl by simp
next
  case (Cons r rs)
  show ?case
  proof (cases "request_of_run r d")
    case None
    with Cons show ?thesis by simp
  next
    case (Some q)
    let ?P = "\<lambda>x. sr_project x = sr_project r \<and> sr_request x = sr_request r \<and> sr_status x = Running"
    let ?f = "reported_as sha t Failed time_limit_summary (time_limit_ref (sr_id r)) 0" and ?e = "update_run_row ?P
      (reported_as sha t Failed time_limit_summary (time_limit_ref (sr_id r)) 0) d"
    from Cons.prems(1) Some obtain d1 where d1: "failure_tables d1 = failure_tables ?e" "expire_runs sha t pr rs d1 = Inr d'"
      by (auto simp: monad_simps dest!: run_event_tables)
    have "recovery_inv sha ?e \<and> recovery_keeps {} d ?e"
    proof (rule update_run_keeps [OF Cons.prems(2)])
      show "supervised_run_ok (?f x) \<and> run_kept x (?f x)" if "supervised_run_ok x" "?P x" for x
        using that by (intro reported_as_ok) simp_all
    qed (simp add: reported_as_def)
    from tables_after [OF d1(1) this] have k: "recovery_inv sha d1" "keeps_supervisors d d1" "successes d1 \<subseteq> successes d"
      by (simp_all add: recovery_keeps_def)
    moreover have "db_incidents d1 = db_incidents d" "db_attempts d1 = db_attempts d"
      using d1(1) by (simp_all add: failure_tables_def update_run_row_def)
    ultimately show ?thesis using Cons.IH [OF d1(2) k(1)] keeps_supervisors_trans by auto
  qed
qed

lemma expired_keeps:
  assumes "expire_deadlines sha t locked pr d = Inr (u, d')" and "recovery_inv sha d"
  shows "recovery_inv sha d' \<and> recovery_keeps {} d d'"
proof -
  from assms(1) have "expire_runs sha t pr (filter (overdue t locked pr d) (db_supervisors d)) d = Inr d'"
    by (auto simp: expire_deadlines_def monad_simps)
  from expire_runs_keeps [OF this assms(2)] show ?thesis
    using keeps_incidents_same by (simp add: recovery_keeps_def)
qed

lemma applied_keeps:
  assumes "mark_applied t r d = (k, d')" and "recovery_inv sha d"
  shows "recovery_inv sha d' \<and> recovery_keeps {} d d'"
proof -
  have "d' = update_run_row (applies_to r) (\<lambda>x. x\<lparr>sr_applied := Some t\<rparr>) d"
    using assms(1) by (simp add: mark_applied_def)
  then show ?thesis
    using update_run_keeps [OF assms(2), of "applies_to r" "\<lambda>x. x\<lparr>sr_applied := Some t\<rparr>" "{}"]
    by (simp add: supervised_run_ok_def run_kept_def supervisor_key_def)
qed

section \<open>Reachable states\<close>

text \<open>Only a report turns a run into a success.\<close>

lemma recovery_step_cases:
  assumes "recovery_step sha d d'" and "recovery_inv sha d"
  shows "recovery_inv sha d' \<and> (recovery_keeps {} d d' \<or> (\<exists>t1 t2 t3 pr u x v.
    supervisor_report_tx sha t1 t2 t3 pr u x d = Inr (v, d') \<and> recovery_keeps {(ru_project u, ru_request u)} d d'))"
  using assms(1)
proof cases
  case opened
  from incident_started_keeps [OF this assms(2)] show ?thesis by blast
next
  case attempted
  from attempted_keeps [OF this assms(2)] show ?thesis by blast
next
  case ended
  from ended_keeps [OF this assms(2)] show ?thesis by blast
next
  case claimed
  from claimed_keeps [OF this assms(2)] show ?thesis by blast
next
  case beaten
  from beaten_keeps [OF this assms(2)] show ?thesis by blast
next
  case reported
  from reported_keeps [OF this assms(2)] reported show ?thesis by blast
next
  case expired
  from expired_keeps [OF this assms(2)] show ?thesis by blast
next
  case applied
  from applied_keeps [OF this assms(2)] show ?thesis by blast
next
  case other
  with assms(2) same_tables [of d' d sha "{}"] show ?thesis by (simp add: failure_tables_def)
qed

lemma recovery_step_inv_keeps:
  assumes "recovery_step sha d d'" and "recovery_inv sha d"
  shows "recovery_inv sha d' \<and> recovery_keeps UNIV d d'"
  using recovery_step_cases [OF assms] recovery_keeps_mono by blast

interpretation recovery: invariant_system "recovery_step sha" "recovery_inv sha" for sha
  by unfold_locales (use recovery_step_inv_keeps in blast)

lemma recovery_runs_keep: "(recovery_step sha)\<^sup>*\<^sup>* d d' \<Longrightarrow> recovery_inv sha d \<Longrightarrow> keeps_supervisors d d'"
  by (rule recovery.runs_rel [of keeps_supervisors sha])
    (use recovery_step_inv_keeps keeps_supervisors_refl keeps_supervisors_trans in \<open>auto simp: recovery_keeps_def\<close>)

lemma recovery_inv_empty: "recovery_inv sha empty_db"
  by (simp add: recovery_inv_def incidents_inv_def attempts_inv_def supervisors_inv_def empty_db_def attempts_of_def
      digests_def)

definition recovery_reachable :: "(string \<Rightarrow> string) \<Rightarrow> db \<Rightarrow> bool" where
  "recovery_reachable sha d = (recovery_step sha)\<^sup>*\<^sup>* empty_db d"

lemma recovery_reachable_inv: "recovery_reachable sha d \<Longrightarrow> recovery_inv sha d"
  unfolding recovery_reachable_def by (rule recovery.runs_inv [OF _ recovery_inv_empty])

lemma recovery_reachable_step: "recovery_reachable sha d \<Longrightarrow> recovery_step sha d d' \<Longrightarrow> recovery_reachable sha d'"
  unfolding recovery_reachable_def by (rule rtranclp.rtrancl_into_rtrancl)

end
