(* ===== verification/RecoverySamples.thy ===== *)
theory RecoverySamples
  imports RecoverySystem Samples
begin

text \<open>
  A sample incident for the properties of the retry chain and of the supervisor: three
  technical attempts and three corrections fail, the supervisor claims the recovery and reports
  a failure (\<open>exhausted_db\<close>) or a success (\<open>recovered_db\<close>). \<open>settled\<close> clears the item and event
  tables, which the chain does not read.
\<close>

section \<open>A sample run\<close>

definition mesh_db :: db where
  "mesh_db = project_db\<lparr>db_roles := db_roles project_db
       @ [\<lparr>ro_project = ''p'', ro_id = ''project-manager'', ro_status = ''active''\<rparr>],
     db_queues := [\<lparr>qu_project = ''p'', qu_id = ''qd'', qu_role = ''dev'', qu_capability = None, qu_paused = False\<rparr>,
       \<lparr>qu_project = ''p'', qu_id = ''qp'', qu_role = ''project-manager'', qu_capability = None, qu_paused = False\<rparr>]\<rparr>"

definition settled :: "db \<Rightarrow> db" where
  "settled d = d\<lparr>db_items := [], db_events := [], db_outbox := []\<rparr>"

definition the_incident :: "incident_status \<Rightarrow> stage \<Rightarrow> int option \<Rightarrow> timestamp option \<Rightarrow> incident_row" where
  "the_incident s st n t = \<lparr>fi_project = ''p'', fi_id = ''incident-k1'', fi_work = ''w'', fi_owner = ''dev'',
     fi_category = ''build'', fi_summary = ''it broke'', fi_source = ''log'', fi_status = s, fi_stage = st,
     fi_number = n, fi_started_by = ''dev1'', fi_started = 1, fi_resolved = t, fi_key = ''k1'',
     fi_fingerprint = ''kwkw''\<rparr>"

definition sample_try :: "string \<Rightarrow> stage \<Rightarrow> int \<Rightarrow> attempt_outcome \<Rightarrow> string option \<Rightarrow> (string \<times> json) list \<Rightarrow> attempt_request" where
  "sample_try a st n o' c ev = \<lparr>ar_project = ''p'', ar_work = ''w'', ar_incident = ''incident-k1'',
     ar_id = a, ar_stage = st, ar_number = n, ar_outcome = o', ar_actor = ''dev1'', ar_correction = c, ar_evidence = ev\<rparr>"

definition a_try :: "timestamp \<Rightarrow> string \<Rightarrow> string \<Rightarrow> stage \<Rightarrow> int \<Rightarrow> attempt_outcome \<Rightarrow> string option \<Rightarrow>
    (string \<times> json) list \<Rightarrow> attempt_row" where
  "a_try t fp a st n o' c ev = attempt_of sample_sha t fp (sample_try a st n o' c ev)"

definition six_tries :: "attempt_row list" where
  "six_tries = [a_try 2 ''1k1wkw'' ''a1'' Technical 1 Failed None [], a_try 3 ''2k1wkw'' ''a2'' Technical 2 Failed None [],
     a_try 4 ''3k1wkw'' ''a3'' Technical 3 Failed None [], a_try 5 ''11k1wkw'' ''a4'' PmCorrection 1 Failed (Some ''fix 1'') [],
     a_try 6 ''22k1wkw'' ''a5'' PmCorrection 2 Failed (Some ''fix 2'') [],
     a_try 7 ''33k1wkw'' ''a6'' PmCorrection 3 Failed (Some ''fix 3'') []]"

text \<open>The state after \<open>n\<close> of the six attempts.\<close>

definition tried_db :: "nat \<Rightarrow> db" where
  "tried_db n = mesh_db\<lparr>db_attempts := take n six_tries,
     db_incidents := [the_incident IncActive (fst (chain ! n)) (Some (snd (chain ! n))) None],
     db_requests := (if n < 6 then [] else [request_for sample_sha 7 (the_incident IncActive Recovery (Some 1) None)])\<rparr>"

definition sup :: principal where
  "sup = \<lparr>pr_subject = ''sup'', pr_projects = [''*''], pr_scopes = [''recovery:execute'']\<rparr>"

definition sample_profile :: tool_profile where
  "sample_profile = \<lparr>tp_reference = ''prof'', tp_digest = ''d'', tp_repository = ''img'', tp_tag = ''1'',
     tp_mounts = [], tp_credentials = []\<rparr>"

definition no_request_locks :: "string \<times> string \<Rightarrow> bool" where
  "no_request_locks x = False"

definition the_request :: recovery_request where
  "the_request = request_for sample_sha 7 (the_incident IncActive Recovery (Some 1) None)"

definition running :: supervisor_run where
  "running = new_run sample_sha 10 the_request ''own'' ''tok'' sample_profile 60 100 30"

definition claimed_run_db :: db where
  "claimed_run_db = (tried_db 6)\<lparr>db_supervisors := [running]\<rparr>"

definition handle :: recovery_run where
  "handle = claimed_run the_request running"

definition outcome_of :: "attempt_outcome \<Rightarrow> attempt_outcome \<times> string \<times> string \<times> int" where
  "outcome_of o' = (o', ''summary'', ''ref'', 9)"

definition done_run :: "attempt_outcome \<Rightarrow> supervisor_run" where
  "done_run o' = reported_as sample_sha 20 o' ''summary'' ''ref'' 9 running"

definition reported_db :: "attempt_outcome \<Rightarrow> db" where
  "reported_db o' = (tried_db 6)\<lparr>db_supervisors := [done_run o']\<rparr>"

definition last_try :: "attempt_outcome \<Rightarrow> attempt_request" where
  "last_try o' = sample_try (sr_id running) Recovery 1 o' None (result_evidence (done_run o'))"

definition ended_db :: "attempt_outcome \<Rightarrow> db" where
  "ended_db o' = (reported_db o')\<lparr>
     db_attempts := six_tries @ [attempt_of sample_sha 30 (projr (attempt_fingerprint sample_sha (last_try o'))) (last_try o')],
     db_incidents := [next_incident 30 6 o' (the_incident IncActive Recovery (Some 1) None)],
     db_requests := next_requests sample_sha 30 6 o' (the_incident IncActive Recovery (Some 1) None)
       (result_evidence (done_run o')) (reported_db o')\<rparr>"

definition sample_step :: "('a \<times> db) res \<Rightarrow> db \<Rightarrow> bool" where
  "sample_step r d = (case r of Inl e \<Rightarrow> False | Inr (x, d') \<Rightarrow> settled d' = d)"

definition sample_attempt :: "nat \<Rightarrow> string \<Rightarrow> stage \<Rightarrow> int \<Rightarrow> string option \<Rightarrow> bool" where
  "sample_attempt n a st k c = sample_step (attempt_tx sample_sha (int n + 2) (sample_try a st k Failed c []) (tried_db n))
     (tried_db (Suc n))"

lemma sample_technical:
  "sample_step (incident_start_tx sample_sha 1 ''p'' ''w'' ''k1'' ''build'' ''it broke'' ''log'' ''dev1'' mesh_db) (tried_db 0)
   \<and> sample_attempt 0 ''a1'' Technical 1 None \<and> sample_attempt 1 ''a2'' Technical 2 None
   \<and> sample_attempt 2 ''a3'' Technical 3 None"
  by code_simp

lemma sample_corrected:
  "sample_attempt 3 ''a4'' PmCorrection 1 (Some ''fix 1'') \<and> sample_attempt 4 ''a5'' PmCorrection 2 (Some ''fix 2'')
   \<and> sample_attempt 5 ''a6'' PmCorrection 3 (Some ''fix 3'')"
  by code_simp

lemma sample_supervised:
  "sample_step (supervisor_claim_tx sample_sha isoformat 9 10 no_request_locks sup ''own'' ''tok''
        sample_profile 60 100 30 (tried_db 6)) claimed_run_db
   \<and> sample_step (supervisor_report_tx sample_sha 20 20 20 sup handle (outcome_of Failed) claimed_run_db) (reported_db Failed)
   \<and> sample_step (supervisor_report_tx sample_sha 20 20 20 sup handle (outcome_of Succeeded) claimed_run_db) (reported_db Succeeded)"
  by code_simp

lemma sample_ended:
  "sample_step (attempt_tx sample_sha 30 (last_try Failed) (reported_db Failed)) (ended_db Failed)
   \<and> sample_step (attempt_tx sample_sha 30 (last_try Succeeded) (reported_db Succeeded)) (ended_db Succeeded)"
  by code_simp

lemma mesh_reachable: "recovery_reachable sample_sha mesh_db"
proof -
  have "recovery_step sample_sha empty_db mesh_db"
    by (rule recovery_step.other) (simp_all add: mesh_db_def project_db_def empty_db_def)
  then show ?thesis unfolding recovery_reachable_def by blast
qed

text \<open>A sample step, and then the clearing of the tables the chain does not read.\<close>

lemma sample_reachable:
  assumes "recovery_reachable sample_sha d" and "\<And>x d'. r = Inr (x, d') \<Longrightarrow> recovery_step sample_sha d d'"
    and "sample_step r e"
  shows "recovery_reachable sample_sha e"
proof -
  from assms(3) obtain x d' where r: "r = Inr (x, d')" "e = settled d'"
    by (auto simp: sample_step_def split: sum.splits)
  have "recovery_step sample_sha d' e" unfolding r(2) by (rule recovery_step.other) (simp_all add: settled_def)
  with recovery_reachable_step [OF assms(1) assms(2) [OF r(1)]] show ?thesis by (rule recovery_reachable_step)
qed

lemma attempt_reachable:
  assumes "recovery_reachable sample_sha (tried_db n)" and "sample_attempt n a st k c" and "m = Suc n"
  shows "recovery_reachable sample_sha (tried_db m)"
  using assms(1) unfolding assms(3)
proof (rule sample_reachable)
  show "sample_step (attempt_tx sample_sha (int n + 2) (sample_try a st k Failed c []) (tried_db n)) (tried_db (Suc n))"
    using assms(2) by (simp add: sample_attempt_def)
qed (erule recovery_step.attempted)

lemma tried_reachable: "recovery_reachable sample_sha (tried_db 6)"
proof -
  have "recovery_reachable sample_sha (tried_db 0)"
    by (rule sample_reachable [OF mesh_reachable _ sample_technical [THEN conjunct1]]) (erule recovery_step.opened)
  from attempt_reachable [OF this, of _ _ _ _ 1] have "recovery_reachable sample_sha (tried_db 1)"
    using sample_technical by force
  from attempt_reachable [OF this, of _ _ _ _ 2] have "recovery_reachable sample_sha (tried_db 2)"
    using sample_technical by force
  from attempt_reachable [OF this, of _ _ _ _ 3] have "recovery_reachable sample_sha (tried_db 3)"
    using sample_technical by force
  from attempt_reachable [OF this, of _ _ _ _ 4] have "recovery_reachable sample_sha (tried_db 4)"
    using sample_corrected by force
  from attempt_reachable [OF this, of _ _ _ _ 5] have "recovery_reachable sample_sha (tried_db 5)"
    using sample_corrected by force
  from attempt_reachable [OF this, of _ _ _ _ 6] show ?thesis using sample_corrected by force
qed

lemma claimed_run_reachable: "recovery_reachable sample_sha claimed_run_db"
  by (rule sample_reachable [OF tried_reachable _ sample_supervised [THEN conjunct1]]) (erule recovery_step.claimed)

lemma reported_reachable: "recovery_reachable sample_sha (reported_db o')"
proof -
  have "sample_step (supervisor_report_tx sample_sha 20 20 20 sup handle (outcome_of o') claimed_run_db) (reported_db o')"
    using sample_supervised by (cases o') blast+
  from sample_reachable [OF claimed_run_reachable _ this] show ?thesis using recovery_step.reported by blast
qed

lemma ended_reachable: "recovery_reachable sample_sha (ended_db o')"
proof -
  have "sample_step (attempt_tx sample_sha 30 (last_try o') (reported_db o')) (ended_db o')"
    using sample_ended by (cases o') blast+
  from sample_reachable [OF reported_reachable _ this] show ?thesis using recovery_step.attempted by blast
qed

end
