(* ===== verification/RecoveryProperties.thy ===== *)
theory RecoveryProperties
  imports RecoverySamples
begin

text \<open>
  The properties of the retry chain and of the recovery supervisor: the chain as an abstract
  machine, what stands behind each attempt, what it takes to fail a work item, and the
  behaviour of reports and of the reconciling loop.
\<close>

section \<open>The chain\<close>

text \<open>C5. Failed work moves along a fixed chain, one place per attempt. No transaction loses or renames
  an incident or drops an attempt of it; either the incident stands still and has no new attempt, or
  it makes exactly one move: a failure recorded at its place of the chain leads to the next place,
  the failure of the seventh place exhausts the chain, a success at its place recovers it, and an
  exhausted incident is closed without a further attempt. A new incident starts at the first place.
  What it stands at tells its history: a tried incident has that many attempts and all failed, a
  recovered one failed until its last attempt, which succeeded, and an exhausted or closed one failed
  all seven.\<close>

theorem incidents_follow_the_chain:
  assumes "recovery_reachable sha d" and "recovery_step sha d d'"
  shows "(\<forall>i\<in>set (db_incidents d). \<exists>j\<in>set (db_incidents d'). incident_core j = incident_core i
      \<and> (\<exists>as. tries d' j = tries d i @ as
         \<and> (as = [] \<and> standing d' j = standing d i \<or> chain_move (standing d i) (map mark as) (standing d' j))))
    \<and> (\<forall>j\<in>set (db_incidents d'). (\<exists>i\<in>set (db_incidents d). incident_core j = incident_core i)
         \<or> standing d' j = Trying 0)
    \<and> (\<forall>j\<in>set (db_incidents d'). case standing d' j of
         Trying n \<Rightarrow> n < 7 \<and> length (tries d' j) = n \<and> all_failed (tries d' j)
       | Solved n \<Rightarrow> n \<le> 7 \<and> length (tries d' j) = n
           \<and> (\<exists>as a. tries d' j = as @ [a] \<and> all_failed as \<and> fa_outcome a = Succeeded)
       | _ \<Rightarrow> length (tries d' j) = 7 \<and> all_failed (tries d' j))"
proof -
  have inv: "recovery_inv sha d" by (rule recovery_reachable_inv [OF assms(1)])
  from recovery_step_inv_keeps [OF assms(2) inv] have k: "keeps_incidents d d'" and I: "incidents_inv d'"
    by (simp_all add: recovery_keeps_def recovery_inv_def)
  have "case standing d' j of Trying n \<Rightarrow> n < 7 \<and> length (tries d' j) = n \<and> all_failed (tries d' j)
      | Solved n \<Rightarrow> n \<le> 7 \<and> length (tries d' j) = n
          \<and> (\<exists>as a. tries d' j = as @ [a] \<and> all_failed as \<and> fa_outcome a = Succeeded)
      | _ \<Rightarrow> length (tries d' j) = 7 \<and> all_failed (tries d' j)" if "j \<in> set (db_incidents d')" for j
    using incidents_invD(2) [OF I that] by (auto simp: standing_def incident_ok_def split: incident_status.splits)
  with k show ?thesis unfolding keeps_incidents_def incident_moves_def by blast
qed

theorem incidents_follow_the_chain_witness:
  "\<exists>s d' j as. attempt_tx sample_sha 30 (last_try Failed) (reported_db Failed) = Inr (s, d')
    \<and> j \<in> set (db_incidents d') \<and> standing d' j = Exhausted \<and> map mark as = [(Recovery, 1, Failed)]
    \<and> tries d' j = tries (reported_db Failed) (the_incident IncActive Recovery (Some 1) None) @ as"
proof -
  let ?i = "the_incident IncActive Recovery (Some 1) None"
  have "sample_step (attempt_tx sample_sha 30 (last_try Failed) (reported_db Failed)) (ended_db Failed)"
    using sample_ended by blast
  then obtain s d' where d': "attempt_tx sample_sha 30 (last_try Failed) (reported_db Failed) = Inr (s, d')"
    "settled d' = ended_db Failed" by (auto simp: sample_step_def split: sum.splits)
  have i: "?i \<in> set (db_incidents (reported_db Failed))" by (simp add: reported_db_def tried_db_def)
  have "db_incidents (settled d') = db_incidents d'" by (simp add: settled_def)
  then have inc: "db_incidents d' = [next_incident 30 6 Failed ?i]" unfolding d'(2) by (simp add: ended_db_def)
  have six: "standing (reported_db Failed) ?i = Trying 6"
    by (simp add: standing_def tries_def attempts_of_def reported_db_def tried_db_def the_incident_def six_tries_def
        a_try_def attempt_of_def sample_try_def)
  have ex: "standing d' (next_incident 30 6 Failed ?i) = Exhausted" by (simp add: standing_def next_incident_def)
  from incidents_follow_the_chain [OF reported_reachable recovery_step.attempted [OF d'(1)]] i inc obtain as where
    "tries d' (next_incident 30 6 Failed ?i) = tries (reported_db Failed) ?i @ as"
    "chain_move (Trying 6) (map mark as) Exhausted" unfolding six [symmetric] ex [symmetric] using six ex by auto
  with d'(1) inc ex show ?thesis by (auto simp: chain_move_Trying)
qed

lemma take_chain_ordinals: "k \<le> 7 \<Longrightarrow> map (\<lambda>x. ordinal (fst x) (snd x)) (take k chain) = [1..int k]"
proof (induction k)
  case (Suc k)
  then have "take (Suc k) chain = take k chain @ [chain ! k]" by (simp add: take_Suc_conv_app_nth)
  with Suc ordinal_chain [of k] show ?case by (simp add: upto_rec2 add.commute)
qed simp

lemma tries_member: "a \<in> set (tries d i) \<longleftrightarrow> a \<in> set (db_attempts d) \<and> fa_project a = fi_project i \<and> fa_incident a = fi_id i"
  by (auto simp: tries_def attempts_of_def)

lemma tries_ordinals:
  assumes inv: "recovery_inv sha d" and i: "i \<in> set (db_incidents d)"
  shows "map fa_ordinal (tries d i) = [1..int (length (tries d i))]"
proof -
  have ok: "incident_ok (tries d i) i" using inv i incidents_invD(2) by (simp add: recovery_inv_def)
  have "map fa_ordinal (tries d i) = map (\<lambda>x. ordinal (fst x) (snd x)) (map (\<lambda>a. (fa_stage a, fa_number a)) (tries d i))"
    using inv by (auto simp: recovery_inv_def attempts_inv_def tries_member)
  also have "\<dots> = [1..int (length (tries d i))]"
    using ok take_chain_ordinals [of "length (tries d i)"] by (simp add: incident_ok_def)
  finally show ?thesis .
qed

lemma digests_pm:
  assumes "\<And>a. a \<in> set as \<Longrightarrow> fa_correction_digest a = map_option sha (fa_correction a)
      \<and> (fa_correction a \<noteq> None \<longleftrightarrow> fa_stage a = PmCorrection)"
  shows "digests as = map (map_option sha) (map fa_correction (filter (\<lambda>a. fa_stage a = PmCorrection) as))"
  using assms by (induction as) (auto simp: digests_def)

lemma corrections_distinct:
  assumes "recovery_inv sha d"
  shows "distinct (map fa_correction (filter (\<lambda>a. fa_stage a = PmCorrection) (tries d i)))"
proof -
  have A: "attempts_inv sha d" using assms by (simp add: recovery_inv_def)
  then have "digests (tries d i) = map (map_option sha) (map fa_correction (filter (\<lambda>a. fa_stage a = PmCorrection) (tries d i)))"
    by (intro digests_pm) (auto simp: attempts_inv_def tries_member)
  moreover have "distinct (digests (tries d i))" using A by (simp add: attempts_inv_def tries_def)
  ultimately show ?thesis by (metis distinct_map)
qed

text \<open>C32. The attempts of an incident are the first places of the chain of three technical attempts,
  three corrections and one recovery, numbered 1 to at most 7 in the order they were recorded, so
  the status lists them so; no correction is tried twice; and a recovery request is pending exactly
  while an active incident is at the last place.\<close>

theorem attempts_follow_the_chain:
  assumes "recovery_reachable sha d" and "i \<in> set (db_incidents d)"
  shows "map (\<lambda>a. (fa_stage a, fa_number a)) (tries d i) = take (length (tries d i)) chain
    \<and> length (tries d i) \<le> 7
    \<and> sort_key fa_ordinal (tries d i) = tries d i
    \<and> map fa_ordinal (tries d i) = [1..int (length (tries d i))]
    \<and> distinct (map fa_correction (filter (\<lambda>a. fa_stage a = PmCorrection) (tries d i)))
    \<and> ((\<exists>q\<in>set (requests_of d i). rr_status q = RqPending) \<longleftrightarrow> fi_status i = IncActive \<and> length (tries d i) = 6)"
proof -
  note inv = recovery_reachable_inv [OF assms(1)]
  then have I: "incidents_inv d" by (simp add: recovery_inv_def)
  note ok = incidents_invD(2,3) [OF I assms(2)]
  note o' = tries_ordinals [OF inv assms(2)]
  have s: "sort_key fa_ordinal (tries d i) = tries d i"
  proof (rule sort_key_id_if_sorted)
    show "sorted (map fa_ordinal (tries d i))" unfolding o' by simp
  qed
  have "(\<exists>q\<in>set (requests_of d i). rr_status q = RqPending) \<longleftrightarrow> fi_status i = IncActive \<and> length (tries d i) = 6"
  proof (cases "fi_status i = IncActive")
    case True
    then have "all_failed (tries d i)" "length (tries d i) < 7" using ok(1) by (simp_all add: incident_ok_def)
    then have "length (filter (\<lambda>a. fa_outcome a = Failed) (tries d i)) = length (tries d i)" "length (tries d i) < 7"
      by (simp_all add: all_failed_def)
    with ok(2) True show ?thesis by (cases "length (tries d i) < 6") (auto simp: request_ok_def)
  next
    case False
    with ok(2) show ?thesis by (cases "fi_status i") (auto simp: request_ok_def split: if_splits)
  qed
  with s o' corrections_distinct [OF inv] ok(1) show ?thesis by (simp add: incident_ok_def)
qed

theorem attempts_follow_the_chain_witness:
  "\<exists>q. q \<in> set (requests_of (tried_db 6) (the_incident IncActive Recovery (Some 1) None)) \<and> rr_status q = RqPending"
proof -
  have m: "the_incident IncActive Recovery (Some 1) None \<in> set (db_incidents (tried_db 6))" by (simp add: tried_db_def)
  have "length (tries (tried_db 6) (the_incident IncActive Recovery (Some 1) None)) = 6"
    by (simp add: tries_def attempts_of_def tried_db_def the_incident_def six_tries_def a_try_def attempt_of_def sample_try_def)
  with attempts_follow_the_chain [OF tried_reachable m] show ?thesis by (auto simp: the_incident_def)
qed

section \<open>What stands behind an outcome\<close>

text \<open>C6. A work item fails only after the whole chain: a transition to \<open>error\<close> is accepted only
  when an incident of the item has all seven attempts on record, all failed, with three different
  corrections, the last of them a recovery that an independent supervisor reported as failed.\<close>

theorem error_needs_the_whole_chain:
  assumes "recovery_reachable sha d"
    and "transition_core sha t p w ''error'' actor corr version reason ev d = Inr (x, d')"
  shows "\<exists>i\<in>set (db_incidents d). fi_project i = p \<and> fi_work i = w \<and> fi_status i = IncEligible
    \<and> map (\<lambda>a. (fa_stage a, fa_number a)) (tries d i) = chain \<and> all_failed (tries d i)
    \<and> distinct (map fa_correction (filter (\<lambda>a. fa_stage a = PmCorrection) (tries d i)))
    \<and> (\<exists>r\<in>set (db_supervisors d). sr_project r = p \<and> sr_id r = fa_id (tries d i ! 6) \<and> sr_status r = Reported
        \<and> sr_outcome r = Some Failed)"
proof -
  note inv = recovery_reachable_inv [OF assms(1)]
  then have I: "incidents_inv d" and A: "attempts_inv sha d" by (simp_all add: recovery_inv_def)
  from transition_Inr [OF assms(2)] obtain k where "failure_gate p w ''error'' d = Inr k" by blast
  then obtain i where "incident_with (\<lambda>s. s = IncEligible) p w d = Some i"
    by (auto simp: failure_gate_def monad_simps)
  from fetchone_SomeD [OF this [unfolded incident_with_def]]
  have i: "i \<in> set (db_incidents d)" "fi_project i = p" "fi_work i = w" "fi_status i = IncEligible" by auto
  have ok: "length (tries d i) = 7" "all_failed (tries d i)" "map (\<lambda>a. (fa_stage a, fa_number a)) (tries d i) = chain"
    using incidents_invD(2) [OF I i(1)] i(4) by (auto simp: incident_ok_def)
  let ?a = "tries d i ! 6"
  have m: "?a \<in> set (tries d i)" using ok(1) by simp
  have "(fa_stage ?a, fa_number ?a) = map (\<lambda>a. (fa_stage a, fa_number a)) (tries d i) ! 6" using ok(1) by simp
  then have "fa_stage ?a = Recovery" unfolding ok(3) by simp
  moreover have "fa_outcome ?a = Failed" using ok(2) m by (simp add: all_failed_def)
  ultimately obtain r where "r \<in> set (db_supervisors d)" "sr_project r = fa_project ?a" "sr_id r = fa_id ?a"
    "sr_status r = Reported" "sr_outcome r = Some Failed"
    using A m unfolding attempts_inv_def tries_member by metis
  moreover have "fa_project ?a = p" using m i(2) by (simp add: tries_member)
  ultimately show ?thesis using i ok corrections_distinct [OF inv] by blast
qed

theorem error_needs_the_whole_chain_witness:
  "\<exists>r. r \<in> set (db_supervisors (ended_db Failed)) \<and> sr_status r = Reported \<and> sr_outcome r = Some Failed"
proof -
  let ?t = "transition_core sample_sha 40 ''p'' ''w'' ''error'' ''pm'' ''c9'' 2 (Some ''hopeless'') [] (ended_db Failed)"
  have "succeeds ?t" by code_simp
  from succeedsD [OF this] obtain x where "?t = Inr (x, after ?t)" by blast
  from error_needs_the_whole_chain [OF ended_reachable this] show ?thesis by blast
qed

text \<open>A report in time: the holder of the lease reports a run that is running, at a reading \<open>t1\<close>
  before the lease ends and a reading \<open>t2\<close> before the deadline; \<open>r\<close> is the row it leaves, stamped
  with the reading \<open>t3\<close>.\<close>

definition timely_report :: "timestamp \<Rightarrow> timestamp \<Rightarrow> timestamp \<Rightarrow> recovery_run \<Rightarrow> supervisor_run \<Rightarrow> supervisor_run \<Rightarrow> bool" where
  "timely_report t1 t2 t3 u r0 r = (the_run (ru_project u) (ru_request u) (ru_id u) r0 \<and> sr_status r0 = Running
     \<and> sr_owner r0 = ru_owner u \<and> sr_token r0 = ru_token u \<and> t1 < sr_expires r0 \<and> t2 < sr_deadline r0
     \<and> supervisor_key r = supervisor_key r0 \<and> sr_id r = sr_id r0 \<and> sr_deadline r = sr_deadline r0 \<and> sr_limit r = sr_limit r0
     \<and> sr_status r = Reported \<and> sr_outcome r = Some Succeeded \<and> sr_reported r = Some t3)"

lemma timely_report_kept:
  assumes "timely_report t1 t2 t3 u r0 q" and "run_kept q r"
  shows "timely_report t1 t2 t3 u r0 r"
proof -
  have e: "r = q\<lparr>sr_applied := sr_applied r\<rparr>" using assms by (simp add: timely_report_def run_kept_def)
  have "timely_report t1 t2 t3 u r0 (q\<lparr>sr_applied := z\<rparr>)" for z
    using assms(1) by (simp add: timely_report_def supervisor_key_def)
  with e show ?thesis by metis
qed

text \<open>The transaction from \<open>d\<close> to \<open>d'\<close> reports \<open>r\<close> as a success: it is a report, and whatever report
  takes \<open>d\<close> to \<open>d'\<close>, with whatever readings of the clock, is one of a success and in time.\<close>

definition success_report :: "(string \<Rightarrow> string) \<Rightarrow> db \<Rightarrow> db \<Rightarrow> supervisor_run \<Rightarrow> bool" where
  "success_report sha d d' r = (
     (\<exists>t1 t2 t3 pr u x v. supervisor_report_tx sha t1 t2 t3 pr u x d = Inr (v, d'))
     \<and> (\<forall>t1 t2 t3 pr u x v. supervisor_report_tx sha t1 t2 t3 pr u x d = Inr (v, d') \<longrightarrow>
          fst x = Succeeded \<and> (\<exists>r0\<in>set (db_supervisors d). timely_report t1 t2 t3 u r0 r)))"

lemma success_report_kept: "success_report sha d d' q \<Longrightarrow> run_kept q r \<Longrightarrow> success_report sha d d' r"
  unfolding success_report_def using timely_report_kept by metis

text \<open>A success among the runs stays as it was reported, or the step is the report that made it one;
  and every report that takes the one state to the other is in time.\<close>

lemma success_kept:
  assumes "recovery_step sha d d'" and "recovery_inv sha d" and "r \<in> set (db_supervisors d')"
    and "supervisor_key r \<in> successes d"
  shows "\<exists>r0\<in>set (db_supervisors d). sr_outcome r0 = Some Succeeded \<and> run_kept r0 r"
proof -
  from recovery_step_inv_keeps [OF assms(1,2)] have S: "supervisors_inv d'" and k: "keeps_supervisors d d'"
    by (simp_all add: recovery_inv_def recovery_keeps_def)
  from assms(4) obtain r0 where r0: "r0 \<in> set (db_supervisors d)" "supervisor_key r0 = supervisor_key r"
    "sr_outcome r0 = Some Succeeded" by (auto simp: successes_def)
  with k obtain r1 where r1: "r1 \<in> set (db_supervisors d')" "run_kept r0 r1" unfolding keeps_supervisors_def by blast
  then have "supervisor_key r1 = supervisor_key r" using r0(2) by (simp add: run_kept_def)
  then have "r1 = r" using supervisor_row_unique [OF S assms(3) r1(1)] by (simp add: supervisor_key_def)
  with r0 r1 show ?thesis by blast
qed

lemma success_reported:
  assumes "recovery_step sha d d'" and "recovery_inv sha d" and "r \<in> set (db_supervisors d')"
    and "sr_outcome r = Some Succeeded" and "supervisor_key r \<notin> successes d"
  shows "\<exists>t1 t2 t3 pr u x v. supervisor_report_tx sha t1 t2 t3 pr u x d = Inr (v, d')"
proof -
  have "supervisor_key r \<in> successes d'" using assms(3,4) by (auto simp: successes_def)
  with assms(5) have "\<not> recovery_keeps {} d d'" by (auto simp: recovery_keeps_def)
  with recovery_step_cases [OF assms(1,2)] show ?thesis by blast
qed

lemma success_in_time:
  assumes "supervisor_report_tx sha t1 t2 t3 pr u x d = Inr (v, d')" and "recovery_inv sha d"
    and "r \<in> set (db_supervisors d')" and "sr_outcome r = Some Succeeded" and "supervisor_key r \<notin> successes d"
  shows "fst x = Succeeded \<and> (\<exists>r0\<in>set (db_supervisors d). timely_report t1 t2 t3 u r0 r)"
proof -
  have new: "r \<notin> set (db_supervisors d)" using assms(4,5) by (auto simp: successes_def)
  from assms(1) show ?thesis
  proof (cases rule: report_cases)
    case 1
    with new assms(3) show ?thesis by simp
  next
    case (2 q a s w n)
    have "r \<in> set (upd_where (\<lambda>y. the_run (ru_project u) (ru_request u) (ru_id u) y \<and> sr_status y = Running)
        (reported_as sha t3 a s w n) (db_supervisors d))"
      using 2(8) assms(3) by (simp add: failure_tables_def update_run_row_def)
    with new obtain y where y: "y \<in> set (db_supervisors d)" "the_run (ru_project u) (ru_request u) (ru_id u) y"
      "r = reported_as sha t3 a s w n y" unfolding set_upd_where by (auto split: if_splits)
    have "supervisors_inv d" using assms(2) by (simp add: recovery_inv_def)
    from supervisor_row_unique [OF this 2(1) y(1)] y(2) 2(2) have yq: "y = q" by (simp add: the_run_def)
    have a: "a = Succeeded" using assms(4) y(3) by (simp add: reported_as_def)
    with limited_success 2(7) have l: "t2 < sr_deadline q" "fst x = Succeeded" by blast+
    have "timely_report t1 t2 t3 u q r"
      using 2(2-6) l(1) y(3) yq a by (auto simp: timely_report_def reported_as_def supervisor_key_def)
    with l(2) 2(1) show ?thesis by blast
  qed
qed

text \<open>A history: the states of a run of the system, from the empty database on.\<close>

definition history :: "(string \<Rightarrow> string) \<Rightarrow> db list \<Rightarrow> bool" where
  "history sha ds = (ds \<noteq> [] \<and> hd ds = empty_db \<and> successively (recovery_step sha) ds)"

lemma history_snoc: "bs \<noteq> [] \<Longrightarrow> history sha (bs @ [f]) \<longleftrightarrow> history sha bs \<and> recovery_step sha (last bs) f"
  by (auto simp: history_def successively_append_iff)

lemma history_reachable: "history sha ds \<Longrightarrow> recovery_reachable sha (last ds)"
proof (induction ds rule: rev_induct)
  case (snoc f bs)
  show ?case
  proof (cases "bs = []")
    case True
    with snoc.prems show ?thesis by (simp add: history_def recovery_reachable_def)
  next
    case False
    with snoc recovery_reachable_step show ?thesis by (auto simp: history_snoc)
  qed
qed (simp add: history_def)

lemma reachable_history:
  assumes "recovery_reachable sha d"
  shows "\<exists>ds. history sha ds \<and> last ds = d"
  using assms unfolding recovery_reachable_def
proof (induction rule: rtranclp_induct)
  case base
  have "history sha [empty_db]" by (simp add: history_def)
  then show ?case by (intro exI [of _ "[empty_db]"]) simp
next
  case (step d f)
  then obtain ds where "history sha ds" "last ds = d" by blast
  with step.hyps(2) have "history sha (ds @ [f])" by (subst history_snoc) (auto simp: history_def)
  then show ?case by (intro exI [of _ "ds @ [f]"]) simp
qed

lemma success_history:
  assumes "history sha ds" and "r \<in> set (db_supervisors (last ds))" and "sr_outcome r = Some Succeeded"
  shows "\<exists>es e f fs. ds = es @ e # f # fs \<and> success_report sha e f r"
  using assms
proof (induction ds arbitrary: r rule: rev_induct)
  case Nil
  then show ?case by (simp add: history_def)
next
  case (snoc f bs)
  have r: "r \<in> set (db_supervisors f)" using snoc.prems(2) by simp
  have bs: "bs \<noteq> []" using snoc.prems(1) r by (auto simp: history_def empty_db_def)
  then have h: "history sha bs" and st: "recovery_step sha (last bs) f"
    using snoc.prems(1) by (simp_all add: history_snoc)
  have inv: "recovery_inv sha (last bs)" by (rule recovery_reachable_inv [OF history_reachable [OF h]])
  show ?case
  proof (cases "supervisor_key r \<in> successes (last bs)")
    case True
    from success_kept [OF st inv r True] obtain q where q: "q \<in> set (db_supervisors (last bs))"
      "sr_outcome q = Some Succeeded" "run_kept q r" by blast
    from snoc.IH [OF h q(1,2)] obtain es e g fs where i: "bs = es @ e # g # fs" "success_report sha e g q" by blast
    have "success_report sha e g r" using i(2) q(3) by (rule success_report_kept)
    moreover have "bs @ [f] = es @ e # g # (fs @ [f])" using i(1) by simp
    ultimately show ?thesis by blast
  next
    case False
    have "bs @ [f] = butlast bs @ last bs # f # []" using bs by simp
    moreover have "success_report sha (last bs) f r"
      unfolding success_report_def
      using success_reported [OF st inv r snoc.prems(3) False] success_in_time [OF _ inv r snoc.prems(3) False] by blast
    ultimately show ?thesis by blast
  qed
qed

text \<open>C33. An independent recovery counts only within its limits: the seventh attempt of an incident
  has the outcome that a supervisor run of the same id reported. A success used no more than the
  run's usage limit, and in every history that leads to it there is a transaction that reported it
  as a success: a report of the holder of the run's lease, of a run then still running, which read
  the clock before the end of the lease and before the deadline (and stamped the row by a later
  reading, which may lie after them). No report with other readings makes that transition.\<close>

theorem recovery_is_supervised:
  assumes "history sha ds" and "a \<in> set (db_attempts (last ds))" and "fa_stage a = Recovery"
  shows "\<exists>r\<in>set (db_supervisors (last ds)). sr_project r = fa_project a \<and> sr_id r = fa_id a \<and> sr_status r = Reported
    \<and> sr_outcome r = Some (fa_outcome a)
    \<and> (fa_outcome a = Succeeded \<longrightarrow> (\<exists>n. sr_usage r = Some n \<and> n \<le> sr_limit r)
        \<and> (\<exists>es e f fs. ds = es @ e # f # fs \<and> success_report sha e f r))"
proof -
  from recovery_reachable_inv [OF history_reachable [OF assms(1)]]
  have A: "attempts_inv sha (last ds)" and S: "supervisors_inv (last ds)" by (simp_all add: recovery_inv_def)
  from A assms(2,3) obtain r where r: "r \<in> set (db_supervisors (last ds))" "sr_project r = fa_project a" "sr_id r = fa_id a"
    "sr_status r = Reported" "sr_outcome r = Some (fa_outcome a)" unfolding attempts_inv_def by blast
  moreover have "supervised_run_ok r" using S r(1) by (simp add: supervisors_inv_def)
  then have "fa_outcome a = Succeeded \<longrightarrow> (\<exists>n. sr_usage r = Some n \<and> n \<le> sr_limit r)"
    using r(5) by (simp add: supervised_run_ok_def)
  moreover note success_history [OF assms(1) r(1)]
  ultimately show ?thesis by (intro bexI [OF _ r(1)]) simp
qed

theorem recovery_is_supervised_witness:
  "\<exists>ds r n e t1 t2 t3 u r0. history sample_sha ds \<and> last ds = ended_db Succeeded
    \<and> r \<in> set (db_supervisors (ended_db Succeeded)) \<and> sr_usage r = Some n \<and> n \<le> sr_limit r
    \<and> e \<in> set ds \<and> r0 \<in> set (db_supervisors e) \<and> timely_report t1 t2 t3 u r0 r"
proof -
  let ?a = "attempt_of sample_sha 30 (projr (attempt_fingerprint sample_sha (last_try Succeeded))) (last_try Succeeded)"
  obtain ds where ds: "history sample_sha ds" "last ds = ended_db Succeeded"
    using reachable_history [OF ended_reachable] by blast
  have a: "?a \<in> set (db_attempts (last ds))" "fa_stage ?a = Recovery" "fa_outcome ?a = Succeeded"
    unfolding ds(2) by (simp_all add: ended_db_def attempt_of_def last_try_def sample_try_def)
  from recovery_is_supervised [OF ds(1) a(1,2)] a(3) obtain r n es e f fs where
    r: "r \<in> set (db_supervisors (last ds))" "sr_usage r = Some n" "n \<le> sr_limit r" "ds = es @ e # f # fs"
    "success_report sample_sha e f r" by blast
  from r(5) obtain t1 t2 t3 u r0 where "r0 \<in> set (db_supervisors e)" "timely_report t1 t2 t3 u r0 r"
    unfolding success_report_def by blast
  moreover have "e \<in> set ds" using r(4) by simp
  moreover note r(1) [unfolded ds(2)] r(2,3) ds
  ultimately show ?thesis by blast
qed

section \<open>Reports\<close>

lemma accepted_later:
  assumes "fp \<in> set (accepted_fingerprints sha t r run x)" and "t \<le> t'" and "r' = r\<lparr>sr_applied := a\<rparr>"
  shows "fp \<in> set (accepted_fingerprints sha t' r' run x)"
  using assms by (cases x) (auto simp: accepted_fingerprints_def split: if_splits)

lemma limited_accepted:
  assumes "limited t r run x = (o', s, w, n)"
  shows "result_fingerprint sha o' s w n \<in> set (accepted_fingerprints sha t (reported_as sha t' o' s w n r) run x)"
  using assms by (cases x) (auto simp: limited_def accepted_fingerprints_def reported_as_def split: if_splits)

text \<open>The row of a handle after its report, and a report that finds it.\<close>

definition reported_row :: "(string \<Rightarrow> string) \<Rightarrow> timestamp \<Rightarrow> recovery_run \<Rightarrow>
    attempt_outcome \<times> string \<times> string \<times> int \<Rightarrow> supervisor_run \<Rightarrow> bool" where
  "reported_row sha t u x r = (the_run (ru_project u) (ru_request u) (ru_id u) r \<and> sr_owner r = ru_owner u
     \<and> sr_token r = ru_token u \<and> sr_status r = Reported
     \<and> (\<exists>fp\<in>set (accepted_fingerprints sha t r (ru_id u) x). sr_fingerprint r = Some fp))"

lemma report_leaves_row:
  assumes "supervisor_report_tx sha t1 t2 t3 pr u x d = Inr (v, d')" and "supervisors_inv d"
  shows "\<exists>r\<in>set (db_supervisors d'). reported_row sha t2 u x r
    \<and> (ru_outcome v, ru_summary v, ru_usage v, ru_reported v) = (sr_outcome r, sr_summary r, sr_usage r, sr_reported r)"
  using assms(1)
proof (cases rule: report_cases)
  case (1 r)
  then show ?thesis by (intro bexI [of _ r]) (auto simp: reported_row_def reported_run_def)
next
  case (2 r o' s w n)
  let ?r = "reported_as sha t3 o' s w n r"
  have "?r \<in> set (db_supervisors d')"
    using 2(1,2,5,8) by (auto simp: failure_tables_def update_run_row_def set_upd_where)
  moreover have "reported_row sha t2 u x ?r"
    using 2(2-5) limited_accepted [OF 2(7), of sha] by (auto simp: reported_row_def reported_as_def the_run_def)
  ultimately show ?thesis using 2(9) by (intro bexI [of _ ?r]) (auto simp: reported_run_def)
qed

lemma reported_row_replays:
  assumes "reported_row sha t2 u x r" and "r \<in> set (db_supervisors d)" and "supervisors_inv d"
  shows "supervisor_report_tx sha t1 t2 t3 pr u x d = Inr ((reported_run u r)\<lparr>ru_applied := sr_applied r\<rparr>, d)"
proof -
  have "fetchone (the_run (ru_project u) (ru_request u) (ru_id u)) (db_supervisors d) = Some r"
    using assms by (intro fetchone_unique [where k = supervisor_key])
      (auto simp: supervisors_inv_def reported_row_def the_run_def supervisor_key_def)
  then show ?thesis using assms(1) by (auto simp: supervisor_report_tx_def reported_row_def)
qed

text \<open>C34. A supervisor may repeat its report: after a report was accepted, the same report at any
  later time, whatever happened between, writes nothing and answers with the outcome recorded
  first, also where a limit had replaced the reported result.\<close>

theorem report_is_idempotent:
  assumes "recovery_reachable sha d" and "supervisor_report_tx sha t1 t2 t3 pr u x d = Inr (v, d1)"
    and "(recovery_step sha)\<^sup>*\<^sup>* d1 d2" and "t2 \<le> t2'"
  shows "\<exists>v'. supervisor_report_tx sha t1' t2' t3' pr' u x d2 = Inr (v', d2)
    \<and> (ru_outcome v', ru_summary v', ru_usage v', ru_reported v') = (ru_outcome v, ru_summary v, ru_usage v, ru_reported v)"
proof -
  note inv = recovery_reachable_inv [OF assms(1)]
  then have S: "supervisors_inv d" by (simp add: recovery_inv_def)
  from report_leaves_row [OF assms(2) S] obtain r where r: "r \<in> set (db_supervisors d1)" "reported_row sha t2 u x r"
    "(ru_outcome v, ru_summary v, ru_usage v, ru_reported v) = (sr_outcome r, sr_summary r, sr_usage r, sr_reported r)"
    by blast
  have i1: "recovery_inv sha d1" using recovery_step_inv_keeps [OF recovery_step.reported [OF assms(2)] inv] by blast
  then have i2: "recovery_inv sha d2" by (rule recovery.runs_inv [OF assms(3)])
  from recovery_runs_keep [OF assms(3) i1] r(1) obtain r' where r': "r' \<in> set (db_supervisors d2)" "run_kept r r'"
    unfolding keeps_supervisors_def by blast
  have e: "r' = r\<lparr>sr_applied := sr_applied r'\<rparr>" using r'(2) r(2) by (simp add: run_kept_def reported_row_def)
  have f: "the_run p q i r' = the_run p q i r" "sr_owner r' = sr_owner r" "sr_token r' = sr_token r"
    "sr_status r' = sr_status r" "sr_fingerprint r' = sr_fingerprint r" "sr_outcome r' = sr_outcome r"
    "sr_summary r' = sr_summary r" "sr_usage r' = sr_usage r" "sr_reported r' = sr_reported r" for p q i
    by (subst e, simp add: the_run_def)+
  have "reported_row sha t2' u x r'"
    using r(2) accepted_later [OF _ assms(4) e] unfolding reported_row_def f by blast
  from reported_row_replays [OF this r'(1)] i2 r(3) f show ?thesis by (simp add: recovery_inv_def reported_run_def)
qed

theorem report_is_idempotent_witness:
  "\<exists>v. supervisor_report_tx sample_sha 99 99 99 sup handle (outcome_of Succeeded) (ended_db Succeeded) = Inr (v, ended_db Succeeded)
    \<and> ru_outcome v = Some Succeeded"
proof -
  let ?r = "supervisor_report_tx sample_sha 20 20 20 sup handle (outcome_of Succeeded) claimed_run_db"
  have "sample_step ?r (reported_db Succeeded)" using sample_supervised by blast
  then obtain v d1 where r: "?r = Inr (v, d1)" "settled d1 = reported_db Succeeded"
    by (auto simp: sample_step_def split: sum.splits)
  have a: "sample_step (attempt_tx sample_sha 30 (last_try Succeeded) (reported_db Succeeded)) (ended_db Succeeded)"
    using sample_ended by blast
  then obtain s d3 where d3: "attempt_tx sample_sha 30 (last_try Succeeded) (reported_db Succeeded) = Inr (s, d3)"
    "settled d3 = ended_db Succeeded" by (auto simp: sample_step_def split: sum.splits)
  have c: "recovery_step sample_sha e (settled e)" for e
    by (rule recovery_step.other) (simp_all add: settled_def)
  have "(recovery_step sample_sha)\<^sup>*\<^sup>* d1 (ended_db Succeeded)"
    using c [of d1] recovery_step.attempted [OF d3(1)] c [of d3] unfolding r(2) d3(2)
    by (meson converse_rtranclp_into_rtranclp r_into_rtranclp)
  from report_is_idempotent [OF claimed_run_reachable r(1) this, of 99 99 99 sup]
  obtain v' where v': "supervisor_report_tx sample_sha 99 99 99 sup handle (outcome_of Succeeded) (ended_db Succeeded)
      = Inr (v', ended_db Succeeded)" "ru_outcome v' = ru_outcome v" by auto
  from report_leaves_row [OF r(1)] claimed_run_reachable obtain q where
    "q \<in> set (db_supervisors d1)" "ru_outcome v = sr_outcome q"
    using recovery_reachable_inv by (fastforce simp: recovery_inv_def)
  moreover have "db_supervisors (settled d1) = db_supervisors d1" by (simp add: settled_def)
  then have "db_supervisors d1 = [done_run Succeeded]" unfolding r(2) by (simp add: reported_db_def)
  ultimately have "ru_outcome v = Some Succeeded" by (simp add: done_run_def reported_as_def)
  with v' show ?thesis by auto
qed

section \<open>Reconciling\<close>

text \<open>C35. One stuck result stops the reconciling loop: while the oldest unapplied result belongs to a
  work item that is not active (a gate was opened meanwhile, say), every turn of the loop fails
  on it and applies none of the results behind it.\<close>

theorem stuck_result_stops_reconcile:
  assumes "expire_deadlines sha t locked pr d = Inr ((), d1)" and "unapplied pr d1 = r # rs"
    and "request_of_run r d1 = Some q" and "ident_ok (sr_project r)" and "ident_ok (rr_work q)" and "ident_ok (sr_id r)"
    and "work_row d1 (sr_project r) (rr_work q) = Some work" and "wi_status work \<noteq> ''active''"
    and "fetchone (\<lambda>a. fa_project a = sr_project r \<and> fa_id a = sr_id r) (db_attempts d1) = None"
  shows "\<exists>e. reconcile sha t locked pr d = (Inl e, if authorize_scope pr = Inr () then d1 else d)"
proof (cases "authorize_scope pr")
  case (Inl e)
  then show ?thesis by (simp add: reconcile_def)
next
  case (Inr u)
  have "\<exists>e. apply_result sha t pr r q d1 = Inl e"
  proof (rule ccontr)
    assume "\<nexists>e. apply_result sha t pr r q d1 = Inl e"
    then obtain s d2 where "apply_result sha t pr r q d1 = Inr (s, d2)"
      by (cases "apply_result sha t pr r q d1") auto
    then obtain a where a: "attempt_tx sha t a d1 = Inr (s, d2)" and
      f: "ar_project a = sr_project r" "ar_work a = rr_work q" "ar_id a = sr_id r"
      unfolding apply_result_def record_attempt_def make_attempt_def bindR_Inr_iff except_map_iff
      using assms(4-6) by (auto simp: monad_simps ident_ok_strip)
    with assms(7,8,9) show False by (auto simp: attempt_tx_def monad_simps attempt_allowed_def)
  qed
  then obtain e where "apply_result sha t pr r q d1 = Inl e" by blast
  with Inr assms(1,2,3) show ?thesis by (simp add: reconcile_def)
qed

theorem stuck_result_stops_reconcile_witness:
  "\<exists>e. reconcile sample_sha 50 no_request_locks sup (update_work ''p'' ''w'' (\<lambda>w. w\<lparr>wi_status := ''gated''\<rparr>) (reported_db Succeeded))
     = (Inl e, update_work ''p'' ''w'' (\<lambda>w. w\<lparr>wi_status := ''gated''\<rparr>) (reported_db Succeeded))"
proof -
  let ?d = "update_work ''p'' ''w'' (\<lambda>w. w\<lparr>wi_status := ''gated''\<rparr>) (reported_db Succeeded)"
  let ?w = "hd (db_works ?d)" and ?r = "done_run Succeeded"
  have "expire_deadlines sample_sha 50 no_request_locks sup ?d = Inr ((), ?d)" "unapplied sup ?d = [?r]"
    "request_of_run ?r ?d = Some the_request" "ident_ok (sr_project ?r)" "ident_ok (rr_work the_request)" "ident_ok (sr_id ?r)"
    "work_row ?d (sr_project ?r) (rr_work the_request) = Some ?w" "wi_status ?w \<noteq> ''active''"
    "fetchone (\<lambda>a. fa_project a = sr_project ?r \<and> fa_id a = sr_id ?r) (db_attempts ?d) = None"
    "authorize_scope sup = Inr ()"
    by code_simp+
  with stuck_result_stops_reconcile [OF this(1-9)] show ?thesis by simp
qed

end
