(* ===== verification/GateSystem.thy ===== *)
theory GateSystem
  imports LifecycleSystem
begin

text \<open>
  What every transaction of the lifecycle and of the sponsors keeps of gates and approvals: a gate
  stays what it is about, a resolved one does not change, a decided approval never changes; and a
  gate is only ever linked to an obligation that sponsors are to meet.
\<close>

definition sponsored :: "flow_obligation \<Rightarrow> bool" where
  "sponsored x = (fo_kind x = KGate \<and> sponsor_gate x)"

definition gate_core :: "gate_row \<Rightarrow> string \<times> string \<times> string \<times> gate_link option" where
  "gate_core r = (ga_project r, ga_id r, ga_work r, ga_link r)"

definition grown :: "db \<Rightarrow> db \<Rightarrow> bool" where
  "grown d d' = ((\<forall>r\<in>set (db_gates d). \<exists>k\<in>set (db_gates d'). gate_core k = gate_core r
       \<and> (ga_status r \<noteq> GatePending \<longrightarrow> k = r))
     \<and> (\<forall>a\<in>set (db_approvals d). ap_decision a \<noteq> None \<longrightarrow> a \<in> set (db_approvals d')))"

definition linked :: "db \<Rightarrow> db \<Rightarrow> bool" where
  "linked d d' = (\<forall>k\<in>set (db_gates d'). \<forall>l. ga_link k = Some l \<longrightarrow>
     (\<exists>r\<in>set (db_gates d). gate_core r = gate_core k)
     \<or> (\<exists>x\<in>set (db_obligations d). linked_obligation k l x \<and> sponsored x))"

lemma grown_same: "db_gates d' = db_gates d \<Longrightarrow> db_approvals d' = db_approvals d \<Longrightarrow> grown d d' \<and> linked d d'"
  by (auto simp: grown_def linked_def)

lemma grown_append:
  assumes "db_gates d' = db_gates d @ [g]" and "db_approvals d' = db_approvals d @ rows"
    and "\<And>l. ga_link g = Some l \<Longrightarrow> \<exists>x\<in>set (db_obligations d). linked_obligation g l x \<and> sponsored x"
  shows "grown d d' \<and> linked d d'"
  using assms by (auto simp: grown_def linked_def)

lemma grown_resolved:
  assumes inv: "work_inv d" and gate: "gate \<in> set (db_gates d)" "ga_status gate = GatePending"
    and gs: "db_gates d' = upd_where (\<lambda>r. ga_project r = ga_project gate \<and> ga_id r = ga_id gate) h (db_gates d)"
    and h: "\<And>g. gate_core (h g) = gate_core g"
    and as: "\<And>a. a \<in> set (db_approvals d) \<Longrightarrow> ap_decision a \<noteq> None \<Longrightarrow> a \<in> set (db_approvals d')"
  shows "grown d d' \<and> linked d d'"
proof -
  note G = gates_invD(2) [OF work_invD(1) [OF inv]]
  have only: "r = gate" if "r \<in> set (db_gates d)" "ga_project r = ga_project gate \<and> ga_id r = ga_id gate" for r
    using distinct_map_eq [OF G that(1) gate(1)] that(2) by (simp add: gate_key_def)
  have "\<exists>k\<in>set (db_gates d'). gate_core k = gate_core r \<and> (ga_status r \<noteq> GatePending \<longrightarrow> k = r)"
    if r: "r \<in> set (db_gates d)" for r
  proof (cases "r = gate")
    case True
    then have "h r \<in> set (db_gates d')" using r unfolding gs by (auto simp: set_upd_where)
    with h gate(2) True show ?thesis by (intro bexI [of _ "h r"]) auto
  next
    case False
    then have "r \<in> set (db_gates d')" using only [OF r] r unfolding gs by (auto simp: upd_where_def image_iff)
    then show ?thesis by blast
  qed
  moreover have "\<exists>r\<in>set (db_gates d). gate_core r = gate_core k" if "k \<in> set (db_gates d')" for k
    using that h unfolding gs by (auto simp: set_upd_where split: if_splits intro: bexI [rotated])
  ultimately show ?thesis using as by (simp add: grown_def linked_def)
qed

text \<open>The approval filled in by a decision was open.\<close>

lemma decided_approvals_stay:
  assumes inv: "work_inv d" and ap: "ap \<in> set (db_approvals d)" "ap_decision ap = None"
    and d': "db_approvals d' = upd_where (\<lambda>r. ap_project r = ap_project ap \<and> ap_id r = ap_id ap) f (db_approvals d)"
    and a: "a \<in> set (db_approvals d)" "ap_decision a \<noteq> None"
  shows "a \<in> set (db_approvals d')"
proof -
  have "distinct (map approval_key (db_approvals d))" using work_invD(2) [OF inv] by (simp add: approvals_inv_def)
  then have "\<not> (ap_project a = ap_project ap \<and> ap_id a = ap_id ap)"
    using distinct_map_eq [of approval_key "db_approvals d" a ap] a ap by (auto simp: approval_key_def)
  with a(1) show ?thesis unfolding d' by (auto simp: upd_where_def image_iff)
qed

lemma resolved_status_core [simp]: "gate_core (resolved_status s t timed op dg g) = gate_core g"
  by (simp add: gate_core_def resolved_status_def)

lemma opened_gate_linked:
  assumes "gate_obligation p w (fr_state run) (fr_version run) oid d = Some x" and "sponsor_obligation_ok x"
    and "ga_link (opened_gate e p w g oid by' corr ev run y) = Some l"
  shows "\<exists>x\<in>set (db_obligations d). linked_obligation (opened_gate e p w g oid by' corr ev run y) l x \<and> sponsored x"
proof -
  from fetchone_SomeD [OF assms(1) [unfolded gate_obligation_def]]
  have x: "x \<in> set (db_obligations d)" "fo_project x = p" "fo_work x = w" "fo_state x = fr_state run"
    "fo_entry x = fr_version run" "fo_kind x = KGate" "fo_id x = oid" by simp_all
  have "sponsor_gate x" using assms(2) by (simp add: sponsor_obligation_ok_def sponsor_gate_def)
  with x assms(3) show ?thesis
    by (intro bexI [of _ x]) (auto simp: opened_gate_def linked_obligation_def sponsored_def)
qed

lemma decided_gate_grown:
  assumes inv: "work_inv d" and c: "decide_gate_core sha t p g sponsor dec decision rationale evidence d = Inr (x, d')"
  shows "grown d d' \<and> linked d d'"
proof -
  from decide_gate_Inr [OF c] obtain gate ap where
    gate: "fetchone (\<lambda>r. ga_project r = p \<and> ga_id r = g) (db_gates d) = Some gate" "ga_status gate = GatePending"
    and ap: "fetchone (\<lambda>r. ap_project r = p \<and> ap_gate r = g \<and> ap_approver r = sponsor) (db_approvals d) = Some ap"
      "ap_decision ap = None"
    and d': "db_gates d' = upd_where (\<lambda>r. ga_project r = p \<and> ga_id r = g)
        (\<lambda>r. r\<lparr>ga_status := gate_status_of dec, ga_resolved := Some t\<rparr>) (db_gates d)"
      "db_approvals d' = upd_where (\<lambda>r. ap_project r = p \<and> ap_id r = ap_id ap)
        (\<lambda>r. r\<lparr>ap_decision := Some dec, ap_rationale := Some rationale, ap_evidence := evidence,
              ap_decided := Some t\<rparr>) (db_approvals d)" by blast
  from fetchone_SomeD [OF gate(1)] have G: "gate \<in> set (db_gates d)" "ga_project gate = p" "ga_id gate = g" by simp_all
  from fetchone_SomeD [OF ap(1)] have A: "ap \<in> set (db_approvals d)" "ap_project ap = p" by simp_all
  show ?thesis
    by (rule grown_resolved [OF inv G(1) gate(2) d'(1) [folded G(2,3)]])
      (simp add: gate_core_def, rule decided_approvals_stay [OF inv A(1) ap(2) d'(2) [folded A(2)]])
qed

lemma decided_sponsor_grown:
  assumes inv: "work_inv d" and r: "gate_row_of p g d = Some r" "ga_status r = GatePending"
    and a: "fetchone (\<lambda>a. ap_project a = p \<and> ap_gate a = g \<and> ap_approver a = sponsor) (db_approvals d) = Some a"
    and c: "decide_new sha t r l a sponsor dec decision rationale ev op dg d = Inr (y, d')"
  shows "grown d d' \<and> linked d d'"
proof -
  from gate_row_ofD [OF r(1)] have G: "r \<in> set (db_gates d)" "ga_project r = p" "ga_id r = g" by simp_all
  from fetchone_SomeD [OF a] have A: "a \<in> set (db_approvals d)" "ap_project a = p" "ap_gate a = g" "ap_approver a = sponsor"
    by simp_all
  have aid: "ga_id r @ '':'' @ sponsor = ap_id a"
    using work_invD(3) [OF inv] A G(3) by (simp add: approvers_ok_def)
  from decide_new_Inr [OF c] have un: "ap_decision a = None"
    and d': "db_gates d' = upd_where (\<lambda>x. ga_project x = ga_project r \<and> ga_id x = ga_id r)
        (resolved_status (gate_status_of dec) t None op dg) (db_gates d)"
      "db_approvals d' = upd_where (\<lambda>b. ap_project b = ga_project r \<and> ap_id b = ap_id a)
        (\<lambda>a. a\<lparr>ap_decision := Some dec, ap_rationale := Some rationale, ap_evidence := ev, ap_decided := Some t\<rparr>)
        (db_approvals d)"
    unfolding aid by blast+
  have "ga_project r = ap_project a" using A G by simp
  then show ?thesis
    by (intro grown_resolved [OF inv G(1) r(2) d'(1)])
      (simp, rule decided_approvals_stay [OF inv A(1) un], simp_all add: d'(2))
qed

lemma open_gate_tx_unlinked:
  "open_gate_tx sha t p w g ty by' sponsors corr version evidence d = Inr (x, d') \<Longrightarrow>
    \<exists>ss gate. ga_link gate = None \<and> open_gate_core sha t (strip p) (strip w) gate ss version d = Inr (x, d')"
  by (force simp: open_gate_tx_def monad_simps)

lemma work_step_grown:
  assumes "work_step sha d d'" and inv: "work_inv d"
  shows "grown d d' \<and> linked d d'"
  using assms(1)
proof cases
  case project
  then show ?thesis by (intro grown_same) (auto simp: create_project_def monad_simps)
next
  case created
  from create_work_Inr [OF this] have "db_gates d' = db_gates d" "db_approvals d' = db_approvals d" by blast+
  then show ?thesis by (rule grown_same)
next
  case (transition t p w target actor corr version reason evidence x)
  from transition_tx_core [OF this] obtain reason' where
    c: "transition_core sha t (strip p) (strip w) (strip target) (strip actor) (strip corr) version reason' evidence d = Inr (x, d')"
    by blast
  from transition_Inr [OF c] have "db_gates d' = db_gates d" "db_approvals d' = db_approvals d" by blast+
  then show ?thesis by (rule grown_same)
next
  case (opened t p w g ty by' sponsors corr version evidence x)
  from open_gate_tx_unlinked [OF this] obtain ss gate where gate: "ga_link gate = None"
    and c: "open_gate_core sha t (strip p) (strip w) gate ss version d = Inr (x, d')" by blast
  from open_gate_Inr [OF c] obtain rows where "db_gates d' = db_gates d @ [gate]" "db_approvals d' = db_approvals d @ rows"
    by blast
  then show ?thesis by (rule grown_append) (simp add: gate)
next
  case decided
  from decide_gate_tx_core [OF this] decided_gate_grown [OF inv] show ?thesis by blast
next
  case reassigned
  show ?thesis by (rule grown_same [OF reassigned(2,3)])
next
  case (sponsor_opened t p w g oid by' sponsors corr version lifetime ev summary y)
  from open_sponsor_fresh [OF this] show ?thesis
  proof
    assume "open_new sha t p w g oid by' sponsors corr version lifetime ev summary d = Inr (y, d')"
    from open_new_Inr [OF this] obtain run x r rows where
      x: "gate_obligation p w (fr_state run) (fr_version run) oid d = Some x" "sponsor_obligation_ok x"
      and r: "r = opened_gate (t + seconds lifetime) p w g oid by' corr ev run x"
      and d': "db_gates d' = db_gates d @ [r]" "db_approvals d' = db_approvals d @ rows" by blast
    show ?thesis by (rule grown_append [OF d']) (use opened_gate_linked [OF x] in \<open>simp add: r\<close>)
  qed (simp add: grown_same)
next
  case sponsor_decided
  from decide_sponsor_fresh [OF this] decided_sponsor_grown [OF inv] grown_same [of d d] show ?thesis by blast
next
  case (sponsor_timed_out t observed p g actor op dg y)
  from timeout_sponsor_fresh [OF this] show ?thesis
  proof
    assume "\<exists>r l. gate_row_of p g d = Some r \<and> ga_link r = Some l \<and> ga_status r = GatePending
      \<and> gl_expires l \<le> (case observed of None \<Rightarrow> t | Some x \<Rightarrow> x)
      \<and> timeout_new sha t (case observed of None \<Rightarrow> t | Some x \<Rightarrow> x) r l actor op dg d = Inr (y, d')"
    then obtain r l at where r: "gate_row_of p g d = Some r" "ga_status r = GatePending"
      and n: "timeout_new sha t at r l actor op dg d = Inr (y, d')" by blast
    from timeout_new_Inr [OF n] have d': "db_gates d' = upd_where (\<lambda>x. ga_project x = ga_project r \<and> ga_id x = ga_id r)
        (resolved_status GateTimedOut at (Some at) op dg) (db_gates d)" "db_approvals d' = db_approvals d" by blast+
    have "r \<in> set (db_gates d)" using gate_row_ofD [OF r(1)] by simp
    from grown_resolved [OF inv this r(2) d'(1)] d'(2) show ?thesis by simp
  qed (simp add: grown_same)
next
  case other
  show ?thesis by (rule grown_same [OF other(2,3)])
qed

end
