(* ===== verification/GovernanceSystem.thy ===== *)
theory GovernanceSystem
  imports Governance FlowRequests GateSystem
begin

text \<open>
  The transactions of \<open>governance.py\<close> beside those of the flow engine, as one transition system.
  Its invariant ties the status of an obligation to the records that met it. The handlers that
  carry a record id instantiate the interface of keyed requests of \<open>Prelude\<close>.
\<close>

section \<open>What the statements do\<close>

definition rec_key :: "governance_row \<Rightarrow> string \<times> string \<times> string \<times> int \<times> obligation_kind \<times> string" where
  "rec_key e = (go_project e, go_work e, go_state e, go_entry e, go_kind e, go_obligation e)"

definition rec_id :: "governance_row \<Rightarrow> string \<times> string" where
  "rec_id e = (go_project e, go_id e)"

lemma insert_governance_Inr [monad_simps]:
  "insert_governance e d = Inr (r, d') \<longleftrightarrow> rec_id e \<notin> rec_id ` set (db_governance d)
     \<and> no_nan_members (go_evidence e) \<and> \<not> (go_decision e = GovException \<and> strip (go_reason e) = [])
     \<and> r = governance_record.truncate e \<and> d' = d\<lparr>db_governance := db_governance d @ [e]\<rparr>"
proof -
  have "has_row (\<lambda>x. go_project x = go_project e \<and> go_id x = go_id e) (db_governance d)
      \<longleftrightarrow> rec_id e \<in> rec_id ` set (db_governance d)"
    unfolding has_row_iff rec_id_def image_iff prod.inject by metis
  then show ?thesis by (auto simp: insert_governance_def)
qed

lemma lock_current_Inr [monad_simps]:
  "lock_current p w k oid d = Inr (run, ob) \<longleftrightarrow> run_of p w d = Some run \<and> fr_status run = FlowActive
     \<and> fetchone (\<lambda>x. fo_project x = p \<and> fo_work x = w \<and> fo_state x = fr_state run
       \<and> fo_entry x = fr_version run \<and> fo_kind x = k \<and> fo_id x = oid) (db_obligations d) = Some ob"
  by (auto simp: lock_current_def monad_simps)

lemma locked_obligation:
  assumes "lock_current p w k oid d = Inr (run, ob)"
  shows "ob \<in> set (db_obligations d)" "fo_key ob = (p, w, fr_state run, fr_version run, k, oid)"
    "run_of p w d = Some run" "fr_project run = p" "fr_work run = w" "current_obligation run ob"
  using assms run_ofD by (auto simp: lock_current_Inr fo_key_def current_obligation_def dest!: fetchone_SomeD)

lemma satisfy_Inr [monad_simps]:
  "satisfy run ob ev d = Inr d' \<longleftrightarrow> length (filter (this_obligation run ob) (db_obligations d)) = 1
     \<and> d' = d\<lparr>db_obligations := upd_where (this_obligation run ob)
         (\<lambda>x. x\<lparr>fo_status := ObSatisfied, fo_evidence := ev\<rparr>) (db_obligations d)\<rparr>"
  by (auto simp: satisfy_def monad_simps)

lemma entry_key:
  "fo_project ob = fr_project run \<Longrightarrow> fo_work ob = fr_work run \<Longrightarrow>
     rec_key (governance_entry t run ob rid digest decision actor reason ev doc) = fo_key ob"
  by (simp add: rec_key_def governance_entry_def fo_key_def)

text \<open>A record is added, and the obligation it is about is met, or nothing else changes.\<close>

definition met_by :: "(string \<times> json) list \<Rightarrow> flow_obligation \<Rightarrow> flow_obligation" where
  "met_by ev x = x\<lparr>fo_status := ObSatisfied, fo_evidence := ev\<rparr>"

definition noted :: "governance_row \<Rightarrow> db \<Rightarrow> db \<Rightarrow> bool" where
  "noted e d d' = (db_governance d' = db_governance d @ [e] \<and> rec_id e \<notin> rec_id ` set (db_governance d)
     \<and> db_runs d' = db_runs d \<and> db_journal d' = db_journal d)"

definition meets :: "flow_obligation \<Rightarrow> (string \<times> json) list \<Rightarrow> governance_row \<Rightarrow> db \<Rightarrow> db \<Rightarrow> bool" where
  "meets x ev e d d' = (noted e d d' \<and> x \<in> set (db_obligations d) \<and> fo_status x = ObPending \<and> rec_key e = fo_key x
     \<and> db_obligations d' = map (\<lambda>y. if fo_key y = fo_key x then met_by ev y else y) (db_obligations d))"

lemma this_obligation_key:
  "fo_project ob = fr_project run \<Longrightarrow> fo_work ob = fr_work run \<Longrightarrow>
     this_obligation run ob y \<longleftrightarrow> fo_key y = fo_key ob \<and> fo_status y = ObPending"
  by (auto simp: this_obligation_def fo_key_def)

lemma satisfied_meets:
  assumes lock: "lock_current p w k oid d = Inr (run, ob)" and keys: "distinct (map fo_key (db_obligations d))"
    and one: "length (filter (this_obligation run ob) (db_obligations d)) = 1"
    and d': "db_governance d' = db_governance d @ [e]" "rec_id e \<notin> rec_id ` set (db_governance d)"
      "db_runs d' = db_runs d" "db_journal d' = db_journal d" "rec_key e = fo_key ob"
      "db_obligations d' = upd_where (this_obligation run ob)
         (\<lambda>x. x\<lparr>fo_status := ObSatisfied, fo_evidence := ev\<rparr>) (db_obligations d)"
  shows "meets ob ev e d d'"
proof -
  note L = locked_obligation [OF lock]
  have at: "fo_project ob = fr_project run" "fo_work ob = fr_work run" using L by (auto simp: fo_key_def)
  note key = this_obligation_key [OF at]
  from one obtain y where "y \<in> set (filter (this_obligation run ob) (db_obligations d))"
    by (metis One_nat_def length_greater_0_conv hd_in_set zero_less_Suc)
  then have y: "y \<in> set (db_obligations d)" "fo_key y = fo_key ob" "fo_status y = ObPending" by (auto simp: key)
  have only: "z = ob" if "z \<in> set (db_obligations d)" "fo_key z = fo_key ob" for z
    using distinct_map_eq [OF keys that(1) L(1) that(2)] .
  have "fo_status ob = ObPending" using only [OF y(1,2)] y(3) by simp
  moreover from this have "db_obligations d' = map (\<lambda>y. if fo_key y = fo_key ob then met_by ev y else y) (db_obligations d)"
    unfolding d' upd_where_def using only by (auto simp: key met_by_def)
  ultimately show ?thesis using d' L(1) by (simp add: meets_def noted_def)
qed

text \<open>The three operations.\<close>

definition verified_evidence :: "string \<Rightarrow> string \<Rightarrow> document \<Rightarrow> (string \<times> json) list" where
  "verified_evidence rid path m = [(''governance_record_id'', JStr rid), (''document_path'', JStr path),
     (''document_etag'', JStr (dm_etag m)), (''document_size'', JInt (dm_size m))]"

lemma verify_new_Inr:
  assumes s: "verify_new t p w path actor rid digest m d = Inr (r, d')"
    and keys: "distinct (map fo_key (db_obligations d))"
  shows "\<exists>x e. meets x (verified_evidence rid path m) e d d' \<and> r = governance_record.truncate e
    \<and> (go_project e, go_id e, go_digest e) = (p, rid, digest) \<and> fo_kind x = KArtifact \<and> go_decision e = Verified
    \<and> go_actor e = fo_role x \<and> go_path e = Some path \<and> go_etag e = Some (dm_etag m)
    \<and> materialize_path (get (fo_payload x) ''path'') (fo_project x) (fo_work x) = Inr path"
proof -
  from s [unfolded verify_new_def] obtain run ob d1 where
    lock: "lock_current p w KArtifact ''artifact'' d = Inr (run, ob)" and role: "fo_role ob = actor"
    and path: "materialize_path (get (fo_payload ob) ''path'') p w = Inr path"
    and ins: "insert_governance (governance_entry t run ob rid digest Verified actor []
       [(''document'', document_json m)] (Some (path, dm_etag m))) d = Inr (r, d1)" (is "insert_governance ?e d = _")
    and sat: "satisfy run ob (verified_evidence rid path m) d1 = Inr d'"
    by (simp add: bindR_Inr_iff ensure_iff verified_evidence_def split_beta) (metis surj_pair)
  note L = locked_obligation [OF lock]
  have at: "fo_project ob = fr_project run" "fo_work ob = fr_work run" using L by (auto simp: fo_key_def)
  have "meets ob (verified_evidence rid path m) ?e d d'"
    using ins sat by (intro satisfied_meets [OF lock keys]) (auto simp: monad_simps entry_key [OF at])
  moreover have "fo_project ob = p" "fo_work ob = w" "fo_kind ob = KArtifact" using L(2) by (simp_all add: fo_key_def)
  ultimately show ?thesis using ins role path L
    by (intro exI [of _ ob] exI [of _ ?e]) (simp add: monad_simps governance_entry_def)
qed

lemma consult_new_Inr:
  assumes "consult_new t p w oid decision actor rid digest reason ev d = Inr (r, d')"
  shows "\<exists>x e. noted e d d' \<and> db_obligations d' = db_obligations d \<and> x \<in> set (db_obligations d) \<and> rec_key e = fo_key x
    \<and> r = governance_record.truncate e \<and> (go_project e, go_id e, go_digest e) = (p, rid, digest)
    \<and> fo_kind x = KConsult"
proof -
  from assms [unfolded consult_new_def] obtain run ob where
    lock: "lock_current p w KConsult oid d = Inr (run, ob)"
    and ins: "insert_governance (governance_entry t run ob rid digest decision actor reason ev None) d = Inr (r, d')"
      (is "insert_governance ?e d = _")
    by (auto simp: bindR_Inr_iff)
  note L = locked_obligation [OF lock]
  have "rec_key ?e = fo_key ob" using L by (intro entry_key) (auto simp: fo_key_def)
  then show ?thesis using ins L
    by (intro exI [of _ ob] exI [of _ ?e]) (auto simp: monad_simps governance_entry_def noted_def fo_key_def)
qed

definition document_ref :: "string \<times> string \<Rightarrow> json" where
  "document_ref doc = JObj [(''path'', JStr (fst doc)), (''etag'', JStr (snd doc))]"

text \<open>A verified record of the artifact of the same entry, of that version.\<close>

definition version_verified :: "governance_row list \<Rightarrow> flow_obligation \<Rightarrow> string \<times> string \<Rightarrow> bool" where
  "version_verified gs x doc = (\<exists>v\<in>set gs.
     (go_project v, go_work v, go_state v, go_entry v) = (fo_project x, fo_work x, fo_state x, fo_entry x)
     \<and> go_kind v = KArtifact \<and> go_decision v = Verified \<and> go_path v = Some (fst doc) \<and> go_etag v = Some (snd doc))"

lemma artifact_is_verified_version:
  assumes "artifact_is_verified run (fst doc) (snd doc) d" and "current_obligation run x"
  shows "version_verified (db_governance d) x doc"
  using assms unfolding artifact_is_verified_def version_verified_def
  by (fastforce simp: table_simps satisfied_artifact_def verified_record_def current_obligation_def)

lemma gate_new_Inr:
  assumes s: "gate_new t p w oid decision actor rid digest reason ev impact doc d = Inr (r, d')"
    and keys: "distinct (map fo_key (db_obligations d))"
  shows "\<exists>x e ev'. x \<in> set (db_obligations d) \<and> rec_key e = fo_key x \<and> noted e d d'
    \<and> r = governance_record.truncate e \<and> (go_project e, go_id e, go_digest e) = (p, rid, digest) \<and> fo_kind x = KGate
    \<and> \<not> sponsor_gate x \<and> go_actor e = fo_role x \<and> get (go_evidence e) ''reviewed_document'' = document_ref doc
    \<and> version_verified (db_governance d) x doc \<and> go_decision e = decision
    \<and> (if decision \<in> {GovApproved, GovException} then meets x ev' e d d' else db_obligations d' = db_obligations d)"
proof -
  let ?rev = "reviewed_evidence doc ev"
  let ?ev = "merge [(''governance_record_id'', JStr rid), (''decision'', JStr (decision_text decision)),
         (''reason'', JStr reason)] ?rev"
  from s [unfolded gate_new_def Let_def] obtain run ob d1 d2 where
    lock: "lock_current p w KGate oid d = Inr (run, ob)"
    and ok: "gate_allowed run ob decision actor impact doc d"
    and ins: "insert_governance (governance_entry t run ob rid digest decision actor reason ?rev None) d = Inr (r, d1)"
      (is "insert_governance ?e d = _")
    and sat: "(if decision \<in> {GovApproved, GovException} then satisfy run ob ?ev d1 else Inr d1) = Inr d2"
    and d': "d' = (if decision = GovApproved then (case impact of None \<Rightarrow> d2 | Some i \<Rightarrow> set_context p w i d2) else d2)"
    unfolding bindR_pair_Inr bindR_Inr_iff [of "ensure b e" for b e] ensure_iff bindR_Inr_iff [where r = "if b then x else y" for b x y]
    by blast
  note L = locked_obligation [OF lock]
  have at: "fo_project ob = fr_project run" "fo_work ob = fr_work run" using L by (auto simp: fo_key_def)
  have same: "db_governance d' = db_governance d2" "db_obligations d' = db_obligations d2" "db_runs d' = db_runs d2"
    "db_journal d' = db_journal d2" unfolding d' by (auto simp: set_context_def split: option.split)
  have d1: "d1 = d\<lparr>db_governance := db_governance d @ [?e]\<rparr>" "rec_id ?e \<notin> rec_id ` set (db_governance d)"
    "r = governance_record.truncate ?e" using ins by (simp_all add: monad_simps)
  have "if decision \<in> {GovApproved, GovException} then meets ob ?ev ?e d d' else db_obligations d' = db_obligations d"
  proof (cases "decision \<in> {GovApproved, GovException}")
    case True
    then have "meets ob ?ev ?e d d'" using sat d1 same
      by (intro satisfied_meets [OF lock keys]) (auto simp: monad_simps entry_key [OF at])
    with True show ?thesis by simp
  next
    case False
    then have "d2 = d1" using sat by simp
    with False same d1 show ?thesis by simp
  qed
  moreover have "noted ?e d d'"
    using sat d1 same by (auto simp: noted_def monad_simps split: if_splits)
  moreover have "version_verified (db_governance d) ob doc"
    using ok L(6) by (intro artifact_is_verified_version) (auto simp: gate_allowed_def)
  moreover have "get ?rev ''reviewed_document'' = document_ref doc"
    by (simp add: reviewed_evidence_def document_ref_def get_def get_or_def map_of_put)
  moreover have "(go_project ?e, go_id ?e, go_digest ?e) = (p, rid, digest)" "go_actor ?e = actor" "go_decision ?e = decision"
    "go_evidence ?e = ?rev" using L(4) by (simp_all add: governance_entry_def)
  moreover have "\<not> sponsor_gate ob" "fo_role ob = actor" using ok by (simp_all add: gate_allowed_def)
  moreover have "fo_kind ob = KGate" using L(2) by (simp add: fo_key_def)
  ultimately show ?thesis using L(1) entry_key [OF at] d1(3)
    by (intro exI [of _ ob] exI [of _ ?e] exI [of _ ?ev] conjI) (simp_all only: not_False_eq_True)
qed

section \<open>The transition system\<close>

text \<open>The transactions of governance, the decisions of sponsors, those of the flow engine that write
  obligations, and everything else: the other transactions of the flow engine, of the lifecycle
  and of sponsors leave records and obligations alone. Only consults and informs are dispatched.\<close>

inductive governance_step :: "(string \<Rightarrow> string) \<Rightarrow> db \<Rightarrow> db \<Rightarrow> bool" for sha where
  verified: "verify_tx t p w path actor rid digest m d = Inr (r, d') \<Longrightarrow> governance_step sha d d'"
| consulted: "consult_tx t p w oid decision actor rid digest reason ev d = Inr (r, d') \<Longrightarrow> governance_step sha d d'"
| decided: "gate_tx t p w oid decision actor rid digest reason ev impact doc d = Inr (r, d') \<Longrightarrow> governance_step sha d d'"
| sponsored: "decide_sponsor_tx sha t p g sponsor dec decision rationale ev op dg d = Inr (a, d') \<Longrightarrow> governance_step sha d d'"
| started: "load_flow settings dg = Inr flow \<Longrightarrow> flow_state_of flow (fd_entry flow) = Inr st \<Longrightarrow>
    start_tx sha t p w flow st fv actor op digest d = Inr (x, d') \<Longrightarrow> governance_step sha d d'"
| picked_up: "pickup_tx sha t p w version actor op digest d = Inr (x, d') \<Longrightarrow> governance_step sha d d'"
| dispatched: "dispatch_tx t sha p w k oid actor d = Inr (y, d') \<Longrightarrow> k = KConsult \<or> k = KInform \<Longrightarrow> governance_step sha d d'"
| other: "flow_step sha d d' \<Longrightarrow> work_step sha d d' \<Longrightarrow> db_governance d' = db_governance d \<Longrightarrow>
    db_obligations d' = db_obligations d \<Longrightarrow> governance_step sha d d'"

text \<open>Each is a step of the lifecycle.\<close>

definition lifecycle_same :: "db \<Rightarrow> db \<Rightarrow> bool" where
  "lifecycle_same d d' = (db_works d' = db_works d \<and> db_gates d' = db_gates d \<and> db_approvals d' = db_approvals d
     \<and> db_sponsors d' = db_sponsors d)"

lemma lifecycle_same_step: "lifecycle_same d d' \<Longrightarrow> work_step sha d d'"
  by (rule work_step.other) (simp_all add: lifecycle_same_def)

lemma governed_same: "governed p rid digest d fresh = Inr (r, d') \<Longrightarrow> (fresh = Inr (r, d') \<Longrightarrow> lifecycle_same d d') \<Longrightarrow>
    lifecycle_same d d'"
  by (auto simp: governed_def bindR_Inr_iff lifecycle_same_def split: option.splits)

lemma verify_new_same: "verify_new t p w path actor rid digest m d = Inr (r, d') \<Longrightarrow> lifecycle_same d d'"
  by (auto simp: verify_new_def monad_simps lifecycle_same_def)

lemma consult_new_same: "consult_new t p w oid decision actor rid digest reason ev d = Inr (r, d') \<Longrightarrow> lifecycle_same d d'"
  by (auto simp: consult_new_def monad_simps lifecycle_same_def)

lemma gate_new_same:
  assumes "gate_new t p w oid decision actor rid digest reason ev impact doc d = Inr (r, d')"
  shows "lifecycle_same d d'"
proof -
  from assms obtain e d1 run ob ev' d2 where ins: "insert_governance e d = Inr (r, d1)"
    and sat: "(if decision \<in> {GovApproved, GovException} then satisfy run ob ev' d1 else Inr d1) = Inr d2"
    and d': "d' = (if decision = GovApproved then (case impact of None \<Rightarrow> d2 | Some i \<Rightarrow> set_context p w i d2) else d2)"
    unfolding gate_new_def Let_def bindR_pair_Inr bindR_Inr_iff [of "ensure b e" for b e] ensure_iff
      bindR_Inr_iff [where r = "if b then x else y" for b x y] by blast
  have "lifecycle_same d d1" using ins by (simp add: insert_governance_Inr lifecycle_same_def)
  moreover have "lifecycle_same d1 d2" using sat by (auto simp: satisfy_Inr lifecycle_same_def split: if_splits)
  moreover have "lifecycle_same d2 d'" unfolding d' by (auto simp: lifecycle_same_def set_context_def split: option.split)
  ultimately show ?thesis by (simp add: lifecycle_same_def)
qed

lemma flow_event_lifecycle:
  assumes "flow_event sha t p w actor op ty payload d = Inr d'"
  shows "db_gates d' = db_gates d" "db_approvals d' = db_approvals d" "db_sponsors d' = db_sponsors d"
proof -
  from assms obtain e out s where "append_event sha t e out d = Inr (s, d')"
    by (auto simp: flow_event_def monad_simps)
  from append_event_frame [OF this] show "db_gates d' = db_gates d" "db_approvals d' = db_approvals d"
    "db_sponsors d' = db_sponsors d" by (cases d; cases d'; simp)+
qed

lemma start_new_same: "start_new sha t p w flow st fv actor op digest d = Inr (x, d') \<Longrightarrow>
    lifecycle_same d d' \<and> db_governance d' = db_governance d"
  by (auto simp: start_new_def monad_simps insert_run_def insert_journal_Inr flow_event_fields flow_event_lifecycle lifecycle_same_def
      split: if_splits dest!: insert_obligations_Inr)

lemma pickup_new_same:
  "pickup_new sha t p w version actor op digest d = Inr (x, d') \<Longrightarrow> db_governance d' = db_governance d
    \<and> db_gates d' = db_gates d \<and> db_approvals d' = db_approvals d \<and> db_sponsors d' = db_sponsors d"
  by (auto simp: pickup_new_def Let_def monad_simps insert_journal_Inr flow_event_fields flow_event_lifecycle dest!: insert_obligations_Inr)

lemma dispatch_tx_same: "dispatch_tx t sha p w k oid actor d = Inr (y, d') \<Longrightarrow> lifecycle_same d d'"
  by (auto simp: dispatch_tx_def monad_simps Let_def route_Inr insert_item_Inr lifecycle_same_def)

lemma governance_step_work:
  assumes "governance_step sha d d'"
  shows "work_step sha d d'"
  using assms
proof cases
  case verified
  from governed_same [OF this [unfolded verify_tx_def] verify_new_same] show ?thesis by (rule lifecycle_same_step)
next
  case consulted
  from governed_same [OF this [unfolded consult_tx_def] consult_new_same] show ?thesis by (rule lifecycle_same_step)
next
  case decided
  from governed_same [OF this [unfolded gate_tx_def] gate_new_same] show ?thesis by (rule lifecycle_same_step)
next
  case sponsored
  then show ?thesis by (rule work_step.sponsor_decided)
next
  case (started settings dg flow st t p w fv actor op digest x)
  from started(3) have "d' = d \<or> (\<exists>y. start_new sha t p w flow st fv actor op digest d = Inr (y, d'))"
    by (auto simp: start_tx_def replaying_Inr)
  then have "lifecycle_same d d'" using start_new_same by (auto simp: lifecycle_same_def)
  then show ?thesis by (rule lifecycle_same_step)
next
  case (picked_up t p w version actor op digest x)
  then have "d' = d \<or> (\<exists>y. pickup_new sha t p w version actor op digest d = Inr (y, d'))"
    by (auto simp: pickup_tx_def replaying_Inr)
  then show ?thesis
  proof (elim disjE exE)
    fix y assume n: "pickup_new sha t p w version actor op digest d = Inr (y, d')"
    from pickup_new_Inr [OF n] obtain target :: flow_state where
      "db_works d' = upd_where (\<lambda>r. wi_project r = p \<and> wi_id r = w \<and> wi_status r = ''active'')
         (\<lambda>r. r\<lparr>wi_owner := Some (fs_owner target), wi_version := wi_version r + 1\<rparr>) (db_works d)" by blast
    from work_step.reassigned [OF this] pickup_new_same [OF n] show ?thesis by simp
  qed (simp add: work_step.other)
next
  case dispatched
  from lifecycle_same_step [OF dispatch_tx_same [OF dispatched(1)]] show ?thesis .
qed

section \<open>The invariant\<close>

text \<open>The obligations that records meet.\<close>

definition managed :: "flow_obligation \<Rightarrow> bool" where
  "managed x = (fo_kind x = KArtifact \<or> fo_kind x = KGate)"

fun meeting :: "obligation_kind \<Rightarrow> gov_decision \<Rightarrow> bool" where
  "meeting KArtifact x = (x = Verified)"
| "meeting KGate x = (x = GovApproved \<or> x = GovException)"
| "meeting KConsult x = False"
| "meeting KInform x = False"

definition meeting_records :: "governance_row list \<Rightarrow> flow_obligation \<Rightarrow> governance_row list" where
  "meeting_records gs x = filter (\<lambda>e. rec_key e = fo_key x \<and> meeting (fo_kind x) (go_decision e)) gs"

text \<open>What a record that meets an obligation says. Of an artifact: the accountable role made it, it
  names the path the flow demands and the version that the obligation keeps. Of a gate: the
  accountable role made it, about a version of the entry's artifact that had been verified. Of a
  gate of sponsors: there is an approved gate for this obligation, its approval is of the one who
  made the record, and the obligation names record and approval.\<close>

definition role_backed :: "db \<Rightarrow> flow_obligation \<Rightarrow> governance_row \<Rightarrow> bool" where
  "role_backed d x e = (go_actor e = fo_role x \<and> (\<exists>doc. if fo_kind x = KArtifact
     then go_path e = Some (fst doc) \<and> go_etag e = Some (snd doc)
       \<and> materialize_path (get (fo_payload x) ''path'') (fo_project x) (fo_work x) = Inr (fst doc)
       \<and> get (fo_evidence x) ''governance_record_id'' = JStr (go_id e)
       \<and> get (fo_evidence x) ''document_etag'' = JStr (snd doc)
     else get (go_evidence e) ''reviewed_document'' = document_ref doc \<and> version_verified (db_governance d) x doc))"

definition approval_of :: "gate_row \<Rightarrow> string \<Rightarrow> approval_record \<Rightarrow> bool" where
  "approval_of r sponsor a = (ap_project a = ga_project r \<and> ap_gate a = ga_id r \<and> ap_approver a = sponsor
     \<and> ap_decision a = Some Approved)"

definition sponsor_backed :: "db \<Rightarrow> flow_obligation \<Rightarrow> governance_row \<Rightarrow> bool" where
  "sponsor_backed d x e = ((\<exists>r\<in>set (db_gates d). \<exists>l. ga_link r = Some l \<and> linked_obligation r l x
       \<and> ga_status r = GateApproved \<and> go_id e = ''sponsor:'' @ ga_id r
       \<and> (\<exists>a\<in>set (db_approvals d). approval_of r (go_actor e) a
            \<and> get (fo_evidence x) ''approval_id'' = JStr (ap_id a)))
     \<and> get (fo_evidence x) ''governance_record_id'' = JStr (go_id e)
     \<and> (\<exists>doc. go_path e = Some (fst doc) \<and> go_etag e = Some (snd doc) \<and> version_verified (db_governance d) x doc))"

definition sound :: "db \<Rightarrow> flow_obligation \<Rightarrow> governance_row \<Rightarrow> bool" where
  "sound d x e = (if sponsored x then sponsor_backed d x e else role_backed d x e)"

definition duly_met :: "db \<Rightarrow> flow_obligation \<Rightarrow> bool" where
  "duly_met d x = (if managed x
     then fo_status x \<noteq> ObDispatched
       \<and> length (meeting_records (db_governance d) x) = (if fo_status x = ObSatisfied then 1 else 0)
       \<and> (\<forall>e\<in>set (meeting_records (db_governance d) x). sound d x e)
     else fo_status x \<noteq> ObSatisfied)"

text \<open>Gates with a deadline answer obligations that sponsors are to meet.\<close>

definition links_ok :: "db \<Rightarrow> bool" where
  "links_ok d = (\<forall>r\<in>set (db_gates d). \<forall>l. ga_link r = Some l \<longrightarrow>
     (\<exists>x\<in>set (db_obligations d). linked_obligation r l x \<and> sponsored x))"

definition governance_inv :: "db \<Rightarrow> bool" where
  "governance_inv d = (distinct (map rec_id (db_governance d)) \<and> distinct (map fo_key (db_obligations d))
     \<and> (\<forall>e\<in>set (db_governance d). rec_key e \<in> fo_key ` set (db_obligations d))
     \<and> (\<forall>x\<in>set (db_obligations d). duly_met d x) \<and> work_inv d \<and> links_ok d)"

lemma governance_invD:
  assumes "governance_inv d"
  shows "distinct (map rec_id (db_governance d))" "distinct (map fo_key (db_obligations d))"
    "e \<in> set (db_governance d) \<Longrightarrow> rec_key e \<in> fo_key ` set (db_obligations d)"
    "x \<in> set (db_obligations d) \<Longrightarrow> duly_met d x" "work_inv d" "links_ok d"
  using assms by (simp_all add: governance_inv_def)

text \<open>Records, and resolved gates with their approvals, stay.\<close>

lemma gate_core_eq: "gate_core k = gate_core r \<longleftrightarrow>
    ga_project k = ga_project r \<and> ga_id k = ga_id r \<and> ga_work k = ga_work r \<and> ga_link k = ga_link r"
  by (simp add: gate_core_def)

lemma sound_more:
  assumes "sound d x e" and g: "grown d d'" and "db_governance d' = db_governance d @ hs"
  shows "sound d' x e"
proof (cases "sponsored x")
  case False
  with assms show ?thesis by (auto simp: sound_def role_backed_def version_verified_def split: if_splits)
next
  case True
  with assms(1) obtain r l a doc where r: "r \<in> set (db_gates d)" "ga_link r = Some l" "linked_obligation r l x"
      "ga_status r = GateApproved" "go_id e = ''sponsor:'' @ ga_id r"
    and a: "a \<in> set (db_approvals d)" "approval_of r (go_actor e) a" "get (fo_evidence x) ''approval_id'' = JStr (ap_id a)"
    and x: "get (fo_evidence x) ''governance_record_id'' = JStr (go_id e)"
    and doc: "go_path e = Some (fst doc)" "go_etag e = Some (snd doc)" "version_verified (db_governance d) x doc"
    unfolding sound_def sponsor_backed_def by auto
  from g r(1,4) obtain k where k: "k \<in> set (db_gates d')" "gate_core k = gate_core r" "ga_status k = GateApproved"
    unfolding grown_def by fastforce
  have "a \<in> set (db_approvals d')" using g a(1,2) by (auto simp: grown_def approval_of_def)
  moreover have "version_verified (db_governance d') x doc" using doc(3) assms(3) by (auto simp: version_verified_def)
  ultimately have "sponsor_backed d' x e"
    using k r a x doc(1,2) unfolding sponsor_backed_def gate_core_eq approval_of_def linked_obligation_def
    by (intro conjI bexI [of _ k] exI [of _ l] bexI [of _ a] exI [of _ doc]) simp_all
  with True show ?thesis by (simp add: sound_def)
qed

lemma links_ok_more:
  assumes "links_ok d" and "linked d d'" and core: "\<And>x. x \<in> set (db_obligations d) \<Longrightarrow> \<exists>y\<in>set (db_obligations d'). fo_core y = fo_core x"
  shows "links_ok d'"
  unfolding links_ok_def
proof (intro ballI allI impI)
  fix k l assume k: "k \<in> set (db_gates d')" "ga_link k = Some l"
  from assms(2) k consider r where "r \<in> set (db_gates d)" "gate_core r = gate_core k"
    | x where "x \<in> set (db_obligations d)" "linked_obligation k l x" "sponsored x"
    unfolding linked_def by blast
  then obtain x where x: "x \<in> set (db_obligations d)" "linked_obligation k l x" "sponsored x"
  proof cases
    case (1 r)
    with k(2) have "ga_link r = Some l" by (simp add: gate_core_eq)
    with assms(1) 1(1) obtain x where "x \<in> set (db_obligations d)" "linked_obligation r l x" "sponsored x"
      unfolding links_ok_def by blast
    with 1(2) that show ?thesis by (simp add: linked_obligation_def gate_core_eq)
  qed blast
  from core [OF x(1)] obtain y where y: "y \<in> set (db_obligations d')" "fo_core y = fo_core x" by blast
  with x(2,3) have "linked_obligation k l y \<and> sponsored y"
    by (simp add: linked_obligation_def sponsored_def sponsor_gate_def fo_core_def fo_key_def)
  with y(1) show "\<exists>x\<in>set (db_obligations d'). linked_obligation k l x \<and> sponsored x" by blast
qed

text \<open>Records about other obligations, or that meet nothing, change nothing.\<close>

lemma meeting_records_append: "meeting_records (gs @ hs) x = meeting_records gs x @ meeting_records hs x"
  by (simp add: meeting_records_def)

lemma duly_met_more:
  assumes "duly_met d x" and g: "grown d d'" "db_governance d' = db_governance d @ hs"
    and "\<And>e. e \<in> set hs \<Longrightarrow> rec_key e = fo_key x \<Longrightarrow> managed x \<Longrightarrow> \<not> meeting (fo_kind x) (go_decision e)"
  shows "duly_met d' x"
proof (cases "managed x")
  case True
  then have "meeting_records hs x = []" using assms(4) by (auto simp: meeting_records_def filter_empty_conv)
  then have "meeting_records (db_governance d') x = meeting_records (db_governance d) x"
    unfolding g(2) by (simp add: meeting_records_append)
  with assms(1) True sound_more [OF _ g] show ?thesis by (simp add: duly_met_def)
next
  case False
  with assms(1) show ?thesis by (simp add: duly_met_def)
qed

lemma governance_inv_map:
  assumes inv: "governance_inv d" and W: "work_step sha d d'" and gs: "db_governance d' = db_governance d @ gs"
    and ids: "distinct (map rec_id (db_governance d'))"
    and keys: "\<And>e. e \<in> set gs \<Longrightarrow> rec_key e \<in> fo_key ` set (db_obligations d)"
    and os: "db_obligations d' = map f (db_obligations d)"
    and f: "\<And>x. x \<in> set (db_obligations d) \<Longrightarrow> fo_core (f x) = fo_core x \<and> duly_met d' (f x)"
  shows "governance_inv d'"
proof -
  have "map fo_core (db_obligations d') = map fo_core (db_obligations d)" using f os by simp
  then have "map fst (map fo_core (db_obligations d')) = map fst (map fo_core (db_obligations d))" by simp
  then have k: "map fo_key (db_obligations d') = map fo_key (db_obligations d)" by (simp add: fo_core_def comp_def)
  then have s: "fo_key ` set (db_obligations d') = fo_key ` set (db_obligations d)" by (metis set_map)
  have "distinct (map fo_key (db_obligations d'))" unfolding k by (rule governance_invD(2) [OF inv])
  moreover have "rec_key e \<in> fo_key ` set (db_obligations d')" if "e \<in> set (db_governance d')" for e
    using that governance_invD(3) [OF inv] keys unfolding s gs by auto
  moreover have "duly_met d' x" if "x \<in> set (db_obligations d')" for x
    using that f unfolding os by auto
  moreover have "work_inv d'" using work_step_inv_keeps [OF W governance_invD(5) [OF inv]] by blast
  moreover have "links_ok d'"
  proof (rule links_ok_more [OF governance_invD(6) [OF inv]])
    show "linked d d'" using work_step_grown [OF W governance_invD(5) [OF inv]] by blast
    show "\<exists>y\<in>set (db_obligations d'). fo_core y = fo_core x" if "x \<in> set (db_obligations d)" for x
      using f [OF that] that unfolding os by auto
  qed
  ultimately show ?thesis using ids unfolding governance_inv_def by blast
qed

text \<open>A record that meets nothing, and one that meets its obligation.\<close>

lemma governance_inv_noted:
  assumes inv: "governance_inv d" and W: "work_step sha d d'" and n: "noted e d d'" and os: "db_obligations d' = db_obligations d"
    and x: "x \<in> set (db_obligations d)" "rec_key e = fo_key x" "managed x \<Longrightarrow> \<not> meeting (fo_kind x) (go_decision e)"
  shows "governance_inv d'"
proof (rule governance_inv_map [OF inv W, of "[e]" "\<lambda>x. x"])
  show "db_governance d' = db_governance d @ [e]" using n by (simp add: noted_def)
  then show "distinct (map rec_id (db_governance d'))" using n governance_invD(1) [OF inv] by (simp add: noted_def)
  show "rec_key e' \<in> fo_key ` set (db_obligations d)" if "e' \<in> set [e]" for e' using that x by auto
  show "db_obligations d' = map (\<lambda>x. x) (db_obligations d)" using os by simp
  show "fo_core y = fo_core y \<and> duly_met d' y" if y: "y \<in> set (db_obligations d)" for y
  proof -
    have "y = x" if "rec_key e = fo_key y"
      using that x distinct_map_eq [OF governance_invD(2) [OF inv] y x(1)] by simp
    then have "duly_met d' y"
      using governance_invD(4) [OF inv y] work_step_grown [OF W governance_invD(5) [OF inv]] n x(3)
      by (intro duly_met_more [of d y d' "[e]"]) (auto simp: noted_def)
    then show ?thesis by simp
  qed
qed

lemma governance_inv_meets:
  assumes inv: "governance_inv d" and W: "work_step sha d d'" and m: "meets x ev e d d'"
    and k: "managed x" "meeting (fo_kind x) (go_decision e)" and s: "sound d' (met_by ev x) e"
  shows "governance_inv d'"
proof (rule governance_inv_map [OF inv W, of "[e]" "\<lambda>y. if fo_key y = fo_key x then met_by ev y else y"])
  from m have n: "noted e d d'" and x: "x \<in> set (db_obligations d)" "fo_status x = ObPending" "rec_key e = fo_key x"
    by (simp_all add: meets_def)
  show g: "db_governance d' = db_governance d @ [e]" using n by (simp add: noted_def)
  then show "distinct (map rec_id (db_governance d'))" using n governance_invD(1) [OF inv] by (simp add: noted_def)
  show "rec_key e' \<in> fo_key ` set (db_obligations d)" if "e' \<in> set [e]" for e' using that x by auto
  show "db_obligations d' = map (\<lambda>y. if fo_key y = fo_key x then met_by ev y else y) (db_obligations d)"
    using m by (simp add: meets_def)
  show "fo_core (if fo_key y = fo_key x then met_by ev y else y) = fo_core y
      \<and> duly_met d' (if fo_key y = fo_key x then met_by ev y else y)"
    if y: "y \<in> set (db_obligations d)" for y
  proof (cases "fo_key y = fo_key x")
    case True
    then have "y = x" using distinct_map_eq [OF governance_invD(2) [OF inv] y x(1)] by simp
    moreover have "managed (met_by ev x)" using k(1) by (simp add: managed_def met_by_def)
    moreover have "meeting_records gs (met_by ev x) = meeting_records gs x" for gs
      by (simp add: meeting_records_def met_by_def fo_key_def)
    moreover have "meeting_records (db_governance d') x = [e]"
      using governance_invD(4) [OF inv x(1)] k x unfolding g
      by (simp add: duly_met_def meeting_records_append) (simp add: meeting_records_def)
    ultimately have "duly_met d' (met_by ev x)"
      using s by (simp add: duly_met_def) (simp add: met_by_def)
    with True \<open>y = x\<close> show ?thesis by (simp add: fo_core_def met_by_def fo_key_def)
  next
    case False
    then have "duly_met d' y"
      using governance_invD(4) [OF inv y] work_step_grown [OF W governance_invD(5) [OF inv]] x(3)
      by (intro duly_met_more [OF _ _ g]) auto
    with False show ?thesis by simp
  qed
qed

section \<open>Preservation\<close>

lemma fresh_governed:
  assumes "governed p rid digest d fresh = Inr (r, d')"
  shows "d' = d \<or> fresh = Inr (r, d')"
  using assms by (auto simp: governed_def bindR_Inr_iff split: option.splits)

lemma verified_keeps:
  assumes s: "verify_new t p w path actor rid digest m d = Inr (r, d')" and inv: "governance_inv d"
  shows "governance_inv d'"
proof -
  from verify_new_Inr [OF s governance_invD(2) [OF inv]] obtain x e where
    m: "meets x (verified_evidence rid path m) e d d'" and k: "fo_kind x = KArtifact" "go_decision e = Verified"
    and e: "go_actor e = fo_role x" "go_path e = Some path" "go_etag e = Some (dm_etag m)"
      "(go_project e, go_id e, go_digest e) = (p, rid, digest)"
      "materialize_path (get (fo_payload x) ''path'') (fo_project x) (fo_work x) = Inr path" by blast
  have "get (verified_evidence rid path m) ''governance_record_id'' = JStr rid"
    "get (verified_evidence rid path m) ''document_etag'' = JStr (dm_etag m)"
    by (simp_all add: verified_evidence_def get_def get_or_def)
  then have "role_backed d' (met_by (verified_evidence rid path m) x) e"
    using k e unfolding role_backed_def by (intro conjI exI [of _ "(path, dm_etag m)"]) (simp_all add: met_by_def)
  then have "sound d' (met_by (verified_evidence rid path m) x) e"
    using k by (simp add: sound_def sponsored_def met_by_def)
  then show ?thesis using k
    by (intro governance_inv_meets [OF inv lifecycle_same_step [OF verify_new_same [OF s]] m]) (simp_all add: managed_def)
qed

lemma consulted_keeps:
  assumes s: "consult_new t p w oid decision actor rid digest reason ev d = Inr (r, d')" and inv: "governance_inv d"
  shows "governance_inv d'"
proof -
  from consult_new_Inr [OF s] obtain x e where n: "noted e d d'" "db_obligations d' = db_obligations d"
    "x \<in> set (db_obligations d)" "rec_key e = fo_key x" and k: "fo_kind x = KConsult" by blast
  show ?thesis
    by (rule governance_inv_noted [OF inv lifecycle_same_step [OF consult_new_same [OF s]] n]) (simp add: managed_def k)
qed

lemma decided_keeps:
  assumes s: "gate_new t p w oid decision actor rid digest reason ev impact doc d = Inr (r, d')" and inv: "governance_inv d"
  shows "governance_inv d'"
proof -
  from gate_new_Inr [OF s governance_invD(2) [OF inv]] obtain x e ev' where
    x: "x \<in> set (db_obligations d)" "rec_key e = fo_key x" and n: "noted e d d'"
    and k: "fo_kind x = KGate" "\<not> sponsor_gate x" "go_decision e = decision"
    and e: "go_actor e = fo_role x" "get (go_evidence e) ''reviewed_document'' = document_ref doc"
      "version_verified (db_governance d) x doc"
    and m: "if decision \<in> {GovApproved, GovException} then meets x ev' e d d' else db_obligations d' = db_obligations d"
    by blast
  have g: "db_governance d' = db_governance d @ [e]" using n by (simp add: noted_def)
  note W = lifecycle_same_step [OF gate_new_same [OF s]]
  show ?thesis
  proof (cases "decision \<in> {GovApproved, GovException}")
    case True
    have "version_verified (db_governance d') (met_by ev' x) doc"
      using e(3) unfolding g by (auto simp: version_verified_def met_by_def)
    then have "role_backed d' (met_by ev' x) e"
      using k(1) e(1,2) unfolding role_backed_def by (intro conjI exI [of _ doc]) (simp_all add: met_by_def)
    then have "sound d' (met_by ev' x) e"
      using k(2) by (simp add: sound_def sponsored_def met_by_def sponsor_gate_def)
    with True k m show ?thesis by (intro governance_inv_meets [OF inv W, of x ev' e]) (auto simp: managed_def)
  next
    case False
    with m have "db_obligations d' = db_obligations d" by (simp only: if_False)
    from governance_inv_noted [OF inv W n this x] False k show ?thesis by simp
  qed
qed

text \<open>The decision of a sponsor.\<close>

lemma linked_key: "linked_obligation r l x \<longleftrightarrow>
    fo_key x = (ga_project r, ga_work r, gl_state l, gl_entry l, KGate, gl_obligation l)"
  by (auto simp: linked_obligation_def fo_key_def)

lemma artifact_version_verified:
  assumes inv: "governance_inv d" and e: "artifact_version p w s v d = Some e"
    and x: "(fo_project x, fo_work x, fo_state x, fo_entry x) = (p, w, s, v)"
  shows "\<exists>doc. go_path e = Some (fst doc) \<and> go_etag e = Some (snd doc) \<and> version_verified (db_governance d) x doc"
proof -
  from fetchone_SomeD [OF e [unfolded artifact_version_def]] obtain y where e: "e \<in> set (db_governance d)"
    and y: "y \<in> set (db_obligations d)" "(fo_project y, fo_work y, fo_state y, fo_entry y) = (p, w, s, v)"
      "fo_kind y = KArtifact" "verified_record d y e" by (auto simp: table_simps)
  then have r: "rec_key e = fo_key y" "go_decision e = Verified"
    by (auto simp: verified_record_def rec_key_def fo_key_def)
  then have "e \<in> set (meeting_records (db_governance d) y)" using e y(3) by (simp add: meeting_records_def)
  then have "sound d y e" using governance_invD(4) [OF inv y(1)] y(3) by (simp add: duly_met_def managed_def)
  then obtain doc where doc: "go_path e = Some (fst doc)" "go_etag e = Some (snd doc)"
    using y(3) by (auto simp: sound_def role_backed_def sponsored_def)
  have "version_verified (db_governance d) x doc"
    unfolding version_verified_def using e r doc x y(2,3)
    by (intro bexI [of _ e]) (auto simp: rec_key_def fo_key_def)
  with doc show ?thesis by blast
qed

lemma sponsored_keeps:
  assumes s: "decide_new sha t r l a sponsor dec decision rationale ev op dg d = Inr (y, d')"
    and r: "gate_row_of p g d = Some r" "ga_link r = Some l"
    and a: "fetchone (\<lambda>a. ap_project a = p \<and> ap_gate a = g \<and> ap_approver a = sponsor) (db_approvals d) = Some a"
    and W: "work_step sha d d'" and inv: "governance_inv d"
  shows "governance_inv d'"
proof -
  let ?aid = "ga_id r @ '':'' @ sponsor"
  let ?h = "resolved_status (gate_status_of dec) t None op dg"
  let ?f = "\<lambda>b. b\<lparr>ap_decision := Some dec, ap_rationale := Some rationale, ap_evidence := ev, ap_decided := Some t\<rparr>"
  from gate_row_ofD [OF r(1)] have G: "r \<in> set (db_gates d)" "ga_project r = p" "ga_id r = g" by simp_all
  from fetchone_SomeD [OF a] have A: "a \<in> set (db_approvals d)" "ap_project a = p" "ap_gate a = g" "ap_approver a = sponsor"
    by simp_all
  have aid: "ap_id a = ?aid"
    using work_invD(3) [OF governance_invD(5) [OF inv]] A G(3) by (simp add: approvers_ok_def)
  from decide_new_Inr [OF s] obtain cur run e k where lock: "lock_gate r l d = Inr (cur, run, e)"
    and k: "k = sponsor_record t r l dg dec sponsor rationale (decision_evidence ?aid (ga_id r) decision e ev) e"
      "\<not> has_row (\<lambda>x. go_project x = go_project k \<and> go_id x = go_id k) (db_governance d)"
    and gs: "db_gates d' = upd_where (\<lambda>x. ga_project x = ga_project r \<and> ga_id x = ga_id r) ?h (db_gates d)"
    and as: "db_approvals d' = upd_where (\<lambda>a. ap_project a = ga_project r \<and> ap_id a = ?aid) ?f (db_approvals d)"
    and gv: "db_governance d' = db_governance d @ [k]" and os: "db_obligations d' = decided_obligations dec r l ?aid (db_obligations d)"
    and rest: "db_runs d' = db_runs d" "db_journal d' = db_journal d" by blast
  from lock obtain x where "gate_obligation (ga_project r) (ga_work r) (gl_state l) (gl_entry l) (gl_obligation l) d = Some x"
    and pend: "fo_status x = ObPending" and e: "artifact_version (ga_project r) (ga_work r) (gl_state l) (gl_entry l) d = Some e"
    unfolding lock_gate_Inr by blast
  then have x: "x \<in> set (db_obligations d)" "linked_obligation r l x"
    using fetchone_SomeD unfolding gate_obligation_def by (fastforce simp: linked_obligation_def)+
  have only: "z = x" if "z \<in> set (db_obligations d)" "linked_obligation r l z" for z
    using distinct_map_eq [OF governance_invD(2) [OF inv] that(1) x(1)] that(2) x(2) by (simp add: linked_key)
  have spons: "sponsored x" using governance_invD(6) [OF inv] G(1) r(2) only unfolding links_ok_def by blast
  have key: "rec_key k = fo_key x" using x(2) by (simp add: k(1) rec_key_def sponsor_record_def linked_key)
  have n: "noted k d d'" using gv k(2) rest by (auto simp: noted_def rec_id_def table_simps)
  show ?thesis
  proof (cases dec)
    case Rejected
    then show ?thesis
      using x spons key os
      by (intro governance_inv_noted [OF inv W n _ x(1)])
        (simp_all add: decided_obligations_def sponsored_def k(1) sponsor_record_def)
  next
    case Approved
    let ?ev = "[(''governance_record_id'', JStr (''sponsor:'' @ ga_id r)), (''approval_id'', JStr ?aid)]"
    have "db_obligations d' = map (\<lambda>z. if fo_key z = fo_key x then met_by ?ev z else z) (db_obligations d)"
      unfolding os decided_obligations_def upd_where_def using Approved only pend x(2)
      by (auto simp: met_by_def linked_key)
    then have m: "meets x ?ev k d d'" using n x(1) pend key by (simp add: meets_def)
    from artifact_version_verified [OF inv e, of x] x(2) obtain doc where
      doc: "go_path e = Some (fst doc)" "go_etag e = Some (snd doc)" "version_verified (db_governance d) x doc"
      by (auto simp: linked_obligation_def)
    have "?h r \<in> set (db_gates d')" using G(1) unfolding gs by (auto simp: set_upd_where)
    moreover have "?f a \<in> set (db_approvals d')" using A G aid unfolding as by (auto simp: set_upd_where)
    moreover have "version_verified (db_governance d') (met_by ?ev x) doc"
      using doc(3) unfolding gv by (auto simp: version_verified_def met_by_def)
    moreover have "linked_obligation (?h r) l (met_by ?ev x)" using x(2)
      by (simp add: linked_obligation_def met_by_def resolved_status_def)
    ultimately have "sponsor_backed d' (met_by ?ev x) k"
      unfolding sponsor_backed_def
      by (intro conjI bexI [of _ "?h r"] exI [of _ l] bexI [of _ "?f a"] exI [of _ doc])
        (simp_all add: k(1) sponsor_record_def resolved_status_def r(2) Approved gate_status_of_def approval_of_def A G aid met_by_def
          get_def get_or_def doc)
    then have "sound d' (met_by ?ev x) k"
      using spons by (simp add: sound_def sponsored_def met_by_def sponsor_gate_def)
    then show ?thesis
      using spons Approved
      by (intro governance_inv_meets [OF inv W m]) (simp_all add: managed_def sponsored_def k(1) sponsor_record_def)
  qed
qed

text \<open>Entering a state.\<close>

lemma governance_inv_entered:
  assumes inv: "governance_inv d" and W: "work_step sha d d'" and gs: "db_governance d' = db_governance d"
    and os: "db_obligations d' = db_obligations d @ map (new_obligation p w s v) as"
    and keys: "distinct (map fo_key (db_obligations d')) "
  shows "governance_inv d'"
proof -
  have new: "duly_met d' y" if y: "y \<in> set (map (new_obligation p w s v) as)" for y
  proof -
    have "fo_key y \<notin> fo_key ` set (db_obligations d)" using keys y unfolding os by (force simp: image_iff)
    then have "rec_key e \<noteq> fo_key y" if "e \<in> set (db_governance d)" for e
      using governance_invD(3) [OF inv that] by metis
    then have "meeting_records (db_governance d') y = []"
      unfolding gs by (simp add: meeting_records_def filter_empty_conv)
    moreover have "fo_status y = ObPending" using y by (auto simp: new_obligation_def)
    ultimately show ?thesis by (simp add: duly_met_def)
  qed
  note G = work_step_grown [OF W governance_invD(5) [OF inv]]
  have old: "duly_met d' x" if "x \<in> set (db_obligations d)" for x
    using governance_invD(4) [OF inv that] G gs by (intro duly_met_more [of d x d' "[]"]) auto
  have "duly_met d' x" if "x \<in> set (db_obligations d')" for x
    using that new old unfolding os by auto
  moreover have "rec_key e \<in> fo_key ` set (db_obligations d')" if "e \<in> set (db_governance d')" for e
    using governance_invD(3) [OF inv, of e] that unfolding os gs by auto
  moreover have "work_inv d'" using work_step_inv_keeps [OF W governance_invD(5) [OF inv]] by blast
  moreover have "links_ok d'"
    using G by (intro links_ok_more [OF governance_invD(6) [OF inv]]) (auto simp: os)
  ultimately show ?thesis using governance_invD(1) [OF inv] keys unfolding governance_inv_def gs by blast
qed

lemma dispatch_tx_governance:
  assumes "dispatch_tx t sha p w k oid actor d = Inr (x, d')"
  shows "\<exists>run. db_governance d' = db_governance d \<and> db_obligations d' = map (\<lambda>y.
    if current_obligation run y \<and> fo_kind y = k \<and> fo_id y = oid then y\<lparr>fo_status := ObDispatched\<rparr> else y) (db_obligations d)"
proof -
  from assms [unfolded dispatch_tx_def] obtain run row draft i d1 where
    rt: "route_in_transaction t sha draft d = Inr (i, d1)"
    and d': "d' = d1\<lparr>db_obligations := upd_where (\<lambda>o'. current_obligation run o' \<and> fo_kind o' = k \<and> fo_id o' = oid)
        (\<lambda>o'. o'\<lparr>fo_status := ObDispatched\<rparr>) (db_obligations d1)\<rparr>"
    by (auto simp: monad_simps Let_def)
  have "db_governance d1 = db_governance d" "db_obligations d1 = db_obligations d"
    using rt by (auto simp: route_Inr insert_item_Inr)
  then show ?thesis by (auto simp: d' upd_where_def)
qed

lemma dispatched_keeps:
  assumes s: "dispatch_tx t sha p w k oid actor d = Inr (x, d')" and k: "k = KConsult \<or> k = KInform"
    and inv: "governance_inv d"
  shows "governance_inv d'"
proof -
  from dispatch_tx_governance [OF s] obtain run where g: "db_governance d' = db_governance d"
    and os: "db_obligations d' = map (\<lambda>y. if current_obligation run y \<and> fo_kind y = k \<and> fo_id y = oid
      then y\<lparr>fo_status := ObDispatched\<rparr> else y) (db_obligations d)" by blast
  note W = lifecycle_same_step [OF dispatch_tx_same [OF s]]
  show ?thesis
  proof (rule governance_inv_map [OF inv W, of "[]", OF _ _ _ os])
    show "db_governance d' = db_governance d @ []" using g by simp
    show "distinct (map rec_id (db_governance d'))" unfolding g by (rule governance_invD(1) [OF inv])
    fix y assume y: "y \<in> set (db_obligations d)"
    have "duly_met d' y"
      using governance_invD(4) [OF inv y] work_step_grown [OF W governance_invD(5) [OF inv]] g
      by (intro duly_met_more [of d y d' "[]"]) auto
    then show "fo_core (if current_obligation run y \<and> fo_kind y = k \<and> fo_id y = oid then y\<lparr>fo_status := ObDispatched\<rparr> else y)
        = fo_core y \<and> duly_met d'
          (if current_obligation run y \<and> fo_kind y = k \<and> fo_id y = oid then y\<lparr>fo_status := ObDispatched\<rparr> else y)"
      using k by (auto simp: fo_core_def fo_key_def duly_met_def managed_def)
  qed simp
qed

lemma governance_step_inv:
  assumes s: "governance_step sha d d'" and inv: "governance_inv d"
  shows "governance_inv d'"
  using s
proof cases
  case verified
  with fresh_governed verified_keeps inv show ?thesis unfolding verify_tx_def by blast
next
  case consulted
  with fresh_governed consulted_keeps inv show ?thesis unfolding consult_tx_def by blast
next
  case decided
  with fresh_governed [OF decided [unfolded gate_tx_def]] decided_keeps [OF _ inv] inv show ?thesis by blast
next
  case sponsored
  from decide_sponsor_fresh [OF this] sponsored_keeps [OF _ _ _ _ governance_step_work [OF s] inv] inv
  show ?thesis by blast
next
  case (started settings dg flow st t p w fv actor op digest x)
  then have "d' = d \<or> (\<exists>y. start_new sha t p w flow st fv actor op digest d = Inr (y, d'))"
    by (auto simp: start_tx_def replaying_Inr)
  then show ?thesis
  proof (elim disjE exE)
    fix y assume n: "start_new sha t p w flow st fv actor op digest d = Inr (y, d')"
    from start_new_Inr [OF n] have "db_obligations d' = db_obligations d @ map (new_obligation p w (fs_id st) 1) (state_obligations st fv)"
      "distinct (map fo_key (db_obligations d'))" using governance_invD(2) [OF inv] by blast+
    from governance_inv_entered [OF inv governance_step_work [OF s] _ this] start_new_same [OF n] show ?thesis by blast
  qed (use inv in simp)
next
  case (picked_up t p w version actor op digest x)
  then have "d' = d \<or> (\<exists>y. pickup_new sha t p w version actor op digest d = Inr (y, d'))"
    by (auto simp: pickup_tx_def replaying_Inr)
  then show ?thesis
  proof (elim disjE exE)
    fix y assume n: "pickup_new sha t p w version actor op digest d = Inr (y, d')"
    from pickup_new_Inr [OF n] obtain r :: flow_row and target where "db_obligations d' = db_obligations d
        @ map (new_obligation p w (fs_id target) (version + 1)) (state_obligations target (fr_fields r))"
      "distinct (map fo_key (db_obligations d'))" using governance_invD(2) [OF inv] by blast
    from governance_inv_entered [OF inv governance_step_work [OF s] _ this] pickup_new_same [OF n] show ?thesis by blast
  qed (use inv in simp)
next
  case dispatched
  from dispatched_keeps [OF this inv] show ?thesis .
next
  case other
  note W = governance_step_work [OF s]
  show ?thesis
  proof (rule governance_inv_map [OF inv W, of "[]" "\<lambda>x. x"])
    show "distinct (map rec_id (db_governance d'))" unfolding other by (rule governance_invD(1) [OF inv])
    show "fo_core x = fo_core x \<and> duly_met d' x" if x: "x \<in> set (db_obligations d)" for x
      using governance_invD(4) [OF inv x] work_step_grown [OF W governance_invD(5) [OF inv]] other(3)
        duly_met_more [of d x d' "[]"] by simp
  qed (simp_all add: other)
qed

interpretation governance: invariant_system "governance_step sha" governance_inv for sha
  by unfold_locales (rule governance_step_inv)

definition governance_reachable :: "(string \<Rightarrow> string) \<Rightarrow> db \<Rightarrow> bool" where
  "governance_reachable sha d = (governance_step sha)\<^sup>*\<^sup>* empty_db d"

lemma governance_inv_empty: "governance_inv empty_db"
  using work_inv_empty by (simp add: governance_inv_def links_ok_def) (simp add: empty_db_def)

lemma governance_reachable_inv: "governance_reachable sha d \<Longrightarrow> governance_inv d"
  unfolding governance_reachable_def by (rule governance.runs_inv [OF _ governance_inv_empty])

lemma governance_reachable_step: "governance_reachable sha d \<Longrightarrow> governance_step sha d d' \<Longrightarrow> governance_reachable sha d'"
  by (simp add: governance_reachable_def)

text \<open>Every governance transaction is an environment step of the flow engine.\<close>

lemma noted_flow_step:
  assumes "noted e d d'" and "map fo_core (db_obligations d') = map fo_core (db_obligations d)"
  shows "flow_step sha d d'"
  using assms by (intro flow_step.other) (simp_all add: noted_def)

lemma meets_core: "meets x ev e d d' \<Longrightarrow> map fo_core (db_obligations d') = map fo_core (db_obligations d)"
  by (auto simp: meets_def met_by_def fo_core_def fo_key_def)

lemma flow_step_refl: "flow_step sha d d"
  by (rule flow_step.other) simp_all

lemma meets_flow_step: "meets x ev e d d' \<Longrightarrow> flow_step sha d d'"
  by (rule noted_flow_step [OF _ meets_core]) (auto simp: meets_def)

lemma sponsor_decision_writes:
  assumes "decide_sponsor_tx sha t p g sponsor dec decision rationale ev op dg d = Inr (y, d')"
  shows "db_runs d' = db_runs d \<and> db_journal d' = db_journal d
    \<and> map fo_core (db_obligations d') = map fo_core (db_obligations d)
    \<and> (\<exists>ks. db_governance d' = db_governance d @ ks)"
  using decide_sponsor_fresh [OF assms]
proof (elim disjE exE conjE)
  fix r l a
  assume "decide_new sha t r l a sponsor dec decision rationale ev op dg d = Inr (y, d')"
  from decide_new_Inr [OF this] obtain k where "db_runs d' = db_runs d" "db_journal d' = db_journal d"
    "db_obligations d' = decided_obligations dec r l (ga_id r @ '':'' @ sponsor) (db_obligations d)"
    "db_governance d' = db_governance d @ [k]" by blast
  then show ?thesis
    by (auto simp: decided_obligations_def upd_where_def fo_core_def fo_key_def)
qed simp

lemma governance_step_flow_step:
  assumes "governance_step sha d d'" and inv: "governance_inv d"
  shows "flow_step sha d d'"
  using assms(1)
proof cases
  case (verified t p w path actor rid digest m r)
  from fresh_governed [OF this [unfolded verify_tx_def]] show ?thesis
  proof
    assume s: "verify_new t p w path actor rid digest m d = Inr (r, d')"
    from verify_new_Inr [OF this governance_invD(2) [OF inv]] meets_flow_step show ?thesis by blast
  qed (simp add: flow_step_refl)
next
  case (consulted t p w oid decision actor rid digest reason ev r)
  from fresh_governed [OF this [unfolded consult_tx_def]] show ?thesis
  proof
    assume s: "consult_new t p w oid decision actor rid digest reason ev d = Inr (r, d')"
    from consult_new_Inr [OF this] obtain e where "noted e d d'" "db_obligations d' = db_obligations d" by blast
    then show ?thesis using noted_flow_step by simp
  qed (simp add: flow_step_refl)
next
  case (decided t p w oid decision actor rid digest reason ev impact doc r)
  from fresh_governed [OF this [unfolded gate_tx_def]] show ?thesis
  proof
    assume s: "gate_new t p w oid decision actor rid digest reason ev impact doc d = Inr (r, d')"
    from gate_new_Inr [OF this governance_invD(2) [OF inv]] obtain x e ev' where n: "noted e d d'"
      and m: "if decision \<in> {GovApproved, GovException} then meets x ev' e d d' else db_obligations d' = db_obligations d"
      by blast
    show ?thesis
    proof (cases "decision \<in> {GovApproved, GovException}")
      case True
      with m have "meets x ev' e d d'" by (simp only: if_True)
      then show ?thesis by (rule meets_flow_step)
    next
      case False
      with m have "db_obligations d' = db_obligations d" by (simp only: if_False)
      with n show ?thesis using noted_flow_step by simp
    qed
  qed (simp add: flow_step_refl)
next
  case sponsored
  from sponsor_decision_writes [OF this] show ?thesis by (intro flow_step.other) auto
qed (auto intro: flow_step.intros)

lemma governance_reachable_flow: "governance_reachable sha d \<Longrightarrow> flow_reachable sha d"
  unfolding governance_reachable_def flow_reachable_def
proof (induction rule: rtranclp_induct)
  case (step d d')
  from step.hyps(1) have "governance_inv d" by (rule governance.runs_inv [OF _ governance_inv_empty])
  with step governance_step_flow_step show ?case by (metis rtranclp.rtrancl_into_rtrancl)
qed simp

section \<open>Requests\<close>

text \<open>The requests by record id, each with the digest that the handler computes.\<close>

datatype governance_request =
    VerifyReq string string string string string string document
  | ConsultReq string string string gov_decision string string string string "(string \<times> json) list"
  | GateReq string string string gov_decision string string string string "(string \<times> json) list" "string option" "string \<times> string"

fun run_governance :: "timestamp \<Rightarrow> governance_request \<Rightarrow> db \<Rightarrow> (governance_record \<times> db) res" where
  "run_governance t (VerifyReq p w path actor rid digest m) d = verify_tx t p w path actor rid digest m d"
| "run_governance t (ConsultReq p w oid decision actor rid digest reason ev) d =
     consult_tx t p w oid decision actor rid digest reason ev d"
| "run_governance t (GateReq p w oid decision actor rid digest reason ev impact doc) d =
     gate_tx t p w oid decision actor rid digest reason ev impact doc d"

fun governance_id :: "governance_request \<Rightarrow> string \<times> string \<times> string" where
  "governance_id (VerifyReq p w path actor rid digest m) = (p, rid, digest)"
| "governance_id (ConsultReq p w oid decision actor rid digest reason ev) = (p, rid, digest)"
| "governance_id (GateReq p w oid decision actor rid digest reason ev impact doc) = (p, rid, digest)"

definition governance_recorded :: "governance_request \<Rightarrow> governance_record \<Rightarrow> db \<Rightarrow> bool" where
  "governance_recorded q r d = (\<exists>e\<in>set (db_governance d). (go_project e, go_id e, go_digest e) = governance_id q
     \<and> r = governance_record.truncate e)"

lemma governance_request_step: "run_governance t q d = Inr (r, d') \<Longrightarrow> governance_step sha d d'"
  by (cases q) (auto intro: governance_step.intros)

lemma governed_recorded:
  assumes "e \<in> set (db_governance d)" and "distinct (map rec_id (db_governance d))"
    and "(go_project e, go_id e, go_digest e) = (p, rid, digest)"
  shows "governed p rid digest d fresh = Inr (governance_record.truncate e, d)"
proof -
  have "governance_row_of p rid d = Some e"
    unfolding governance_row_of_def using assms by (intro fetchone_unique [where k = rec_id]) (auto simp: rec_id_def)
  with assms(3) show ?thesis by (simp add: governed_def governance_replay_def)
qed

lemma governed_records:
  assumes "governed p rid digest d fresh = Inr (r, d')"
    and "fresh = Inr (r, d') \<Longrightarrow> \<exists>e. e \<in> set (db_governance d') \<and> r = governance_record.truncate e
      \<and> (go_project e, go_id e, go_digest e) = (p, rid, digest)"
  shows "\<exists>e\<in>set (db_governance d'). (go_project e, go_id e, go_digest e) = (p, rid, digest) \<and> r = governance_record.truncate e"
  using assms by (auto simp: governed_def governance_replay_def governance_row_of_def bindR_Inr_iff
    split: option.splits if_splits dest!: fetchone_SomeD)

lemma noted_member: "noted e d d' \<Longrightarrow> e \<in> set (db_governance d')"
  by (simp add: noted_def)

lemma governance_request_records:
  assumes s: "run_governance t q d = Inr (r, d')" and inv: "governance_inv d"
  shows "governance_recorded q r d'"
proof (cases q)
  case (VerifyReq p w path actor rid digest m)
  then show ?thesis using s verify_new_Inr [OF _ governance_invD(2) [OF inv]] noted_member
    unfolding governance_recorded_def meets_def
    by (simp only: run_governance.simps governance_id.simps verify_tx_def) (rule governed_records, blast+)
next
  case (ConsultReq p w oid decision actor rid digest reason ev)
  then show ?thesis using s consult_new_Inr noted_member unfolding governance_recorded_def
    by (simp only: run_governance.simps governance_id.simps consult_tx_def) (rule governed_records, blast+)
next
  case (GateReq p w oid decision actor rid digest reason ev impact doc)
  then show ?thesis using s gate_new_Inr [OF _ governance_invD(2) [OF inv]] noted_member unfolding governance_recorded_def
    by (simp only: run_governance.simps governance_id.simps gate_tx_def) (rule governed_records, blast+)
qed

lemma noted_grows: "noted e d d' \<Longrightarrow> set (db_governance d) \<subseteq> set (db_governance d')"
  by (auto simp: noted_def)

lemma governance_grows:
  assumes "governance_step sha d d'" and inv: "governance_inv d"
  shows "set (db_governance d) \<subseteq> set (db_governance d')"
  using assms(1)
proof cases
  case (verified t p w path actor rid digest m r)
  from fresh_governed [OF this [unfolded verify_tx_def]] show ?thesis
    using verify_new_Inr [OF _ governance_invD(2) [OF inv]] noted_grows unfolding meets_def by blast
next
  case (consulted t p w oid decision actor rid digest reason ev r)
  from fresh_governed [OF this [unfolded consult_tx_def]] show ?thesis using consult_new_Inr noted_grows by blast
next
  case (decided t p w oid decision actor rid digest reason ev impact doc r)
  from fresh_governed [OF this [unfolded gate_tx_def]] show ?thesis
    using gate_new_Inr [OF _ governance_invD(2) [OF inv]] noted_grows by blast
next
  case sponsored
  from sponsor_decision_writes [OF this] show ?thesis by auto
next
  case started
  then show ?thesis using start_new_same by (auto simp: start_tx_def replaying_Inr)
next
  case picked_up
  then show ?thesis using pickup_new_same by (auto simp: pickup_tx_def replaying_Inr)
next
  case dispatched
  with dispatch_tx_governance show ?thesis by fastforce
next
  case other
  then show ?thesis by simp
qed

interpretation governance_requests:
  keyed_requests "governance_step sha" governance_inv run_governance governance_recorded "(=)" for sha
proof
  show "governance_inv s'" if "run_governance t r s = Inr (x, s')" "governance_inv s" for t r s x s'
    using governance_step_inv [OF governance_request_step [OF that(1)] that(2)] .
  show "governance_recorded r x s'" if "run_governance t r s = Inr (x, s')" "governance_inv s" for t r s x s'
    using that by (rule governance_request_records)
  show "\<exists>y. run_governance t r s = Inr (y, s) \<and> x = y" if "governance_recorded r x s" "governance_inv s" for r x s t
    using that governed_recorded [OF _ governance_invD(1) [OF that(2)]]
    by (cases r) (auto simp: governance_recorded_def verify_tx_def consult_tx_def gate_tx_def)
  show "governance_recorded r x s'" if "governance_step sha s s'" "governance_inv s" "governance_recorded r x s" for s s' r x
    using governance_grows [OF that(1,2)] that(3) unfolding governance_recorded_def by blast
qed

end
