(* ===== verification/GovernanceProperties.thy ===== *)
theory GovernanceProperties
  imports GovernanceSystem FlowSamples
begin

text \<open>
  The properties of the governance evidence, alone and together with the flow engine, with
  instances on the run of \<open>FlowSamples\<close>: its artifact is verified, its gate approved.
\<close>

section \<open>A sample\<close>

definition the_document :: document where
  "the_document = \<lparr>dm_item = ''i'', dm_name = ''w'', dm_path = ''w'', dm_size = 7, dm_etag = ''v1'', dm_folder = False,
     dm_mime = None, dm_created = None, dm_modified = None\<rparr>"

definition met_artifact :: flow_obligation where
  "met_artifact = met_by (verified_evidence ''r1'' ''w'' the_document)
     (a_obligation KArtifact ''artifact'' [(''path'', JStr ''{work_item_id}'')] ObPending)"

definition open_gate_g :: flow_obligation where
  "open_gate_g = a_obligation KGate ''g'' [(''id'', JStr ''g'')] ObPending"

definition artifact_record :: governance_row where
  "artifact_record = \<lparr>go_project = ''p'', go_work = ''w'', go_id = ''r1'', go_state = ''a'', go_entry = 1, go_kind = KArtifact,
     go_obligation = ''artifact'', go_decision = Verified, go_actor = ''dev'', go_reason = [],
     go_evidence = [(''document'', document_json the_document)], go_path = Some ''w'', go_etag = Some ''v1'',
     go_recorded = 70, go_digest = ''x9''\<rparr>"

definition verified_db :: db where
  "verified_db = started_db\<lparr>db_obligations := [met_artifact, open_gate_g], db_governance := [artifact_record]\<rparr>"

abbreviation "gate_call sha stat t d \<equiv>
  decide_flow_gate sha stat t ''p'' ''w'' ''g'' ''approved'' ''dev'' ''r2'' ''good'' None None d"

definition gate_record_g :: governance_row where
  "gate_record_g = \<lparr>go_project = ''p'', go_work = ''w'', go_id = ''r2'', go_state = ''a'', go_entry = 1, go_kind = KGate,
     go_obligation = ''g'', go_decision = GovApproved, go_actor = ''dev'', go_reason = ''good'',
     go_evidence = reviewed_evidence (''w'', ''v1'') [], go_path = None, go_etag = None, go_recorded = 71,
     go_digest = gate_digest sample_sha ''w'' ''g'' ''approved'' ''dev'' ''good'' [] None (''w'', ''v1'')\<rparr>"

definition decided_db :: db where
  "decided_db = verified_db\<lparr>
     db_obligations := [met_artifact, met_by ([(''governance_record_id'', JStr ''r2''), (''decision'', JStr ''approved''),
       (''reason'', JStr ''good'')] @ reviewed_evidence (''w'', ''v1'') []) open_gate_g],
     db_governance := [artifact_record, gate_record_g]\<rparr>"

definition the_store :: "string \<Rightarrow> document res" where
  "the_store path = (if path = ''w'' then Inr the_document else Inl ValueError)"

lemma verify_runs:
  "verify_tx 70 ''p'' ''w'' ''w'' ''dev'' ''r1'' ''x9'' the_document started_db
     = Inr (governance_record.truncate artifact_record, verified_db)"
  by code_simp

lemma gate_runs: "gate_call sample_sha the_store 71 verified_db = Inr (governance_record.truncate gate_record_g, decided_db)"
  by code_simp

lemma gate_tx_runs:
  "gate_tx 71 ''p'' ''w'' ''g'' GovApproved ''dev'' ''r2'' (gate_digest sample_sha ''w'' ''g'' ''approved'' ''dev'' ''good'' [] None (''w'', ''v1''))
     ''good'' [] None (''w'', ''v1'') verified_db = Inr (governance_record.truncate gate_record_g, decided_db)"
  by code_simp

text \<open>The work item of the sample is created and activated by the lifecycle.\<close>

definition planned_work_db :: "(string \<Rightarrow> string) \<Rightarrow> db" where
  "planned_work_db sha = after (create_work_tx sha 1 ''p'' ''w'' ''T'' ''dev'' ''pm'' ''c1''
     (project_db\<lparr>db_works := []\<rparr>))"

definition active_work_db :: "(string \<Rightarrow> string) \<Rightarrow> db" where
  "active_work_db sha = after (transition_tx sha 2 ''p'' ''w'' ''active'' ''pm'' ''c2'' 1 '''' [] (planned_work_db sha))"

text \<open>A second stand-in for the hash tells the topics of the gates' messages apart.\<close>

definition wide_sha :: "string \<Rightarrow> string" where
  "wide_sha s = filter (\<lambda>c. c \<in> set ''kqwy0123456789'') s"

definition tables_of :: "db \<Rightarrow> (flow_row list \<times> journal_row list \<times> governance_row list \<times> flow_obligation list)
    \<times> gate_row list \<times> approval_record list \<times> (string \<times> string) list" where
  "tables_of d = ((db_runs d, db_journal d, db_governance d, db_obligations d), db_gates d, db_approvals d, db_sponsors d)"

definition work_activates :: "(string \<Rightarrow> string) \<Rightarrow> bool" where
  "work_activates sha = (succeeds (create_work_tx sha 1 ''p'' ''w'' ''T'' ''dev'' ''pm'' ''c1'' (project_db\<lparr>db_works := []\<rparr>))
     \<and> succeeds (transition_tx sha 2 ''p'' ''w'' ''active'' ''pm'' ''c2'' 1 '''' [] (planned_work_db sha))
     \<and> db_works (active_work_db sha) = db_works project_db
     \<and> tables_of (planned_work_db sha) = tables_of empty_db \<and> tables_of (active_work_db sha) = tables_of empty_db)"

lemma works_activate: "work_activates sample_sha" "work_activates wide_sha"
  by code_simp+

lemma work_step_governed:
  assumes "work_step sha d d'" and "db_runs d' = db_runs d" "db_journal d' = db_journal d"
    "db_governance d' = db_governance d" "db_obligations d' = db_obligations d"
  shows "governance_step sha d d'"
  using assms by (intro governance_step.other flow_step.other) simp_all

lemma quiet_governed:
  assumes "work_step sha d d'" "governance_reachable sha d" "db_runs d' = db_runs d" "db_journal d' = db_journal d"
    "db_governance d' = db_governance d" "db_obligations d' = db_obligations d"
  shows "governance_reachable sha d'"
  by (rule governance_reachable_step [OF assms(2) work_step_governed [OF assms(1,3-6)]])

lemma base_db_governed:
  assumes "work_activates sha"
  shows "governance_reachable sha base_db"
proof -
  note obs = empty_db_def project_db_def base_db_def
  note W = assms [unfolded work_activates_def]
  have "governance_reachable sha (project_db\<lparr>db_works := []\<rparr>)"
    by (rule quiet_governed [of _ empty_db, OF work_step.other]) (simp_all add: obs governance_reachable_def)
  moreover from succeedsD [OF conjunct1 [OF W]] obtain x where
    c: "create_work_tx sha 1 ''p'' ''w'' ''T'' ''dev'' ''pm'' ''c1'' (project_db\<lparr>db_works := []\<rparr>) = Inr (x, planned_work_db sha)"
    unfolding planned_work_db_def by blast
  ultimately have "governance_reachable sha (planned_work_db sha)"
    using quiet_governed [OF work_step.created [OF c]] W by (simp add: obs tables_of_def)
  moreover from W have "succeeds (transition_tx sha 2 ''p'' ''w'' ''active'' ''pm'' ''c2'' 1 '''' [] (planned_work_db sha))"
    by blast
  from succeedsD [OF this] obtain y where
    c: "transition_tx sha 2 ''p'' ''w'' ''active'' ''pm'' ''c2'' 1 '''' [] (planned_work_db sha) = Inr (y, active_work_db sha)"
    unfolding active_work_db_def by blast
  ultimately have "governance_reachable sha (active_work_db sha)"
    using quiet_governed [OF work_step.transition [OF c]] W by (simp add: tables_of_def)
  moreover have "work_step sha (active_work_db sha) base_db"
    by (rule work_step.other) (use W in \<open>simp_all add: obs tables_of_def\<close>)
  ultimately show ?thesis using quiet_governed W by (simp add: obs tables_of_def)
qed

lemma started_db_governed: "governance_reachable sample_sha started_db"
proof (rule governance_reachable_step [OF base_db_governed [OF works_activate(1)]])
  show "governance_step sample_sha base_db started_db"
    using tiny_loads _ start_runs
    by (rule governance_step.started) (simp add: flow_state_of_def tiny_flow_def)
qed

lemma verified_db_governed: "governance_reachable sample_sha verified_db"
  by (rule governance_reachable_step [OF started_db_governed governance_step.verified [OF verify_runs]])

lemma decided_db_governed: "governance_reachable sample_sha decided_db"
  by (rule governance_reachable_step [OF verified_db_governed governance_step.decided [OF gate_tx_runs]])

section \<open>Obligations are met once, by the right role\<close>

text \<open>C8. An obligation is met once and duly: in every reachable state an artifact or a gate is
  satisfied exactly when one record meets it, otherwise there is none. The record is sound: of an
  artifact the accountable role made it and it has the path the flow demands; of a gate the
  accountable role made it, about a version of the artifact verified in the same entry of the
  state; of a gate reserved for sponsors an approved gate for this obligation backs it, with an
  approval by the one who made the record.\<close>

theorem obligations_are_duly_met:
  assumes "governance_reachable sha d" and "x \<in> set (db_obligations d)"
    and "fo_kind x = KArtifact \<or> fo_kind x = KGate"
  shows "length (meeting_records (db_governance d) x) = (if fo_status x = ObSatisfied then 1 else 0)
    \<and> (\<forall>e\<in>set (meeting_records (db_governance d) x). sound d x e)"
  using governance_invD(4) [OF governance_reachable_inv [OF assms(1)] assms(2)] assms(3)
  by (auto simp: duly_met_def managed_def)

theorem obligations_are_duly_met_witness:
  "\<exists>e. meeting_records (db_governance verified_db) met_artifact = [e] \<and> go_actor e = ''dev''"
proof -
  have ns: "\<not> sponsored met_artifact" by (simp add: sponsored_def met_artifact_def met_by_def a_obligation_def)
  have x: "met_artifact \<in> set (db_obligations verified_db)" by (simp add: verified_db_def)
  have k: "fo_kind met_artifact = KArtifact" "fo_status met_artifact = ObSatisfied" "fo_role met_artifact = ''dev''"
    by (simp_all add: met_artifact_def met_by_def a_obligation_def)
  from obligations_are_duly_met [OF verified_db_governed x disjI1 [OF k(1)]] k(2,3) ns show ?thesis
    by (auto simp: length_Suc_conv sound_def role_backed_def)
qed

lemma duly_met_record:
  assumes "duly_met d x" and "managed x" and "fo_status x = ObSatisfied"
  shows "\<exists>e\<in>set (db_governance d). rec_key e = fo_key x \<and> meeting (fo_kind x) (go_decision e) \<and> sound d x e"
proof -
  from assms have "length (meeting_records (db_governance d) x) = 1" "\<forall>e\<in>set (meeting_records (db_governance d) x). sound d x e"
    by (simp_all add: duly_met_def)
  then obtain e where "e \<in> set (meeting_records (db_governance d) x)" "sound d x e" by (auto simp: length_Suc_conv)
  then show ?thesis by (auto simp: meeting_records_def)
qed

lemma left_is_met:
  assumes "governance_reachable sha d" and "run_of p w d = Some r" and "fr_status r = FlowActive"
    and "pin_route p w outcome fv version op digest d = Inr (Inr rt, d')
      \<or> mark_completion p w version op digest d = Inr (Inr (), d')"
    and "x \<in> set (db_obligations d)" and "current_obligation r x" and "managed x"
  shows "\<exists>e\<in>set (db_governance d). rec_key e = fo_key x \<and> meeting (fo_kind x) (go_decision e) \<and> sound d x e"
proof -
  have "require_ready r d = Inr ()" using assms(2,3,4)
    by (auto simp: pin_route_def mark_completion_def pin_new_def mark_new_def monad_simps split: if_splits)
  then have "\<not> blocking d x" using assms(5,6) by (auto simp: require_ready_def ensure_iff has_row_iff)
  then have "fo_status x = ObSatisfied" using assms(7) by (auto simp: blocking_def managed_def)
  from duly_met_record [OF governance_invD(4) [OF governance_reachable_inv [OF assms(1)] assms(5)] assms(7) this]
  show ?thesis .
qed

text \<open>C7. Governance and flow engine together: whatever the interleaving of their transactions, a
  state is only left, and a run only completed, when the accountable role of the artifact has
  verified it at its demanded path, and the accountable role of every gate not reserved for
  sponsors has approved or excepted it about a version of the artifact verified in this entry.\<close>

theorem leaving_is_evidenced:
  assumes "governance_reachable sha d" and "run_of p w d = Some r" and "fr_status r = FlowActive"
    and "pin_route p w outcome fv version op digest d = Inr (Inr rt, d')
      \<or> mark_completion p w version op digest d = Inr (Inr (), d')"
    and "x \<in> set (db_obligations d)" and "current_obligation r x"
    and "fo_kind x = KArtifact \<or> fo_kind x = KGate \<and> \<not> sponsor_gate x"
  shows "\<exists>e\<in>set (db_governance d). rec_key e = fo_key x \<and> go_actor e = fo_role x
    \<and> (if fo_kind x = KArtifact
       then go_decision e = Verified
         \<and> (\<exists>path. go_path e = Some path \<and> materialize_path (get (fo_payload x) ''path'') p w = Inr path)
       else (go_decision e = GovApproved \<or> go_decision e = GovException)
         \<and> (\<exists>doc. get (go_evidence e) ''reviewed_document'' = document_ref doc \<and> version_verified (db_governance d) x doc))"
proof -
  have k: "managed x" "\<not> sponsored x" using assms(7) by (auto simp: managed_def sponsored_def)
  have at: "fo_project x = p" "fo_work x = w" using assms(6) run_ofD [OF assms(2)] by (simp_all add: current_obligation_def)
  from left_is_met [OF assms(1-6) k(1)] k(2) obtain e where "e \<in> set (db_governance d)" "rec_key e = fo_key x"
    "meeting (fo_kind x) (go_decision e)" "role_backed d x e" by (auto simp: sound_def)
  then show ?thesis using assms(7) unfolding role_backed_def at
    by (intro bexI [of _ e]) (auto split: if_splits simp del: split_paired_Ex)
qed

lemma decided_pins: "pin_route ''p'' ''w'' ''ok'' [] 1 ''op2'' ''x2'' decided_db = Inr (Inr route_r, decided_db\<lparr>db_runs := [run_pinned]\<rparr>)"
  by code_simp

theorem leaving_is_evidenced_witness:
  "\<exists>e\<in>set (db_governance decided_db). go_actor e = ''dev''
    \<and> (\<exists>doc. version_verified (db_governance decided_db) (last (db_obligations decided_db)) doc)"
proof -
  let ?x = "last (db_obligations decided_db)"
  have x: "?x \<in> set (db_obligations decided_db)" "fo_kind ?x = KGate" "\<not> sponsor_gate ?x" "fo_role ?x = ''dev''"
    "current_obligation a_run ?x" "run_of ''p'' ''w'' decided_db = Some a_run" "fr_status a_run = FlowActive"
    by code_simp+
  from leaving_is_evidenced [OF decided_db_governed x(6,7) disjI1 [OF decided_pins] x(1,5)] x(2,3,4)
  obtain e doc where "e \<in> set (db_governance decided_db)" "go_actor e = ''dev''"
    "version_verified (db_governance decided_db) ?x doc" by (simp split: if_splits) blast
  then show ?thesis by blast
qed

section \<open>Repeating a decision\<close>

text \<open>The request that a call of \<open>decide_gate\<close> makes once its arguments are valid.\<close>

definition gate_request :: "(string \<Rightarrow> string) \<Rightarrow> string \<Rightarrow> string \<Rightarrow> string \<Rightarrow> string \<Rightarrow> string \<Rightarrow> string \<Rightarrow>
    string \<Rightarrow> (string \<times> json) list option \<Rightarrow> string option \<Rightarrow> string \<times> string \<Rightarrow> governance_request res" where
  "gate_request sha p w oid decision actor rid reason ev impact doc =
     bindR (flow_identifiers [p, w, oid, actor, rid]) (\<lambda>_. bindR (gate_decision decision) (\<lambda>dec.
     bindR (governance_reason (dec = GovException) reason) (\<lambda>reason. bindR (governance_evidence ev) (\<lambda>ev.
     bindR (ensure (case impact of None \<Rightarrow> True | Some i \<Rightarrow> i \<in> set [''no-material'', ''material'', ''uncertain''])
       ValueError) (\<lambda>_.
     Inr (GateReq p w oid dec actor rid (gate_digest sha w oid decision actor reason ev impact doc) reason ev impact doc))))))"

lemma decide_flow_gate_request:
  "decide_flow_gate sha stat t p w oid decision actor rid reason ev impact d =
     bindR (gate_request sha p w oid decision actor rid reason ev impact ([], [])) (\<lambda>_.
     bindR (reviewed_or_current stat p w rid d) (\<lambda>doc.
     bindR (gate_request sha p w oid decision actor rid reason ev impact doc) (\<lambda>q.
     bindR (governance_replay p rid (snd (snd (governance_id q))) d) (\<lambda>replay. case replay of
       Some e \<Rightarrow> Inr (e, d)
     | None \<Rightarrow> governance_wrap (\<lambda>_. False) p rid (snd (snd (governance_id q))) d (run_governance t q d)))))"
  unfolding decide_flow_gate_def gate_request_def Let_def
  by (auto simp: bindR_def split: sum.split option.split)

text \<open>The record a decision leaves, or finds.\<close>

lemma gate_request_shape:
  assumes "gate_request sha p w oid decision actor rid reason ev impact doc = Inr q"
  shows "\<exists>dec digest reason' ev'. q = GateReq p w oid dec actor rid digest reason' ev' impact doc
    \<and> gate_request sha p w oid decision actor rid reason ev impact doc'
      = Inr (GateReq p w oid dec actor rid (gate_digest sha w oid decision actor reason' ev' impact doc') reason' ev' impact doc')
    \<and> digest = gate_digest sha w oid decision actor reason' ev' impact doc"
  using assms by (auto simp: gate_request_def bindR_Inr_iff)

lemma decide_flow_gate_recorded:
  assumes s: "decide_flow_gate sha stat t p w oid decision actor rid reason ev impact d = Inr (r, d')" and inv: "governance_inv d"
  shows "\<exists>doc q e. gate_request sha p w oid decision actor rid reason ev impact doc = Inr q
    \<and> (d' = d \<or> run_governance t q d = Inr (r, d')) \<and> governance_recorded q r d'
    \<and> e \<in> set (db_governance d') \<and> go_project e = p \<and> go_id e = rid
    \<and> (\<exists>m. as_obj (get (go_evidence e) ''reviewed_document'') = Some m \<and> as_str (get m ''path'') = Some (fst doc)
      \<and> as_str (get m ''etag'') = Some (snd doc))"
proof -
  from s obtain doc q x where doc: "reviewed_or_current stat p w rid d = Inr doc"
    and q: "gate_request sha p w oid decision actor rid reason ev impact doc = Inr q"
    and rep: "governance_replay p rid (snd (snd (governance_id q))) d = Inr x"
    and run: "(case x of Some e \<Rightarrow> Inr (e, d)
      | None \<Rightarrow> governance_wrap (\<lambda>_. False) p rid (snd (snd (governance_id q))) d (run_governance t q d)) = Inr (r, d')"
    unfolding decide_flow_gate_request bindR_Inr_iff by blast
  from gate_request_shape [OF q] obtain dec digest reason' ev' where
    sh: "q = GateReq p w oid dec actor rid digest reason' ev' impact doc" by blast
  show ?thesis
  proof (cases x)
    case (Some y)
    then have d': "d' = d" "r = y" using run by auto
    from rep Some obtain e where e: "governance_row_of p rid d = Some e" "go_digest e = digest" "y = governance_record.truncate e"
      by (auto simp: governance_replay_def sh split: option.splits if_splits)
    have m: "e \<in> set (db_governance d)" "go_project e = p" "go_id e = rid"
      using fetchone_SomeD [OF e(1) [unfolded governance_row_of_def]] by auto
    from doc e(1) obtain m where "as_obj (get (go_evidence e) ''reviewed_document'') = Some m"
      "as_str (get m ''path'') = Some (fst doc)" "as_str (get m ''etag'') = Some (snd doc)"
      by (auto simp: reviewed_or_current_def reviewed_version_def monad_simps)
    with q m e(2,3) d' sh show ?thesis
      by (intro exI [of _ doc] exI [of _ q] exI [of _ e]) (auto simp: governance_recorded_def)
  next
    case None
    with rep have none: "governance_row_of p rid d = None" by (auto simp: governance_replay_def split: option.splits if_splits)
    with run None have tx: "run_governance t q d = Inr (r, d')"
      by (auto simp: governance_wrap_def governance_replay_def split: sum.splits exn.splits if_splits)
    then have new: "gate_new t p w oid dec actor rid digest reason' ev' impact doc d = Inr (r, d')"
      using none by (simp add: sh gate_tx_def governed_def governance_replay_def)
    from gate_new_Inr [OF new governance_invD(2) [OF inv]] obtain e where
      e: "noted e d d'" "(go_project e, go_id e, go_digest e) = (p, rid, digest)"
      "get (go_evidence e) ''reviewed_document'' = document_ref doc" by blast
    have "as_str (JStr a) = Some a" for a by simp
    with e q tx governance_request_records [OF tx inv] show ?thesis
      by (intro exI [of _ doc] exI [of _ q] exI [of _ e])
        (auto simp: noted_def document_ref_def get_def get_or_def)
  qed
qed

text \<open>C22. A gate decision can be repeated as long as its document stands: after a decision was recorded,
  the same call at any later time, whatever happened between, reads the document it was about; if
  the store still has that version, it answers with the recorded decision and writes nothing, else
  it raises a conflict.\<close>

theorem gate_decision_repeats:
  assumes "governance_reachable sha' d"
    and "decide_flow_gate sha stat t p w oid decision actor rid reason ev impact d = Inr (r, d1)"
    and "(governance_step sha')\<^sup>*\<^sup>* d1 d2"
  shows "\<exists>path etag. \<forall>stat' t' m. stat' path = Inr m \<longrightarrow>
    decide_flow_gate sha stat' t' p w oid decision actor rid reason ev impact d2
      = (if same_version m path etag then Inr (r, d2) else Inl GovernanceConflict)"
proof -
  note inv = governance_reachable_inv [OF assms(1)]
  from decide_flow_gate_recorded [OF assms(2) inv] obtain doc q e m where
    q: "gate_request sha p w oid decision actor rid reason ev impact doc = Inr q"
    and d1: "d1 = d \<or> run_governance t q d = Inr (r, d1)" and rec: "governance_recorded q r d1"
    and e: "e \<in> set (db_governance d1)" "go_project e = p" "go_id e = rid"
      "as_obj (get (go_evidence e) ''reviewed_document'') = Some m"
      "as_str (get m ''path'') = Some (fst doc)" "as_str (get m ''etag'') = Some (snd doc)" by blast
  have i1: "governance_inv d1" using d1 inv governance_requests.run_inv by blast
  note i2 = governance.runs_inv [OF assms(3) i1]
  have "set (db_governance d1) \<subseteq> set (db_governance d2)"
    using governance.runs_rel [where R = "\<lambda>d d'. set (db_governance d) \<subseteq> set (db_governance d')", OF _ _ _ assms(3) i1]
      governance_grows by blast
  with e have row: "governance_row_of p rid d2 = Some e" using governance_invD(1) [OF i2]
    unfolding governance_row_of_def by (intro fetchone_unique [where k = rec_id]) (auto simp: rec_id_def)
  from governance_requests.runs_keep [OF assms(3) i1 rec] have "governance_recorded q r d2" .
  then obtain x where x: "x \<in> set (db_governance d2)" "(go_project x, go_id x, go_digest x) = governance_id q"
    "r = governance_record.truncate x" by (auto simp: governance_recorded_def)
  from gate_request_shape [OF q, where doc' = doc] have "fst (governance_id q) = p" "fst (snd (governance_id q)) = rid" by auto
  then have "rec_id x = (p, rid)" using x(2) by (metis rec_id_def fst_conv snd_conv)
  moreover have "e \<in> set (db_governance d2)" "rec_id e = (p, rid)"
    using fetchone_SomeD [OF row [unfolded governance_row_of_def]] by (auto simp: rec_id_def)
  ultimately have "x = e" using distinct_map_eq [OF governance_invD(1) [OF i2] x(1)] by metis
  then have e2: "go_digest e = snd (snd (governance_id q))" "r = governance_record.truncate e"
    using x(2,3) by (metis snd_conv, simp)
  obtain q0 where q0: "gate_request sha p w oid decision actor rid reason ev impact ([], []) = Inr q0"
    using gate_request_shape [OF q, where doc' = "([], [])"] by blast
  have "decide_flow_gate sha stat' t' p w oid decision actor rid reason ev impact d2
      = (if same_version x (fst doc) (snd doc) then Inr (r, d2) else Inl GovernanceConflict)"
    if "stat' (fst doc) = Inr x" for stat' t' x
    using q0 q row e e2 that
    by (auto simp: decide_flow_gate_request reviewed_or_current_def reviewed_version_def ensure_def governance_replay_def)
  then show ?thesis by blast
qed

theorem gate_decision_repeats_witness:
  "\<exists>path etag. \<forall>m. the_store path = Inr m \<longrightarrow> gate_call sample_sha the_store 99 decided_db
     = (if same_version m path etag then Inr (governance_record.truncate gate_record_g, decided_db) else Inl GovernanceConflict)"
  using gate_decision_repeats [OF verified_db_governed gate_runs rtranclp.rtrancl_refl] by meson

end
