(* ===== verification/SponsorProperties.thy ===== *)
theory SponsorProperties
  imports GovernanceProperties
begin

text \<open>
  The properties of the gates that sponsors decide, with instances on the run of \<open>FlowSamples\<close>
  whose gate asks for the approval of a sponsor.
\<close>

section \<open>A sample\<close>

definition sponsor_json :: json where
  "sponsor_json = JObj [(''entry_state'', JStr ''a''), (''flow_id'', JStr ''f''), (''leader_role'', JStr ''dev''),
     (''schema_version'', JInt 1),
     (''states'', JObj [
        (''a'', JObj [(''artifact'', JStr ''{work_item_id}''), (''gates'', JList [JObj [(''id'', JStr ''g''),
             (''requested_from'', JStr ''sponsor''), (''type'', JStr ''sponsor_approval'')]]),
           (''owner_role'', JStr ''dev''), (''purpose'', JStr ''x''),
           (''routes'', JList [JObj [(''id'', JStr ''r''), (''outcome'', JStr ''ok''), (''target_role'', JStr ''qa''),
              (''target_state'', JStr ''b'')]]),
           (''terminal'', JBool False)]),
        (''b'', JObj [(''artifact'', JStr ''{work_item_id}''), (''owner_role'', JStr ''qa''),
           (''purpose'', JStr ''x''), (''terminal'', JBool True)])]),
     (''terminal_states'', JList [JStr ''b''])]"

definition sponsor_state :: flow_state where
  "sponsor_state = state_a\<lparr>fs_gates := [\<lparr>ac_id = ''g'', ac_kind = KGate, ac_role = ''sponsor'', ac_payload =
     [(''id'', JStr ''g''), (''requested_from'', JStr ''sponsor''), (''type'', JStr ''sponsor_approval'')],
     ac_when = None\<rparr>]\<rparr>"

definition sponsor_flow :: flow_definition where
  "sponsor_flow = tiny_flow\<lparr>fd_states := [(''a'', sponsor_state), (''b'', state_b)], fd_snapshot := sponsor_json\<rparr>"

definition staffed_db :: db where
  "staffed_db = base_db\<lparr>db_sponsors := [(''p'', ''ann'')],
     db_roles := db_roles base_db @ [\<lparr>ro_project = ''p'', ro_id = ''project-manager'', ro_status = ''active''\<rparr>],
     db_queues := [\<lparr>qu_project = ''p'', qu_id = ''qd'', qu_role = ''dev'', qu_capability = None, qu_paused = False\<rparr>]\<rparr>"

definition sponsored_gate :: flow_obligation where
  "sponsored_gate = (a_obligation KGate ''g'' [(''id'', JStr ''g''), (''requested_from'', JStr ''sponsor''),
     (''type'', JStr ''sponsor_approval'')] ObPending)\<lparr>fo_role := ''sponsor''\<rparr>"

definition waiting_db :: db where
  "waiting_db = staffed_db\<lparr>db_runs := [a_run\<lparr>fr_snapshot := sponsor_json\<rparr>],
     db_obligations := [a_obligation KArtifact ''artifact'' [(''path'', JStr ''{work_item_id}'')] ObPending, sponsored_gate],
     db_journal := db_journal started_db\<rparr>"

definition reviewed_db :: db where
  "reviewed_db = waiting_db\<lparr>db_obligations := [met_artifact, sponsored_gate], db_governance := [artifact_record]\<rparr>"

abbreviation "open_call t g d \<equiv>
  open_sponsor_tx wide_sha t ''p'' ''w'' g ''g'' ''dev'' [''ann''] ''c1'' 2 3600 [] ''x'' d"

definition decision_name :: "decision \<Rightarrow> string" where
  "decision_name dec = (case dec of Approved \<Rightarrow> ''approved'' | Rejected \<Rightarrow> ''rejected'')"

abbreviation "answer_call t sponsor dec dg d \<equiv>
  decide_sponsor_tx wide_sha t ''p'' ''q'' sponsor dec (decision_name dec) ''fine'' [] ''op5'' dg d"

definition gate_q :: gate_row where
  "gate_q = \<lparr>ga_project = ''p'', ga_id = ''q'', ga_work = ''w'', ga_type = ''sponsor_approval'', ga_status = GatePending,
     ga_requested_by = ''dev'', ga_correlation = ''c1'', ga_evidence = [],
     ga_link = Some \<lparr>gl_state = ''a'', gl_entry = 1, gl_obligation = ''g'', gl_expires = 80 + seconds 3600\<rparr>,
     ga_resolved = None, ga_timed_out = None, ga_operation = None, ga_digest = None\<rparr>"

definition approval_q :: approval_record where
  "approval_q = \<lparr>ap_project = ''p'', ap_id = ''q:ann'', ap_gate = ''q'', ap_approver = ''ann'', ap_decision = None,
     ap_rationale = None, ap_evidence = [], ap_decided = None\<rparr>"

definition asked_db :: db where
  "asked_db = reviewed_db\<lparr>db_works := map (\<lambda>w. w\<lparr>wi_status := ''gated'', wi_version := 3\<rparr>) (db_works reviewed_db),
     db_gates := [gate_q], db_approvals := [approval_q]\<rparr>"

definition answered_q :: approval_record where
  "answered_q = approval_q\<lparr>ap_decision := Some Approved, ap_rationale := Some ''fine'', ap_decided := Some 90\<rparr>"

definition answered_db :: db where
  "answered_db = asked_db\<lparr>db_works := map (\<lambda>w. w\<lparr>wi_status := ''active'', wi_version := 4\<rparr>) (db_works asked_db),
     db_gates := [resolved_status GateApproved 90 None ''op5'' ''x5'' gate_q], db_approvals := [answered_q],
     db_obligations := [met_artifact, met_by [(''governance_record_id'', JStr ''sponsor:q''), (''approval_id'', JStr ''q:ann'')]
       sponsored_gate],
     db_governance := [artifact_record, \<lparr>go_project = ''p'', go_work = ''w'', go_id = ''sponsor:q'', go_state = ''a'',
       go_entry = 1, go_kind = KGate, go_obligation = ''g'', go_decision = GovApproved, go_actor = ''ann'',
       go_reason = ''fine'', go_evidence = [(''approval_id'', JStr ''q:ann''), (''gate_id'', JStr ''q''),
         (''decision'', JStr ''approved''), (''reviewed_document'', JObj [(''path'', JStr ''w''), (''etag'', JStr ''v1'')])],
       go_path = Some ''w'', go_etag = Some ''v1'', go_recorded = 90, go_digest = ''x5''\<rparr>]\<rparr>"

text \<open>A transaction leads to a state, up to queue items, events and messages.\<close>

definition leads :: "('a \<times> db) res \<Rightarrow> db \<Rightarrow> bool" where
  "leads r d = (case r of Inl e \<Rightarrow> False | Inr (x, d') \<Rightarrow> db_works d' = db_works d \<and> tables_of d' = tables_of d)"

lemma leads_governed:
  assumes "leads r d'" and "\<And>x e. r = Inr (x, e) \<Longrightarrow> governance_step sha d e" and "governance_reachable sha d"
  shows "governance_reachable sha d'"
proof -
  from assms(1) obtain x e where e: "r = Inr (x, e)" "db_works e = db_works d'" "tables_of e = tables_of d'"
    by (auto simp: leads_def split: sum.splits)
  have "governance_reachable sha e" by (rule governance_reachable_step [OF assms(3) assms(2) [OF e(1)]])
  moreover have "work_step sha e d'" by (rule work_step.other) (use e in \<open>simp_all add: tables_of_def\<close>)
  ultimately show ?thesis using quiet_governed e(3) by (simp add: tables_of_def)
qed

lemma sponsor_flow_loads: "load_flow [(''flow'', sponsor_json)] sample_digest = Inr sponsor_flow"
  by (rule loads_by_parts) code_simp+

lemma waiting_leads:
  "leads (start_tx wide_sha 60 ''p'' ''w'' sponsor_flow sponsor_state [] ''dev1'' ''op1'' ''x1'' staffed_db) waiting_db"
  by code_simp

lemma reviewed_leads: "leads (verify_tx 70 ''p'' ''w'' ''w'' ''dev'' ''r1'' ''x9'' the_document waiting_db) reviewed_db"
  by code_simp

lemma asked_leads: "leads (open_call 80 ''q'' reviewed_db) asked_db"
  by code_simp

lemma answered_leads: "leads (answer_call 90 ''ann'' Approved ''x5'' asked_db) answered_db"
  by code_simp

text \<open>The calls are steps of the system.\<close>

lemma sponsor_open_tx:
  "sponsor_open sha t p w g oid by' sponsors corr version lifetime ev d = Inr (y, d') \<Longrightarrow>
    \<exists>ss ev' summary. open_sponsor_tx sha t (strip p) (strip w) (strip g) (strip oid) (strip by') ss (strip corr) version lifetime
      ev' summary d = Inr (y, d')"
  unfolding sponsor_open_def bindR_Inr_iff ident_iff ensure_iff by blast

lemma sponsor_decide_tx:
  "sponsor_decide sha t p g sponsor decision rationale ev op d = Inr (y, d') \<Longrightarrow>
    \<exists>dec rationale' ev' dg. decide_sponsor_tx sha t (strip p) (strip g) (strip sponsor) dec decision rationale' ev' (strip op) dg d
      = Inr (y, d')"
  unfolding sponsor_decide_def bindR_Inr_iff ident_iff ensure_iff by blast

lemma open_sponsor_governed:
  assumes "open_sponsor_tx sha t p w g oid by' ss corr version lifetime ev summary d = Inr (y, d')"
  shows "governance_step sha d d'"
proof (rule work_step_governed [OF work_step.sponsor_opened [OF assms]])
  have "db_runs d' = db_runs d \<and> db_journal d' = db_journal d \<and> db_governance d' = db_governance d
      \<and> db_obligations d' = db_obligations d"
    using open_sponsor_fresh [OF assms]
  proof
    assume "open_new sha t p w g oid by' ss corr version lifetime ev summary d = Inr (y, d')"
    from open_new_Inr [OF this] show ?thesis by blast
  qed simp
  then show "db_runs d' = db_runs d" "db_journal d' = db_journal d" "db_governance d' = db_governance d"
    "db_obligations d' = db_obligations d" by blast+
qed

lemma timeout_sponsor_governed:
  assumes "timeout_sponsor_tx sha t observed p g actor op dg d = Inr (y, d')"
  shows "governance_step sha d d'"
proof (rule work_step_governed [OF work_step.sponsor_timed_out [OF assms]])
  have "db_runs d' = db_runs d \<and> db_journal d' = db_journal d \<and> db_governance d' = db_governance d
      \<and> db_obligations d' = db_obligations d"
    using timeout_sponsor_fresh [OF assms] timeout_new_Inr by blast
  then show "db_runs d' = db_runs d" "db_journal d' = db_journal d" "db_governance d' = db_governance d"
    "db_obligations d' = db_obligations d" by blast+
qed

lemma reviewed_db_governed: "governance_reachable wide_sha reviewed_db"
proof (rule leads_governed [OF reviewed_leads governance_step.verified])
  have "governance_reachable wide_sha staffed_db"
    by (rule quiet_governed [OF work_step.other base_db_governed [OF works_activate(2)]])
      (simp_all add: staffed_db_def base_db_def project_db_def empty_db_def)
  moreover have "flow_state_of sponsor_flow (fd_entry sponsor_flow) = Inr sponsor_state"
    by (simp add: flow_state_of_def sponsor_flow_def tiny_flow_def)
  ultimately show "governance_reachable wide_sha waiting_db"
    by (intro leads_governed [OF waiting_leads governance_step.started [OF sponsor_flow_loads]])
qed

lemma asked_db_governed: "governance_reachable wide_sha asked_db"
  by (rule leads_governed [OF asked_leads open_sponsor_governed reviewed_db_governed])

lemma answered_db_governed: "governance_reachable wide_sha answered_db"
  by (rule leads_governed [OF answered_leads governance_step.sponsored asked_db_governed])

section \<open>Who decides\<close>

text \<open>C9. Lifecycle, flow engine, governance and sponsors together: whatever the interleaving of their
  transactions, a state with a gate reserved for sponsors is only left after a sponsor of the
  project, asked by the gate of that very obligation, approved it; the approval is recorded under
  the name of the gate, about a version of the artifact verified in the same entry of the state.\<close>

theorem sponsor_gates_need_sponsors:
  assumes "governance_reachable sha d" and "run_of p w d = Some r" and "fr_status r = FlowActive"
    and "pin_route p w outcome fv version op digest d = Inr (Inr rt, d')
      \<or> mark_completion p w version op digest d = Inr (Inr (), d')"
    and "x \<in> set (db_obligations d)" and "current_obligation r x" and "fo_kind x = KGate" and "sponsor_gate x"
  shows "\<exists>g\<in>set (db_gates d). \<exists>l. ga_link g = Some l \<and> linked_obligation g l x \<and> ga_status g = GateApproved
    \<and> (\<exists>a\<in>set (db_approvals d). ap_project a = p \<and> ap_gate a = ga_id g \<and> ap_decision a = Some Approved
        \<and> (p, ap_approver a) \<in> set (db_sponsors d)
        \<and> (\<exists>e\<in>set (db_governance d). rec_key e = fo_key x \<and> go_actor e = ap_approver a \<and> go_id e = ''sponsor:'' @ ga_id g
            \<and> (\<exists>doc. go_path e = Some (fst doc) \<and> go_etag e = Some (snd doc) \<and> version_verified (db_governance d) x doc)))"
proof -
  have "managed x" "sponsored x" using assms(7,8) by (simp_all add: managed_def sponsored_def)
  with left_is_met [OF assms(1-6)] obtain e where e: "e \<in> set (db_governance d)" "rec_key e = fo_key x" "sponsor_backed d x e"
    by (auto simp: sound_def)
  have p: "fo_project x = p" using assms(6) run_ofD [OF assms(2)] by (simp add: current_obligation_def)
  from e(3) obtain g l a doc where g: "g \<in> set (db_gates d)" "ga_link g = Some l" "linked_obligation g l x" "ga_status g = GateApproved"
      "go_id e = ''sponsor:'' @ ga_id g" and a: "a \<in> set (db_approvals d)" "approval_of g (go_actor e) a"
    and doc: "go_path e = Some (fst doc)" "go_etag e = Some (snd doc)" "version_verified (db_governance d) x doc"
    unfolding sponsor_backed_def by blast
  have "(ap_project a, ap_approver a) \<in> set (db_sponsors d)"
    using work_invD(3) [OF governance_invD(5) [OF governance_reachable_inv [OF assms(1)]]] a(1) by (simp add: approvers_ok_def)
  with g a doc e(1,2) p show ?thesis
    by (intro bexI [of _ g] exI [of _ l] conjI bexI [of _ a] bexI [of _ e] exI [of _ doc])
      (simp_all add: approval_of_def linked_obligation_def)
qed

lemma answered_pins:
  "pin_route ''p'' ''w'' ''ok'' [] 1 ''op7'' ''x7'' answered_db
     = Inr (Inr route_r, after (pin_route ''p'' ''w'' ''ok'' [] 1 ''op7'' ''x7'' answered_db))"
  by code_simp

theorem sponsor_gates_need_sponsors_witness:
  "\<exists>g\<in>set (db_gates answered_db). ga_status g = GateApproved
     \<and> (\<exists>a\<in>set (db_approvals answered_db). ap_gate a = ga_id g \<and> (''p'', ap_approver a) \<in> set (db_sponsors answered_db))"
proof -
  let ?x = "last (db_obligations answered_db)"
  let ?r = "hd (db_runs answered_db)"
  have x: "?x \<in> set (db_obligations answered_db)" "fo_kind ?x = KGate" "sponsor_gate ?x" "current_obligation ?r ?x"
    "run_of ''p'' ''w'' answered_db = Some ?r" "fr_status ?r = FlowActive"
    by (simp_all add: answered_db_def asked_db_def reviewed_db_def waiting_db_def met_by_def sponsored_gate_def
      a_obligation_def sponsor_gate_def get_or_def get_def a_run_def current_obligation_def run_of_def fetchone_def)
  from sponsor_gates_need_sponsors [OF answered_db_governed x(5,6) disjI1 [OF answered_pins] x(1,4,2,3)]
  show ?thesis by blast
qed

section \<open>Decisions are final\<close>

lemma py_eq_refl:
  "keys_distinct v \<Longrightarrow> no_nan v \<Longrightarrow> py_eq v v"
  "items_distinct vs \<Longrightarrow> no_nan_items vs \<Longrightarrow> py_eq_items vs vs"
  "members_distinct m \<Longrightarrow> no_nan_members m \<Longrightarrow> (\<And>k v. (k, v) \<in> set m \<Longrightarrow> map_of m' k = Some v) \<Longrightarrow> py_eq_members m m'"
proof (induction v and vs and m arbitrary: and and m' rule: keys_distinct_items_distinct_members_distinct.induct)
  case (1 m)
  then show ?case by (auto simp: map_of_is_SomeI)
next
  case (7 k v m)
  then have k: "map_of m' k = Some v" by simp
  have "py_eq v v" "py_eq_members m m'" using 7 by simp_all
  with k show ?case by simp
qed auto

definition settled_gate :: "string \<Rightarrow> string \<Rightarrow> string \<Rightarrow> decision \<Rightarrow> string \<Rightarrow> (string \<times> json) list \<Rightarrow> string \<Rightarrow>
    approval_record \<Rightarrow> db \<Rightarrow> bool" where
  "settled_gate p g sponsor dec rationale ev dg a d = (\<exists>r\<in>set (db_gates d). \<exists>l. gate_key r = (p, g) \<and> ga_link r = Some l
     \<and> ga_status r = gate_status_of dec \<and> ga_digest r = Some dg
     \<and> a \<in> set (db_approvals d) \<and> approval_gate_key a = (p, g) \<and> ap_approver a = sponsor \<and> ap_decision a = Some dec
     \<and> ap_rationale a = Some rationale \<and> py_eq (JObj (ap_evidence a)) (JObj ev))"

lemma gate_status_of_resolved [simp]: "gate_status_of dec \<noteq> GatePending" "gate_status_of dec \<noteq> GateTimedOut"
  by (cases dec; simp add: gate_status_of_def)+

lemma settled_stays:
  assumes "settled_gate p g sponsor dec rationale ev dg a d" and "grown d d'"
  shows "settled_gate p g sponsor dec rationale ev dg a d'"
proof -
  from assms(1) obtain r l where r: "r \<in> set (db_gates d)" "gate_key r = (p, g)" "ga_link r = Some l"
    "ga_status r = gate_status_of dec" "ga_digest r = Some dg"
    and a: "a \<in> set (db_approvals d)" "approval_gate_key a = (p, g)" "ap_approver a = sponsor" "ap_decision a = Some dec"
    "ap_rationale a = Some rationale" "py_eq (JObj (ap_evidence a)) (JObj ev)"
    unfolding settled_gate_def by blast
  have "ga_status r \<noteq> GatePending" "ap_decision a \<noteq> None" using r(4) a(4) by simp_all
  with assms(2) r(1) a(1) have "r \<in> set (db_gates d')" "a \<in> set (db_approvals d')" unfolding grown_def by blast+
  with r a show ?thesis unfolding settled_gate_def by blast
qed

lemma gate_row_found:
  assumes "work_inv d" and "r \<in> set (db_gates d)" and "gate_key r = (p, g)"
  shows "gate_row_of p g d = Some r"
  unfolding gate_row_of_def
  by (rule fetchone_unique [OF gates_invD(2) [OF work_invD(1) [OF assms(1)]] assms(2)]) (use assms(3) in \<open>auto simp: gate_key_def\<close>)

lemma approval_found:
  assumes inv: "work_inv d" and a: "a \<in> set (db_approvals d)" "approval_gate_key a = (p, g)" "ap_approver a = sponsor"
  shows "fetchone (\<lambda>a. ap_project a = p \<and> ap_gate a = g \<and> ap_approver a = sponsor) (db_approvals d) = Some a"
proof (rule fetchone_unique [where k = approval_key, OF _ a(1)])
  show "distinct (map approval_key (db_approvals d))" using work_invD(2) [OF inv] by (simp add: approvals_inv_def)
  show "approval_key s = approval_key a" if "s \<in> set (db_approvals d)" "ap_project s = p \<and> ap_gate s = g \<and> ap_approver s = sponsor" for s
    using work_invD(3) [OF inv] that a by (auto simp: approvers_ok_def approval_key_def approval_gate_key_def)
qed (use a in \<open>simp add: approval_gate_key_def\<close>)

lemma settled_answer:
  assumes inv: "work_inv d" and s: "settled_gate p g sponsor dec rationale ev dg a d"
  shows "decide_sponsor_tx sha t p g sponsor dec decision rationale ev op dg d = Inr (a, d)"
    and "dg' \<noteq> dg \<Longrightarrow> decide_sponsor_tx sha t p g sponsor' dec' decision' rationale' ev' op dg' d
      \<in> {Inl LifecycleConflict, Inl LifecycleAuthorizationError}"
    and "timeout_sponsor_tx sha t observed p g actor op dg' d = Inl LifecycleConflict"
proof -
  from s obtain r l where r: "r \<in> set (db_gates d)" "gate_key r = (p, g)" "ga_link r = Some l"
    "ga_status r = gate_status_of dec" "ga_digest r = Some dg"
    and a: "a \<in> set (db_approvals d)" "approval_gate_key a = (p, g)" "ap_approver a = sponsor" "ap_decision a = Some dec"
    "ap_rationale a = Some rationale" "py_eq (JObj (ap_evidence a)) (JObj ev)"
    unfolding settled_gate_def by blast
  note row = gate_row_found [OF inv r(1,2)] and app = approval_found [OF inv a(1,2,3)]
  show "decide_sponsor_tx sha t p g sponsor dec decision rationale ev op dg d = Inr (a, d)"
    using row app r a by (simp add: decide_sponsor_tx_def of_row_def ensure_def event_transaction_def)
  show "timeout_sponsor_tx sha t observed p g actor op dg' d = Inl LifecycleConflict"
    using row r by (simp add: timeout_sponsor_tx_def of_row_def ensure_def event_transaction_def event_wrap_def Let_def)
  show "dg' \<noteq> dg \<Longrightarrow> decide_sponsor_tx sha t p g sponsor' dec' decision' rationale' ev' op dg' d
      \<in> {Inl LifecycleConflict, Inl LifecycleAuthorizationError}"
    using row r by (auto simp: decide_sponsor_tx_def of_row_def ensure_def event_transaction_def event_wrap_def split: option.splits)
qed

lemma decided_is_settled:
  assumes inv: "work_inv d" and s: "decide_sponsor_tx sha t p g sponsor dec decision rationale ev op dg d = Inr (a, d1)"
    and ev: "keys_distinct (JObj ev)" "no_nan (JObj ev)"
  shows "settled_gate p g sponsor dec rationale ev dg a d1"
proof -
  from s obtain r l b where row: "gate_row_of p g d = Some r" and l: "ga_link r = Some l"
    and b: "fetchone (\<lambda>a. ap_project a = p \<and> ap_gate a = g \<and> ap_approver a = sponsor) (db_approvals d) = Some b"
    and rest: "(if ga_status r \<noteq> GatePending
      then bindR (ensure (ga_digest r = Some dg \<and> ap_decision b = Some dec \<and> ap_rationale b = Some rationale
         \<and> py_eq (JObj (ap_evidence b)) (JObj ev)) LifecycleConflict) (\<lambda>_. Inr (b, d))
      else bindR (ensure (t < gl_expires l) LifecycleConflict) (\<lambda>_.
       decide_new sha t r l b sponsor dec decision rationale ev op dg d)) = Inr (a, d1)"
    unfolding decide_sponsor_tx_def event_transaction_Inr bindR_Inr_iff of_row_iff by blast
  from gate_row_ofD [OF row] have G: "r \<in> set (db_gates d)" "gate_key r = (p, g)" "ga_project r = p" "ga_id r = g"
    by (simp_all add: gate_key_def)
  from fetchone_SomeD [OF b] have B: "b \<in> set (db_approvals d)" "ap_project b = p" "ap_gate b = g" "ap_approver b = sponsor"
    by simp_all
  have bid: "ap_id b = g @ '':'' @ sponsor" using work_invD(3) [OF inv] B by (simp add: approvers_ok_def)
  show ?thesis
  proof (cases "ga_status r = GatePending")
    case False
    with rest have a: "a = b" "d1 = d" "ga_digest r = Some dg" "ap_decision b = Some dec" "ap_rationale b = Some rationale"
      "py_eq (JObj (ap_evidence b)) (JObj ev)" by (auto simp: bindR_Inr_iff ensure_iff)
    from work_invD(2) [OF inv] B(1) a(4) obtain h where h: "h \<in> set (db_gates d)" "gate_key h = approval_gate_key b"
      "ga_status h = gate_status_of dec" unfolding approvals_inv_def by blast
    have "h = r" using distinct_map_eq [OF gates_invD(2) [OF work_invD(1) [OF inv]] h(1) G(1)] h(2) G(2) B
      by (simp add: approval_gate_key_def)
    with a h(3) G B l show ?thesis unfolding settled_gate_def approval_gate_key_def by auto
  next
    case True
    with rest have new: "decide_new sha t r l b sponsor dec decision rationale ev op dg d = Inr (a, d1)"
      by (simp add: bindR_Inr_iff)
    let ?h = "resolved_status (gate_status_of dec) t None op dg"
    let ?f = "\<lambda>a. a\<lparr>ap_decision := Some dec, ap_rationale := Some rationale, ap_evidence := ev, ap_decided := Some t\<rparr>"
    from decide_new_Inr [OF new] have gs: "db_gates d1 = upd_where (\<lambda>x. ga_project x = ga_project r \<and> ga_id x = ga_id r) ?h (db_gates d)"
      and as: "db_approvals d1 = upd_where (\<lambda>a. ap_project a = ga_project r \<and> ap_id a = ga_id r @ '':'' @ sponsor) ?f (db_approvals d)"
      and a: "a = \<lparr>ap_project = ga_project r, ap_id = ga_id r @ '':'' @ sponsor, ap_gate = ga_id r, ap_approver = sponsor,
        ap_decision = Some dec, ap_rationale = Some rationale, ap_evidence = ev, ap_decided = Some t\<rparr>" by blast+
    have "a = ?f b" using a B bid G(3,4) by (cases b) simp
    moreover have "?f b \<in> set (db_approvals d1)" unfolding as set_upd_where using B bid G(3,4) by auto
    ultimately have "a \<in> set (db_approvals d1)" by simp
    moreover have "?h r \<in> set (db_gates d1)" unfolding gs set_upd_where using G(1) by auto
    moreover have "py_eq (JObj ev) (JObj ev)" using py_eq_refl(1) ev by blast
    ultimately show ?thesis
      unfolding settled_gate_def using G l a
      by (intro bexI [of _ "?h r"] exI [of _ l]) (simp_all add: approval_gate_key_def, simp add: resolved_status_def)
  qed
qed

text \<open>C23. The decision of a sponsor is final: once made, whatever happens afterwards, the same answer
  repeated (under any operation id, at any time) returns the approval and writes nothing, every
  other answer by any sponsor is refused, and the deadline no longer times the gate out.\<close>

theorem sponsor_decision_is_final:
  assumes "governance_reachable sha' d"
    and "decide_sponsor_tx sha t p g sponsor dec decision rationale ev op dg d = Inr (a, d1)"
    and "keys_distinct (JObj ev)" and "no_nan (JObj ev)" and "(governance_step sha')\<^sup>*\<^sup>* d1 d2"
  shows "decide_sponsor_tx sha t' p g sponsor dec decision' rationale ev op' dg d2 = Inr (a, d2)
    \<and> (dg' \<noteq> dg \<longrightarrow> decide_sponsor_tx sha t' p g sponsor' dec' decision' rationale' ev' op' dg' d2
         \<in> {Inl LifecycleConflict, Inl LifecycleAuthorizationError})
    \<and> timeout_sponsor_tx sha t' observed p g actor op' dg' d2 = Inl LifecycleConflict"
proof -
  note inv = governance_reachable_inv [OF assms(1)]
  have "governance_step sha d d1" using assms(2) by (rule governance_step.sponsored)
  from governance_step_inv [OF this inv] have i1: "governance_inv d1" .
  have "settled_gate p g sponsor dec rationale ev dg a d1 \<longrightarrow> settled_gate p g sponsor dec rationale ev dg a d2"
    by (rule governance.runs_rel [OF _ _ _ assms(5) i1])
      (use settled_stays work_step_grown [OF governance_step_work governance_invD(5)] in \<open>blast+\<close>)
  with decided_is_settled [OF governance_invD(5) [OF inv] assms(2-4)] have
    "settled_gate p g sponsor dec rationale ev dg a d2" by blast
  from settled_answer [OF governance_invD(5) [OF governance.runs_inv [OF assms(5) i1]] this] show ?thesis by blast
qed

theorem sponsor_decision_is_final_witness:
  "\<exists>a d1. answer_call 90 ''ann'' Approved ''x5'' asked_db = Inr (a, d1) \<and> answer_call 95 ''ann'' Approved ''x5'' d1 = Inr (a, d1)
     \<and> answer_call 95 ''ann'' Rejected ''x6'' d1 \<in> {Inl LifecycleConflict, Inl LifecycleAuthorizationError}"
proof -
  from answered_leads obtain a d1 where "answer_call 90 ''ann'' Approved ''x5'' asked_db = Inr (a, d1)"
    by (auto simp: leads_def split: sum.splits)
  with sponsor_decision_is_final [OF asked_db_governed this _ _ rtranclp.rtrancl_refl] show ?thesis by simp
qed

section \<open>The work goes on\<close>

text \<open>The queue item that a resolution leaves.\<close>

lemma continue_work_item:
  assumes "continue_work sha t r l cur role s actor op payload teams d = Inr d'"
  shows "\<exists>i\<in>set (db_items d'). qi_project i = strip (ga_project r)
    \<and> qi_key i = strip (''sponsor-gate:'' @ ga_id r @ '':'' @ status_text s)"
proof -
  from assms obtain d1 d2 draft x where
    m: "make_route_draft (continuation r (gl_obligation l) role (status_text s) actor) = Inr draft"
    and rt: "route_in_transaction t sha draft d1 = Inr (x, d2)"
    and rep: "gate_report sha t (ga_project r) (ga_work r) actor op (''sponsor_gate.'' @ status_text s) ''active'' payload
       \<lparr>od_topic = ''teams.approval-status'', od_payload = [(''project_id'', JStr (ga_project r)),
          (''gate_id'', JStr (ga_id r)), (''status'', JStr teams)]\<rparr> d2 = Inr d'"
    unfolding continue_work_def route_on_def bindR_pair_Inr bindR_Inr_iff [of "set_work p w st c e" for p w st c e]
      bindR_Inr_iff [of "bindR a b" for a b] bindR_Inr_iff [of "make_route_draft a" for a]
    by (auto simp: bindR_Inr_iff split: prod.splits)
  from route_keyed_after [OF rt] obtain i where "keyed_item (rd_project draft) (rd_key draft) d2 = Some i" by blast
  from fetchone_SomeD [OF this [unfolded keyed_item_def]]
  have i: "i \<in> set (db_items d2)" "qi_project i = rd_project draft" "qi_key i = rd_key draft" by simp_all
  from rep obtain e y where "append_event sha t e [work_outbound (ga_project r) (ga_work r) (''sponsor_gate.'' @ status_text s) ''active'',
      \<lparr>od_topic = ''teams.approval-status'', od_payload = [(''project_id'', JStr (ga_project r)),
          (''gate_id'', JStr (ga_id r)), (''status'', JStr teams)]\<rparr>] d2 = Inr (y, d')"
    by (auto simp: gate_report_def bindR_Inr_iff split: prod.splits)
  from append_event_frame [OF this] have "db_items d' = db_items d2" by (cases d2; cases d'; simp)
  moreover have "rd_project draft = strip (ga_project r)"
    "rd_key draft = strip (''sponsor-gate:'' @ ga_id r @ '':'' @ status_text s)"
    using m by (auto simp: make_route_draft_def continuation_def monad_simps)
  ultimately show ?thesis using i by metis
qed

section \<open>Evidence\<close>

text \<open>What the sponsor sends replaces what the record was to say: also the reviewed document, and the
  id of the gate that the event is filed under.\<close>

lemma map_of_merge: "map_of (merge a b) k = (case map_of (rev b) k of None \<Rightarrow> map_of a k | Some v \<Rightarrow> Some v)"
proof (induction b rule: rev_induct)
  case (snoc x b)
  obtain l v where "x = (l, v)" by (cases x)
  with snoc show ?case by (simp add: merge_def map_of_put)
qed (simp add: merge_def)

lemma sponsor_evidence_overrides:
  assumes "distinct (map fst ev)" and "map_of ev k = Some v"
  shows "get (decision_evidence aid g decision e ev) k = v"
proof -
  have "map_of (rev ev) k = Some v" using assms by (simp add: map_of_eq_Some_iff rev_map [symmetric])
  then show ?thesis by (simp add: decision_evidence_def get_def get_or_def map_of_merge)
qed

section \<open>Bounds\<close>

text \<open>The key of the queue item that goes on must be an identifier, and takes the id of the gate in.\<close>

lemma strip_continuation: "strip (''sponsor-gate:'' @ g @ '':'' @ status_text s) = ''sponsor-gate:'' @ g @ '':'' @ status_text s"
proof -
  have "\<not> py_space CHR ''s''" "\<not> py_space CHR ''d''" "\<not> py_space CHR ''t''" "\<not> py_space CHR ''g''" by code_simp+
  then show ?thesis by (cases s) (simp_all add: strip_def lstrip_def status_text_def)
qed

lemma continuation_fits:
  assumes "make_route_draft (continuation r oid role (status_text s) actor) = Inr draft"
  shows "length (ga_id r) + length (status_text s) \<le> 114"
proof -
  have "ident_ok (strip (''sponsor-gate:'' @ ga_id r @ '':'' @ status_text s))"
    using assms by (auto simp: make_route_draft_def continuation_def monad_simps)
  then show ?thesis unfolding strip_continuation by (simp add: ident_ok_def)
qed

text \<open>C37. Ids of gates may have 128 characters, but a gate with more than 106 is never decided and one
  with more than 105 never times out: the key of the queue item that hands the work on takes the
  id in and would be too long. Its work item stays gated as far as these operations go.\<close>

theorem long_gate_ids_never_resolve:
  assumes "gate_row_of p g d = Some r" and "ga_status r = GatePending" and "105 < length g"
  shows "(\<forall>x. timeout_sponsor_tx sha t observed p g actor op dg d \<noteq> Inr x)
    \<and> (106 < length g \<longrightarrow> (\<forall>x. decide_sponsor_tx sha t p g sponsor dec decision rationale ev op dg d \<noteq> Inr x))"
proof (intro conjI allI impI notI)
  have g: "ga_id r = g" using gate_row_ofD [OF assms(1)] by simp
  fix x assume "timeout_sponsor_tx sha t observed p g actor op dg d = Inr x"
  moreover obtain y d' where "x = (y, d')" by (cases x)
  ultimately obtain l at where n: "timeout_new sha t at r l actor op dg d = Inr (y, d')"
    using assms(1,2) by (auto simp: timeout_sponsor_tx_def event_transaction_Inr bindR_Inr_iff of_row_iff ensure_iff Let_def)
  from timeout_new_Inr [OF n] obtain draft where
    "make_route_draft (continuation r (gl_obligation l) ''project-manager'' (status_text GateTimedOut) actor) = Inr draft"
    by (auto simp: status_text_def)
  from continuation_fits [OF this] assms(3) g show False by (simp add: status_text_def)
next
  have g: "ga_id r = g" using gate_row_ofD [OF assms(1)] by simp
  fix x assume l: "106 < length g" and "decide_sponsor_tx sha t p g sponsor dec decision rationale ev op dg d = Inr x"
  moreover obtain y d' where "x = (y, d')" by (cases x)
  ultimately obtain l a where "decide_new sha t r l a sponsor dec decision rationale ev op dg d = Inr (y, d')"
    using assms(1,2) by (auto simp: decide_sponsor_tx_def event_transaction_Inr bindR_Inr_iff of_row_iff ensure_iff)
  from decide_new_Inr [OF this] obtain role draft where
    "make_route_draft (continuation r (gl_obligation l) role (status_text (gate_status_of dec)) sponsor) = Inr draft" by blast
  from continuation_fits [OF this] l g show False by (cases dec) (simp_all add: status_text_def gate_status_of_def)
qed

definition long_id :: string where
  "long_id = replicate 107 CHR ''q''"

lemma long_id_opens:
  "case open_call 80 long_id reviewed_db of Inl e \<Rightarrow> False
   | Inr (y, d) \<Rightarrow> map_option ga_status (gate_row_of ''p'' long_id d) = Some GatePending"
  by code_simp

theorem long_gate_ids_never_resolve_witness:
  "ident_ok long_id \<and> (\<exists>y d. open_call 80 long_id reviewed_db = Inr (y, d) \<and> governance_reachable wide_sha d
     \<and> (\<forall>x. decide_sponsor_tx wide_sha 90 ''p'' long_id ''ann'' Approved ''approved'' ''fine'' [] ''op5'' ''x5'' d \<noteq> Inr x))"
proof
  show "ident_ok long_id" by code_simp
  from long_id_opens obtain y d r where o: "open_call 80 long_id reviewed_db = Inr (y, d)"
    and r: "gate_row_of ''p'' long_id d = Some r" "ga_status r = GatePending" by (auto split: sum.splits)
  have "governance_reachable wide_sha d"
    by (rule governance_reachable_step [OF reviewed_db_governed open_sponsor_governed [OF o]])
  moreover have "106 < length long_id" by (simp add: long_id_def)
  ultimately show "\<exists>y d. open_call 80 long_id reviewed_db = Inr (y, d) \<and> governance_reachable wide_sha d
     \<and> (\<forall>x. decide_sponsor_tx wide_sha 90 ''p'' long_id ''ann'' Approved ''approved'' ''fine'' [] ''op5'' ''x5'' d \<noteq> Inr x)"
    using long_gate_ids_never_resolve [OF r] o by fastforce
qed

section \<open>A decision frees the work item\<close>

lemma decide_new_continues:
  assumes "decide_new sha t r l a sponsor dec decision rationale ev op dg d = Inr (y, d')"
  shows "\<exists>cur role gev d1. continue_work sha t r l cur role (gate_status_of dec) sponsor op gev decision d1 = Inr d'"
  using assms unfolding decide_new_def Let_def bindR_triple_Inr bindR_pair_Inr bindR_Inr_iff ensure_iff split_paired_Ex prod.case
  by (elim exE conjE) blast

text \<open>C24. Deciding a pending gate takes its work item on: the item, gated until then, is active again and
  a queue item under the name of the gate hands it to a role; the obligation of the gate is
  satisfied exactly when the sponsor approved, and pending otherwise.\<close>

theorem decision_frees_the_work:
  assumes "governance_reachable sha' d" and "gate_row_of p g d = Some r" and "ga_status r = GatePending"
    and "decide_sponsor_tx sha t p g sponsor dec decision rationale ev op dg d = Inr (a, d')"
  shows "(\<exists>w\<in>set (db_works d). work_key w = (p, ga_work r) \<and> wi_status w = ''gated''
      \<and> w\<lparr>wi_status := ''active'', wi_version := wi_version w + 1\<rparr> \<in> set (db_works d'))
    \<and> (\<exists>i\<in>set (db_items d'). qi_project i = strip p
         \<and> qi_key i = ''sponsor-gate:'' @ g @ '':'' @ status_text (gate_status_of dec))
    \<and> (\<exists>l. ga_link r = Some l \<and> (\<exists>x\<in>set (db_obligations d'). linked_obligation r l x)
         \<and> (\<forall>x\<in>set (db_obligations d'). linked_obligation r l x \<longrightarrow>
              fo_status x = (if dec = Approved then ObSatisfied else ObPending)))"
proof -
  note inv = governance_reachable_inv [OF assms(1)]
  from gate_row_ofD [OF assms(2)] have G: "r \<in> set (db_gates d)" "ga_project r = p" "ga_id r = g" by simp_all
  from assms(2-4) obtain l b where l: "ga_link r = Some l"
    and n: "decide_new sha t r l b sponsor dec decision rationale ev op dg d = Inr (a, d')"
    by (auto simp: decide_sponsor_tx_def event_transaction_Inr bindR_Inr_iff of_row_iff ensure_iff)
  from decide_new_Inr [OF n] obtain cur run e where lock: "lock_gate r l d = Inr (cur, run, e)"
    and ws: "db_works d' = upd_where (\<lambda>w. wi_project w = ga_project r \<and> wi_id w = ga_work r)
        (\<lambda>w. w\<lparr>wi_status := ''active'', wi_version := wi_version w + 1\<rparr>) (db_works d)"
    and os: "db_obligations d' = decided_obligations dec r l (ga_id r @ '':'' @ sponsor) (db_obligations d)" by blast
  from lock have "work_row d (ga_project r) (ga_work r) = Some cur" and gated: "wi_status cur = ''gated''"
    unfolding lock_gate_Inr by blast+
  from fetchone_SomeD [OF this(1) [unfolded work_row_def]]
  have cur: "cur \<in> set (db_works d)" "wi_project cur = p" "wi_id cur = ga_work r" using G by simp_all
  from lock obtain x where "gate_obligation (ga_project r) (ga_work r) (gl_state l) (gl_entry l) (gl_obligation l) d = Some x"
    and pend: "fo_status x = ObPending" unfolding lock_gate_Inr by blast
  then have x: "x \<in> set (db_obligations d)" "linked_obligation r l x"
    using fetchone_SomeD unfolding gate_obligation_def by (fastforce simp: linked_obligation_def)+
  have only: "z = x" if "z \<in> set (db_obligations d)" "linked_obligation r l z" for z
    using distinct_map_eq [OF governance_invD(2) [OF inv] that(1) x(1)] that(2) x(2) by (simp add: linked_key)
  have "\<exists>w\<in>set (db_works d). work_key w = (p, ga_work r) \<and> wi_status w = ''gated''
      \<and> w\<lparr>wi_status := ''active'', wi_version := wi_version w + 1\<rparr> \<in> set (db_works d')"
    using cur gated G by (intro bexI [of _ cur]) (auto simp: ws set_upd_where work_key_def)
  moreover from decide_new_continues [OF n] continue_work_item obtain i where
    "i \<in> set (db_items d')" "qi_project i = strip p" "qi_key i = ''sponsor-gate:'' @ g @ '':'' @ status_text (gate_status_of dec)"
    unfolding strip_continuation G(2,3) [symmetric] by blast
  moreover have "(\<exists>x\<in>set (db_obligations d'). linked_obligation r l x)
    \<and> (\<forall>x\<in>set (db_obligations d'). linked_obligation r l x \<longrightarrow>
         fo_status x = (if dec = Approved then ObSatisfied else ObPending))"
  proof (cases dec)
    case Approved
    let ?m = "met_by [(''governance_record_id'', JStr (''sponsor:'' @ ga_id r)), (''approval_id'', JStr (ga_id r @ '':'' @ sponsor))]"
    have os': "db_obligations d' = upd_where (\<lambda>x. linked_obligation r l x \<and> fo_status x = ObPending) ?m (db_obligations d)"
      unfolding os decided_obligations_def Approved by (simp add: met_by_def [abs_def])
    have m: "linked_obligation r l (?m z) \<longleftrightarrow> linked_obligation r l z" "fo_status (?m z) = ObSatisfied" for z
      by (simp_all add: linked_obligation_def met_by_def)
    have "?m x \<in> set (db_obligations d')" unfolding os' set_upd_where using x pend by auto
    moreover have "fo_status z = ObSatisfied" if "z \<in> set (db_obligations d')" "linked_obligation r l z" for z
    proof -
      from that(1) obtain y where y: "y \<in> set (db_obligations d)"
        "z = (if linked_obligation r l y \<and> fo_status y = ObPending then ?m y else y)" unfolding os' set_upd_where by auto
      have "linked_obligation r l y" using that(2) m(1) [of y] y(2) by (cases "z = y") auto
      then have "y = x" using only y(1) by blast
      then have "z = ?m x" using y(2) x(2) pend by simp
      then show ?thesis using m(2) by blast
    qed
    moreover have "linked_obligation r l (?m x)" using x(2) m(1) by blast
    ultimately show ?thesis unfolding Approved by (simp only: refl if_True) blast
  next
    case Rejected
    then have "db_obligations d' = db_obligations d" "(if dec = Approved then ObSatisfied else ObPending) = ObPending"
      by (simp_all add: os decided_obligations_def)
    with x only pend show ?thesis by metis
  qed
  ultimately show ?thesis using l by blast
qed

theorem decision_frees_the_work_witness:
  "\<exists>a d. answer_call 90 ''ann'' Approved ''x5'' asked_db = Inr (a, d)
     \<and> (\<exists>i\<in>set (db_items d). qi_key i = ''sponsor-gate:q:approved'')"
proof -
  from answered_leads obtain a d where a: "answer_call 90 ''ann'' Approved ''x5'' asked_db = Inr (a, d)"
    by (auto simp: leads_def split: sum.splits)
  have g: "gate_row_of ''p'' ''q'' asked_db = Some gate_q" "ga_status gate_q = GatePending"
    by (simp_all add: gate_row_of_def fetchone_def asked_db_def gate_q_def)
  from decision_frees_the_work [OF asked_db_governed g a] a show ?thesis
    by (auto simp: status_text_def gate_status_of_def)
qed

end
