(* ===== verification/PackageResolver.thy ===== *)
theory PackageResolver
  imports PyJson Secrets "HOL-Library.Product_Lexorder"
begin

text \<open>
  \<open>package_resolver.py\<close> with \<open>validate_mounted_repository\<close> of \<open>config_repository.py\<close>:
  configuration packages are loaded from the mounted repository, their dependencies are
  searched depth first, and the contents are merged into one configuration with a digest.

  The file system below the configuration root is the record \<open>config_disk\<close>, what the calls of
  \<open>pathlib\<close> answer or raise: \<open>cd_root\<close> is the first \<open>root.resolve()\<close>; \<open>cd_is_dir\<close> and \<open>cd_is_file\<close> may
  raise, a \<open>PermissionError\<close> for one; \<open>cd_glob\<close> are the matches of \<^verbatim>\<open>packages/*/*/*/package.json\<close> in
  the order the generator yields them, up to an exception; \<open>cd_read\<close> is the decoded text.
  \<open>cd_resolve\<close> is \<open>Path.resolve(strict=True)\<close> made relative to the root, \<open>None\<close> where it raises or
  leaves the root: the code catches the three classes it raises with the error of \<open>relative_to\<close>. A
  path is the list of its parts. The parameter \<open>loads\<close> is \<open>json.loads\<close>, which raises more than
  \<open>JSONDecodeError\<close> (\<open>ValueError\<close> for an integer of too many digits, \<open>RecursionError\<close>), and \<open>sha\<close> the
  hexadecimal SHA-256 of the text in UTF-8. Every \<open>except\<close> clause catches the classes it names.
\<close>

section \<open>References\<close>

datatype package_kind = System | Policy | Fragment | Role | Flow | ToolProfile | ProjectOverride

fun kind_name :: "package_kind \<Rightarrow> string" where
  "kind_name System = ''system''"
| "kind_name Policy = ''policy''"
| "kind_name Fragment = ''fragment''"
| "kind_name Role = ''role''"
| "kind_name Flow = ''flow''"
| "kind_name ToolProfile = ''tool-profile''"
| "kind_name ProjectOverride = ''project-override''"

definition kinds :: "package_kind list" where
  "kinds = [System, Policy, Fragment, Role, Flow, ToolProfile, ProjectOverride]"

text \<open>\<open>KIND_PRECEDENCE\<close>, the index in \<open>KINDS\<close>, orders the kinds.\<close>

fun kind_precedence :: "package_kind \<Rightarrow> nat" where
  "kind_precedence System = 0"
| "kind_precedence Policy = 1"
| "kind_precedence Fragment = 2"
| "kind_precedence Role = 3"
| "kind_precedence Flow = 4"
| "kind_precedence ToolProfile = 5"
| "kind_precedence ProjectOverride = 6"

lemma kinds_precedence: "map kind_precedence kinds = [0..<7]" "set kinds = UNIV"
  by (auto simp: kinds_def upt_rec intro: package_kind.exhaust)

lemma kind_precedence_inject [simp]: "kind_precedence k = kind_precedence l \<longleftrightarrow> k = l"
  by (cases k; cases l) simp_all

lemma kind_name_inject [simp]: "kind_name k = kind_name l \<longleftrightarrow> k = l"
  by (cases k; cases l) simp_all

instantiation package_kind :: linorder
begin

definition less_eq_package_kind :: "package_kind \<Rightarrow> package_kind \<Rightarrow> bool" where
  "less_eq_package_kind k l = (kind_precedence k \<le> kind_precedence l)"

definition less_package_kind :: "package_kind \<Rightarrow> package_kind \<Rightarrow> bool" where
  "less_package_kind k l = (kind_precedence k < kind_precedence l)"

instance
  by standard (auto simp: less_eq_package_kind_def less_package_kind_def)

end

record package_reference =
  rf_kind :: package_kind
  rf_id :: string
  rf_version :: string

definition reference_text :: "package_reference \<Rightarrow> string" where
  "reference_text r = kind_name (rf_kind r) @ ''/'' @ rf_id r @ ''@'' @ rf_version r"

definition reference_key :: "package_reference \<Rightarrow> package_kind \<times> string" where
  "reference_key r = (rf_kind r, reference_text r)"

text \<open>The pattern \<^verbatim>\<open>[a-z][a-z0-9-]*/[a-z][a-z0-9-]*@[0-9]+\.[0-9]+\.[0-9]+\<close>, matched in full:
  \<open>before_char\<close> and \<open>after_char\<close> split a text at the first occurrence of a character.\<close>

definition before_char :: "char \<Rightarrow> string \<Rightarrow> string" where
  "before_char c s = takeWhile (\<lambda>x. x \<noteq> c) s"

definition after_char :: "char \<Rightarrow> string \<Rightarrow> string" where
  "after_char c s = drop 1 (dropWhile (\<lambda>x. x \<noteq> c) s)"

definition name_char :: "char \<Rightarrow> bool" where
  "name_char c = (lower_char c \<or> digit_char c \<or> c = CHR ''-'')"

definition package_name_ok :: "string \<Rightarrow> bool" where
  "package_name_ok s = (s \<noteq> [] \<and> lower_char (hd s) \<and> list_all name_char s)"

definition digits_ok :: "string \<Rightarrow> bool" where
  "digits_ok s = (s \<noteq> [] \<and> list_all digit_char s)"

definition version_ok :: "string \<Rightarrow> bool" where
  "version_ok s = (let t = after_char CHR ''.'' s in
     CHR ''.'' \<in> set s \<and> CHR ''.'' \<in> set t \<and> digits_ok (before_char CHR ''.'' s)
       \<and> digits_ok (before_char CHR ''.'' t) \<and> digits_ok (after_char CHR ''.'' t))"

definition parse_reference :: "string \<Rightarrow> package_reference res" where
  "parse_reference s = (let t = after_char CHR ''/'' s in
     case find (\<lambda>k. kind_name k = before_char CHR ''/'' s) kinds of
       None \<Rightarrow> Inl PackageResolutionError
     | Some k \<Rightarrow>
         if CHR ''/'' \<in> set s \<and> CHR ''@'' \<in> set t \<and> package_name_ok (before_char CHR ''@'' t)
             \<and> version_ok (after_char CHR ''@'' t)
         then Inr \<lparr>rf_kind = k, rf_id = before_char CHR ''@'' t, rf_version = after_char CHR ''@'' t\<rparr>
         else Inl PackageResolutionError)"

text \<open>\<open>sorted(set(references), key=_reference_key)\<close>.\<close>

definition sorted_references :: "package_reference list \<Rightarrow> package_reference list" where
  "sorted_references rs = sort_key reference_key (remdups rs)"

section \<open>The mounted repository\<close>

type_synonym path = "string list"

record config_disk =
  cd_root :: "unit res"
  cd_is_dir :: "path \<Rightarrow> bool res"
  cd_is_file :: "path \<Rightarrow> bool res"
  cd_glob :: "path res list"
  cd_resolve :: "path \<Rightarrow> path option"
  cd_read :: "path \<Rightarrow> string res"

text \<open>\<open>any(manifest.is_file() for manifest in manifests)\<close> stops at the first file.\<close>

fun any_file :: "(path \<Rightarrow> bool res) \<Rightarrow> path res list \<Rightarrow> bool res" where
  "any_file f [] = Inr False"
| "any_file f (m # ms) = bindR m (\<lambda>p. bindR (f p) (\<lambda>b. if b then Inr True else any_file f ms))"

definition validate_mounted_repository :: "config_disk \<Rightarrow> unit res" where
  "validate_mounted_repository d =
     bindR (cd_is_dir d []) (\<lambda>b. bindR (ensure b ConfigRepositoryError) (\<lambda>_.
     bindR (cd_is_file d [''schemas'', ''package.schema.json'']) (\<lambda>b. bindR (ensure b ConfigRepositoryError) (\<lambda>_.
     bindR (any_file (cd_is_file d) (cd_glob d)) (\<lambda>b. ensure b ConfigRepositoryError)))))"

fun split_on :: "char \<Rightarrow> string \<Rightarrow> string list" where
  "split_on c [] = [[]]"
| "split_on c (x # xs) = (let r = split_on c xs in if x = c then [] # r else (x # hd r) # tl r)"

text \<open>\<open>Path(value)\<close> drops empty parts and single dots; \<open>is_absolute\<close> and \<open>parts\<close> are read.\<close>

definition path_parts :: "string \<Rightarrow> path" where
  "path_parts s = filter (\<lambda>p. p \<noteq> [] \<and> p \<noteq> ''.'') (split_on CHR ''/'' s)"

definition absolute_path :: "string \<Rightarrow> bool" where
  "absolute_path s = (s \<noteq> [] \<and> hd s = CHR ''/'')"

definition posix :: "path \<Rightarrow> string" where
  "posix p = (if p = [] then ''.'' else join ''/'' p)"

definition relative_to :: "path \<Rightarrow> path \<Rightarrow> path option" where
  "relative_to base p = (if take (length base) p = base then Some (drop (length base) p) else None)"

text \<open>\<open>path.suffix\<close>: from the last dot of the final part, unless that is its first or last
  character.\<close>

definition suffix :: "path \<Rightarrow> string" where
  "suffix p = (if p = [] then [] else let name = rev (last p); ext = before_char CHR ''.'' name in
     if CHR ''.'' \<in> set name \<and> ext \<noteq> [] \<and> after_char CHR ''.'' name \<noteq> [] then CHR ''.'' # rev ext else [])"

definition normalize_newlines :: "string \<Rightarrow> string" where
  "normalize_newlines s = replace_from [char_of (13::nat)] [char_of (10::nat)] 0
     (replace_from [char_of (13::nat), char_of (10::nat)] [char_of (10::nat)] 0 s)"

section \<open>Loading a package\<close>

record package_content =
  ct_path :: string
  ct_text :: string
  ct_json :: "(string \<times> json) list option"
  ct_sha :: string

record package =
  pk_reference :: package_reference
  pk_dependencies :: "package_reference list"
  pk_manifest_path :: string
  pk_manifest_sha :: string
  pk_content :: "package_content list"

definition package_root :: "package_reference \<Rightarrow> path" where
  "package_root r = [''packages'', kind_name (rf_kind r), rf_id r, rf_version r]"

definition manifest_path :: "package_reference \<Rightarrow> path" where
  "manifest_path r = package_root r @ [''package.json'']"

text \<open>The resolved package directory and the resolved manifest in it.\<close>

definition locate_package :: "config_disk \<Rightarrow> package_reference \<Rightarrow> (path \<times> path) res" where
  "locate_package d r =
     bindR (of_row PackageResolutionError (cd_resolve d (package_root r))) (\<lambda>pr.
     bindR (of_row PackageResolutionError (cd_resolve d (manifest_path r))) (\<lambda>m.
     bindR (ensure (relative_to pr m \<noteq> None) PackageResolutionError) (\<lambda>_.
     bindR (cd_is_file d m) (\<lambda>b. bindR (ensure b PackageResolutionError) (\<lambda>_.
     Inr (pr, m))))))"

definition strings_of :: "json \<Rightarrow> string list option" where
  "strings_of v = (case as_list v of None \<Rightarrow> None | Some l \<Rightarrow>
     if list_all (\<lambda>x. as_str x \<noteq> None) l then Some (map (\<lambda>x. the (as_str x)) l) else None)"

definition manifest_required :: "string list" where
  "manifest_required = [''schema_version'', ''id'', ''kind'', ''version'', ''content'']"

definition manifest_fields_ok :: "(string \<times> json) list \<Rightarrow> bool" where
  "manifest_fields_ok m = (set manifest_required \<subseteq> fst ` set m
     \<and> fst ` set m \<subseteq> set (manifest_required @ [''dependencies'', ''description'']))"

definition manifest_identity_ok :: "package_reference \<Rightarrow> (string \<times> json) list \<Rightarrow> bool" where
  "manifest_identity_ok r m = (eq_int (get m ''schema_version'') 1
     \<and> get m ''kind'' = JStr (kind_name (rf_kind r)) \<and> get m ''id'' = JStr (rf_id r)
     \<and> get m ''version'' = JStr (rf_version r))"

text \<open>The checks of the decoded manifest, answering its dependencies and its content paths.\<close>

definition read_manifest ::
  "package_reference \<Rightarrow> json \<Rightarrow> (package_reference list \<times> string list) res" where
  "read_manifest r v =
     bindR (of_row PackageResolutionError (as_obj v)) (\<lambda>m.
     bindR (ensure (manifest_fields_ok m) PackageResolutionError) (\<lambda>_.
     bindR (ensure (map_of m ''description'' = None \<or> as_str (get m ''description'') \<noteq> None)
       PackageResolutionError) (\<lambda>_.
     bindR (ensure (manifest_identity_ok r m) PackageResolutionError) (\<lambda>_.
     bindR (of_row PackageResolutionError (strings_of (get_or m ''dependencies'' (JList [])))) (\<lambda>ds.
     bindR (mapR parse_reference ds) (\<lambda>deps.
     bindR (of_row PackageResolutionError (strings_of (get m ''content''))) (\<lambda>cs.
     bindR (ensure (cs \<noteq> []) PackageResolutionError) (\<lambda>_.
     Inr (deps, cs)))))))))"

text \<open>A file whose name ends in \<^verbatim>\<open>.json\<close> in any case is settings, any other file is text.\<close>

definition decode_content :: "(string \<Rightarrow> json res) \<Rightarrow> path \<Rightarrow> string \<Rightarrow> (string \<times> json) list option res" where
  "decode_content loads f s = (if map lower (suffix f) = ''.json''
     then bindR (except_map (catching (\<lambda>e. e = JSONDecodeError) PackageResolutionError) (loads s)) (\<lambda>v.
       bindR (of_row PackageResolutionError (as_obj v)) (\<lambda>m. Inr (Some m)))
     else Inr None)"

text \<open>The body of the loop over the content paths, with the paths seen so far.\<close>

definition load_content :: "(string \<Rightarrow> json res) \<Rightarrow> (string \<Rightarrow> string) \<Rightarrow> config_disk \<Rightarrow> package_reference
    \<Rightarrow> path \<Rightarrow> string list \<Rightarrow> string \<Rightarrow> (string \<times> package_content) res" where
  "load_content loads sha d r pr seen v =
     bindR (ensure (\<not> absolute_path v \<and> ''..'' \<notin> set (path_parts v)) PackageResolutionError) (\<lambda>_.
     bindR (of_row PackageResolutionError (cd_resolve d (package_root r @ path_parts v))) (\<lambda>f.
     bindR (of_row PackageResolutionError (relative_to pr f)) (\<lambda>rel.
     bindR (cd_is_file d f) (\<lambda>b. bindR (ensure (b \<and> posix rel \<notin> set seen) PackageResolutionError) (\<lambda>_.
     bindR (except_map (catching (\<lambda>e. e \<in> {OSError, UnicodeError}) PackageResolutionError)
       (bindR (cd_read d f) (\<lambda>s. Inr (normalize_newlines s)))) (\<lambda>s.
     bindR (decode_content loads f s) (\<lambda>j.
     Inr (posix rel, \<lparr>ct_path = posix f, ct_text = s, ct_json = j, ct_sha = sha s\<rparr>))))))))"

fun load_contents :: "(string \<Rightarrow> json res) \<Rightarrow> (string \<Rightarrow> string) \<Rightarrow> config_disk \<Rightarrow> package_reference
    \<Rightarrow> path \<Rightarrow> string list \<Rightarrow> string list \<Rightarrow> package_content list res" where
  "load_contents loads sha d r pr seen [] = Inr []"
| "load_contents loads sha d r pr seen (v # vs) =
     bindR (load_content loads sha d r pr seen v) (\<lambda>(rel, c).
     bindR (load_contents loads sha d r pr (seen @ [rel]) vs) (\<lambda>cs. Inr (c # cs)))"

text \<open>The text of a manifest and its JSON value, read in one \<open>try\<close> block.\<close>

definition manifest_json :: "(string \<Rightarrow> json res) \<Rightarrow> config_disk \<Rightarrow> path \<Rightarrow> (string \<times> json) res" where
  "manifest_json loads d m =
     except_map (catching (\<lambda>e. e \<in> {OSError, UnicodeError, JSONDecodeError}) PackageResolutionError)
       (bindR (cd_read d m) (\<lambda>s. bindR (loads (normalize_newlines s)) (\<lambda>v. Inr (normalize_newlines s, v))))"

definition load_package :: "(string \<Rightarrow> json res) \<Rightarrow> (string \<Rightarrow> string) \<Rightarrow> config_disk
    \<Rightarrow> package_reference \<Rightarrow> package res" where
  "load_package loads sha d r =
     bindR (locate_package d r) (\<lambda>(pr, m).
     bindR (manifest_json loads d m) (\<lambda>(s, v).
     bindR (read_manifest r v) (\<lambda>(deps, cs).
     bindR (load_contents loads sha d r pr [] cs) (\<lambda>content.
     Inr \<lparr>pk_reference = r, pk_dependencies = deps, pk_manifest_path = posix (manifest_path r),
          pk_manifest_sha = sha s, pk_content = content\<rparr>))))"

section \<open>Searching the dependencies\<close>

text \<open>
  \<open>visit\<close> for a list of references: \<open>v\<close> is \<open>visiting\<close>, \<open>ps\<close> the values of \<open>packages\<close> in the
  order they were entered. The recursion follows the dependencies found on disk, so that it
  returns is a theorem.
\<close>

partial_function (option) visit_all :: "(package_reference \<Rightarrow> package res) \<Rightarrow> package_reference list
    \<Rightarrow> package_reference list \<Rightarrow> package list \<Rightarrow> package list res option" where
  "visit_all load rs v ps = (case rs of [] \<Rightarrow> Some (Inr ps)
   | r # rs' \<Rightarrow>
       if r \<in> pk_reference ` set ps then visit_all load rs' v ps
       else if r \<in> set v then Some (Inl PackageResolutionError)
       else case load r of Inl e \<Rightarrow> Some (Inl e)
         | Inr p \<Rightarrow> Option.bind (visit_all load (sorted_references (pk_dependencies p)) (v @ [r]) ps)
             (\<lambda>x. case x of Inl e \<Rightarrow> Some (Inl e) | Inr ps' \<Rightarrow> visit_all load rs' v (ps' @ [p])))"

section \<open>Merging\<close>

text \<open>\<open>_merge\<close>: objects are merged member by member, any other value replaces.\<close>

fun merge_settings :: "(string \<times> json) list \<Rightarrow> (string \<times> json) list \<Rightarrow> (string \<times> json) list"
and merge_value :: "json \<Rightarrow> json \<Rightarrow> json" where
  "merge_settings base [] = base"
| "merge_settings base ((k, v) # m) = merge_settings (put k (merge_value (get base k) v) base) m"
| "merge_value (JObj a) (JObj m) = JObj (merge_settings a m)"
| "merge_value w v = v"

record provenance =
  pv_package :: string
  pv_path :: string
  pv_sha :: string

record text_section =
  ts_package :: string
  ts_path :: string
  ts_text :: string

record resolved_configuration =
  rc_digest :: string
  rc_packages :: "string list"
  rc_settings :: "(string \<times> json) list"
  rc_text_sections :: "text_section list"
  rc_provenance :: "provenance list"

definition kind_order :: "package list \<Rightarrow> package list" where
  "kind_order ps = map snd (sort_key (\<lambda>(i, p). (rf_kind (pk_reference p), i)) (enumerate 0 ps))"

definition provenance_of :: "package \<Rightarrow> provenance list" where
  "provenance_of p = (let n = reference_text (pk_reference p) in
     \<lparr>pv_package = n, pv_path = pk_manifest_path p, pv_sha = pk_manifest_sha p\<rparr>
     # map (\<lambda>c. \<lparr>pv_package = n, pv_path = ct_path c, pv_sha = ct_sha c\<rparr>) (pk_content p))"

definition sections_of :: "package \<Rightarrow> text_section list" where
  "sections_of p = map (\<lambda>c. \<lparr>ts_package = reference_text (pk_reference p), ts_path = ct_path c, ts_text = ct_text c\<rparr>)
     (filter (\<lambda>c. ct_json c = None) (pk_content p))"

definition json_contents :: "package list \<Rightarrow> (string \<times> json) list list" where
  "json_contents ps = concat (map (\<lambda>p. List.map_filter ct_json (pk_content p)) ps)"

definition settings_of :: "package list \<Rightarrow> (string \<times> json) list" where
  "settings_of ps = foldl merge_settings [] (json_contents ps)"

definition section_json :: "text_section \<Rightarrow> json" where
  "section_json s = JObj [(''package'', JStr (ts_package s)), (''path'', JStr (ts_path s)),
     (''text'', JStr (ts_text s))]"

definition provenance_json :: "provenance \<Rightarrow> json" where
  "provenance_json s = JObj [(''package'', JStr (pv_package s)), (''path'', JStr (pv_path s)),
     (''sha256'', JStr (pv_sha s))]"

definition configuration_dict :: "resolved_configuration \<Rightarrow> (string \<times> json) list" where
  "configuration_dict c = [(''schema_version'', JInt 1), (''digest'', JStr (rc_digest c)),
     (''packages'', JList (map JStr (rc_packages c))), (''settings'', JObj (rc_settings c)),
     (''text_sections'', JList (map section_json (rc_text_sections c))),
     (''provenance'', JList (map provenance_json (rc_provenance c)))]"

definition calculate_configuration_digest :: "(string \<Rightarrow> string) \<Rightarrow> (string \<times> json) list \<Rightarrow> string" where
  "calculate_configuration_digest sha payload =
     sha (dumps False '','' '':'' (JObj (filter (\<lambda>(k, _). k \<noteq> ''digest'') payload)))"

definition resolved_of :: "(string \<Rightarrow> string) \<Rightarrow> package list \<Rightarrow> resolved_configuration" where
  "resolved_of sha ordered = (let
       names = map (\<lambda>p. reference_text (pk_reference p)) ordered;
       settings = settings_of ordered;
       texts = concat (map sections_of ordered);
       sources = concat (map provenance_of ordered);
       unsigned = [(''schema_version'', JInt 1), (''packages'', JList (map JStr names)), (''settings'', JObj settings),
         (''text_sections'', JList (map section_json texts)), (''provenance'', JList (map provenance_json sources))]
     in \<lparr>rc_digest = calculate_configuration_digest sha unsigned, rc_packages = names, rc_settings = settings,
         rc_text_sections = texts, rc_provenance = sources\<rparr>)"

text \<open>\<open>resolve_packages\<close>; \<open>None\<close> when the search does not return.\<close>

definition search_packages :: "(string \<Rightarrow> json res) \<Rightarrow> (string \<Rightarrow> string) \<Rightarrow> config_disk
    \<Rightarrow> package_reference list \<Rightarrow> package list res option" where
  "search_packages loads sha d rs = visit_all (load_package loads sha d) (sorted_references rs) [] []"

definition requested :: "config_disk \<Rightarrow> string list \<Rightarrow> package_reference list res" where
  "requested d references =
     bindR (ensure (references \<noteq> []) PackageResolutionError) (\<lambda>_.
     bindR (cd_root d) (\<lambda>_.
     bindR (except_map (catching value_error PackageResolutionError) (validate_mounted_repository d)) (\<lambda>_.
     mapR parse_reference references)))"

definition resolve_packages :: "(string \<Rightarrow> json res) \<Rightarrow> (string \<Rightarrow> string) \<Rightarrow> config_disk
    \<Rightarrow> string list \<Rightarrow> resolved_configuration res option" where
  "resolve_packages loads sha d references = (case requested d references of
     Inl e \<Rightarrow> Some (Inl e)
   | Inr rs \<Rightarrow> map_option (\<lambda>x. bindR x (\<lambda>ps. Inr (resolved_of sha (kind_order ps))))
       (search_packages loads sha d rs))"

section \<open>References and their texts\<close>

definition reference_ok :: "package_reference \<Rightarrow> bool" where
  "reference_ok r = (package_name_ok (rf_id r) \<and> version_ok (rf_version r))"

lemma split_char: "c \<in> set s \<Longrightarrow> before_char c s @ c # after_char c s = s"
  by (induction s) (auto simp: before_char_def after_char_def)

lemma char_split:
  assumes "c \<notin> set u"
  shows "before_char c (u @ c # v) = u" and "after_char c (u @ c # v) = v"
  using assms by (induction u) (auto simp: before_char_def after_char_def)

lemma find_kind: "find (\<lambda>k. kind_name k = x) kinds = Some k \<longleftrightarrow> kind_name k = x"
proof (cases "find (\<lambda>k. kind_name k = x) kinds")
  case None
  then have "\<forall>k. kind_name k \<noteq> x" by (auto simp: find_None_iff kinds_precedence(2))
  with None show ?thesis by auto
next
  case (Some l)
  then have "kind_name l = x" by (auto simp: find_Some_iff)
  with Some show ?thesis by auto
qed

lemma no_slash: "CHR ''/'' \<notin> set (kind_name k)"
  by (cases k) simp_all

lemma no_at: "package_name_ok s \<Longrightarrow> CHR ''@'' \<notin> set s"
proof
  assume "package_name_ok s" and "CHR ''@'' \<in> set s"
  then have "name_char CHR ''@''" by (auto simp: package_name_ok_def list_all_iff)
  moreover have "\<not> name_char CHR ''@''" by code_simp
  ultimately show False by contradiction
qed

lemma parse_reference_iff:
  "parse_reference s = Inr r \<longleftrightarrow> reference_ok r \<and> s = reference_text r"
proof
  assume a: "parse_reference s = Inr r"
  define t where "t = after_char CHR ''/'' s"
  from a have f: "kind_name (rf_kind r) = before_char CHR ''/'' s" "CHR ''/'' \<in> set s" "CHR ''@'' \<in> set t"
      "rf_id r = before_char CHR ''@'' t" "rf_version r = after_char CHR ''@'' t" "reference_ok r"
    by (auto simp: parse_reference_def Let_def find_kind reference_ok_def t_def split: option.splits if_splits)
  have "reference_text r = before_char CHR ''/'' s @ CHR ''/'' # before_char CHR ''@'' t @ CHR ''@'' # after_char CHR ''@'' t"
    by (simp add: reference_text_def f(1,4,5))
  also have "\<dots> = s" using split_char [OF f(3)] split_char [OF f(2)] by (simp add: t_def)
  finally show "reference_ok r \<and> s = reference_text r" using f(6) by simp
next
  assume a: "reference_ok r \<and> s = reference_text r"
  have s: "before_char CHR ''/'' s = kind_name (rf_kind r)"
      "after_char CHR ''/'' s = rf_id r @ CHR ''@'' # rf_version r"
    using a char_split [OF no_slash, of "rf_kind r" "rf_id r @ CHR ''@'' # rf_version r"]
    by (simp_all add: reference_text_def)
  have "before_char CHR ''@'' (rf_id r @ CHR ''@'' # rf_version r) = rf_id r"
      "after_char CHR ''@'' (rf_id r @ CHR ''@'' # rf_version r) = rf_version r"
    using a by (auto simp: reference_ok_def intro!: char_split no_at)
  moreover have "find (\<lambda>k. kind_name k = kind_name (rf_kind r)) kinds = Some (rf_kind r)"
    by (simp only: find_kind)
  moreover have "CHR ''/'' \<in> set s" using a by (simp add: reference_text_def)
  ultimately show "parse_reference s = Inr r"
    unfolding parse_reference_def Let_def s using a by (simp add: reference_ok_def)
qed

lemma parse_reference_error: "parse_reference s = Inl e \<Longrightarrow> e = PackageResolutionError"
  by (auto simp: parse_reference_def Let_def split: option.splits if_splits)

lemma reference_text_inject:
  assumes "reference_ok r" and "reference_ok s" and "reference_text r = reference_text s"
  shows "r = s"
proof -
  have "parse_reference (reference_text r) = Inr r" "parse_reference (reference_text r) = Inr s"
    using assms by (auto simp: parse_reference_iff)
  then show ?thesis by simp
qed

text \<open>The order of a set of references does not depend on how it was listed.\<close>

lemma sorted_references_cong:
  assumes "set rs = set rs'" and "\<forall>r\<in>set rs. reference_ok r"
  shows "sorted_references rs = sorted_references rs'"
  unfolding sorted_references_def
proof (rule sort_key_perm)
  show "mset (remdups rs) = mset (remdups rs')"
    using assms(1) by (simp add: set_eq_iff_mset_remdups_eq)
  show "distinct (map reference_key (remdups rs))"
    using assms(2) by (auto simp: distinct_map inj_on_def reference_key_def intro: reference_text_inject)
qed

lemma mapR_error: "mapR f xs = Inl e \<Longrightarrow> \<exists>x\<in>set xs. f x = Inl e"
  by (induction xs) (auto simp: monad_simps)

lemma parse_references_set:
  assumes "mapR parse_reference xs = Inr rs"
  shows "set rs = {r. reference_ok r \<and> reference_text r \<in> set xs}"
proof -
  from assms have m: "list_all2 (\<lambda>x r. reference_ok r \<and> x = reference_text r) xs rs"
    by (simp add: mapR_Inr_iff parse_reference_iff)
  then have "set rs \<subseteq> {r. reference_ok r \<and> reference_text r \<in> set xs}
      \<and> (\<forall>x\<in>set xs. \<exists>r\<in>set rs. reference_ok r \<and> x = reference_text r)"
    by (induction rule: list_all2_induct) auto
  then show ?thesis by (auto dest: reference_text_inject)
qed

lemma parse_references_ok:
  "(\<exists>rs. mapR parse_reference xs = Inr rs) \<longleftrightarrow> (\<forall>x\<in>set xs. \<exists>r. parse_reference x = Inr r)"
  by (induction xs) (auto simp: monad_simps)

lemma parse_references_cong:
  assumes "set xs = set ys" and "mapR parse_reference xs = Inr rs"
  shows "\<exists>rs'. mapR parse_reference ys = Inr rs' \<and> set rs = set rs' \<and> (\<forall>r\<in>set rs. reference_ok r)"
proof -
  obtain rs' where rs': "mapR parse_reference ys = Inr rs'"
    using assms parse_references_ok [of xs] parse_references_ok [of ys] by auto
  then show ?thesis
    using parse_references_set [OF assms(2)] parse_references_set [OF rs'] assms(1) by simp
qed

section \<open>Loading\<close>

lemma load_package_reference: "load_package loads sha d r = Inr p \<Longrightarrow> pk_reference p = r"
  by (auto simp: load_package_def monad_simps)

lemma read_manifest_error: "read_manifest r v = Inl e \<Longrightarrow> e = PackageResolutionError"
  by (auto simp: read_manifest_def monad_simps dest!: mapR_error parse_reference_error)

text \<open>The exceptions that no clause turns into a \<open>PackageResolutionError\<close>: of the decoder, what is
  neither a \<open>JSONDecodeError\<close> nor caught with the reading of a manifest; of the file system, all of
  \<open>root.resolve()\<close> and \<open>is_file\<close>, of the validation what is no \<open>ValueError\<close>, and of a reading what
  is neither an \<open>OSError\<close> nor a \<open>UnicodeError\<close>.\<close>

definition escapes :: "(string \<Rightarrow> json res) \<Rightarrow> config_disk \<Rightarrow> exn \<Rightarrow> bool" where
  "escapes loads d e \<longleftrightarrow> (\<exists>s. loads s = Inl e) \<and> e \<noteq> JSONDecodeError
     \<or> cd_root d = Inl e \<or> (\<exists>p. cd_is_file d p = Inl e)
     \<or> (cd_is_dir d [] = Inl e \<or> Inl e \<in> set (cd_glob d)) \<and> \<not> value_error e
     \<or> (\<exists>p. cd_read d p = Inl e) \<and> e \<notin> {OSError, UnicodeError}"

definition package_failure :: "(string \<Rightarrow> json res) \<Rightarrow> config_disk \<Rightarrow> exn \<Rightarrow> bool" where
  "package_failure loads d e \<longleftrightarrow> e = PackageResolutionError \<or> escapes loads d e"

lemma decode_content_error: "decode_content loads f s = Inl e \<Longrightarrow> package_failure loads d e"
  by (auto simp: decode_content_def monad_simps catching_def package_failure_def escapes_def split: if_splits)

lemma load_content_error:
  assumes "load_content loads sha d r pr seen v = Inl e"
  shows "package_failure loads d e"
  using assms unfolding load_content_def
  by (auto simp: monad_simps catching_def split: if_splits dest: decode_content_error [where d = d])
    (auto simp: package_failure_def escapes_def)

lemma load_contents_error:
  "load_contents loads sha d r pr seen vs = Inl e \<Longrightarrow> package_failure loads d e"
  by (induction vs arbitrary: seen) (auto simp: monad_simps dest: load_content_error)

lemma locate_package_error: "locate_package d r = Inl e \<Longrightarrow> package_failure loads d e"
  by (auto simp: locate_package_def monad_simps package_failure_def escapes_def)

lemma manifest_json_error: "manifest_json loads d m = Inl e \<Longrightarrow> package_failure loads d e"
  by (auto simp: manifest_json_def monad_simps catching_def package_failure_def escapes_def split: if_splits)

lemma load_package_error: "load_package loads sha d r = Inl e \<Longrightarrow> package_failure loads d e"
  by (auto simp: load_package_def monad_simps package_failure_def
      dest: read_manifest_error load_contents_error locate_package_error manifest_json_error)

lemma any_file_error: "any_file f ms = Inl e \<Longrightarrow> Inl e \<in> set ms \<or> (\<exists>p. f p = Inl e)"
  by (induction ms) (auto simp: monad_simps split: if_splits)

lemma validate_mounted_repository_error:
  "validate_mounted_repository d = Inl e \<Longrightarrow> e = ConfigRepositoryError \<or> cd_is_dir d [] = Inl e
     \<or> Inl e \<in> set (cd_glob d) \<or> (\<exists>p. cd_is_file d p = Inl e)"
  by (auto simp: validate_mounted_repository_def monad_simps dest!: any_file_error)

lemma requested_error:
  assumes "requested d refs = Inl e"
  shows "package_failure loads d e"
proof -
  from assms consider "e = PackageResolutionError" | "cd_root d = Inl e"
    | e' where "validate_mounted_repository d = Inl e'" "e = catching value_error PackageResolutionError e'"
    by (auto simp: requested_def monad_simps dest!: mapR_error parse_reference_error)
  then show ?thesis
  proof cases
    case 3
    with validate_mounted_repository_error [OF 3(1)] show ?thesis
      by (auto simp: catching_def package_failure_def escapes_def value_error_def)
  qed (simp_all add: package_failure_def escapes_def)
qed

text \<open>A decoder's \<open>ValueError\<close> on a manifest does reach the caller.\<close>

lemma decoder_error_escapes:
  assumes "locate_package d r = Inr (pr, m)" and "cd_read d m = Inr s" and "loads (normalize_newlines s) = Inl ValueError"
  shows "load_package loads sha d r = Inl ValueError"
  using assms by (simp add: load_package_def manifest_json_def catching_def)

lemma load_contents_json:
  "load_contents loads sha d r pr seen vs = Inr cs \<Longrightarrow> ct \<in> set cs \<Longrightarrow> ct_json ct = Some m \<Longrightarrow>
   \<exists>s. loads s = Inr (JObj m)"
proof (induction vs arbitrary: seen cs)
  case Nil
  then show ?case by simp
next
  case (Cons v vs)
  then obtain rel c cs' where c: "load_content loads sha d r pr seen v = Inr (rel, c)" "cs = c # cs'"
      "load_contents loads sha d r pr (seen @ [rel]) vs = Inr cs'"
    by (auto simp: monad_simps)
  show ?case
  proof (cases "ct \<in> set cs'")
    case True
    with Cons.IH c(3) Cons.prems(3) show ?thesis by blast
  next
    case False
    with Cons.prems(2) c(2) have "ct = c" by simp
    with c(1) Cons.prems(3) show ?thesis
      by (auto simp: load_content_def decode_content_def monad_simps split: if_splits)
  qed
qed

lemma load_package_json:
  assumes "load_package loads sha d r = Inr p" and "m \<in> set (List.map_filter ct_json (pk_content p))"
  shows "\<exists>s. loads s = Inr (JObj m)"
  using assms by (auto simp: load_package_def monad_simps map_filter_def dest: load_contents_json)

section \<open>Merging settings\<close>

text \<open>The value at a path of keys, and whether an object says anything about that path: it has
  a member there, or a value that is no object above it.\<close>

fun setting_at :: "string list \<Rightarrow> (string \<times> json) list \<Rightarrow> json option" where
  "setting_at [] m = Some (JObj m)"
| "setting_at (k # ks) m = (case map_of m k of None \<Rightarrow> None
     | Some v \<Rightarrow> if ks = [] then Some v else (case as_obj v of None \<Rightarrow> None | Some m' \<Rightarrow> setting_at ks m'))"

fun touches :: "string list \<Rightarrow> (string \<times> json) list \<Rightarrow> bool" where
  "touches [] m = True"
| "touches (k # ks) m = (case map_of m k of None \<Rightarrow> False
     | Some v \<Rightarrow> (case as_obj v of None \<Rightarrow> True | Some m' \<Rightarrow> touches ks m'))"

lemma get_put: "get (put k v m) k' = (if k' = k then v else get m k')"
  by (simp add: get_def get_or_def map_of_put)

lemma merge_settings_lookup:
  "distinct (map fst m) \<Longrightarrow> map_of (merge_settings base m) k = (case map_of m k of
     None \<Rightarrow> map_of base k | Some v \<Rightarrow> Some (merge_value (get base k) v))"
proof (induction m arbitrary: base)
  case Nil
  then show ?case by simp
next
  case (Cons kv m)
  obtain l v where kv: "kv = (l, v)" by (cases kv)
  from Cons kv have "map_of m l = None" by (auto simp: map_of_eq_None_iff)
  with Cons kv show ?case by (auto simp: map_of_put get_put split: option.splits)
qed

lemma merge_value_leaf: "as_obj v = None \<Longrightarrow> merge_value w v = v"
  by (cases "(w, v)" rule: merge_value.cases) auto

lemma merge_value_obj: "merge_value w (JObj m) = (case as_obj w of None \<Rightarrow> JObj m | Some a \<Rightarrow> JObj (merge_settings a m))"
  by (cases w) auto

lemma merge_sets:
  assumes "keys_distinct (JObj m)" and "setting_at ks m = Some v" and "as_obj v = None"
  shows "setting_at ks (merge_settings base m) = Some v"
  using assms
proof (induction ks m arbitrary: base rule: setting_at.induct)
  case (1 m)
  then show ?case by auto
next
  case (2 k ks m)
  from 2(3) obtain w where w: "map_of m k = Some w" by (auto split: option.splits)
  have l: "map_of (merge_settings base m) k = Some (merge_value (get base k) w)"
    using 2(2) w by (simp add: merge_settings_lookup)
  show ?case
  proof (cases "ks = []")
    case True
    with 2(3,4) w l show ?thesis by (simp add: merge_value_leaf)
  next
    case False
    with 2(3) w obtain m' where m': "w = JObj m'" "setting_at ks m' = Some v"
      by (auto split: option.splits)
    have "keys_distinct (JObj m')" using members_distinct_member 2(2) w m'(1) by fastforce
    from 2(1) [OF w False _ this m'(2) 2(4)] m'(1) False l m'(2) show ?thesis
      by (auto simp: merge_value_obj split: option.splits)
  qed
qed

lemma untouched: "\<not> touches ks m \<Longrightarrow> setting_at ks m = None"
  by (induction ks m rule: touches.induct) (auto split: option.splits if_splits)

lemma merge_leaves:
  assumes "keys_distinct (JObj m)" and "\<not> touches ks m"
  shows "setting_at ks (merge_settings base m) = setting_at ks base"
  using assms
proof (induction ks m arbitrary: base rule: touches.induct)
  case (1 m)
  then show ?case by simp
next
  case (2 k ks m)
  show ?case
  proof (cases "map_of m k")
    case None
    with 2(2) have "map_of (merge_settings base m) k = map_of base k" by (simp add: merge_settings_lookup)
    then show ?thesis by simp
  next
    case (Some w)
    with 2(3) obtain m' where m': "w = JObj m'" "\<not> touches ks m'" by (auto split: option.splits)
    then have ks: "ks \<noteq> []" by auto
    have "keys_distinct (JObj m')" using members_distinct_member 2(2) Some m'(1) by fastforce
    from 2(1) [OF Some _ this m'(2)] m'(1)
    have IH: "setting_at ks (merge_settings a m') = setting_at ks a" for a by simp
    have "map_of (merge_settings base m) k = Some (merge_value (get base k) w)"
      using 2(2) Some by (simp add: merge_settings_lookup)
    with ks IH m'(1) untouched [OF m'(2)] show ?thesis
      by (auto simp: merge_value_obj get_def get_or_def split: option.splits)
  qed
qed

text \<open>In a sequence of merges the last word on a path stands.\<close>

lemma foldl_merge_leaves:
  "\<forall>m\<in>set ms. keys_distinct (JObj m) \<and> \<not> touches ks m \<Longrightarrow>
   setting_at ks (foldl merge_settings base ms) = setting_at ks base"
  by (induction ms arbitrary: base) (auto simp: merge_leaves)

lemma last_word_stands:
  assumes "ms = us @ m # vs" and "\<forall>x\<in>set ms. keys_distinct (JObj x)"
    and "setting_at ks m = Some v" and "as_obj v = None" and "\<forall>x\<in>set vs. \<not> touches ks x"
  shows "setting_at ks (foldl merge_settings base ms) = Some v"
proof -
  have "setting_at ks (foldl merge_settings base ms) = setting_at ks (merge_settings (foldl merge_settings base us) m)"
    using assms(1,2,5) by (simp add: foldl_merge_leaves del: keys_distinct.simps)
  also have "\<dots> = Some v" using assms(1-4) by (intro merge_sets) auto
  finally show ?thesis .
qed

end
