(* ===== verification/PackageSearch.thy ===== *)
theory PackageSearch
  imports PackageResolver
begin

text \<open>
  The dependency search of the package resolver, for any way of loading packages: the locale
  \<open>package_source\<close> states what the search relies on, and its lemmas say when the search
  returns, what a successful search has collected and what a failed one has found. The
  resolver's \<open>load_package\<close> interprets it. Then the facts about references and about merging.
\<close>

section \<open>Dependencies\<close>

definition needs :: "(package_reference \<Rightarrow> package res) \<Rightarrow> package_reference \<Rightarrow> package_reference \<Rightarrow> bool" where
  "needs load r x \<longleftrightarrow> (\<exists>p. load r = Inr p \<and> x \<in> set (pk_dependencies p))"

text \<open>A list of packages in which each is loaded, new, and has its dependencies before it.\<close>

fun dependency_order :: "(package_reference \<Rightarrow> package res) \<Rightarrow> package_reference set \<Rightarrow> package list \<Rightarrow> bool" where
  "dependency_order load s [] = True"
| "dependency_order load s (p # ps) = (load (pk_reference p) = Inr p \<and> set (pk_dependencies p) \<subseteq> s
     \<and> pk_reference p \<notin> s \<and> dependency_order load (insert (pk_reference p) s) ps)"

lemma dependency_order_append: "dependency_order load s (ps @ qs) \<longleftrightarrow>
    dependency_order load s ps \<and> dependency_order load (s \<union> pk_reference ` set ps) qs"
  by (induction ps arbitrary: s) auto

lemma dependency_order_distinct:
  "dependency_order load s ps \<Longrightarrow> distinct (map pk_reference ps) \<and> pk_reference ` set ps \<inter> s = {}"
  by (induction ps arbitrary: s) auto

lemma dependency_order_loads:
  "dependency_order load s ps \<Longrightarrow> p \<in> set ps \<Longrightarrow> load (pk_reference p) = Inr p"
  by (induction ps arbitrary: s) auto

lemma dependency_order_before:
  assumes "dependency_order load {} ps" and "ps = us @ p # vs" and "needs load (pk_reference p) x"
  shows "x \<in> pk_reference ` set us"
  using assms by (auto simp: dependency_order_append needs_def)

lemma ordered_reachable:
  assumes "dependency_order load {} ps" and "r \<in> pk_reference ` set ps" and "(needs load)\<^sup>+\<^sup>+ r x"
  shows "x \<in> pk_reference ` set ps \<and> x \<noteq> r"
  using assms
proof (induction ps arbitrary: r x rule: rev_induct)
  case Nil
  then show ?case by simp
next
  case (snoc p ps)
  from snoc.prems(1) have o: "dependency_order load {} ps" and p: "load (pk_reference p) = Inr p"
      "set (pk_dependencies p) \<subseteq> pk_reference ` set ps" "pk_reference p \<notin> pk_reference ` set ps"
    by (auto simp: dependency_order_append)
  show ?case
  proof (cases "r \<in> pk_reference ` set ps")
    case True
    from snoc.IH [OF o True snoc.prems(3)] show ?thesis by auto
  next
    case False
    with snoc.prems(2) have r: "r = pk_reference p" by auto
    from tranclpD [OF snoc.prems(3)] obtain y where y: "needs load r y" "(needs load)\<^sup>*\<^sup>* y x"
      by blast
    from y(1) p r have "y \<in> pk_reference ` set ps" by (auto simp: needs_def)
    with rtranclpD [OF y(2)] snoc.IH [OF o, of y x] have "x \<in> pk_reference ` set ps" by blast
    with p(3) r show ?thesis by (cases "x = r") simp_all
  qed
qed

lemma ordered_closed:
  assumes "dependency_order load {} ps" and "r \<in> pk_reference ` set ps" and "(needs load)\<^sup>*\<^sup>* r x"
  shows "x \<in> pk_reference ` set ps"
  using ordered_reachable [OF assms(1,2), of x] assms(2,3) by (auto dest: rtranclpD)

section \<open>The search\<close>

lemma set_sorted_references [simp]: "set (sorted_references rs) = set rs"
  by (simp add: sorted_references_def)

text \<open>What a failed search has found: a package it cannot load, or a cycle.\<close>

definition obstructed :: "(package_reference \<Rightarrow> package res) \<Rightarrow> package_reference set \<Rightarrow> exn \<Rightarrow> bool" where
  "obstructed load rs e \<longleftrightarrow> (\<exists>r\<in>rs. \<exists>y. (needs load)\<^sup>*\<^sup>* r y \<and>
     (load y = Inl e \<or> e = PackageResolutionError \<and> (needs load)\<^sup>+\<^sup>+ y y))"

definition collected :: "(package_reference \<Rightarrow> package res) \<Rightarrow> package_reference list \<Rightarrow> package list
    \<Rightarrow> package_reference list \<Rightarrow> package list \<Rightarrow> bool" where
  "collected load v ps rs ps' \<longleftrightarrow> (\<exists>qs. ps' = ps @ qs \<and> dependency_order load {} ps'
     \<and> set rs \<subseteq> pk_reference ` set ps' \<and> pk_reference ` set qs \<inter> set v = {}
     \<and> (\<forall>q\<in>set qs. \<exists>r\<in>set rs. (needs load)\<^sup>*\<^sup>* r (pk_reference q)))"

lemma obstructed_insert: "obstructed load s e \<Longrightarrow> obstructed load (insert r s) e"
  by (auto simp: obstructed_def)

lemma obstructed_deps:
  assumes "load r = Inr p" and "obstructed load (set (pk_dependencies p)) e"
  shows "obstructed load (set (r # rs)) e"
proof -
  from assms(2) obtain x y where x: "x \<in> set (pk_dependencies p)" "(needs load)\<^sup>*\<^sup>* x y"
      "load y = Inl e \<or> e = PackageResolutionError \<and> (needs load)\<^sup>+\<^sup>+ y y"
    unfolding obstructed_def by blast
  from x(1) assms(1) have "needs load r x" by (auto simp: needs_def)
  then have "(needs load)\<^sup>*\<^sup>* r y" using x(2) by (rule converse_rtranclp_into_rtranclp)
  with x(3) show ?thesis by (auto simp: obstructed_def)
qed

lemma collected_seen:
  assumes "collected load v ps rs ps'" and "r \<in> pk_reference ` set ps"
  shows "collected load v ps (r # rs) ps'"
  using assms unfolding collected_def by fastforce

lemma collected_loaded:
  assumes p: "load r = Inr p" "pk_reference p = r" and r: "r \<notin> pk_reference ` set ps" "r \<notin> set v"
    and c1: "collected load (v @ [r]) ps (sorted_references (pk_dependencies p)) ps1"
    and c2: "collected load v (ps1 @ [p]) rs ps2"
  shows "collected load v ps (r # rs) ps2"
proof -
  from c1 obtain qs where q: "ps1 = ps @ qs" "pk_reference ` set qs \<inter> set (v @ [r]) = {}"
      "\<forall>q\<in>set qs. \<exists>x\<in>set (pk_dependencies p). (needs load)\<^sup>*\<^sup>* x (pk_reference q)"
    unfolding collected_def by auto
  from c2 obtain us where u: "ps2 = (ps1 @ [p]) @ us" "dependency_order load {} ps2"
      "set rs \<subseteq> pk_reference ` set ps2" "pk_reference ` set us \<inter> set v = {}"
      "\<forall>q\<in>set us. \<exists>x\<in>set rs. (needs load)\<^sup>*\<^sup>* x (pk_reference q)"
    unfolding collected_def by blast
  have "(needs load)\<^sup>*\<^sup>* r (pk_reference q')" if q': "q' \<in> set qs" for q'
  proof -
    from q(3) q' obtain x where "x \<in> set (pk_dependencies p)" "(needs load)\<^sup>*\<^sup>* x (pk_reference q')"
      by blast
    moreover from this(1) p(1) have "needs load r x" by (auto simp: needs_def)
    ultimately show ?thesis by (blast intro: converse_rtranclp_into_rtranclp)
  qed
  then have "\<forall>q'\<in>set (qs @ [p] @ us). \<exists>x\<in>set (r # rs). (needs load)\<^sup>*\<^sup>* x (pk_reference q')"
    using u(5) p(2) by auto
  moreover have "ps2 = ps @ (qs @ [p] @ us)" using q(1) u(1) by simp
  moreover have "pk_reference ` set (qs @ [p] @ us) \<inter> set v = {}" using q(2) u(4) p(2) r(2) by auto
  moreover have "set (r # rs) \<subseteq> pk_reference ` set ps2" using u(1,3) p(2) by auto
  ultimately show ?thesis unfolding collected_def using u(2) by blast
qed

lemma collected_next:
  assumes "load r = Inr p" and "pk_reference p = r" and "r \<notin> pk_reference ` set ps"
    and "collected load (v @ [r]) ps (sorted_references (pk_dependencies p)) ps1"
  shows "dependency_order load {} (ps1 @ [p])"
  using assms by (auto simp: collected_def dependency_order_append)

definition search_ok :: "(package_reference \<Rightarrow> package res) \<Rightarrow> package_reference list \<Rightarrow> package list
    \<Rightarrow> package_reference list \<Rightarrow> package list res \<Rightarrow> bool" where
  "search_ok load v ps rs x \<longleftrightarrow> (case x of
     Inr ps' \<Rightarrow> collected load v ps rs ps'
   | Inl e \<Rightarrow> (\<forall>x\<in>set v. \<forall>r\<in>set rs. (needs load)\<^sup>+\<^sup>+ x r) \<longrightarrow> obstructed load (set rs) e)"

lemma search_ok_load:
  assumes p: "load r = Inr p" "pk_reference p = r" and r: "r \<notin> pk_reference ` set ps" "r \<notin> set v"
    and d: "search_ok load (v @ [r]) ps (sorted_references (pk_dependencies p)) y"
    and f: "y = Inl e \<Longrightarrow> x = Inl e"
    and s: "\<And>ps1. y = Inr ps1 \<Longrightarrow> dependency_order load {} (ps1 @ [p]) \<Longrightarrow>
      search_ok load v (ps1 @ [p]) rs x"
    and e: "y = Inl e \<or> y = Inr ps0"
  shows "search_ok load v ps (r # rs) x"
  using e
proof
  assume y: "y = Inl e"
  have "obstructed load (set (r # rs)) e"
    if v: "\<forall>u\<in>set v. \<forall>z\<in>set (r # rs). (needs load)\<^sup>+\<^sup>+ u z"
  proof (rule obstructed_deps [of load r p e rs])
    show "load r = Inr p" by (rule p(1))
    have "needs load r z" if "z \<in> set (pk_dependencies p)" for z
      using p(1) that by (auto simp: needs_def)
    then have "\<forall>u\<in>set (v @ [r]). \<forall>z\<in>set (pk_dependencies p). (needs load)\<^sup>+\<^sup>+ u z"
      using v by (auto intro: tranclp.trancl_into_trancl)
    with d y show "obstructed load (set (pk_dependencies p)) e" by (simp add: search_ok_def)
  qed
  with f y show ?thesis by (simp add: search_ok_def)
next
  assume y: "y = Inr ps0"
  from d y have c: "collected load (v @ [r]) ps (sorted_references (pk_dependencies p)) ps0"
    by (simp add: search_ok_def)
  from collected_next [OF p r(1) c] s y have sx: "search_ok load v (ps0 @ [p]) rs x" by blast
  show ?thesis
  proof (cases x)
    case (Inl e')
    with sx show ?thesis by (auto simp: search_ok_def intro: obstructed_insert)
  next
    case (Inr ps2)
    with sx collected_loaded [OF p r c] show ?thesis by (simp add: search_ok_def)
  qed
qed

lemma visit_all_ok:
  assumes "visit_all load rs v ps = Some x"
  shows "(\<forall>r p. load r = Inr p \<longrightarrow> pk_reference p = r) \<longrightarrow> dependency_order load {} ps \<longrightarrow> search_ok load v ps rs x"
  using assms
proof (induction load rs v ps x rule: visit_all.raw_induct [rotated, consumes 1, case_names step])
  case (step f load rs v ps x)
  show ?case
  proof (intro impI)
    assume src: "\<forall>r p. load r = Inr p \<longrightarrow> pk_reference p = r" and o: "dependency_order load {} ps"
    show "search_ok load v ps rs x"
    proof (cases rs)
      case Nil
      with step(2) o show ?thesis by (auto simp: search_ok_def collected_def)
    next
      case (Cons r rs')
      show ?thesis
      proof (cases "r \<in> pk_reference ` set ps")
        case True
        with step(2) Cons have "f load rs' v ps = Some x" by simp
        from step(1) [OF this] src o have "search_ok load v ps rs' x" by blast
        with True Cons show ?thesis
          by (cases x) (auto simp: search_ok_def intro: collected_seen obstructed_insert)
      next
        case new: False
        show ?thesis
        proof (cases "r \<in> set v")
          case True
          with step(2) Cons new have "x = Inl PackageResolutionError" by simp
          with True Cons show ?thesis by (auto simp: search_ok_def obstructed_def)
        next
          case False
          show ?thesis
          proof (cases "load r")
            case (Inl e)
            with step(2) Cons new False have "x = Inl e" by simp
            with Inl Cons show ?thesis by (auto simp: search_ok_def obstructed_def)
          next
            case (Inr p)
            have p: "pk_reference p = r" using src Inr by blast
            from step(2) Cons new False Inr obtain y where y: "f load (sorted_references (pk_dependencies p)) (v @ [r]) ps = Some y"
                "(case y of Inl e \<Rightarrow> Some (Inl e) | Inr ps' \<Rightarrow> f load rs' v (ps' @ [p])) = Some x"
              by (auto simp: Option.bind_eq_Some_conv)
            have d: "search_ok load (v @ [r]) ps (sorted_references (pk_dependencies p)) y"
              using step(1) [OF y(1)] src o by blast
            have s: "search_ok load v (ps1 @ [p]) rs' x"
              if "y = Inr ps1" "dependency_order load {} (ps1 @ [p])" for ps1
              using step(1) [of load rs' v "ps1 @ [p]" x] y(2) that src by simp
            have "y = Inl (projl y) \<or> y = Inr (projr y)" by (cases y) simp_all
            from search_ok_load [OF Inr p new False d _ s this] y(2)
            show ?thesis unfolding Cons by (cases y) simp_all
          qed
        qed
      qed
    qed
  qed
qed

locale package_source =
  fixes load :: "package_reference \<Rightarrow> package res"
  assumes load_reference: "load r = Inr p \<Longrightarrow> pk_reference p = r"
begin

lemma search_sound:
  assumes "visit_all load rs [] [] = Some (Inr ps)"
  shows "dependency_order load {} ps"
    and "pk_reference ` set ps = {x. \<exists>r\<in>set rs. (needs load)\<^sup>*\<^sup>* r x}"
proof -
  from visit_all_ok [OF assms] load_reference have c: "collected load [] [] rs ps"
    by (simp add: search_ok_def)
  then show o: "dependency_order load {} ps" by (simp add: collected_def)
  from c have "\<exists>r\<in>set rs. (needs load)\<^sup>*\<^sup>* r (pk_reference p)" if "p \<in> set ps" for p
    using that by (auto simp: collected_def)
  moreover from c have "set rs \<subseteq> pk_reference ` set ps" by (auto simp: collected_def)
  ultimately show "pk_reference ` set ps = {x. \<exists>r\<in>set rs. (needs load)\<^sup>*\<^sup>* r x}"
    using ordered_closed [OF o] by blast
qed

lemma search_failure:
  "visit_all load rs [] [] = Some (Inl e) \<Longrightarrow> obstructed load (set rs) e"
  using visit_all_ok [of load rs "[]" "[]" "Inl e"] load_reference by (simp add: search_ok_def)

lemma search_unobstructed:
  assumes "visit_all load rs [] [] = Some (Inr ps)"
  shows "\<not> obstructed load (set rs) e"
proof
  assume "obstructed load (set rs) e"
  then obtain r y where y: "r \<in> set rs" "(needs load)\<^sup>*\<^sup>* r y"
      "load y = Inl e \<or> (needs load)\<^sup>+\<^sup>+ y y"
    unfolding obstructed_def by blast
  then have "y \<in> pk_reference ` set ps" using search_sound(2) [OF assms] by blast
  then show False
    using y(3) ordered_reachable [OF search_sound(1) [OF assms], of y y]
      dependency_order_loads [OF search_sound(1) [OF assms]] by auto
qed

lemma search_returns:
  assumes fin: "finite {r. \<exists>p. load r = Inr p}"
  shows "\<exists>x. visit_all load rs v ps = Some x"
proof (induction "card ({r. \<exists>p. load r = Inr p} - set v)" arbitrary: v ps rs rule: less_induct)
  case less
  show ?case
  proof (induction rs arbitrary: ps)
    case Nil
    show ?case by (simp add: visit_all.simps)
  next
    case (Cons r rs)
    show ?case
    proof (cases "load r")
      case (Inr p)
      show ?thesis
      proof (cases "r \<in> set v")
        case False
        then have "{r. \<exists>p. load r = Inr p} - set (v @ [r]) \<subset> {r. \<exists>p. load r = Inr p} - set v"
          using Inr by auto
        then have "card ({r. \<exists>p. load r = Inr p} - set (v @ [r])) < card ({r. \<exists>p. load r = Inr p} - set v)"
          using fin by (intro psubset_card_mono) auto
        from less [OF this] obtain y where
          y: "visit_all load (sorted_references (pk_dependencies p)) (v @ [r]) ps = Some y" by blast
        show ?thesis
          using Inr y Cons.IH by (cases y) (auto simp: visit_all.simps [of load "r # rs" v ps])
      qed (use Cons.IH in \<open>auto simp: visit_all.simps [of load "r # rs" v ps]\<close>)
    qed (use Cons.IH in \<open>auto simp: visit_all.simps [of load "r # rs" v ps]\<close>)
  qed
qed

end

interpretation resolver: package_source "load_package loads sha d" for loads sha d
  by unfold_locales (rule load_package_reference)

section \<open>The order of the packages\<close>

lemma kind_order_mset [simp]: "mset (kind_order ps) = mset ps"
proof -
  have "mset (kind_order ps) = image_mset snd (mset (enumerate 0 ps))" by (simp add: kind_order_def)
  also have "\<dots> = mset (map snd (enumerate 0 ps))" by (simp only: mset_map)
  finally show ?thesis by simp
qed

lemma kind_order_set [simp]: "set (kind_order ps) = set ps"
  by (rule mset_eq_setD) simp

lemma kind_order_distinct:
  "distinct (map pk_reference ps) \<Longrightarrow> distinct (map pk_reference (kind_order ps))"
proof -
  have "mset (map pk_reference (kind_order ps)) = mset (map pk_reference ps)"
    by (simp only: mset_map kind_order_mset)
  then show "distinct (map pk_reference ps) \<Longrightarrow> distinct (map pk_reference (kind_order ps))"
    using mset_eq_imp_distinct_iff by blast
qed

lemma sorted_before:
  assumes "sorted (map f xs)" and "i < length xs" and "y \<in> set xs" and "f y < f (xs ! i)"
  shows "\<exists>j<i. xs ! j = y"
proof -
  from assms(3) obtain j where j: "j < length xs" "xs ! j = y" by (auto simp: in_set_conv_nth)
  have "\<not> i \<le> j"
    using assms(1,2,4) j sorted_nth_mono [OF assms(1), of i j] by auto
  with j show ?thesis by (intro exI [of _ j]) simp
qed

lemma kind_order_sorted: "sorted (map (\<lambda>p. rf_kind (pk_reference p)) (kind_order ps))"
proof -
  let ?key = "\<lambda>(i::nat, p). (rf_kind (pk_reference p), i)"
  let ?es = "sort_key ?key (enumerate 0 ps)"
  have "sorted (map ?key ?es)" by (rule sorted_sort_key)
  then have "sorted_wrt (\<lambda>x y. ?key x \<le> ?key y) ?es" by (simp add: sorted_map)
  then have "sorted_wrt (\<lambda>x y. rf_kind (pk_reference (snd x)) \<le> rf_kind (pk_reference (snd y))) ?es"
    by (rule sorted_wrt_mono_rel [rotated]) (auto simp: less_eq_prod_def)
  then show ?thesis by (simp add: kind_order_def sorted_map sorted_wrt_map)
qed

lemma kind_order_before:
  assumes o: "dependency_order load {} ps" and i: "i < length ps"
    and x: "needs load (pk_reference (kind_order ps ! i)) x"
    and k: "rf_kind x \<le> rf_kind (pk_reference (kind_order ps ! i))"
  shows "\<exists>j<i. pk_reference (kind_order ps ! j) = x"
proof -
  let ?key = "\<lambda>(i::nat, p). (rf_kind (pk_reference p), i)"
  define es where "es = sort_key ?key (enumerate 0 ps)"
  have len: "length es = length ps" by (simp add: es_def)
  have nth: "kind_order ps ! j = snd (es ! j)" if "j < length ps" for j
    using that len by (simp add: kind_order_def es_def [symmetric])
  have set: "set es = {(n, ps ! n) |n. n < length ps}"
    by (auto simp: es_def in_set_enumerate_eq)
  obtain n where n: "es ! i = (n, ps ! n)" "n < length ps"
    using set i len nth_mem [of i es] by auto
  then have p: "kind_order ps ! i = ps ! n" using nth i by simp
  have "x \<in> pk_reference ` set (take n ps)"
    using dependency_order_before [OF o id_take_nth_drop [OF n(2)]] x p by simp
  then obtain m where m: "m < n" "pk_reference (ps ! m) = x"
    using n(2) by (auto simp: in_set_conv_nth)
  have "(m, ps ! m) \<in> set es" using set m(1) n(2) by auto
  moreover have "?key (m, ps ! m) < ?key (es ! i)"
    using k p m n(1) by (auto simp: less_prod_def)
  moreover have "sorted (map ?key es)" by (simp add: es_def)
  ultimately obtain j where "j < i" "es ! j = (m, ps ! m)"
    using sorted_before [of ?key es i "(m, ps ! m)"] i len by auto
  then show ?thesis using m(2) nth i by (intro exI [of _ j]) simp
qed

section \<open>A resolution\<close>

lemma resolve_packages_Inr:
  assumes "resolve_packages loads sha d references = Some (Inr c)"
  obtains rs ps where "requested d references = Inr rs"
    and "search_packages loads sha d rs = Some (Inr ps)" and "c = resolved_of sha (kind_order ps)"
  using assms by (auto simp: resolve_packages_def monad_simps split: sum.splits)

lemma search_packages_order:
  "search_packages loads sha d rs = Some (Inr ps) \<Longrightarrow> dependency_order (load_package loads sha d) {} ps"
  unfolding search_packages_def by (rule resolver.search_sound)

lemma search_packages_set:
  "search_packages loads sha d rs = Some (Inr ps) \<Longrightarrow>
   pk_reference ` set ps = {x. \<exists>r\<in>set rs. (needs (load_package loads sha d))\<^sup>*\<^sup>* r x}"
  using resolver.search_sound(2) [of loads sha d "sorted_references rs" ps]
  by (simp add: search_packages_def)

lemma obstructed_error: "obstructed (load_package loads sha d) rs e \<Longrightarrow> package_failure loads d e"
  by (auto simp: obstructed_def package_failure_def [where e = PackageResolutionError] dest: load_package_error)

end
