(* ===== verification/PackageProperties.thy ===== *)
theory PackageProperties
  imports PackageSearch
begin

text \<open>
  What a caller of \<open>resolve_packages\<close> can rely on, with a small repository on which the
  properties are instantiated: a system package and a role that depends on it, as in the tests
  of the resolver.
\<close>

section \<open>A sample repository\<close>

text \<open>A disk without links, from the list of its files.\<close>

definition disk_of :: "(path \<times> string) list \<Rightarrow> config_disk" where
  "disk_of fs = \<lparr>
     cd_root = Inr (),
     cd_is_dir = (\<lambda>p. Inr (\<exists>f\<in>set fs. length p < length (fst f) \<and> take (length p) (fst f) = p)),
     cd_is_file = (\<lambda>p. Inr (p \<in> fst ` set fs)),
     cd_glob = map Inr (filter (\<lambda>p. length p = 5 \<and> hd p = ''packages'' \<and> last p = ''package.json'') (map fst fs)),
     cd_resolve = (\<lambda>p. if \<exists>f\<in>set fs. take (length p) (fst f) = p then Some p else None),
     cd_read = (\<lambda>p. of_row OSError (map_of fs p))\<rparr>"

definition sample_manifest :: "package_reference \<Rightarrow> string list \<Rightarrow> string list \<Rightarrow> json" where
  "sample_manifest r deps content = JObj [(''schema_version'', JInt 1), (''id'', JStr (rf_id r)),
     (''kind'', JStr (kind_name (rf_kind r))), (''version'', JStr (rf_version r)),
     (''dependencies'', JList (map JStr deps)), (''content'', JList (map JStr content))]"

definition sample_system :: package_reference where
  "sample_system = \<lparr>rf_kind = System, rf_id = ''core'', rf_version = ''1.0.0''\<rparr>"

definition sample_role :: package_reference where
  "sample_role = \<lparr>rf_kind = Role, rf_id = ''dev'', rf_version = ''1.0.0''\<rparr>"

definition sample_jsons :: "(string \<times> json) list" where
  "sample_jsons = [
     (''m1'', sample_manifest sample_system [] [''a.json'']),
     (''m2'', sample_manifest sample_role [''system/core@1.0.0''] [''b.json'', ''c.md'']),
     (''s1'', JObj [(''limits'', JObj [(''workers'', JInt 1), (''idle'', JInt 300)])]),
     (''s2'', JObj [(''limits'', JObj [(''workers'', JInt 2)]), (''role'', JStr ''dev'')])]"

definition sample_repository :: config_disk where
  "sample_repository = disk_of [
     ([''schemas'', ''package.schema.json''], ''schema''),
     (manifest_path sample_system, ''m1''), (package_root sample_system @ [''a.json''], ''s1''),
     (manifest_path sample_role, ''m2''), (package_root sample_role @ [''b.json''], ''s2''),
     (package_root sample_role @ [''c.md''], ''be brief'')]"

definition sample_loads :: "string \<Rightarrow> json res" where
  "sample_loads s = of_row JSONDecodeError (map_of sample_jsons s)"

abbreviation "sample_load \<equiv> load_package sample_loads id sample_repository"

text \<open>Finitely many directories can be packages of a finite disk.\<close>

lemma finite_packages: "finite {r. \<exists>p. load_package loads sha (disk_of fs) r = Inr p}"
proof (rule finite_imageD)
  show "inj_on package_root {r. \<exists>p. load_package loads sha (disk_of fs) r = Inr p}"
    by (auto simp: inj_on_def package_root_def)
  have "package_root r \<in> (take 4 \<circ> fst) ` set fs"
    if "load_package loads sha (disk_of fs) r = Inr p" for r p
  proof -
    from that have "cd_resolve (disk_of fs) (package_root r) \<noteq> None"
      by (auto simp: load_package_def locate_package_def monad_simps)
    then obtain f where "f \<in> set fs" "take (length (package_root r)) (fst f) = package_root r"
      by (auto simp: disk_of_def split: if_splits)
    moreover have "length (package_root r) = 4" by (simp add: package_root_def)
    ultimately show ?thesis by (auto intro!: image_eqI [of _ _ f])
  qed
  then show "finite (package_root ` {r. \<exists>p. load_package loads sha (disk_of fs) r = Inr p})"
    by (auto intro: finite_subset [of _ "(take 4 \<circ> fst) ` set fs"])
qed

lemma sample_distinct: "\<forall>s v. sample_loads s = Inr v \<longrightarrow> keys_distinct v"
  by (auto simp: sample_loads_def monad_simps sample_jsons_def sample_manifest_def split: if_splits)

definition system_package :: package where
  "system_package = \<lparr>pk_reference = sample_system, pk_dependencies = [],
     pk_manifest_path = ''packages/system/core/1.0.0/package.json'', pk_manifest_sha = ''m1'',
     pk_content = [\<lparr>ct_path = ''packages/system/core/1.0.0/a.json'', ct_text = ''s1'',
       ct_json = Some [(''limits'', JObj [(''workers'', JInt 1), (''idle'', JInt 300)])], ct_sha = ''s1''\<rparr>]\<rparr>"

definition role_package :: package where
  "role_package = \<lparr>pk_reference = sample_role, pk_dependencies = [sample_system],
     pk_manifest_path = ''packages/role/dev/1.0.0/package.json'', pk_manifest_sha = ''m2'',
     pk_content = [\<lparr>ct_path = ''packages/role/dev/1.0.0/b.json'', ct_text = ''s2'',
         ct_json = Some [(''limits'', JObj [(''workers'', JInt 2)]), (''role'', JStr ''dev'')], ct_sha = ''s2''\<rparr>,
       \<lparr>ct_path = ''packages/role/dev/1.0.0/c.md'', ct_text = ''be brief'', ct_json = None,
         ct_sha = ''be brief''\<rparr>]\<rparr>"

lemma sample_load_system: "sample_load sample_system = Inr system_package"
  by code_simp

lemma sample_load_role: "sample_load sample_role = Inr role_package"
  by code_simp

lemma sample_requested:
  "requested sample_repository [''role/dev@1.0.0''] = Inr [sample_role]"
  "requested sample_repository [''role/dev@1.0.0'', ''system/core@1.0.0''] = Inr [sample_role, sample_system]"
  by code_simp+

lemma sample_search: "search_packages sample_loads id sample_repository [sample_role]
    = Some (Inr [system_package, role_package])"
proof -
  have "pk_reference system_package = sample_system" "pk_reference role_package = sample_role"
      "pk_dependencies system_package = []" "pk_dependencies role_package = [sample_system]"
    by (simp_all add: system_package_def role_package_def)
  moreover have "sample_system \<noteq> sample_role" by (simp add: sample_system_def sample_role_def)
  ultimately show ?thesis
    by (simp add: search_packages_def visit_all.simps sorted_references_def sample_load_system sample_load_role)
qed

lemma sample_resolution: "resolve_packages sample_loads id sample_repository [''role/dev@1.0.0'']
    = Some (Inr (resolved_of id [system_package, role_package]))"
proof -
  have "kind_order [system_package, role_package] = [system_package, role_package]" by code_simp
  then show ?thesis by (simp add: resolve_packages_def sample_requested sample_search)
qed

section \<open>Properties\<close>

text \<open>C14. 
  On a repository with finitely many packages a resolution returns, and it succeeds exactly
  if the request is valid, every package that is reached through dependencies can be loaded,
  and none of them depends on itself. A failure is a \<open>PackageResolutionError\<close>, or it is an exception
  of the decoder or of the file system that no clause of the resolver catches: any other exception of
  \<open>json.loads\<close> than a \<open>JSONDecodeError\<close>, any of \<open>root.resolve()\<close> or \<open>is_file\<close>, one of \<open>is_dir\<close> or
  \<open>glob\<close> that is no \<open>ValueError\<close>, or one of reading a file that is neither \<open>OSError\<close> nor \<open>UnicodeError\<close>.
\<close>

theorem packages_resolve_iff:
  assumes "finite {r. \<exists>p. load_package loads sha d r = Inr p}"
  shows "\<exists>x. resolve_packages loads sha d references = Some x
    \<and> (\<forall>e. x = Inl e \<longrightarrow> e = PackageResolutionError \<or> escapes loads d e)
    \<and> ((\<exists>c. x = Inr c) \<longleftrightarrow> (\<exists>rs. requested d references = Inr rs
         \<and> (\<forall>r\<in>set rs. \<forall>y. (needs (load_package loads sha d))\<^sup>*\<^sup>* r y \<longrightarrow>
              (\<exists>p. load_package loads sha d y = Inr p) \<and> \<not> (needs (load_package loads sha d))\<^sup>+\<^sup>+ y y)))"
proof (cases "requested d references")
  case (Inl e)
  then show ?thesis
    using requested_error [OF Inl, of loads] by (simp add: resolve_packages_def package_failure_def)
next
  case (Inr rs)
  let ?load = "load_package loads sha d"
  obtain x where x: "search_packages loads sha d rs = Some x"
    using resolver.search_returns [OF assms] unfolding search_packages_def by blast
  have good: "(\<exists>p. ?load y = Inr p) \<longleftrightarrow> (\<forall>e. ?load y \<noteq> Inl e)" for y by (cases "?load y") auto
  show ?thesis
  proof (cases x)
    case bad: (Inl e)
    from resolver.search_failure [OF x [unfolded search_packages_def bad]]
    have o: "obstructed ?load (set rs) e" by simp
    have "e = PackageResolutionError \<or> escapes loads d e"
      using obstructed_error [OF o] by (simp add: package_failure_def)
    with Inr x bad o show ?thesis
      by (fastforce simp: resolve_packages_def obstructed_def good)
  next
    case ok: (Inr ps)
    have n: "\<not> obstructed ?load (set rs) e" for e
      using resolver.search_unobstructed [OF x [unfolded search_packages_def ok], of e] by simp
    have "(\<exists>p. ?load y = Inr p) \<and> \<not> (needs ?load)\<^sup>+\<^sup>+ y y" if "r \<in> set rs" "(needs ?load)\<^sup>*\<^sup>* r y" for r y
      using n that unfolding obstructed_def good by blast
    with Inr x ok show ?thesis by (simp add: resolve_packages_def)
  qed
qed

theorem packages_resolve_iff_witness:
  "\<exists>x. resolve_packages sample_loads id sample_repository [''role/dev@1.0.0''] = Some x
    \<and> \<not> (needs sample_load)\<^sup>+\<^sup>+ sample_role sample_role"
proof -
  have f: "finite {r. \<exists>p. sample_load r = Inr p}"
    unfolding sample_repository_def by (rule finite_packages)
  show ?thesis
    using packages_resolve_iff [OF f, of "[''role/dev@1.0.0'']"] sample_resolution sample_requested(1) by auto
qed

text \<open>C15. 
  The packages of a resolved configuration are the requested ones and all they depend on,
  each once, by kind; and within what the kinds allow every package comes after the packages it
  depends on: a dependency of no higher kind precedes it.
\<close>

theorem packages_in_order:
  assumes "resolve_packages loads sha d references = Some (Inr c)"
  shows "\<exists>qs rs. requested d references = Inr qs \<and> rc_packages c = map reference_text rs
    \<and> distinct rs \<and> set rs = {x. \<exists>q\<in>set qs. (needs (load_package loads sha d))\<^sup>*\<^sup>* q x}
    \<and> sorted (map rf_kind rs)
    \<and> (\<forall>i<length rs. \<forall>x. needs (load_package loads sha d) (rs ! i) x \<longrightarrow> rf_kind x \<le> rf_kind (rs ! i) \<longrightarrow>
         (\<exists>j<i. rs ! j = x))"
proof -
  from assms obtain qs ps where q: "requested d references = Inr qs"
      and s: "search_packages loads sha d qs = Some (Inr ps)" and c: "c = resolved_of sha (kind_order ps)"
    by (rule resolve_packages_Inr)
  let ?rs = "map pk_reference (kind_order ps)"
  have o: "dependency_order (load_package loads sha d) {} ps" using s by (rule search_packages_order)
  have len: "length (kind_order ps) = length ps" by (metis kind_order_mset size_mset)
  have "rc_packages c = map reference_text ?rs" by (simp add: c resolved_of_def Let_def)
  moreover have "distinct ?rs"
    using dependency_order_distinct [OF o] by (blast intro: kind_order_distinct)
  moreover have "set ?rs = {x. \<exists>q\<in>set qs. (needs (load_package loads sha d))\<^sup>*\<^sup>* q x}"
    using search_packages_set [OF s] by simp
  moreover have "sorted (map rf_kind ?rs)" using kind_order_sorted [of ps] by (simp add: comp_def)
  moreover have "\<exists>j<i. ?rs ! j = x"
    if "i < length ?rs" "needs (load_package loads sha d) (?rs ! i) x" "rf_kind x \<le> rf_kind (?rs ! i)" for i x
    using kind_order_before [OF o, of i x] that len by fastforce
  ultimately show ?thesis using q by blast
qed

theorem packages_in_order_witness:
  "\<exists>rs. map reference_text rs = [''system/core@1.0.0'', ''role/dev@1.0.0''] \<and> distinct rs
    \<and> set rs = {x. (needs sample_load)\<^sup>*\<^sup>* sample_role x}"
proof -
  have "rc_packages (resolved_of id [system_package, role_package]) = [''system/core@1.0.0'', ''role/dev@1.0.0'']"
    by (simp add: resolved_of_def Let_def system_package_def role_package_def sample_system_def
        sample_role_def reference_text_def)
  moreover obtain qs rs where "requested sample_repository [''role/dev@1.0.0''] = Inr qs"
      "rc_packages (resolved_of id [system_package, role_package]) = map reference_text rs"
      "distinct rs" "set rs = {x. \<exists>q\<in>set qs. (needs sample_load)\<^sup>*\<^sup>* q x}"
    using packages_in_order [OF sample_resolution] by blast
  moreover from this(1) have "qs = [sample_role]" by (simp add: sample_requested)
  ultimately show ?thesis by (intro exI [of _ rs]) simp
qed

lemma requested_same_error:
  assumes "set xs = set ys" and "requested d xs = Inl e" and "requested d ys = Inl e'"
  shows "e' = e"
proof (cases "xs = []")
  case True
  with assms show ?thesis by (simp add: requested_def)
next
  case False
  with assms(1) have "xs \<noteq> []" "ys \<noteq> []" by auto
  with assms(2,3) show ?thesis
    by (cases "cd_root d"; cases "validate_mounted_repository d")
      (auto simp: requested_def dest!: mapR_error parse_reference_error)
qed

text \<open>
  What is resolved depends on the set of the requested references only, not on their order
  or on repetitions: the outcome, the configuration and its digest are the same.
\<close>

theorem request_order_is_irrelevant:
  assumes "set references = set references'"
  shows "resolve_packages loads sha d references = resolve_packages loads sha d references'"
proof (cases "requested d references")
  case (Inr rs)
  then have "mapR parse_reference references = Inr rs"
    "references' \<noteq> [] \<and> cd_root d = Inr () \<and> validate_mounted_repository d = Inr ()"
    using assms by (auto simp: requested_def monad_simps)
  from parse_references_cong [OF assms this(1)] this(2) obtain rs' where
    rs': "requested d references' = Inr rs'" "set rs = set rs'" "\<forall>r\<in>set rs. reference_ok r"
    by (auto simp: requested_def)
  then have "sorted_references rs = sorted_references rs'" by (intro sorted_references_cong)
  with Inr rs'(1) show ?thesis by (simp add: resolve_packages_def search_packages_def)
next
  case (Inl e)
  have "requested d references' \<noteq> Inr rs'" for rs'
  proof
    assume r: "requested d references' = Inr rs'"
    then have "mapR parse_reference references' = Inr rs'"
      "references \<noteq> [] \<and> cd_root d = Inr () \<and> validate_mounted_repository d = Inr ()"
      using assms by (auto simp: requested_def monad_simps)
    from parse_references_cong [OF assms [symmetric] this(1)] this(2) Inl show False
      by (auto simp: requested_def)
  qed
  then obtain e' where "requested d references' = Inl e'" by (cases "requested d references'") auto
  with Inl requested_same_error [OF assms Inl] show ?thesis by (simp add: resolve_packages_def)
qed

theorem request_order_is_irrelevant_witness:
  "resolve_packages sample_loads id sample_repository [''role/dev@1.0.0'', ''role/dev@1.0.0'']
    = Some (Inr (resolved_of id [system_package, role_package]))"
  using request_order_is_irrelevant [of "[''role/dev@1.0.0'', ''role/dev@1.0.0'']" "[''role/dev@1.0.0'']"]
    sample_resolution by simp

text \<open>C36. 
  Of all JSON contents, in the order of the packages and within a package in the order of its
  manifest, the last one that says anything about a path of keys decides it: if it has a value
  there that is no object, the resolved settings have this value, and where no content says
  anything the settings have nothing.
\<close>

theorem last_content_decides_setting:
  assumes "\<forall>s v. loads s = Inr v \<longrightarrow> keys_distinct v"
    and "resolve_packages loads sha d references = Some (Inr c)"
  shows "\<exists>qs ps. requested d references = Inr qs \<and> search_packages loads sha d qs = Some (Inr ps)
    \<and> rc_packages c = map (\<lambda>p. reference_text (pk_reference p)) (kind_order ps)
    \<and> (\<forall>us m vs ks v. json_contents (kind_order ps) = us @ m # vs \<longrightarrow> setting_at ks m = Some v \<longrightarrow> as_obj v = None \<longrightarrow>
         (\<forall>x\<in>set vs. \<not> touches ks x) \<longrightarrow> setting_at ks (rc_settings c) = Some v)
    \<and> (\<forall>ks. ks \<noteq> [] \<longrightarrow> (\<forall>x\<in>set (json_contents (kind_order ps)). \<not> touches ks x) \<longrightarrow> setting_at ks (rc_settings c) = None)"
proof -
  from assms(2) obtain qs ps where q: "requested d references = Inr qs" and s: "search_packages loads sha d qs = Some (Inr ps)"
      and c: "c = resolved_of sha (kind_order ps)"
    by (rule resolve_packages_Inr)
  let ?ps = "kind_order ps"
  have l: "\<forall>p\<in>set ?ps. load_package loads sha d (pk_reference p) = Inr p"
    using dependency_order_loads [OF search_packages_order [OF s]] by simp
  have k: "\<forall>x\<in>set (json_contents ?ps). keys_distinct (JObj x)"
    using l assms(1) unfolding json_contents_def by (auto simp del: keys_distinct.simps dest!: load_package_json)
  have f: "rc_settings c = foldl merge_settings [] (json_contents ?ps)"
      "rc_packages c = map (\<lambda>p. reference_text (pk_reference p)) ?ps"
    by (simp_all add: c resolved_of_def Let_def settings_of_def)
  have "setting_at ks (rc_settings c) = Some v"
    if "json_contents ?ps = us @ m # vs" "setting_at ks m = Some v" "as_obj v = None" "\<forall>x\<in>set vs. \<not> touches ks x"
    for us m vs ks v
    unfolding f(1) using last_word_stands [OF that(1) k that(2-4)] .
  moreover have "setting_at ks (rc_settings c) = None"
    if "ks \<noteq> []" "\<forall>x\<in>set (json_contents ?ps). \<not> touches ks x" for ks
    unfolding f(1) using foldl_merge_leaves [of "json_contents ?ps" ks "[]"] k that by (cases ks) auto
  ultimately show ?thesis using f(2) q s by blast
qed

theorem last_content_decides_setting_witness:
  "\<exists>c. resolve_packages sample_loads id sample_repository [''role/dev@1.0.0''] = Some (Inr c)
    \<and> setting_at [''limits'', ''workers''] (rc_settings c) = Some (JInt 2)
    \<and> setting_at [''limits'', ''idle''] (rc_settings c) = Some (JInt 300)"
proof -
  let ?c = "resolved_of id [system_package, role_package]"
  let ?js = "json_contents (kind_order [system_package, role_package])"
  obtain m1 m2 where js: "?js = [m1, m2]" "m1 = [(''limits'', JObj [(''workers'', JInt 1), (''idle'', JInt 300)])]"
      "m2 = [(''limits'', JObj [(''workers'', JInt 2)]), (''role'', JStr ''dev'')]"
  proof -
    have "?js = [[(''limits'', JObj [(''workers'', JInt 1), (''idle'', JInt 300)])],
        [(''limits'', JObj [(''workers'', JInt 2)]), (''role'', JStr ''dev'')]]"
      by code_simp
    with that show ?thesis by blast
  qed
  obtain qs ps where p: "requested sample_repository [''role/dev@1.0.0''] = Inr qs"
      "search_packages sample_loads id sample_repository qs = Some (Inr ps)"
      "\<And>us m vs ks v. json_contents (kind_order ps) = us @ m # vs \<Longrightarrow> setting_at ks m = Some v \<Longrightarrow>
         as_obj v = None \<Longrightarrow> \<forall>x\<in>set vs. \<not> touches ks x \<Longrightarrow> setting_at ks (rc_settings ?c) = Some v"
    using last_content_decides_setting [OF sample_distinct sample_resolution] by blast
  from p(1) have "qs = [sample_role]" by (simp add: sample_requested)
  with p(2) have "ps = [system_package, role_package]" by (simp add: sample_search)
  with js(1) have "json_contents (kind_order ps) = [m1] @ m2 # []" "json_contents (kind_order ps) = [] @ m1 # [m2]"
    by simp_all
  from p(3) [OF this(1), of "[''limits'', ''workers'']"] p(3) [OF this(2), of "[''limits'', ''idle'']"]
  show ?thesis using js(2,3) sample_resolution by (auto simp: eval_nat_numeral)
qed

text \<open>A resolved configuration verifies: the digest of its dictionary is the digest it carries.\<close>

lemma resolved_digest_verifies:
  "resolve_packages loads sha d references = Some (Inr c) \<Longrightarrow>
   calculate_configuration_digest sha (configuration_dict c) = rc_digest c"
  by (erule resolve_packages_Inr)
    (simp add: resolved_of_def Let_def configuration_dict_def calculate_configuration_digest_def comp_def)

end
