(* ===== verification/ThreadAffinity.thy ===== *)
theory ThreadAffinity
  imports Store FlowDefinition
begin

text \<open>
  \<open>thread_affinity.py\<close>: which thread of a provider serves a context (a work item, a role and a
  conversation), so that every operation of the context resumes the same thread. A context has at
  most one operation at a time, and a new prompt needs a reseed, which retires the thread and is
  recorded. The two tables (migrations 0007 and 0008) stand beside the database \<open>td_db\<close> of the other
  stores, of which the code reads work items and role instances.

  The provider is a parameter: what its calls do to the outside is a state \<open>'w\<close>, which is not rolled
  back when a transaction is. The worker pool is the parameter \<open>pool\<close>, which may call what it is
  given in any way it likes, and checks the identity of the role instance first. Operation and reseed ids (\<open>uuid4\<close>) are parameters, and so is the parsed
  boundary of \<open>release_superseded_operation\<close>.
\<close>

section \<open>Errors and values\<close>

datatype thread_exn =
    Raised exn
  | ThreadAffinityError | ThreadAffinityNotFound | ThreadAffinityConflict | ThreadPromptMismatch
  | ThreadAffinityAuthorizationError | ThreadAffinityBusy
  | WorkerProviderError
  | OtherException string

definition affinity_error :: "thread_exn \<Rightarrow> bool" where
  "affinity_error e = (case e of Raised _ \<Rightarrow> False | WorkerProviderError \<Rightarrow> False
     | OtherException _ \<Rightarrow> False | _ \<Rightarrow> True)"

text \<open>\<open>except ThreadAffinityError: raise\<close>, \<open>except Exception: raise ThreadAffinityError\<close>.\<close>

definition store_wrap :: "thread_exn \<Rightarrow> thread_exn" where
  "store_wrap e = (if affinity_error e then e else ThreadAffinityError)"

definition bind_wrap :: "thread_exn \<Rightarrow> thread_exn" where
  "bind_wrap e = (if affinity_error e \<or> e \<in> {Raised ValueError, Raised SensitiveContent, WorkerProviderError}
     then e else if e = Raised UniqueViolation then ThreadAffinityConflict else ThreadAffinityError)"

text \<open>\<open>_required\<close> of this module does not strip, it refuses what stripping would change.\<close>

definition exact :: "string \<Rightarrow> thread_exn + string" where
  "exact v = (if strip v = [] \<or> v \<noteq> strip v then Inl (Raised ValueError) else Inr v)"

definition prompt_digest :: "string \<Rightarrow> thread_exn + string" where
  "prompt_digest v = bindR (exact v) (\<lambda>v. bindR (ensure (hex64 v) (Raised ValueError)) (\<lambda>_. Inr v))"

definition stored_digest :: "string \<Rightarrow> thread_exn + string" where
  "stored_digest v = bindR (exact v) (\<lambda>v. if v = ''unpinned'' then Inr v else prompt_digest v)"

record thread_key =
  tk_project :: string
  tk_work :: string
  tk_role :: string
  tk_conversation :: string

definition make_key :: "string \<Rightarrow> string \<Rightarrow> string \<Rightarrow> string \<Rightarrow> thread_exn + thread_key" where
  "make_key p w r c = bindR (exact p) (\<lambda>p. bindR (exact w) (\<lambda>w. bindR (exact r) (\<lambda>r.
     bindR (exact c) (\<lambda>c. Inr \<lparr>tk_project = p, tk_work = w, tk_role = r, tk_conversation = c\<rparr>))))"

datatype affinity_state = AffinityActive | PendingSeed

record thread_binding =
  tb_key :: thread_key
  tb_provider :: "string option"
  tb_thread :: "string option"
  tb_digest :: string
  tb_generation :: int
  tb_state :: affinity_state
  tb_last :: string
  tb_operation :: "string option"
  tb_instance :: "string option"
  tb_started :: "timestamp option"
  tb_created :: timestamp
  tb_resumed :: "timestamp option"
  tb_updated :: timestamp
  tb_pending :: "string option"

record operation_claim =
  oc_key :: thread_key
  oc_operation :: string
  oc_instance :: string
  oc_digest :: string
  oc_started :: timestamp

record reseed_record =
  rs_key :: thread_key
  rs_id :: string
  rs_generation :: int
  rs_old_provider :: string
  rs_old_thread :: string
  rs_old_digest :: string
  rs_new_digest :: string
  rs_actor :: string
  rs_reason :: string
  rs_recorded :: timestamp

record thread_db =
  td_db :: db
  td_affinities :: "thread_binding list"
  td_reseeds :: "reseed_record list"

section \<open>Constraints of the tables\<close>

text \<open>\<open>btrim(s) <> ''\<close>: Postgres trims blanks only.\<close>

definition nonblank :: "string \<Rightarrow> bool" where
  "nonblank s = list_ex (\<lambda>c. c \<noteq> CHR '' '') s"

definition state_check :: "thread_binding \<Rightarrow> bool" where
  "state_check r = (case tb_state r of
     AffinityActive \<Rightarrow> tb_provider r \<noteq> None \<and> tb_thread r \<noteq> None \<and> tb_pending r = None
   | PendingSeed \<Rightarrow> tb_provider r = None \<and> tb_thread r = None \<and> tb_pending r \<noteq> None
       \<and> tb_digest r \<noteq> ''unpinned'')"

definition operation_check :: "thread_binding \<Rightarrow> bool" where
  "operation_check r =
    (tb_operation r = None \<and> tb_instance r = None \<and> tb_started r = None
     \<or> tb_operation r \<noteq> None \<and> tb_instance r \<noteq> None \<and> tb_started r \<noteq> None
       \<and> tb_state r = AffinityActive)"

definition affinity_check :: "thread_binding \<Rightarrow> bool" where
  "affinity_check r = (nonblank (tk_conversation (tb_key r))
     \<and> (\<forall>p\<in>set_option (tb_provider r). nonblank p) \<and> (\<forall>t\<in>set_option (tb_thread r). nonblank t)
     \<and> (tb_digest r = ''unpinned'' \<or> hex64 (tb_digest r)) \<and> 0 < tb_generation r
     \<and> state_check r \<and> operation_check r)"

definition has_instance :: "db \<Rightarrow> thread_key \<Rightarrow> string \<Rightarrow> bool" where
  "has_instance d k i =
     has_row (\<lambda>x. in_project x = tk_project k \<and> in_id x = i \<and> in_role x = tk_role k) (db_instances d)"

definition affinity_refs :: "thread_db \<Rightarrow> thread_binding \<Rightarrow> bool" where
  "affinity_refs d r = (has_work (td_db d) (tk_project (tb_key r)) (tk_work (tb_key r))
     \<and> has_instance (td_db d) (tb_key r) (tb_last r)
     \<and> (\<forall>i\<in>set_option (tb_instance r). has_instance (td_db d) (tb_key r) i)
     \<and> (\<forall>p\<in>set_option (tb_pending r). has_row (\<lambda>x. rs_key x = tb_key r \<and> rs_id x = p) (td_reseeds d)))"

text \<open>\<open>UNIQUE (provider_id, thread_id)\<close> does not bind rows with \<open>NULL\<close>.\<close>

definition same_thread :: "thread_binding \<Rightarrow> thread_binding \<Rightarrow> bool" where
  "same_thread r s = (tb_provider r \<noteq> None \<and> tb_thread r \<noteq> None
     \<and> tb_provider r = tb_provider s \<and> tb_thread r = tb_thread s)"

definition affinity_constraints :: "thread_db \<Rightarrow> thread_binding \<Rightarrow> thread_exn + unit" where
  "affinity_constraints d r = bindR (ensure (affinity_check r) (Raised CheckViolation)) (\<lambda>_.
     bindR (ensure (\<not> has_row (\<lambda>s. tb_key s \<noteq> tb_key r \<and> same_thread r s) (td_affinities d))
       (Raised UniqueViolation)) (\<lambda>_.
     ensure (affinity_refs d r) (Raised ForeignKeyViolation)))"

definition insert_affinity :: "thread_binding \<Rightarrow> thread_db \<Rightarrow> thread_exn + thread_db" where
  "insert_affinity r d = bindR (affinity_constraints d r) (\<lambda>_.
     bindR (ensure (\<not> has_row (\<lambda>s. tb_key s = tb_key r) (td_affinities d)) (Raised UniqueViolation)) (\<lambda>_.
     Inr (d\<lparr>td_affinities := td_affinities d @ [r]\<rparr>)))"

text \<open>\<open>UPDATE ... SET f WHERE key AND P RETURNING ...\<close>: the key selects at most one row.\<close>

definition update_affinity :: "thread_key \<Rightarrow> (thread_binding \<Rightarrow> bool) \<Rightarrow>
    (thread_binding \<Rightarrow> thread_binding) \<Rightarrow> thread_db \<Rightarrow> thread_exn + thread_binding option \<times> thread_db" where
  "update_affinity k P f d = (case fetchone (\<lambda>r. tb_key r = k \<and> P r) (td_affinities d) of
     None \<Rightarrow> Inr (None, d)
   | Some r \<Rightarrow> bindR (affinity_constraints d (f r)) (\<lambda>_.
       Inr (Some (f r), d\<lparr>td_affinities := upd_where (\<lambda>s. tb_key s = k \<and> P s) f (td_affinities d)\<rparr>)))"

definition insert_reseed :: "reseed_record \<Rightarrow> thread_db \<Rightarrow> thread_exn + thread_db" where
  "insert_reseed x d = (let k = rs_key x in
     bindR (ensure (nonblank (rs_id x) \<and> 1 < rs_generation x \<and> nonblank (rs_old_provider x)
         \<and> nonblank (rs_old_thread x) \<and> (rs_old_digest x = ''unpinned'' \<or> hex64 (rs_old_digest x))
         \<and> hex64 (rs_new_digest x) \<and> nonblank (rs_actor x) \<and> nonblank (rs_reason x))
       (Raised CheckViolation)) (\<lambda>_.
     bindR (ensure (\<not> has_row (\<lambda>y. tk_project (rs_key y) = tk_project k \<and> rs_id y = rs_id x
           \<or> rs_key y = k \<and> rs_generation y = rs_generation x) (td_reseeds d))
       (Raised UniqueViolation)) (\<lambda>_.
     bindR (ensure (has_work (td_db d) (tk_project k) (tk_work k)
           \<and> has_role (td_db d) (tk_project k) (tk_role k)) (Raised ForeignKeyViolation)) (\<lambda>_.
     Inr (d\<lparr>td_reseeds := td_reseeds d @ [x]\<rparr>)))))"

section \<open>The store\<close>

definition authorized :: "thread_db \<Rightarrow> thread_key \<Rightarrow> string \<Rightarrow> bool" where
  "authorized d k i = (has_work (td_db d) (tk_project k) (tk_work k) \<and> has_instance (td_db d) k i)"

text \<open>\<open>_binding\<close> checks what it has read; the state is a datatype here, so it is one of the two.\<close>

definition binding_of :: "thread_binding \<Rightarrow> thread_exn + thread_binding" where
  "binding_of r = bindR (except_map (\<lambda>_. ThreadAffinityError) (stored_digest (tb_digest r))) (\<lambda>_.
     bindR (ensure (1 \<le> tb_generation r) ThreadAffinityError) (\<lambda>_. Inr r))"

definition select_binding :: "thread_db \<Rightarrow> thread_key \<Rightarrow> thread_exn + thread_binding option" where
  "select_binding d k = (case fetchone (\<lambda>r. tb_key r = k) (td_affinities d) of
     None \<Rightarrow> Inr None | Some r \<Rightarrow> bindR (binding_of r) (\<lambda>b. Inr (Some b)))"

definition authorize_thread :: "thread_key \<Rightarrow> string \<Rightarrow> thread_db \<Rightarrow> thread_exn + unit" where
  "authorize_thread k i d = bindR (exact i) (\<lambda>i.
     ensure (authorized d k i) ThreadAffinityAuthorizationError)"

definition claim_conflict :: "thread_db \<Rightarrow> thread_key \<Rightarrow> string \<Rightarrow> thread_exn" where
  "claim_conflict d k dig = (case select_binding d k of
     Inl e \<Rightarrow> e
   | Inr None \<Rightarrow> ThreadAffinityNotFound
   | Inr (Some b) \<Rightarrow> if tb_digest b \<noteq> dig then ThreadPromptMismatch else ThreadAffinityBusy)"

definition claimable_binding :: "string \<Rightarrow> thread_binding \<Rightarrow> bool" where
  "claimable_binding dig r =
     (tb_state r = AffinityActive \<and> tb_digest r = dig \<and> tb_operation r = None)"

definition claimed_binding :: "timestamp \<Rightarrow> string \<Rightarrow> string \<Rightarrow> thread_binding \<Rightarrow> thread_binding" where
  "claimed_binding t i op r =
     r\<lparr>tb_operation := Some op, tb_instance := Some i, tb_started := Some t, tb_updated := t\<rparr>"

definition claim_binding :: "timestamp \<Rightarrow> thread_key \<Rightarrow> string \<Rightarrow> string \<Rightarrow> string \<Rightarrow> thread_db \<Rightarrow>
    thread_exn + thread_binding \<times> thread_db" where
  "claim_binding t k i dig op d =
     bindR (update_affinity k (claimable_binding dig) (claimed_binding t i op) d) (\<lambda>(r, d').
       case r of None \<Rightarrow> Inl (claim_conflict d k dig)
       | Some r \<Rightarrow> bindR (binding_of r) (\<lambda>b. Inr (b, d')))"

definition claim_wanted :: "timestamp \<Rightarrow> thread_key \<Rightarrow> string \<Rightarrow> string \<Rightarrow> string option \<Rightarrow>
    thread_binding \<Rightarrow> thread_db \<Rightarrow> thread_exn + thread_binding \<times> thread_db" where
  "claim_wanted t k i dig op b d =
     (case op of None \<Rightarrow> Inr (b, d) | Some op \<Rightarrow> claim_binding t k i dig op d)"

text \<open>The two writes of \<open>_bind_or_read\<close>: a reseeded context gets its new thread, a new context is
  inserted.\<close>

definition seeded_binding :: "timestamp \<Rightarrow> string \<Rightarrow> string \<Rightarrow> string \<Rightarrow> thread_binding \<Rightarrow> thread_binding" where
  "seeded_binding t i prov th r = r\<lparr>tb_provider := Some prov, tb_thread := Some th, tb_last := i,
     tb_state := AffinityActive, tb_pending := None, tb_updated := t\<rparr>"

definition seed_pending :: "timestamp \<Rightarrow> thread_key \<Rightarrow> string \<Rightarrow> string \<Rightarrow> string \<Rightarrow> string option \<Rightarrow>
    string \<Rightarrow> thread_db \<Rightarrow> thread_exn + thread_binding \<times> thread_db" where
  "seed_pending t k i prov dig op th d =
     bindR (update_affinity k (\<lambda>r. tb_state r = PendingSeed \<and> tb_digest r = dig)
        (seeded_binding t i prov th) d) (\<lambda>(r, d').
     bindR (of_row ThreadAffinityConflict r) (\<lambda>r. bindR (binding_of r) (\<lambda>b.
       claim_wanted t k i dig op b d')))"

definition new_binding :: "timestamp \<Rightarrow> thread_key \<Rightarrow> string \<Rightarrow> string \<Rightarrow> string \<Rightarrow> string \<Rightarrow> thread_binding" where
  "new_binding t k i prov dig th = \<lparr>tb_key = k, tb_provider = Some prov, tb_thread = Some th,
     tb_digest = dig, tb_generation = 1, tb_state = AffinityActive, tb_last = i,
     tb_operation = None, tb_instance = None, tb_started = None, tb_created = t,
     tb_resumed = None, tb_updated = t, tb_pending = None\<rparr>"

definition bind_new :: "timestamp \<Rightarrow> thread_key \<Rightarrow> string \<Rightarrow> string \<Rightarrow> string \<Rightarrow> string option \<Rightarrow>
    string \<Rightarrow> thread_db \<Rightarrow> thread_exn + thread_binding \<times> thread_db" where
  "bind_new t k i prov dig op th d = (let r = new_binding t k i prov dig th in
     bindR (insert_affinity r d) (\<lambda>d'. bindR (binding_of r) (\<lambda>b. claim_wanted t k i dig op b d')))"

text \<open>\<open>_bind_or_read\<close>. The thread is created inside the transaction, when the context has none.\<close>

type_synonym 'w creating = "'w \<Rightarrow> (thread_exn + string) \<times> 'w"

type_synonym bound = "(thread_binding \<times> bool) \<times> thread_db"

definition create_then :: "'w creating \<Rightarrow> (string \<Rightarrow> thread_exn + thread_binding \<times> thread_db) \<Rightarrow> 'w \<Rightarrow>
    (thread_exn + bound) \<times> 'w" where
  "create_then create use w = (case create w of (r, w') \<Rightarrow>
     (bindR r (\<lambda>v. bindR (exact v) (\<lambda>th. bindR (use th) (\<lambda>(b, d). Inr ((b, True), d)))), w'))"

definition bind_tx :: "timestamp \<Rightarrow> thread_key \<Rightarrow> string \<Rightarrow> string \<Rightarrow> string \<Rightarrow> 'w creating \<Rightarrow>
    string option \<Rightarrow> 'w \<Rightarrow> thread_db \<Rightarrow> (thread_exn + bound) \<times> 'w" where
  "bind_tx t k i prov dig create op w d =
    (if \<not> authorized d k i then (Inl ThreadAffinityAuthorizationError, w)
     else case select_binding d k of
       Inl e \<Rightarrow> (Inl e, w)
     | Inr None \<Rightarrow> create_then create (\<lambda>th. bind_new t k i prov dig op th d) w
     | Inr (Some b) \<Rightarrow>
         if tb_digest b \<noteq> dig then (Inl ThreadPromptMismatch, w)
         else if tb_state b = PendingSeed
         then create_then create (\<lambda>th. seed_pending t k i prov dig op th d) w
         else if tb_provider b \<noteq> Some prov then (Inl ThreadAffinityConflict, w)
         else (bindR (claim_wanted t k i dig op b d) (\<lambda>(b, d'). Inr ((b, False), d')), w))"

definition bind_checks :: "string \<Rightarrow> string \<Rightarrow> string \<Rightarrow> string option \<Rightarrow> thread_exn + unit" where
  "bind_checks i prov dig op = bindR (exact i) (\<lambda>_. bindR (exact prov) (\<lambda>_.
     bindR (prompt_digest dig) (\<lambda>_. case op of None \<Rightarrow> Inr ()
       | Some op \<Rightarrow> bindR (exact op) (\<lambda>_. Inr ()))))"

definition bind_with :: "timestamp \<Rightarrow> thread_key \<Rightarrow> string \<Rightarrow> string \<Rightarrow> string \<Rightarrow> 'w creating \<Rightarrow>
    string option \<Rightarrow> 'w \<Rightarrow> thread_db \<Rightarrow> (thread_exn + bound) \<times> 'w" where
  "bind_with t k i prov dig create op w d = (case bind_checks i prov dig op of
     Inl e \<Rightarrow> (Inl e, w)
   | Inr _ \<Rightarrow> (case bind_tx t k i prov dig create op w d of (r, w') \<Rightarrow> (except_map bind_wrap r, w')))"

definition bind_or_read :: "timestamp \<Rightarrow> thread_key \<Rightarrow> string \<Rightarrow> string \<Rightarrow> string \<Rightarrow> 'w creating \<Rightarrow>
    'w \<Rightarrow> thread_db \<Rightarrow> (thread_exn + bound) \<times> 'w" where
  "bind_or_read t k i prov dig create w d = bind_with t k i prov dig create None w d"

definition claim_record :: "string \<Rightarrow> string \<Rightarrow> thread_binding \<Rightarrow> thread_exn + operation_claim" where
  "claim_record i op b = (case tb_started b of None \<Rightarrow> Inl (Raised ValueError)
     | Some s \<Rightarrow> Inr \<lparr>oc_key = tb_key b, oc_operation = op, oc_instance = i,
         oc_digest = tb_digest b, oc_started = s\<rparr>)"

definition bind_and_claim :: "timestamp \<Rightarrow> thread_key \<Rightarrow> string \<Rightarrow> string \<Rightarrow> string \<Rightarrow> 'w creating \<Rightarrow>
    string \<Rightarrow> 'w \<Rightarrow> thread_db \<Rightarrow>
    (thread_exn + (thread_binding \<times> bool \<times> operation_claim) \<times> thread_db) \<times> 'w" where
  "bind_and_claim t k i prov dig create op w d =
    (case bind_with t k i prov dig create (Some op) w d of (r, w') \<Rightarrow>
      (bindR r (\<lambda>((b, created), d'). bindR (claim_record i op b) (\<lambda>c. Inr ((b, created, c), d'))), w'))"

definition resumable :: "string \<Rightarrow> string \<Rightarrow> string \<Rightarrow> thread_binding \<Rightarrow> bool" where
  "resumable prov th dig r = (tb_provider r = Some prov \<and> tb_thread r = Some th
     \<and> tb_digest r = dig \<and> tb_state r = AffinityActive)"

definition resumed_binding :: "timestamp \<Rightarrow> string \<Rightarrow> thread_binding \<Rightarrow> thread_binding" where
  "resumed_binding t i r = r\<lparr>tb_last := i, tb_resumed := Some t, tb_updated := t\<rparr>"

definition mark_resumed :: "timestamp \<Rightarrow> thread_key \<Rightarrow> string \<Rightarrow> string \<Rightarrow> string \<Rightarrow> string \<Rightarrow> thread_db \<Rightarrow>
    thread_exn + thread_binding \<times> thread_db" where
  "mark_resumed t k i prov th dig d = bindR (exact i) (\<lambda>i. bindR (exact prov) (\<lambda>prov.
     bindR (exact th) (\<lambda>th. bindR (prompt_digest dig) (\<lambda>dig. except_map store_wrap (
       bindR (ensure (authorized d k i) ThreadAffinityAuthorizationError) (\<lambda>_.
       bindR (update_affinity k (resumable prov th dig) (resumed_binding t i) d) (\<lambda>(r, d').
       bindR (of_row ThreadAffinityConflict r) (\<lambda>r. bindR (binding_of r) (\<lambda>b. Inr (b, d'))))))))))"

definition claim_operation :: "timestamp \<Rightarrow> thread_key \<Rightarrow> string \<Rightarrow> string \<Rightarrow> string \<Rightarrow> thread_db \<Rightarrow>
    thread_exn + operation_claim \<times> thread_db" where
  "claim_operation t k i dig op d = bindR (exact i) (\<lambda>i. bindR (prompt_digest dig) (\<lambda>dig.
     except_map store_wrap (
       bindR (ensure (authorized d k i) ThreadAffinityAuthorizationError) (\<lambda>_.
       bindR (claim_binding t k i dig op d) (\<lambda>(b, d').
       bindR (claim_record i op b) (\<lambda>c. Inr (c, d')))))))"

definition freed_binding :: "timestamp \<Rightarrow> thread_binding \<Rightarrow> thread_binding" where
  "freed_binding t r = r\<lparr>tb_operation := None, tb_instance := None, tb_started := None, tb_updated := t\<rparr>"

definition release_operation :: "timestamp \<Rightarrow> operation_claim \<Rightarrow> thread_db \<Rightarrow> thread_exn + thread_db" where
  "release_operation t c d = except_map store_wrap (
     bindR (update_affinity (oc_key c) (\<lambda>r. tb_operation r = Some (oc_operation c)) (freed_binding t) d)
       (\<lambda>(r, d'). bindR (of_row ThreadAffinityBusy r) (\<lambda>_. Inr d')))"

definition superseded :: "string \<Rightarrow> timestamp \<Rightarrow> thread_binding \<Rightarrow> bool" where
  "superseded dig boundary r = (tb_digest r = dig \<and> tb_operation r \<noteq> None
     \<and> (case tb_started r of None \<Rightarrow> False | Some s \<Rightarrow> s < boundary))"

definition release_superseded :: "timestamp \<Rightarrow> thread_key \<Rightarrow> string \<Rightarrow> string \<Rightarrow> timestamp \<Rightarrow> thread_db \<Rightarrow>
    thread_exn + bool \<times> thread_db" where
  "release_superseded t k i dig boundary d = bindR (exact i) (\<lambda>i. bindR (prompt_digest dig) (\<lambda>dig.
     except_map store_wrap (
       bindR (ensure (authorized d k i) ThreadAffinityAuthorizationError) (\<lambda>_.
       bindR (update_affinity k (superseded dig boundary) (freed_binding t) d) (\<lambda>(r, d').
         Inr (r \<noteq> None, d'))))))"

definition reseeded_binding :: "timestamp \<Rightarrow> string \<Rightarrow> int \<Rightarrow> string \<Rightarrow> thread_binding \<Rightarrow> thread_binding" where
  "reseeded_binding t dig g x r = r\<lparr>tb_provider := None, tb_thread := None, tb_digest := dig,
     tb_generation := g, tb_state := PendingSeed, tb_pending := Some x, tb_resumed := None,
     tb_updated := t\<rparr>"

definition reseed_new :: "timestamp \<Rightarrow> thread_key \<Rightarrow> string \<Rightarrow> string \<Rightarrow> string \<Rightarrow> string \<Rightarrow>
    thread_binding \<Rightarrow> string \<Rightarrow> string \<Rightarrow> thread_db \<Rightarrow> thread_exn + reseed_record \<times> thread_db" where
  "reseed_new t k dig actor reason x b prov th d = (let g = tb_generation b + 1;
     rec = \<lparr>rs_key = k, rs_id = x, rs_generation = g, rs_old_provider = prov, rs_old_thread = th,
        rs_old_digest = tb_digest b, rs_new_digest = dig, rs_actor = actor, rs_reason = reason,
        rs_recorded = t\<rparr>
     in bindR (insert_reseed rec d) (\<lambda>d1.
        bindR (update_affinity k (\<lambda>_. True) (reseeded_binding t dig g x) d1) (\<lambda>(_, d2).
        Inr (rec, d2))))"

definition reseed_tx :: "timestamp \<Rightarrow> thread_key \<Rightarrow> string \<Rightarrow> string \<Rightarrow> string \<Rightarrow> string \<Rightarrow> string \<Rightarrow>
    thread_db \<Rightarrow> thread_exn + reseed_record \<times> thread_db" where
  "reseed_tx t k old dig actor reason x d = bindR (select_binding d k) (\<lambda>r.
     bindR (of_row ThreadAffinityNotFound r) (\<lambda>b.
     bindR (ensure (tb_operation b = None) ThreadAffinityBusy) (\<lambda>_.
     bindR (ensure (tb_state b = AffinityActive) ThreadAffinityConflict) (\<lambda>_.
     bindR (ensure (tb_digest b = old) ThreadPromptMismatch) (\<lambda>_.
     bindR (of_row ThreadAffinityConflict (tb_provider b)) (\<lambda>prov.
     bindR (of_row ThreadAffinityConflict (tb_thread b)) (\<lambda>th.
     reseed_new t k dig actor reason x b prov th d)))))))"

definition reseed :: "timestamp \<Rightarrow> thread_key \<Rightarrow> string \<Rightarrow> string \<Rightarrow> string \<Rightarrow> string \<Rightarrow> string \<Rightarrow>
    thread_db \<Rightarrow> thread_exn + reseed_record \<times> thread_db" where
  "reseed t k old dig actor reason x d = bindR (stored_digest old) (\<lambda>old.
     bindR (prompt_digest dig) (\<lambda>dig. bindR (exact actor) (\<lambda>actor. bindR (exact reason) (\<lambda>reason.
     bindR (ensure (old \<noteq> dig) ThreadAffinityConflict) (\<lambda>_.
     except_map store_wrap (reseed_tx t k old dig actor reason x d))))))"

definition read_reseeds :: "thread_key \<Rightarrow> thread_db \<Rightarrow> reseed_record list" where
  "read_reseeds k d = sort_key rs_generation (filter (\<lambda>x. rs_key x = k) (td_reseeds d))"

definition read_binding :: "thread_key \<Rightarrow> thread_db \<Rightarrow> thread_exn + thread_binding option" where
  "read_binding k d = except_map store_wrap (select_binding d k)"

section \<open>The coordinator\<close>

text \<open>
  A provider's thread is its id, \<open>None\<close> an answer that is no thread. The calls between the
  transactions of \<open>run\<close> take and return the tables too: meanwhile other processes run theirs.
\<close>

type_synonym ('w, 'a) call = "'w \<times> thread_db \<Rightarrow> (thread_exn + 'a) \<times> ('w \<times> thread_db)"

record 'w worker_engine =
  we_provider :: string
  we_start :: "'w \<Rightarrow> (thread_exn + string option) \<times> 'w"
  we_resume :: "string \<Rightarrow> ('w, string option) call"

definition validate_thread :: "string option \<Rightarrow> string option \<Rightarrow> thread_exn + string" where
  "validate_thread th expected = (case th of
     None \<Rightarrow> Inl WorkerProviderError
   | Some v \<Rightarrow> if strip v = [] \<or> (expected \<noteq> None \<and> expected \<noteq> Some v)
       then Inl WorkerProviderError else Inr v)"

definition create_thread :: "'w worker_engine \<Rightarrow> 'w creating" where
  "create_thread eng w = (case we_start eng w of (r, w') \<Rightarrow> (bindR r (\<lambda>th. validate_thread th None), w'))"

definition thenC :: "('w, 'a) call \<Rightarrow> ('a \<Rightarrow> ('w, 'b) call) \<Rightarrow> ('w, 'b) call" where
  "thenC m f s = (case m s of (Inl e, s') \<Rightarrow> (Inl e, s') | (Inr x, s') \<Rightarrow> f x s')"

definition valueC :: "thread_exn + 'a \<Rightarrow> ('w, 'a) call" where
  "valueC r s = (r, s)"

definition storeC :: "(thread_db \<Rightarrow> thread_exn + 'a \<times> thread_db) \<Rightarrow> ('w, 'a) call" where
  "storeC tx s = (case tx (snd s) of Inl e \<Rightarrow> (Inl e, s) | Inr (x, d) \<Rightarrow> (Inr x, fst s, d))"

text \<open>The thread of the operation: the one just created, or the bound one, resumed.\<close>

definition opened_thread :: "timestamp \<Rightarrow> thread_key \<Rightarrow> string \<Rightarrow> string \<Rightarrow> string \<Rightarrow>
    'w worker_engine \<Rightarrow> thread_binding \<Rightarrow> bool \<Rightarrow> ('w, string) call" where
  "opened_thread t k i prov dig eng b created =
    (if created then valueC (of_row (OtherException ''IndexError'') (tb_thread b))
     else thenC (valueC (bindR (of_row (Raised ValueError) (tb_thread b)) exact)) (\<lambda>th.
       thenC (we_resume eng th) (\<lambda>v. thenC (valueC (validate_thread v (Some th))) (\<lambda>_.
       thenC (storeC (mark_resumed t k i prov th dig)) (\<lambda>_. valueC (Inr th))))))"

text \<open>The \<open>try\<close> block: a failing operation keeps its error, whether or not the release works.\<close>

definition releasing :: "timestamp \<Rightarrow> operation_claim \<Rightarrow> ('w, 'a) call \<Rightarrow> ('w, 'a) call" where
  "releasing t c body s = (case body s of
     (Inl e, s') \<Rightarrow> (Inl e, snd (storeC (\<lambda>d. bindR (release_operation t c d) (\<lambda>d'. Inr ((), d'))) s'))
   | (Inr x, s') \<Rightarrow> thenC (storeC (\<lambda>d. bindR (release_operation t c d) (\<lambda>d'. Inr ((), d'))))
       (\<lambda>_. valueC (Inr x)) s')"

definition use_engine :: "timestamp \<times> timestamp \<times> timestamp \<Rightarrow> thread_key \<Rightarrow> string \<Rightarrow> string \<Rightarrow>
    ('w, unit) call \<Rightarrow> (string \<Rightarrow> ('w, 'a) call) \<Rightarrow> string \<Rightarrow> 'w worker_engine \<Rightarrow> ('w, 'a) call" where
  "use_engine ts k i dig capture operation op eng s = (case ts of (t1, t2, t3) \<Rightarrow>
     (case exact (we_provider eng) of Inl e \<Rightarrow> (Inl e, s) | Inr prov \<Rightarrow>
       (case bind_and_claim t1 k i prov dig (create_thread eng) op (fst s) (snd s) of
          (Inl e, w) \<Rightarrow> (Inl e, w, snd s)
        | (Inr ((b, created, c), d), w) \<Rightarrow> releasing t3 c
            (thenC (opened_thread t2 k i prov dig eng b created) (\<lambda>th.
             thenC capture (\<lambda>_. operation th))) (w, d))))"

definition run_thread :: "timestamp \<times> timestamp \<times> timestamp \<Rightarrow> thread_key \<Rightarrow> string \<Rightarrow> string \<Rightarrow>
    bool \<Rightarrow> (string \<times> string \<Rightarrow> ('w worker_engine \<Rightarrow> ('w, 'a) call) \<Rightarrow> ('w, 'a) call) \<Rightarrow>
    ('w, unit) call \<Rightarrow> (string \<Rightarrow> ('w, 'a) call) \<Rightarrow> string \<Rightarrow> ('w, 'a) call" where
  "run_thread ts k i dig ephemeral pool capture operation op =
     thenC (valueC (exact i)) (\<lambda>i. thenC (valueC (prompt_digest dig)) (\<lambda>dig.
     thenC (valueC (ensure (\<not> ephemeral) (Raised ValueError))) (\<lambda>_.
     thenC (\<lambda>s. (authorize_thread k i (snd s), s)) (\<lambda>_.
     pool (tk_project k, i) (use_engine ts k i dig capture operation op)))))"

end
