(* ===== verification/ThreadSystem.thy ===== *)
theory ThreadSystem
  imports ThreadAffinity
begin

text \<open>
  The transactions of \<open>ThreadAffinity\<close> as one system with everything the other stores do to work
  items and role instances. Each transaction is a sequence of single writes (\<open>touch\<close>), on which the
  invariant and the life of a binding are proved.
\<close>

section \<open>Steps\<close>

definition keeps_references :: "db \<Rightarrow> db \<Rightarrow> bool" where
  "keeps_references d d' = ((\<forall>p w. has_work d p w \<longrightarrow> has_work d' p w)
     \<and> (\<forall>k i. has_instance d k i \<longrightarrow> has_instance d' k i))"

inductive thread_step :: "thread_db \<Rightarrow> thread_db \<Rightarrow> bool" where
  binds: "bind_with t k i prov dig (create :: unit creating) op w d = (Inr (x, d'), w') \<Longrightarrow> thread_step d d'"
| resumes: "mark_resumed t k i prov th dig d = Inr (b, d') \<Longrightarrow> thread_step d d'"
| claims: "claim_operation t k i dig op d = Inr (c, d') \<Longrightarrow> thread_step d d'"
| releases: "release_operation t c d = Inr d' \<Longrightarrow> thread_step d d'"
| supersedes: "release_superseded t k i dig boundary d = Inr (b, d') \<Longrightarrow> thread_step d d'"
| reseeds: "reseed t k old dig actor reason y d = Inr (x, d') \<Longrightarrow> thread_step d d'"
| elsewhere: "keeps_references (td_db d) w \<Longrightarrow> thread_step d (d\<lparr>td_db := w\<rparr>)"

text \<open>Their writes.\<close>

inductive touch :: "thread_db \<Rightarrow> thread_db \<Rightarrow> bool" where
  inserting: "insert_affinity (new_binding t k i prov dig th) d = Inr d' \<Longrightarrow> touch d d'"
| claiming: "update_affinity k (claimable_binding dig) (claimed_binding t i op) d = Inr (r, d') \<Longrightarrow> touch d d'"
| seeding: "update_affinity k (\<lambda>r. tb_state r = PendingSeed \<and> tb_digest r = dig)
    (seeded_binding t i prov th) d = Inr (r, d') \<Longrightarrow> touch d d'"
| resuming: "update_affinity k (resumable prov th dig) (resumed_binding t i) d = Inr (r, d') \<Longrightarrow> touch d d'"
| freeing: "update_affinity k P (freed_binding t) d = Inr (r, d') \<Longrightarrow> touch d d'"
| retiring: "reseed_tx t k old dig actor reason y d = Inr (x, d') \<Longrightarrow> old \<noteq> dig \<Longrightarrow> touch d d'"
| beside: "keeps_references (td_db d) w \<Longrightarrow> touch d (d\<lparr>td_db := w\<rparr>)"

text \<open>What a transaction that succeeds has written.\<close>

lemma claim_binding_Inr:
  "claim_binding t k i dig op d = Inr (b, d') \<Longrightarrow>
   update_affinity k (claimable_binding dig) (claimed_binding t i op) d = Inr (Some b, d')"
  by (auto simp: claim_binding_def binding_of_def monad_simps split: option.splits)

lemma claim_wanted_Inr:
  assumes "claim_wanted t k i dig op b d = Inr (b', d')"
  shows "op = None \<and> b' = b \<and> d' = d \<or>
    (\<exists>o'. op = Some o' \<and> update_affinity k (claimable_binding dig) (claimed_binding t i o') d = Inr (Some b', d'))"
  using assms by (cases op) (auto simp: claim_wanted_def dest: claim_binding_Inr)

lemma claim_wanted_touch: "claim_wanted t k i dig op b d = Inr (b', d') \<Longrightarrow> touch\<^sup>*\<^sup>* d d'"
  by (drule claim_wanted_Inr) (auto intro: claiming)

lemma seed_pending_Inr:
  assumes "seed_pending t k i prov dig op th d = Inr (b, d')"
  shows "\<exists>r d1. update_affinity k (\<lambda>r. tb_state r = PendingSeed \<and> tb_digest r = dig)
      (seeded_binding t i prov th) d = Inr (Some r, d1) \<and> claim_wanted t k i dig op r d1 = Inr (b, d')"
  using assms by (auto simp: seed_pending_def binding_of_def monad_simps split: prod.splits)

lemma bind_new_Inr:
  assumes "bind_new t k i prov dig op th d = Inr (b, d')"
  shows "\<exists>d1. insert_affinity (new_binding t k i prov dig th) d = Inr d1 \<and>
     claim_wanted t k i dig op (new_binding t k i prov dig th) d1 = Inr (b, d')"
  using assms by (auto simp: bind_new_def binding_of_def Let_def monad_simps)

lemma exact_same: "exact v = Inr v' \<Longrightarrow> v' = v"
  by (simp add: exact_def split: if_splits)

lemma create_then_Inr:
  assumes "create_then create use w = (Inr ((b, new), d'), w')"
  shows "new \<and> (\<exists>th. create w = (Inr th, w') \<and> exact th = Inr th \<and> use th = Inr (b, d'))"
  using assms
  by (auto simp: create_then_def monad_simps split: prod.splits dest: exact_same)

lemma prompt_digest_Inr: "prompt_digest v = Inr v' \<Longrightarrow> v' = v \<and> exact v = Inr v \<and> hex64 v"
  by (auto simp: prompt_digest_def monad_simps dest: exact_same)

lemma stored_digest_Inr: "stored_digest v = Inr v' \<Longrightarrow> v' = v"
  by (auto simp: stored_digest_def monad_simps split: if_splits dest: exact_same prompt_digest_Inr)

text \<open>The three ways a binding is returned.\<close>

lemma bind_tx_Inr:
  assumes "bind_tx t k i prov dig create op w d = (Inr ((b, new), d'), w')"
  shows "authorized d k i \<and>
    (select_binding d k = Inr None \<and> new \<and>
       (\<exists>th. create w = (Inr th, w') \<and> bind_new t k i prov dig op th d = Inr (b, d'))
     \<or> (\<exists>r. select_binding d k = Inr (Some r) \<and> tb_digest r = dig \<and> tb_state r = PendingSeed \<and> new \<and>
       (\<exists>th. create w = (Inr th, w') \<and> seed_pending t k i prov dig op th d = Inr (b, d')))
     \<or> (\<exists>r. select_binding d k = Inr (Some r) \<and> tb_digest r = dig \<and> tb_state r = AffinityActive \<and> \<not> new \<and>
       tb_provider r = Some prov \<and> w' = w \<and> claim_wanted t k i dig op r d = Inr (b, d')))"
proof -
  have A: "authorized d k i"
    using assms by (simp add: bind_tx_def split: if_splits)
  show ?thesis
  proof (cases "select_binding d k")
    case (Inl e)
    with assms A show ?thesis by (simp add: bind_tx_def)
  next
    case (Inr x)
    show ?thesis
    proof (cases x)
      case None
      with Inr assms A have "create_then create (\<lambda>th. bind_new t k i prov dig op th d) w = (Inr ((b, new), d'), w')"
        by (simp add: bind_tx_def)
      from create_then_Inr [OF this] None Inr A show ?thesis by blast
    next
      case (Some r)
      show ?thesis
      proof (cases "tb_state r")
        case AffinityActive
        with Some Inr assms A show ?thesis
          by (auto simp: bind_tx_def monad_simps split: if_splits)
      next
        case PendingSeed
        with Some Inr assms A have D: "tb_digest r = dig" and
          "create_then create (\<lambda>th. seed_pending t k i prov dig op th d) w = (Inr ((b, new), d'), w')"
          by (auto simp: bind_tx_def split: if_splits)
        from create_then_Inr [OF this(2)] D PendingSeed Some Inr A show ?thesis by blast
      qed
    qed
  qed
qed

lemma bind_tx_touch:
  assumes "bind_tx t k i prov dig create op w d = (Inr (x, d'), w')"
  shows "touch\<^sup>*\<^sup>* d d'"
proof -
  obtain b new where x: "x = (b, new)" by (cases x)
  from bind_tx_Inr [OF assms [unfolded x]] show ?thesis
  proof (elim conjE disjE exE)
    fix th assume "bind_new t k i prov dig op th d = Inr (b, d')"
    then show ?thesis
      by (auto dest!: bind_new_Inr intro: inserting claim_wanted_touch converse_rtranclp_into_rtranclp)
  next
    fix r th assume "seed_pending t k i prov dig op th d = Inr (b, d')"
    then obtain r' d1 where u: "update_affinity k (\<lambda>r. tb_state r = PendingSeed \<and> tb_digest r = dig)
        (seeded_binding t i prov th) d = Inr (Some r', d1)" and c: "claim_wanted t k i dig op r' d1 = Inr (b, d')"
      by (blast dest: seed_pending_Inr)
    from seeding [OF u] claim_wanted_touch [OF c] show ?thesis by (rule converse_rtranclp_into_rtranclp)
  next
    fix r assume "claim_wanted t k i dig op r d = Inr (b, d')"
    then show ?thesis by (rule claim_wanted_touch)
  qed
qed

lemma bind_with_Inr:
  assumes "bind_with t k i prov dig create op w d = (Inr x, w')"
  shows "bind_checks i prov dig op = Inr () \<and> bind_tx t k i prov dig create op w d = (Inr x, w')"
  using assms by (auto simp: bind_with_def monad_simps split: sum.splits prod.splits)

text \<open>To the tables the outside of the program is what \<open>create\<close> answers, so a \<open>thread_step\<close> with the
  trivial outside stands for a transaction with any.\<close>

lemma bind_with_outside:
  "fst (bind_with t k i prov dig create op w d) =
   fst (bind_with t k i prov dig (\<lambda>_. (fst (create w), ())) op () d)"
  by (simp add: bind_with_def bind_tx_def create_then_def split: sum.split prod.split option.split)

lemma bind_step:
  assumes "bind_with t k i prov dig create op w d = (Inr (x, d'), w')"
  shows "thread_step d d'"
proof -
  have "fst (bind_with t k i prov dig (\<lambda>_. (fst (create w), ())) op () d) = Inr (x, d')"
    using assms bind_with_outside [of t k i prov dig create op w d] by simp
  then have "bind_with t k i prov dig (\<lambda>_. (fst (create w), ())) op () d = (Inr (x, d'), ())"
    by (simp add: prod_eq_iff)
  then show ?thesis by (rule binds)
qed

lemma mark_resumed_Inr:
  assumes "mark_resumed t k i prov th dig d = Inr (b, d')"
  shows "authorized d k i \<and> update_affinity k (resumable prov th dig) (resumed_binding t i) d = Inr (Some b, d')"
  using assms
  by (auto simp: mark_resumed_def binding_of_def monad_simps dest!: exact_same prompt_digest_Inr split: prod.splits)

lemma claim_operation_Inr:
  assumes "claim_operation t k i dig op d = Inr (c, d')"
  shows "\<exists>b. authorized d k i \<and> prompt_digest dig = Inr dig \<and> claim_binding t k i dig op d = Inr (b, d') \<and> claim_record i op b = Inr c"
  using assms
  by (auto simp: claim_operation_def monad_simps split: prod.splits dest!: exact_same)
    (auto dest: prompt_digest_Inr)

lemma release_operation_Inr:
  assumes "release_operation t c d = Inr d'"
  shows "\<exists>r. update_affinity (oc_key c) (\<lambda>r. tb_operation r = Some (oc_operation c)) (freed_binding t) d = Inr (Some r, d')"
  using assms by (auto simp: release_operation_def monad_simps split: prod.splits)

lemma release_superseded_Inr:
  assumes "release_superseded t k i dig boundary d = Inr (b, d')"
  shows "\<exists>r. update_affinity k (superseded dig boundary) (freed_binding t) d = Inr (r, d') \<and> (b \<longleftrightarrow> r \<noteq> None)"
  using assms by (auto simp: release_superseded_def monad_simps split: prod.splits dest!: exact_same prompt_digest_Inr)

lemma reseed_Inr:
  assumes "reseed t k old dig actor reason y d = Inr (x, d')"
  shows "reseed_tx t k old dig actor reason y d = Inr (x, d') \<and> old \<noteq> dig"
  using assms by (auto simp: reseed_def monad_simps dest!: exact_same prompt_digest_Inr stored_digest_Inr)

lemma thread_step_touch: "thread_step d d' \<Longrightarrow> touch\<^sup>*\<^sup>* d d'"
proof (induction rule: thread_step.induct)
  case binds
  then show ?case by (blast dest: bind_with_Inr intro: bind_tx_touch)
next
  case resumes
  then show ?case by (blast dest: mark_resumed_Inr intro: resuming)
next
  case claims
  then show ?case by (blast dest: claim_operation_Inr claim_binding_Inr intro: claiming)
next
  case releases
  then show ?case by (blast dest: release_operation_Inr intro: freeing)
next
  case supersedes
  then show ?case by (blast dest: release_superseded_Inr intro: freeing)
next
  case reseeds
  then show ?case by (blast dest: reseed_Inr intro: retiring)
next
  case elsewhere
  then show ?case by (blast intro: beside)
qed

lemma thread_runs_touch: "thread_step\<^sup>*\<^sup>* d d' \<Longrightarrow> touch\<^sup>*\<^sup>* d d'"
  by (induction rule: rtranclp_induct) (auto dest: thread_step_touch)

section \<open>The invariant\<close>

text \<open>The reseeds of a context, in the order they were recorded. They number its generations from the
  second on, and the prompts of two neighbours agree where they meet.\<close>

definition history :: "thread_db \<Rightarrow> thread_key \<Rightarrow> reseed_record list" where
  "history d k = filter (\<lambda>x. rs_key x = k) (td_reseeds d)"

definition recorded :: "thread_binding \<Rightarrow> reseed_record list \<Rightarrow> bool" where
  "recorded r h = (map rs_generation h = [2..tb_generation r]
     \<and> successively (\<lambda>x y. rs_new_digest x = rs_old_digest y) h
     \<and> (h \<noteq> [] \<longrightarrow> rs_new_digest (last h) = tb_digest r)
     \<and> (\<forall>x\<in>set h. rs_old_digest x \<noteq> rs_new_digest x)
     \<and> (\<forall>p\<in>set_option (tb_pending r). h \<noteq> [] \<and> rs_id (last h) = p))"

definition thread_inv :: "thread_db \<Rightarrow> bool" where
  "thread_inv d = (distinct (map tb_key (td_affinities d))
     \<and> (\<forall>r\<in>set (td_affinities d). affinity_check r \<and> affinity_refs d r
          \<and> recorded r (history d (tb_key r)))
     \<and> (\<forall>r\<in>set (td_affinities d). \<forall>s\<in>set (td_affinities d). same_thread r s \<longrightarrow> tb_key r = tb_key s)
     \<and> (\<forall>x\<in>set (td_reseeds d). \<exists>r\<in>set (td_affinities d). tb_key r = rs_key x))"

lemma thread_invD:
  assumes "thread_inv d"
  shows "distinct (map tb_key (td_affinities d))"
    and "r \<in> set (td_affinities d) \<Longrightarrow> affinity_check r"
    and "r \<in> set (td_affinities d) \<Longrightarrow> affinity_refs d r"
    and "r \<in> set (td_affinities d) \<Longrightarrow> recorded r (history d (tb_key r))"
    and "r \<in> set (td_affinities d) \<Longrightarrow> s \<in> set (td_affinities d) \<Longrightarrow> same_thread r s \<Longrightarrow> tb_key r = tb_key s"
    and "x \<in> set (td_reseeds d) \<Longrightarrow> \<exists>r\<in>set (td_affinities d). tb_key r = rs_key x"
  using assms by (simp_all add: thread_inv_def)

lemma one_binding:
  "thread_inv d \<Longrightarrow> r \<in> set (td_affinities d) \<Longrightarrow> s \<in> set (td_affinities d) \<Longrightarrow> tb_key r = tb_key s \<Longrightarrow> r = s"
  by (drule thread_invD(1)) (rule distinct_map_eq)

lemma fetch_binding:
  assumes "thread_inv d" and "r \<in> set (td_affinities d)" and "P r"
  shows "fetchone (\<lambda>s. tb_key s = tb_key r \<and> P s) (td_affinities d) = Some r"
  using assms by (intro fetchone_unique [OF thread_invD(1)]) auto

lemma same_thread_sym: "same_thread r s \<Longrightarrow> same_thread s r"
  by (auto simp: same_thread_def)

text \<open>What an update that finds its row has done.\<close>

lemma update_affinity_Inr:
  assumes "update_affinity k P f d = Inr (x, d')"
  shows "td_db d' = td_db d \<and> td_reseeds d' = td_reseeds d \<and>
    (x = None \<and> d' = d \<and> (\<forall>r\<in>set (td_affinities d). tb_key r = k \<longrightarrow> \<not> P r)
     \<or> (\<exists>s\<in>set (td_affinities d). tb_key s = k \<and> P s \<and> x = Some (f s) \<and> affinity_constraints d (f s) = Inr ()
         \<and> td_affinities d' = upd_where (\<lambda>r. tb_key r = k \<and> P r) f (td_affinities d)))"
  using assms
  by (auto simp: update_affinity_def monad_simps fetchone_None_iff split: option.splits dest!: fetchone_SomeD)

lemma upd_where_by_key:
  assumes "distinct (map tb_key t)" and "s \<in> set t" and "tb_key s = k" and "P s"
  shows "r \<in> set (upd_where (\<lambda>r. tb_key r = k \<and> P r) f t) \<longleftrightarrow> r = f s \<or> r \<in> set t \<and> tb_key r \<noteq> k"
proof -
  have one: "r' = s" if "r' \<in> set t" "tb_key r' = k" for r'
    by (rule distinct_map_eq [OF assms(1) that(1) assms(2)]) (simp add: that assms(3))
  show ?thesis
  proof
    assume "r \<in> set (upd_where (\<lambda>r. tb_key r = k \<and> P r) f t)"
    then obtain r' where r': "r' \<in> set t" "r = (if tb_key r' = k \<and> P r' then f r' else r')"
      by (auto simp: set_upd_where)
    show "r = f s \<or> r \<in> set t \<and> tb_key r \<noteq> k"
    proof (cases "tb_key r' = k")
      case True
      with one [OF r'(1)] assms(4) r'(2) show ?thesis by simp
    qed (use r' in simp)
  next
    assume "r = f s \<or> r \<in> set t \<and> tb_key r \<noteq> k"
    with assms(2-4) show "r \<in> set (upd_where (\<lambda>r. tb_key r = k \<and> P r) f t)"
      by (auto simp: set_upd_where intro: bexI [of _ s])
  qed
qed

lemma affinity_refs_mono:
  "affinity_refs d r \<Longrightarrow> keeps_references (td_db d) (td_db d') \<Longrightarrow> set (td_reseeds d) \<subseteq> set (td_reseeds d') \<Longrightarrow>
   affinity_refs d' r"
  by (auto simp: affinity_refs_def keeps_references_def has_row_iff subset_iff) metis

lemma keeps_references_refl [simp]: "keeps_references d d"
  by (simp add: keeps_references_def)

lemma history_append:
  "td_reseeds d' = td_reseeds d @ xs \<Longrightarrow> history d' k = history d k @ filter (\<lambda>x. rs_key x = k) xs"
  by (simp add: history_def)

lemma replace_inv:
  assumes inv: "thread_inv d" and base: "td_db d1 = td_db d" "td_affinities d1 = td_affinities d"
    and xs: "td_reseeds d1 = td_reseeds d @ xs" "\<forall>x\<in>set xs. rs_key x = k"
    and u: "update_affinity k P f d1 = Inr (Some y, d')"
    and f: "\<And>r. r \<in> set (td_affinities d) \<Longrightarrow> tb_key r = k \<Longrightarrow> P r \<Longrightarrow>
      tb_key (f r) = k \<and> recorded (f r) (history d k @ xs)"
  shows "thread_inv d'"
proof -
  obtain s where s: "s \<in> set (td_affinities d)" "tb_key s = k" "P s" "affinity_constraints d1 (f s) = Inr ()"
    and t: "td_affinities d' = upd_where (\<lambda>r. tb_key r = k \<and> P r) f (td_affinities d)"
      "td_db d' = td_db d" "td_reseeds d' = td_reseeds d @ xs"
    using update_affinity_Inr [OF u] base xs(1) by auto
  note rows = upd_where_by_key [where P = P, OF thread_invD(1) [OF inv] s(1,2,3)]
  have fs: "tb_key (f s) = k" "recorded (f s) (history d k @ xs)"
    using f [OF s(1,2,3)] by auto
  have hist: "history d' k' = (if k' = k then history d k @ xs else history d k')" for k'
  proof -
    have "filter (\<lambda>x. rs_key x = k') xs = (if k' = k then xs else [])"
      using xs(2) by (auto intro: filter_True filter_False)
    then show ?thesis by (simp add: history_append [OF t(3)])
  qed
  have con: "affinity_check (f s)" "affinity_refs d1 (f s)"
    "\<And>r. r \<in> set (td_affinities d) \<Longrightarrow> tb_key r \<noteq> k \<Longrightarrow> \<not> same_thread (f s) r"
    using s(4) fs(1) base by (auto simp: affinity_constraints_def monad_simps has_row_iff)
  have ref: "affinity_refs d' r" if "affinity_refs d r \<or> affinity_refs d1 r" for r
    using that affinity_refs_mono [of d r d'] affinity_refs_mono [of d1 r d'] base xs(1) t by auto
  have keys: "map tb_key (td_affinities d') = map tb_key (td_affinities d)"
    unfolding t(1) by (rule map_upd_where_same) (use f in auto)
  have "affinity_check r \<and> affinity_refs d' r \<and> recorded r (history d' (tb_key r))" if "r \<in> set (td_affinities d')" for r
    using that con fs ref thread_invD(2-4) [OF inv] unfolding t(1) rows by (auto simp: hist)
  moreover have "tb_key r = tb_key r'"
    if "r \<in> set (td_affinities d')" "r' \<in> set (td_affinities d')" "same_thread r r'" for r r'
    using that con(3) fs(1) thread_invD(5) [OF inv] unfolding t(1) rows by (auto dest: same_thread_sym)
  moreover have "\<exists>r\<in>set (td_affinities d'). tb_key r = rs_key x" if "x \<in> set (td_reseeds d')" for x
  proof -
    have "rs_key x \<in> set (map tb_key (td_affinities d))"
      using that t(3) xs(2) s(1,2) thread_invD(6) [OF inv] by force
    then show ?thesis unfolding keys [symmetric] by auto
  qed
  ultimately show ?thesis
    using thread_invD(1) [OF inv] keys by (auto simp: thread_inv_def)
qed

definition quiet :: "(thread_binding \<Rightarrow> thread_binding) \<Rightarrow> bool" where
  "quiet f = (\<forall>r. tb_key (f r) = tb_key r \<and> tb_digest (f r) = tb_digest r
     \<and> tb_generation (f r) = tb_generation r \<and> tb_created (f r) = tb_created r
     \<and> (tb_pending (f r) = tb_pending r \<or> tb_pending (f r) = None))"

lemma quiet_updates [simp]:
  "quiet (claimed_binding t i op)" "quiet (seeded_binding t i prov th)" "quiet (resumed_binding t i)"
  "quiet (freed_binding t)"
  by (simp_all add: quiet_def claimed_binding_def seeded_binding_def resumed_binding_def freed_binding_def)

lemma quiet_recorded:
  assumes "quiet f" and "recorded r h"
  shows "tb_key (f r) = tb_key r" and "recorded (f r) h"
proof -
  have q: "tb_key (f r) = tb_key r" "tb_digest (f r) = tb_digest r" "tb_generation (f r) = tb_generation r"
    and p: "tb_pending (f r) = tb_pending r \<or> tb_pending (f r) = None"
    using assms(1) by (simp_all add: quiet_def)
  show "tb_key (f r) = tb_key r" by (rule q(1))
  from p assms(2) show "recorded (f r) h"
    by (elim disjE) (simp_all add: recorded_def q)
qed

lemma update_inv:
  assumes inv: "thread_inv d" and u: "update_affinity k P f d = Inr (x, d')" and q: "quiet f"
  shows "thread_inv d'"
proof (cases x)
  case None
  with update_affinity_Inr [OF u] inv show ?thesis by auto
next
  case (Some y)
  show ?thesis
  proof (rule replace_inv [OF inv refl refl, where xs = "[]"])
    show "update_affinity k P f d = Inr (Some y, d')" using u Some by simp
    fix r assume "r \<in> set (td_affinities d)" "tb_key r = k" "P r"
    then show "tb_key (f r) = k \<and> recorded (f r) (history d k @ [])"
      using quiet_recorded [OF q thread_invD(4) [OF inv, of r]] by simp
  qed auto
qed

lemma insert_inv:
  assumes inv: "thread_inv d" and i: "insert_affinity (new_binding t k i prov dig th) d = Inr d'"
  shows "thread_inv d'"
proof -
  let ?r = "new_binding t k i prov dig th"
  have d': "d' = d\<lparr>td_affinities := td_affinities d @ [?r]\<rparr>" and con: "affinity_check ?r" "affinity_refs d ?r"
    "\<And>s. s \<in> set (td_affinities d) \<Longrightarrow> tb_key s \<noteq> tb_key ?r \<and> \<not> same_thread ?r s"
    using i by (auto simp: insert_affinity_def affinity_constraints_def monad_simps has_row_iff)
  have "history d k = []"
    using con(3) thread_invD(6) [OF inv] by (fastforce simp: history_def filter_empty_conv new_binding_def)
  then have "recorded ?r (history d k)" by (simp add: recorded_def new_binding_def)
  moreover have k: "tb_key ?r = k" by (simp add: new_binding_def)
  moreover have "history d' k' = history d k'" "affinity_refs d' r = affinity_refs d r" for k' r
    by (simp_all add: d' history_def affinity_refs_def)
  moreover have "same_thread r ?r \<Longrightarrow> same_thread ?r r" for r by (rule same_thread_sym)
  ultimately show ?thesis
    using inv con unfolding thread_inv_def d' by (simp add: ball_Un) blast
qed

lemma reseed_tx_Inr:
  assumes "reseed_tx t k old dig actor reason y d = Inr (x, d')"
  shows "\<exists>b prov th z. b \<in> set (td_affinities d) \<and> tb_key b = k \<and> tb_operation b = None
    \<and> tb_state b = AffinityActive \<and> tb_digest b = old \<and> tb_provider b = Some prov \<and> tb_thread b = Some th
    \<and> x = \<lparr>rs_key = k, rs_id = y, rs_generation = tb_generation b + 1, rs_old_provider = prov,
        rs_old_thread = th, rs_old_digest = old, rs_new_digest = dig, rs_actor = actor,
        rs_reason = reason, rs_recorded = t\<rparr>
    \<and> insert_reseed x d = Inr (d\<lparr>td_reseeds := td_reseeds d @ [x]\<rparr>)
    \<and> update_affinity k (\<lambda>_. True) (reseeded_binding t dig (tb_generation b + 1) y)
        (d\<lparr>td_reseeds := td_reseeds d @ [x]\<rparr>) = Inr (z, d')"
  using assms
  by (auto simp: reseed_tx_def reseed_new_def select_binding_def binding_of_def insert_reseed_def Let_def monad_simps
      split: option.splits dest!: fetchone_SomeD)

lemma reseeded_recorded:
  assumes "recorded b h" and "affinity_check b"
  shows "recorded (reseeded_binding t dig (tb_generation b + 1) y b)
    (h @ [\<lparr>rs_key = k, rs_id = y, rs_generation = tb_generation b + 1, rs_old_provider = prov,
       rs_old_thread = th, rs_old_digest = tb_digest b, rs_new_digest = dig, rs_actor = actor,
       rs_reason = reason, rs_recorded = t\<rparr>]) \<longleftrightarrow> tb_digest b \<noteq> dig"
proof -
  have "[2..tb_generation b + 1] = [2..tb_generation b] @ [tb_generation b + 1]"
    using upto_rec2 [of 2 "tb_generation b + 1"] assms(2) by (simp add: affinity_check_def)
  with assms(1) show ?thesis
    by (auto simp: recorded_def reseeded_binding_def successively_append_iff)
qed

lemma retire_inv:
  assumes inv: "thread_inv d" and r: "reseed_tx t k old dig actor reason y d = Inr (x, d')" and "old \<noteq> dig"
  shows "thread_inv d'"
proof -
  obtain b prov th z where b: "b \<in> set (td_affinities d)" "tb_key b = k" "tb_digest b = old"
    and x: "x = \<lparr>rs_key = k, rs_id = y, rs_generation = tb_generation b + 1, rs_old_provider = prov,
        rs_old_thread = th, rs_old_digest = old, rs_new_digest = dig, rs_actor = actor,
        rs_reason = reason, rs_recorded = t\<rparr>"
    and u: "update_affinity k (\<lambda>_. True) (reseeded_binding t dig (tb_generation b + 1) y)
        (d\<lparr>td_reseeds := td_reseeds d @ [x]\<rparr>) = Inr (z, d')"
    using reseed_tx_Inr [OF r] by blast
  have "z \<noteq> None" using update_affinity_Inr [OF u] b(1,2) by auto
  then obtain z' where z: "z = Some z'" by blast
  show ?thesis
  proof (rule replace_inv [OF inv _ _ _ _ u [unfolded z], where xs = "[x]"])
    fix r assume "r \<in> set (td_affinities d)" "tb_key r = k"
    with one_binding [OF inv _ b(1)] b(2) have [simp]: "r = b" by simp
    show "tb_key (reseeded_binding t dig (tb_generation b + 1) y r) = k
        \<and> recorded (reseeded_binding t dig (tb_generation b + 1) y r) (history d k @ [x])"
      using reseeded_recorded [OF thread_invD(4) [OF inv b(1)] thread_invD(2) [OF inv b(1)]] b \<open>old \<noteq> dig\<close>
      by (auto simp: x reseeded_binding_def)
  qed (simp_all add: x)
qed

lemma beside_inv: "thread_inv d \<Longrightarrow> keeps_references (td_db d) w \<Longrightarrow> thread_inv (d\<lparr>td_db := w\<rparr>)"
  using affinity_refs_mono [of d _ "d\<lparr>td_db := w\<rparr>"] by (auto simp: thread_inv_def history_def)

lemma touch_inv: "touch d d' \<Longrightarrow> thread_inv d \<Longrightarrow> thread_inv d'"
  by (induction rule: touch.induct) (auto intro: insert_inv retire_inv beside_inv elim: update_inv)

interpretation writes: invariant_system touch thread_inv
  by unfold_locales (rule touch_inv)

interpretation threads: invariant_system thread_step thread_inv
  by unfold_locales (blast intro: writes.runs_inv thread_step_touch)

section \<open>The life of a binding\<close>

text \<open>Within a generation a context keeps its prompt, and once it has a thread its thread.\<close>

definition evolves :: "thread_binding \<Rightarrow> thread_binding \<Rightarrow> bool" where
  "evolves r r' = (tb_created r' = tb_created r \<and> tb_generation r \<le> tb_generation r'
     \<and> (tb_generation r' = tb_generation r \<longrightarrow> tb_digest r' = tb_digest r
       \<and> (tb_state r = AffinityActive \<longrightarrow> tb_state r' = AffinityActive
            \<and> tb_provider r' = tb_provider r \<and> tb_thread r' = tb_thread r)))"

definition contexts_evolve :: "thread_db \<Rightarrow> thread_db \<Rightarrow> bool" where
  "contexts_evolve d d' = ((\<forall>r\<in>set (td_affinities d). \<exists>r'\<in>set (td_affinities d').
       tb_key r' = tb_key r \<and> evolves r r')
     \<and> (\<exists>xs. td_reseeds d' = td_reseeds d @ xs))"

lemma evolves_refl [simp]: "evolves r r"
  by (simp add: evolves_def)

lemma evolves_trans: "evolves r r' \<Longrightarrow> evolves r' r'' \<Longrightarrow> evolves r r''"
  by (auto simp: evolves_def)

lemma contexts_evolve_refl: "contexts_evolve d d"
  by (auto simp: contexts_evolve_def)

lemma contexts_evolve_trans: "contexts_evolve d d' \<Longrightarrow> contexts_evolve d' d'' \<Longrightarrow> contexts_evolve d d''"
  by (auto simp: contexts_evolve_def) (metis evolves_trans)

lemma update_evolves:
  assumes u: "update_affinity k P f d = Inr (x, d')"
    and f: "\<And>r. r \<in> set (td_affinities d) \<Longrightarrow> tb_key r = k \<Longrightarrow> P r \<Longrightarrow> tb_key (f r) = k \<and> evolves r (f r)"
  shows "contexts_evolve d d'"
proof -
  have "\<exists>r'\<in>set (upd_where (\<lambda>r. tb_key r = k \<and> P r) f (td_affinities d)). tb_key r' = tb_key r \<and> evolves r r'"
    if "r \<in> set (td_affinities d)" for r
    using that f [of r] by (intro bexI [of _ "if tb_key r = k \<and> P r then f r else r"]) (auto simp: set_upd_where)
  then show ?thesis
    using update_affinity_Inr [OF u] contexts_evolve_refl by (auto simp: contexts_evolve_def)
qed

lemma touch_evolves: "touch d d' \<Longrightarrow> thread_inv d \<Longrightarrow> contexts_evolve d d'"
proof (induction rule: touch.induct)
  case inserting
  then show ?case by (auto simp: insert_affinity_def contexts_evolve_def monad_simps)
next
  case claiming
  then show ?case by (elim update_evolves) (simp add: claimed_binding_def evolves_def)
next
  case seeding
  then show ?case by (elim update_evolves) (simp add: seeded_binding_def evolves_def)
next
  case resuming
  then show ?case by (elim update_evolves) (simp add: resumed_binding_def evolves_def)
next
  case freeing
  then show ?case by (elim update_evolves) (simp add: freed_binding_def evolves_def)
next
  case (retiring t k old dig actor reason y d x d')
  then obtain b z where b: "b \<in> set (td_affinities d)" "tb_key b = k"
    and u: "update_affinity k (\<lambda>_. True) (reseeded_binding t dig (tb_generation b + 1) y)
        (d\<lparr>td_reseeds := td_reseeds d @ [x]\<rparr>) = Inr (z, d')"
    by (blast dest: reseed_tx_Inr)
  have "contexts_evolve (d\<lparr>td_reseeds := td_reseeds d @ [x]\<rparr>) d'"
  proof (rule update_evolves [OF u])
    fix r assume "r \<in> set (td_affinities (d\<lparr>td_reseeds := td_reseeds d @ [x]\<rparr>))" "tb_key r = k"
    with one_binding [OF retiring.prems _ b(1)] b(2) have "r = b" by simp
    then show "tb_key (reseeded_binding t dig (tb_generation b + 1) y r) = k
        \<and> evolves r (reseeded_binding t dig (tb_generation b + 1) y r)"
      using b(2) by (simp add: reseeded_binding_def evolves_def)
  qed
  then show ?case by (auto simp: contexts_evolve_def)
next
  case beside
  then show ?case by (auto simp: contexts_evolve_def)
qed

lemma thread_runs_evolve:
  assumes "thread_step\<^sup>*\<^sup>* d d'" and "thread_inv d"
  shows "contexts_evolve d d'"
  by (rule writes.runs_rel [OF contexts_evolve_refl contexts_evolve_trans touch_evolves thread_runs_touch])
    (use assms in auto)

end
