(* ===== verification/ThreadProperties.thy ===== *)
theory ThreadProperties
  imports ThreadSystem Samples
begin

text \<open>
  What the thread store and its coordinator promise: the history of a context, the thread it keeps,
  one operation at a time, and a claim that does not outlive its run.
\<close>

section \<open>Reads\<close>

lemma history_sorted: "recorded r (history d k) \<Longrightarrow> read_reseeds k d = history d k"
  by (simp add: read_reseeds_def history_def [symmetric] recorded_def sort_key_id_if_sorted)

lemma binding_of_checked: "affinity_check r \<Longrightarrow> binding_of r = Inr r"
proof -
  assume c: "affinity_check r"
  have letters: "list_all ident_char ''abcdef''" by code_simp
  have hex: "strip v = v \<and> v \<noteq> []" if "hex64 v" for v
  proof -
    have "ident_char c" if "c \<in> set v" for c
    proof (cases "digit_char c")
      case False
      with \<open>hex64 v\<close> that have "c \<in> set ''abcdef''" unfolding hex64_def list_all_iff by blast
      with letters show ?thesis unfolding list_all_iff by blast
    qed (simp add: ident_char_def)
    then have "strip v = v" by (intro strip_id ident_char_not_space)
    with that show ?thesis by (auto simp: hex64_def)
  qed
  then have hexE: "exact v = Inr v" if "hex64 v" for v using that by (simp add: exact_def)
  have u: "exact ''unpinned'' = Inr ''unpinned''" by code_simp
  from c have "stored_digest (tb_digest r) = Inr (tb_digest r)"
    using hexE [of "tb_digest r"] u by (auto simp: affinity_check_def stored_digest_def prompt_digest_def)
  with c show ?thesis by (simp add: binding_of_def affinity_check_def)
qed

lemma select_binding_inv:
  assumes "thread_inv d"
  shows "select_binding d k = Inr (fetchone (\<lambda>r. tb_key r = k) (td_affinities d))"
  using thread_invD(2) [OF assms]
  by (auto simp: select_binding_def binding_of_checked split: option.split dest!: fetchone_SomeD)

lemma select_row:
  assumes "thread_inv d" and "r \<in> set (td_affinities d)"
  shows "select_binding d (tb_key r) = Inr (Some r)"
  using fetch_binding [OF assms, where P = "\<lambda>_. True"] by (simp add: select_binding_inv [OF assms(1)])

lemma select_SomeD:
  "thread_inv d \<Longrightarrow> select_binding d k = Inr (Some r) \<Longrightarrow> r \<in> set (td_affinities d) \<and> tb_key r = k"
  by (auto simp: select_binding_inv dest: fetchone_SomeD)

text \<open>An operation that is current can always be released: no constraint is in the way.\<close>

lemma freed_allowed:
  assumes "thread_inv d" and "r \<in> set (td_affinities d)"
  shows "affinity_constraints d (freed_binding t r) = Inr ()"
proof -
  have "affinity_check (freed_binding t r)"
    using thread_invD(2) [OF assms]
    by (cases "tb_state r") (auto simp: freed_binding_def affinity_check_def state_check_def operation_check_def)
  moreover have "affinity_refs d (freed_binding t r)"
    using thread_invD(3) [OF assms] by (simp add: freed_binding_def affinity_refs_def)
  moreover have "tb_key s = tb_key r" if "s \<in> set (td_affinities d)" "same_thread (freed_binding t r) s" for s
  proof -
    have "same_thread (freed_binding t r) s = same_thread r s"
      by (simp add: same_thread_def freed_binding_def)
    with that(2) have "same_thread r s" by simp
    with thread_invD(5) [OF assms that(1)] show ?thesis by simp
  qed
  ultimately show ?thesis
    by (auto simp: affinity_constraints_def has_row_iff freed_binding_def [of t r] ensure_def)
qed

lemma update_freed:
  assumes "thread_inv d"
  shows "(\<exists>r\<in>set (td_affinities d). tb_key r = k \<and> P r \<and> update_affinity k P (freed_binding t) d =
      Inr (Some (freed_binding t r), d\<lparr>td_affinities := upd_where (\<lambda>s. tb_key s = k \<and> P s) (freed_binding t) (td_affinities d)\<rparr>))
    \<or> (\<forall>r\<in>set (td_affinities d). tb_key r = k \<longrightarrow> \<not> P r) \<and> update_affinity k P (freed_binding t) d = Inr (None, d)"
proof (cases "fetchone (\<lambda>s. tb_key s = k \<and> P s) (td_affinities d)")
  case None
  then have "\<forall>r\<in>set (td_affinities d). tb_key r = k \<longrightarrow> \<not> P r" by (auto simp: fetchone_None_iff)
  with None show ?thesis by (simp add: update_affinity_def)
next
  case (Some r)
  then have "r \<in> set (td_affinities d)" "tb_key r = k" "P r" by (auto dest: fetchone_SomeD)
  with Some freed_allowed [OF assms] show ?thesis by (auto simp: update_affinity_def)
qed

lemma release_cases:
  assumes "thread_inv d"
  shows "(\<exists>r\<in>set (td_affinities d). tb_key r = oc_key c \<and> tb_operation r = Some (oc_operation c) \<and>
      (\<exists>d'. release_operation t c d = Inr d' \<and>
        (\<forall>r\<in>set (td_affinities d'). tb_key r = oc_key c \<longrightarrow> tb_operation r = None)))
    \<or> (\<forall>r\<in>set (td_affinities d). tb_key r = oc_key c \<longrightarrow> tb_operation r \<noteq> Some (oc_operation c))
      \<and> release_operation t c d = Inl ThreadAffinityBusy"
  using update_freed [OF assms, of "oc_key c" "\<lambda>r. tb_operation r = Some (oc_operation c)" t]
proof (elim disjE bexE conjE)
  fix r assume r: "r \<in> set (td_affinities d)" "tb_key r = oc_key c" "tb_operation r = Some (oc_operation c)"
  assume u: "update_affinity (oc_key c) (\<lambda>r. tb_operation r = Some (oc_operation c)) (freed_binding t) d =
    Inr (Some (freed_binding t r), d\<lparr>td_affinities := upd_where (\<lambda>s. tb_key s = oc_key c
      \<and> tb_operation s = Some (oc_operation c)) (freed_binding t) (td_affinities d)\<rparr>)"
  have "tb_operation s = None" if "s \<in> set (upd_where (\<lambda>s. tb_key s = oc_key c
      \<and> tb_operation s = Some (oc_operation c)) (freed_binding t) (td_affinities d))" "tb_key s = oc_key c" for s
    using that upd_where_by_key [where P = "\<lambda>s. tb_operation s = Some (oc_operation c)", OF thread_invD(1) [OF assms] r]
    by (auto simp: freed_binding_def)
  with r u show ?thesis by (auto simp: release_operation_def)
next
  assume "\<forall>r\<in>set (td_affinities d). tb_key r = oc_key c \<longrightarrow> tb_operation r \<noteq> Some (oc_operation c)"
    "update_affinity (oc_key c) (\<lambda>r. tb_operation r = Some (oc_operation c)) (freed_binding t) d = Inr (None, d)"
  then show ?thesis by (simp add: release_operation_def store_wrap_def affinity_error_def)
qed

text \<open>A busy context cannot be claimed.\<close>

lemma busy_not_claimed:
  assumes "thread_inv d" and "r \<in> set (td_affinities d)" and "tb_operation r \<noteq> None"
  shows "\<exists>e. claim_binding t (tb_key r) i dig op d = Inl e"
proof -
  have "fetchone (\<lambda>s. tb_key s = tb_key r \<and> claimable_binding dig s) (td_affinities d) = None"
    using one_binding [OF assms(1)] assms(2,3) by (auto simp: fetchone_None_iff claimable_binding_def)
  then show ?thesis by (simp add: claim_binding_def update_affinity_def)
qed

lemma busy_active:
  "thread_inv d \<Longrightarrow> r \<in> set (td_affinities d) \<Longrightarrow> tb_operation r \<noteq> None \<Longrightarrow> tb_state r = AffinityActive"
  by (drule (1) thread_invD(2)) (auto simp: affinity_check_def operation_check_def)

lemma busy_bind:
  assumes "thread_inv d" and "r \<in> set (td_affinities d)" and "tb_operation r \<noteq> None"
  shows "\<exists>e. bind_and_claim t (tb_key r) i prov dig create op w d = (Inl e, w)"
proof -
  have "\<exists>e. bind_tx t (tb_key r) i prov dig create (Some op) w d = (Inl e, w)"
    using busy_not_claimed [OF assms, of t i dig op] busy_active [OF assms]
    by (auto simp: bind_tx_def select_row [OF assms(1,2)] claim_wanted_def)
  then show ?thesis by (auto simp: bind_and_claim_def bind_with_def split: sum.split)
qed

section \<open>What runs meanwhile\<close>

text \<open>The assumption on the calls between the transactions of \<open>run\<close>: to the tables they are steps of
  the system, of whatever process.\<close>

definition runs_steps :: "('w, 'a) call \<Rightarrow> bool" where
  "runs_steps m = (\<forall>s. thread_step\<^sup>*\<^sup>* (snd s) (snd (snd (m s))))"

lemma runs_stepsI: "(\<And>s. thread_step\<^sup>*\<^sup>* (snd s) (snd (snd (m s)))) \<Longrightarrow> runs_steps m"
  by (simp add: runs_steps_def)

lemma runs_steps_value [simp]: "runs_steps (valueC r)"
  by (simp add: runs_steps_def valueC_def)

lemma runs_steps_then:
  assumes "runs_steps m" and "\<And>x. runs_steps (f x)"
  shows "runs_steps (thenC m f)"
proof (rule runs_stepsI)
  fix s
  obtain r s' where m: "m s = (r, s')" by (cases "m s")
  then have 1: "thread_step\<^sup>*\<^sup>* (snd s) (snd s')"
    using assms(1) by (metis runs_steps_def snd_conv)
  show "thread_step\<^sup>*\<^sup>* (snd s) (snd (snd (thenC m f s)))"
  proof (cases r)
    case (Inr x)
    have "thread_step\<^sup>*\<^sup>* (snd s') (snd (snd (f x s')))"
      using assms(2) [of x] unfolding runs_steps_def by blast
    with 1 show ?thesis by (simp add: thenC_def m Inr)
  qed (use 1 in \<open>simp add: thenC_def m\<close>)
qed

lemma runs_steps_store:
  assumes "\<And>d x d'. tx d = Inr (x, d') \<Longrightarrow> thread_step d d'"
  shows "runs_steps (storeC tx)"
  by (rule runs_stepsI) (auto simp: storeC_def intro: assms split: sum.split prod.split)

lemma opened_thread_steps:
  assumes "\<And>th. runs_steps (we_resume eng th)"
  shows "runs_steps (opened_thread t k i prov dig eng b created)"
  by (auto simp: opened_thread_def intro!: runs_steps_then runs_steps_store assms intro: resumes)

lemma bind_and_claim_Inr:
  assumes "bind_and_claim t k i prov dig create op w d = (Inr ((b, new, c), d'), w')"
  shows "bind_with t k i prov dig create (Some op) w d = (Inr ((b, new), d'), w') \<and> claim_record i op b = Inr c"
  using assms by (auto simp: bind_and_claim_def monad_simps split: prod.splits)

text \<open>What a call that claims has claimed.\<close>

lemma claim_binding_row:
  assumes "claim_binding t k i dig op d = Inr (b, d')"
  shows "b \<in> set (td_affinities d') \<and> tb_key b = k \<and> tb_operation b = Some op \<and> tb_digest b = dig
    \<and> tb_started b = Some t \<and> tb_state b = AffinityActive"
proof -
  from update_affinity_Inr [OF claim_binding_Inr [OF assms]] obtain s where
    "s \<in> set (td_affinities d)" "tb_key s = k" "claimable_binding dig s" "b = claimed_binding t i op s"
    "td_affinities d' = upd_where (\<lambda>r. tb_key r = k \<and> claimable_binding dig r) (claimed_binding t i op) (td_affinities d)"
    by auto
  then show ?thesis by (auto simp: set_upd_where claimed_binding_def claimable_binding_def intro: bexI [of _ s])
qed

lemma bind_claims:
  assumes "bind_with t k i prov dig create (Some op) w d = (Inr ((b, new), d'), w')"
  shows "b \<in> set (td_affinities d') \<and> tb_key b = k \<and> tb_operation b = Some op \<and> tb_digest b = dig
    \<and> tb_started b = Some t \<and> tb_state b = AffinityActive"
proof -
  have "\<exists>d1. claim_binding t k i dig op d1 = Inr (b, d')"
    using bind_tx_Inr [OF conjunct2 [OF bind_with_Inr [OF assms]]]
    by (auto dest!: bind_new_Inr seed_pending_Inr simp: claim_wanted_def)
  then show ?thesis by (blast dest: claim_binding_row)
qed

lemma thenC_Inr: "thenC m f s = (Inr x, s') \<Longrightarrow> \<exists>y s1. m s = (Inr y, s1) \<and> f y s1 = (Inr x, s')"
  by (auto simp: thenC_def split: prod.splits sum.splits)

text \<open>Releasing at the end of the body, on both ways out.\<close>

lemma releasing_end:
  assumes "releasing t c body s = (res, s2)" and "body s = (r, s1)" and "thread_inv (snd s1)"
  shows "\<forall>x\<in>set (td_affinities (snd s2)). tb_key x = oc_key c \<longrightarrow> tb_operation x \<noteq> Some (oc_operation c)"
    and "res = Inr y \<Longrightarrow> r = Inr y \<and> release_operation t c (snd s1) = Inr (snd s2)"
    and "res = Inr y \<Longrightarrow> \<exists>x\<in>set (td_affinities (snd s1)). tb_key x = oc_key c \<and> tb_operation x = Some (oc_operation c)"
  using assms(1,2) release_cases [OF assms(3), of c t]
  by (auto simp: releasing_def thenC_def storeC_def valueC_def split: sum.splits)

section \<open>The binding that is returned\<close>

lemma update_row:
  assumes "thread_inv d" and "s \<in> set (td_affinities d)" and "tb_key s = k"
    and "update_affinity k P f d = Inr (Some y, d')"
  shows "y = f s \<and> f s \<in> set (td_affinities d')"
proof -
  obtain s' where s': "s' \<in> set (td_affinities d)" "tb_key s' = k" "P s'" "y = f s'"
    and d': "td_affinities d' = upd_where (\<lambda>r. tb_key r = k \<and> P r) f (td_affinities d)"
    using update_affinity_Inr [OF assms(4)] by auto
  have "s' = s" by (rule one_binding [OF assms(1) s'(1) assms(2)]) (simp add: s'(2) assms(3))
  with s' d' show ?thesis by (auto simp: set_upd_where)
qed

definition serves :: "thread_key \<Rightarrow> string \<Rightarrow> string \<Rightarrow> thread_binding \<Rightarrow> bool" where
  "serves k prov dig b = (tb_key b = k \<and> tb_provider b = Some prov \<and> tb_digest b = dig
     \<and> tb_state b = AffinityActive \<and> tb_thread b \<noteq> None)"

lemma claim_wanted_serves:
  assumes "thread_inv d" and "r \<in> set (td_affinities d)" and "serves k prov dig r"
    and "claim_wanted t k i dig' op r d = Inr (b, d')"
  shows "b \<in> set (td_affinities d') \<and> serves k prov dig b"
  using claim_wanted_Inr [OF assms(4)]
proof (elim disjE exE conjE)
  fix o' assume u: "update_affinity k (claimable_binding dig') (claimed_binding t i o') d = Inr (Some b, d')"
  have "tb_key r = k" using assms(3) by (simp add: serves_def)
  from update_row [OF assms(1,2) this u] assms(3) show ?thesis
    by (auto simp: serves_def claimed_binding_def)
qed (use assms in simp)

lemma bind_serves:
  assumes inv: "thread_inv d" and b: "bind_with t k i prov dig create op w d = (Inr ((b, new), d'), w')"
  shows "b \<in> set (td_affinities d') \<and> serves k prov dig b"
  using bind_tx_Inr [OF conjunct2 [OF bind_with_Inr [OF b]]]
proof (elim conjE disjE exE)
  fix th assume "bind_new t k i prov dig op th d = Inr (b, d')"
  then obtain d1 where i: "insert_affinity (new_binding t k i prov dig th) d = Inr d1"
    and c: "claim_wanted t k i dig op (new_binding t k i prov dig th) d1 = Inr (b, d')"
    by (blast dest: bind_new_Inr)
  from i have "new_binding t k i prov dig th \<in> set (td_affinities d1)"
    by (auto simp: insert_affinity_def monad_simps)
  from claim_wanted_serves [OF insert_inv [OF inv i] this _ c] show ?thesis
    by (simp add: serves_def new_binding_def)
next
  fix r th assume r: "select_binding d k = Inr (Some r)" "tb_digest r = dig"
    and "seed_pending t k i prov dig op th d = Inr (b, d')"
  then obtain r' d1 where u: "update_affinity k (\<lambda>r. tb_state r = PendingSeed \<and> tb_digest r = dig)
      (seeded_binding t i prov th) d = Inr (Some r', d1)" and c: "claim_wanted t k i dig op r' d1 = Inr (b, d')"
    by (blast dest: seed_pending_Inr)
  from select_SomeD [OF inv r(1)] have rk: "r \<in> set (td_affinities d)" "tb_key r = k" by auto
  have r': "r' = seeded_binding t i prov th r" "r' \<in> set (td_affinities d1)"
    using update_row [OF inv rk u] by auto
  then have "serves k prov dig r'" using rk r(2) by (simp add: serves_def seeded_binding_def)
  with claim_wanted_serves [OF update_inv [OF inv u] r'(2) _ c] show ?thesis by simp
next
  fix r assume r: "select_binding d k = Inr (Some r)" "tb_digest r = dig" "tb_state r = AffinityActive"
    "tb_provider r = Some prov" and c: "claim_wanted t k i dig op r d = Inr (b, d')"
  from select_SomeD [OF inv r(1)] have rk: "r \<in> set (td_affinities d)" "tb_key r = k" by auto
  then have "serves k prov dig r"
    using thread_invD(2) [OF inv rk(1)] r by (auto simp: serves_def affinity_check_def state_check_def)
  from claim_wanted_serves [OF inv rk(1) this c] show ?thesis .
qed

text \<open>Without a reseed in between, the generation is the same.\<close>

lemma reads_recorded:
  assumes "thread_inv d" and "r \<in> set (td_affinities d)"
  shows "recorded r (read_reseeds (tb_key r) d)"
  using history_sorted [OF thread_invD(4) [OF assms]] thread_invD(4) [OF assms] by simp

lemma same_history_same_generation:
  assumes "thread_inv d" and "thread_inv d'" and "r \<in> set (td_affinities d)" and "r' \<in> set (td_affinities d')"
    and "tb_key r' = tb_key r" and "read_reseeds (tb_key r) d' = read_reseeds (tb_key r) d"
  shows "tb_generation r' = tb_generation r"
proof -
  have "recorded r (read_reseeds (tb_key r) d)" "recorded r' (read_reseeds (tb_key r) d)"
    using reads_recorded [OF assms(1,3)] reads_recorded [OF assms(2,4)] assms(5,6) by simp_all
  then have "[2..tb_generation r] = [2..tb_generation r']" by (simp add: recorded_def)
  then have "length [2..tb_generation r] = length [2..tb_generation r']" by simp
  moreover have "0 < tb_generation r" "0 < tb_generation r'"
    using thread_invD(2) [OF assms(1,3)] thread_invD(2) [OF assms(2,4)] by (auto simp: affinity_check_def)
  ultimately show ?thesis by simp
qed

lemma bind_again:
  assumes inv: "thread_inv d" and r: "r \<in> set (td_affinities d)" "serves k prov dig r"
    and a: "authorized d k i" and c: "bind_checks i prov dig None = Inr ()"
  shows "bind_or_read t k i prov dig create w d = (Inr ((r, False), d), w)"
  using select_row [OF inv r(1)] r(2) a c
  by (simp add: bind_or_read_def bind_with_def bind_tx_def serves_def claim_wanted_def)

section \<open>Samples\<close>

definition no_threads :: "thread_db \<Rightarrow> bool" where
  "no_threads d = (td_affinities d = [] \<and> td_reseeds d = [])"

lemma threads_reachable: "no_threads d0 \<Longrightarrow> thread_step\<^sup>*\<^sup>* d0 d \<Longrightarrow> thread_inv d"
  by (rule threads.runs_inv) (auto simp: no_threads_def thread_inv_def)

definition start_threads :: thread_db where
  "start_threads = \<lparr>td_db = project_db, td_affinities = [], td_reseeds = []\<rparr>"

definition ctx :: thread_key where
  "ctx = \<lparr>tk_project = ''p'', tk_work = ''w'', tk_role = ''dev'', tk_conversation = ''work''\<rparr>"

definition prompt_a :: string where "prompt_a = replicate 64 CHR ''a''"
definition prompt_b :: string where "prompt_b = replicate 64 CHR ''b''"

definition row_a :: thread_binding where
  "row_a = new_binding 10 ctx ''dev1'' ''codex'' prompt_a ''th1''"

definition retired_a :: reseed_record where
  "retired_a = \<lparr>rs_key = ctx, rs_id = ''r1'', rs_generation = 2, rs_old_provider = ''codex'',
     rs_old_thread = ''th1'', rs_old_digest = prompt_a, rs_new_digest = prompt_b, rs_actor = ''pm'',
     rs_reason = ''new prompt'', rs_recorded = 20\<rparr>"

definition with_threads :: "thread_binding list \<Rightarrow> reseed_record list \<Rightarrow> thread_db" where
  "with_threads rs xs = \<lparr>td_db = project_db, td_affinities = rs, td_reseeds = xs\<rparr>"

definition counting :: "nat creating" where
  "counting n = (Inr ''th1'', n + 1)"

definition sample_engine :: "nat worker_engine" where
  "sample_engine = \<lparr>we_provider = ''codex'', we_start = (\<lambda>n. (Inr (Some ''th1''), n + 1)),
     we_resume = (\<lambda>th s. (Inr (Some th), s))\<rparr>"

lemma sample_binds:
  "bind_with 10 ctx ''dev1'' ''codex'' prompt_a counting None 0 start_threads =
   (Inr ((row_a, True), with_threads [row_a] []), 1)"
  by code_simp

lemma sample_reseeds:
  "reseed 20 ctx prompt_a prompt_b ''pm'' ''new prompt'' ''r1'' (with_threads [row_a] []) =
   Inr (retired_a, with_threads [reseeded_binding 20 prompt_b 2 ''r1'' row_a] [retired_a])"
  by code_simp

lemma sample_claims:
  "claim_operation 30 ctx ''dev1'' prompt_a ''o1'' (with_threads [row_a] []) =
   Inr (\<lparr>oc_key = ctx, oc_operation = ''o1'', oc_instance = ''dev1'', oc_digest = prompt_a, oc_started = 30\<rparr>,
     with_threads [claimed_binding 30 ''dev1'' ''o1'' row_a] [])"
  by code_simp

lemma sample_runs:
  "use_engine (10, 10, 10) ctx ''dev1'' prompt_a (valueC (Inr ())) (\<lambda>th. valueC (Inr th)) ''o1''
     sample_engine (0, start_threads) = (Inr ''th1'', (1, with_threads [row_a] []))"
  by code_simp

lemma sample_bound: "no_threads start_threads" "thread_step\<^sup>*\<^sup>* start_threads (with_threads [row_a] [])"
  using bind_step [OF sample_binds] by (auto simp: no_threads_def start_threads_def)

lemma sample_busy: "thread_step\<^sup>*\<^sup>* start_threads (with_threads [claimed_binding 30 ''dev1'' ''o1'' row_a] [])"
  using sample_bound(2) claims [OF sample_claims] by (rule rtranclp.rtrancl_into_rtrancl)

lemma sample_reseeded:
  "thread_step\<^sup>*\<^sup>* start_threads (with_threads [reseeded_binding 20 prompt_b 2 ''r1'' row_a] [retired_a])"
  using sample_bound(2) reseeds [OF sample_reseeds] by (rule rtranclp.rtrancl_into_rtrancl)

section \<open>Properties\<close>

text \<open>C16. The reseed records of a context tell how it came to its present prompt: in every reachable
  state they number its generations from the second to the present one without a gap, each starts
  from the prompt the one before ended with and changes it, and the last ends with the present
  prompt; a context that waits for its new thread waits because of the last. No two contexts share
  a thread of a provider.\<close>

theorem generations_are_recorded:
  assumes "no_threads d0" and "thread_step\<^sup>*\<^sup>* d0 d" and "read_binding k d = Inr (Some b)"
  shows "map rs_generation (read_reseeds k d) = [2..tb_generation b]
    \<and> successively (\<lambda>x y. rs_new_digest x = rs_old_digest y) (read_reseeds k d)
    \<and> (\<forall>x\<in>set (read_reseeds k d). rs_old_digest x \<noteq> rs_new_digest x)
    \<and> (read_reseeds k d \<noteq> [] \<longrightarrow> rs_new_digest (last (read_reseeds k d)) = tb_digest b)
    \<and> (tb_state b = PendingSeed \<longrightarrow> read_reseeds k d \<noteq> [] \<and> tb_pending b = Some (rs_id (last (read_reseeds k d))))
    \<and> (\<forall>k' b'. read_binding k' d = Inr (Some b') \<and> same_thread b b' \<longrightarrow> k' = k)"
proof -
  have inv: "thread_inv d" by (rule threads_reachable [OF assms(1,2)])
  have row: "b' \<in> set (td_affinities d) \<and> tb_key b' = k'" if "read_binding k' d = Inr (Some b')" for k' b'
    using that select_SomeD [OF inv, of k' b'] by (simp add: read_binding_def except_map_iff)
  have b: "b \<in> set (td_affinities d)" "tb_key b = k" using row [OF assms(3)] by auto
  have "tb_pending b \<noteq> None" if "tb_state b = PendingSeed"
    using thread_invD(2) [OF inv b(1)] that by (simp add: affinity_check_def state_check_def)
  moreover have "k' = k" if "read_binding k' d = Inr (Some b')" "same_thread b b'" for k' b'
    using row [OF that(1)] thread_invD(5) [OF inv b(1) _ that(2)] b(2) by auto
  ultimately show ?thesis
    using reads_recorded [OF inv b(1)] b(2) by (auto simp: recorded_def)
qed

theorem generations_are_recorded_witness:
  "map rs_generation (read_reseeds ctx (with_threads [reseeded_binding 20 prompt_b 2 ''r1'' row_a] [retired_a])) = [2..2]"
proof -
  have "read_binding ctx (with_threads [reseeded_binding 20 prompt_b 2 ''r1'' row_a] [retired_a])
     = Inr (Some (reseeded_binding 20 prompt_b 2 ''r1'' row_a))" by code_simp
  from generations_are_recorded [OF sample_bound(1) sample_reseeded this] show ?thesis
    by (simp add: reseeded_binding_def)
qed

text \<open>C17. A context keeps its thread: once an instance has been given the context's thread, then, whatever
  happens afterwards, as long as no reseed is recorded any authorised instance that asks with the
  same provider and prompt gets the same thread, and the provider is not asked to create one.\<close>

theorem context_keeps_its_thread:
  assumes "no_threads d0" and "thread_step\<^sup>*\<^sup>* d0 d"
    and "bind_with t k i prov dig create op w d = (Inr ((b, new), d1), w1)"
    and "thread_step\<^sup>*\<^sup>* d1 d2" and "read_reseeds k d2 = read_reseeds k d1"
    and "exact i' = Inr i'" and "authorized d2 k i'"
  shows "\<exists>b'. bind_or_read t' k i' prov dig again v d2 = (Inr ((b', False), d2), v)
    \<and> tb_thread b' = tb_thread b \<and> tb_thread b \<noteq> None"
proof -
  have inv: "thread_inv d" by (rule threads_reachable [OF assms(1,2)])
  have inv1: "thread_inv d1" by (rule threads.step_inv [OF bind_step [OF assms(3)] inv])
  have inv2: "thread_inv d2" by (rule threads.runs_inv [OF assms(4) inv1])
  have b: "b \<in> set (td_affinities d1)" "serves k prov dig b" using bind_serves [OF inv assms(3)] by auto
  then have k: "tb_key b = k" by (simp add: serves_def)
  obtain b' where b': "b' \<in> set (td_affinities d2)" "tb_key b' = tb_key b" "evolves b b'"
    using thread_runs_evolve [OF assms(4) inv1] b(1) by (auto simp: contexts_evolve_def)
  have "tb_generation b' = tb_generation b"
    by (rule same_history_same_generation [OF inv1 inv2 b(1) b'(1,2)]) (simp add: k assms(5))
  with b' b(2) have s: "serves k prov dig b'" "tb_thread b' = tb_thread b" by (auto simp: evolves_def serves_def)
  have c: "bind_checks i' prov dig None = Inr ()"
    using bind_with_Inr [OF assms(3)] assms(6) by (auto simp: bind_checks_def monad_simps)
  have "bind_or_read t' k i' prov dig again v d2 = (Inr ((b', False), d2), v)"
    by (rule bind_again [OF inv2 b'(1) s(1) assms(7) c])
  moreover have "tb_thread b \<noteq> None" using b(2) by (simp add: serves_def)
  ultimately show ?thesis using s(2) by blast
qed

theorem context_keeps_its_thread_witness:
  "\<exists>b'. bind_or_read 50 ctx ''dev1'' ''codex'' prompt_a counting 7 (with_threads [claimed_binding 30 ''dev1'' ''o1'' row_a] [])
     = (Inr ((b', False), with_threads [claimed_binding 30 ''dev1'' ''o1'' row_a] []), 7)"
proof -
  have r: "thread_step\<^sup>*\<^sup>* (with_threads [row_a] []) (with_threads [claimed_binding 30 ''dev1'' ''o1'' row_a] [])"
    using claims [OF sample_claims] by blast
  have h: "read_reseeds ctx (with_threads [claimed_binding 30 ''dev1'' ''o1'' row_a] []) = read_reseeds ctx (with_threads [row_a] [])"
    by code_simp
  have e: "exact ''dev1'' = Inr ''dev1''" "authorized (with_threads [claimed_binding 30 ''dev1'' ''o1'' row_a] []) ctx ''dev1''"
    by code_simp+
  show ?thesis
    using context_keeps_its_thread [OF sample_bound(1) rtranclp.rtrancl_refl sample_binds r h e,
        where t' = 50 and again = counting and v = 7] by blast
qed

text \<open>C10. One operation at a time: while an operation of a context is current, no other can be claimed,
  alone or with the binding (which then does not make the provider start a thread), the prompt
  cannot be reseeded, and nobody can release it with another claim.\<close>

theorem busy_context_is_exclusive:
  assumes "no_threads d0" and "thread_step\<^sup>*\<^sup>* d0 d" and "read_binding k d = Inr (Some b)" and "tb_operation b = Some op"
  shows "(\<exists>e. claim_operation t k i dig op' d = Inl e)
    \<and> (\<exists>e. bind_and_claim t k i prov dig create op' w d = (Inl e, w))
    \<and> (\<exists>e. reseed t k dig dig' actor reason x d = Inl e)
    \<and> (\<forall>c. oc_key c = k \<and> oc_operation c \<noteq> op \<longrightarrow> release_operation t c d = Inl ThreadAffinityBusy)"
proof -
  have inv: "thread_inv d" by (rule threads_reachable [OF assms(1,2)])
  have b: "b \<in> set (td_affinities d)" "tb_key b = k"
    using assms(3) select_SomeD [OF inv, of k b] by (auto simp: read_binding_def except_map_iff)
  have o: "tb_operation b \<noteq> None" using assms(4) by simp
  have "\<not> (\<exists>c d'. claim_operation t k i dig op' d = Inr (c, d'))"
    using busy_not_claimed [OF inv b(1) o, of t i dig op'] b(2) by (auto dest!: claim_operation_Inr)
  moreover have "\<not> (\<exists>y d'. reseed t k dig dig' actor reason x d = Inr (y, d'))"
  proof (intro notI; elim exE)
    fix y d' assume "reseed t k dig dig' actor reason x d = Inr (y, d')"
    from reseed_tx_Inr [OF conjunct1 [OF reseed_Inr [OF this]]]
    obtain s where "s \<in> set (td_affinities d)" "tb_key s = k" "tb_operation s = None" by blast
    with one_binding [OF inv _ b(1), of s] b(2) o show False by simp
  qed
  moreover have "release_operation t c d = Inl ThreadAffinityBusy" if "oc_key c = k" "oc_operation c \<noteq> op" for c
    using release_cases [OF inv, of c t]
  proof (elim disjE bexE conjE)
    fix r assume r: "r \<in> set (td_affinities d)" "tb_key r = oc_key c" "tb_operation r = Some (oc_operation c)"
    with one_binding [OF inv r(1) b(1)] that b(2) assms(4) show ?thesis by simp
  qed
  moreover have "\<exists>e. bind_and_claim t k i prov dig create op' w d = (Inl e, w)"
    using busy_bind [OF inv b(1) o, of t i prov dig create op' w] b(2) by simp
  ultimately show ?thesis
    by (cases "claim_operation t k i dig op' d"; cases "reseed t k dig dig' actor reason x d") auto
qed

theorem busy_context_is_exclusive_witness:
  "\<exists>e. bind_and_claim 40 ctx ''dev1'' ''codex'' prompt_a counting ''o2'' 0
      (with_threads [claimed_binding 30 ''dev1'' ''o1'' row_a] []) = (Inl e, 0)"
proof -
  have "read_binding ctx (with_threads [claimed_binding 30 ''dev1'' ''o1'' row_a] [])
     = Inr (Some (claimed_binding 30 ''dev1'' ''o1'' row_a))" by code_simp
  moreover have "tb_operation (claimed_binding 30 ''dev1'' ''o1'' row_a) = Some ''o1''" by (simp add: claimed_binding_def)
  ultimately show ?thesis
    using busy_context_is_exclusive [OF sample_bound(1) sample_busy, where t = 40 and i = "''dev1''"
      and prov = "''codex''" and dig = prompt_a and create = counting and op' = "''o2''" and w = 0] by blast
qed

text \<open>C11. A run releases its claim: whatever the provider and the operation do, and whatever other
  processes do meanwhile, when the coordinator is done no operation of its context is current under
  its id; and it only returns a result when its claim was still current at the end, so a run whose
  claim was taken away reports an error.\<close>

theorem run_releases_its_claim:
  assumes "no_threads d0" and "thread_step\<^sup>*\<^sup>* d0 d"
    and "\<And>th. runs_steps (we_resume eng th)" and "runs_steps capture" and "\<And>th. runs_steps (operation th)"
    and "\<forall>r\<in>set (td_affinities d). tb_operation r \<noteq> Some op"
    and "use_engine ts k i dig capture operation op eng (w, d) = (res, s2)"
  shows "(\<forall>r\<in>set (td_affinities (snd s2)). tb_key r = k \<longrightarrow> tb_operation r \<noteq> Some op)
    \<and> (\<forall>x. res = Inr x \<longrightarrow> (\<exists>th s s1. operation th s = (Inr x, s1)
        \<and> (\<exists>r\<in>set (td_affinities (snd s1)). tb_key r = k \<and> tb_operation r = Some op)))"
proof (cases "\<exists>e v. use_engine ts k i dig capture operation op eng (w, d) = (Inl e, v, d)")
  case True
  with assms(6,7) show ?thesis by auto
next
  case False
  have inv: "thread_inv d" by (rule threads_reachable [OF assms(1,2)])
  obtain t1 t2 t3 where ts: "ts = (t1, t2, t3)" by (cases ts)
  obtain prov b new c d1 v where
    b: "bind_and_claim t1 k i prov dig (create_thread eng) op w d = (Inr ((b, new, c), d1), v)"
    and r: "releasing t3 c (thenC (opened_thread t2 k i prov dig eng b new)
       (\<lambda>th. thenC capture (\<lambda>_. operation th))) (v, d1) = (res, s2)"
    using False assms(7) by (auto simp: use_engine_def ts split: sum.splits prod.splits)
  let ?body = "thenC (opened_thread t2 k i prov dig eng b new) (\<lambda>th. thenC capture (\<lambda>_. operation th))"
  have bw: "bind_with t1 k i prov dig (create_thread eng) (Some op) w d = (Inr ((b, new), d1), v)"
    and c: "claim_record i op b = Inr c"
    using bind_and_claim_Inr [OF b] by auto
  have ck: "oc_key c = k" "oc_operation c = op"
    using c bind_claims [OF bw] by (auto simp: claim_record_def)
  obtain y s1 where y: "?body (v, d1) = (y, s1)" by (cases "?body (v, d1)")
  have "runs_steps ?body"
    by (intro runs_steps_then opened_thread_steps assms(3-5))
  then have "thread_step\<^sup>*\<^sup>* d1 (snd s1)"
    using y unfolding runs_steps_def by (metis snd_conv)
  then have inv1: "thread_inv (snd s1)"
    by (rule threads.runs_inv) (rule threads.step_inv [OF bind_step [OF bw] inv])
  note last = releasing_end [OF r y inv1, unfolded ck]
  have "\<exists>th s. operation th s = (Inr x, s1)" if "res = Inr x" for x
    using last(2) [OF that] y by (auto dest!: thenC_Inr)
  with last(1,3) show ?thesis by blast
qed

theorem run_releases_its_claim_witness:
  "\<exists>r\<in>set (td_affinities (with_threads [row_a] [])). tb_key r = ctx \<and> tb_operation r \<noteq> Some ''o1''"
proof -
  have "\<forall>r\<in>set (td_affinities (snd (1::nat, with_threads [row_a] []))). tb_key r = ctx \<longrightarrow> tb_operation r \<noteq> Some ''o1''"
    by (rule conjunct1 [OF run_releases_its_claim [OF sample_bound(1) rtranclp.rtrancl_refl _ _ _ _ sample_runs]])
      (simp_all add: sample_engine_def start_threads_def runs_steps_def valueC_def)
  then show ?thesis by (simp add: with_threads_def row_a_def new_binding_def)
qed

text \<open>C38. A newer lease takes a context over: releasing what is superseded ends the current operation of
  the context exactly if it started before the lease that asks was acquired, and the holder can then
  not release it any more, so its run fails. Nothing else is asked: not whether the lease under which
  the operation runs has ended.\<close>

theorem older_operation_is_superseded:
  assumes "no_threads d0" and "thread_step\<^sup>*\<^sup>* d0 d" and "read_binding (oc_key c) d = Inr (Some b)"
    and "tb_operation b = Some (oc_operation c)" and "tb_started b = Some s"
    and "exact i = Inr i" and "prompt_digest (tb_digest b) = Inr (tb_digest b)" and "authorized d (oc_key c) i"
  shows "\<exists>d'. release_superseded t (oc_key c) i (tb_digest b) boundary d = Inr (s < boundary, d')
    \<and> (if s < boundary then release_operation t' c d' = Inl ThreadAffinityBusy else d' = d)"
proof -
  let ?k = "oc_key c" and ?P = "superseded (tb_digest b) boundary"
  have inv: "thread_inv d" by (rule threads_reachable [OF assms(1,2)])
  have b: "b \<in> set (td_affinities d)" "tb_key b = ?k"
    using assms(3) select_SomeD [OF inv, of ?k b] by (auto simp: read_binding_def except_map_iff)
  have one: "r = b" if "r \<in> set (td_affinities d)" "tb_key r = ?k" for r
    by (rule one_binding [OF inv that(1) b(1)]) (simp add: that b)
  have P: "?P b \<longleftrightarrow> s < boundary" using assms(4,5) by (simp add: superseded_def)
  have rel: "release_superseded t ?k i (tb_digest b) boundary d = Inr (x \<noteq> None, d')"
    if "update_affinity ?k ?P (freed_binding t) d = Inr (x, d')" for x d'
    using that assms(6-8) by (simp add: release_superseded_def)
  show ?thesis
  proof (cases "s < boundary")
    case True
    with update_freed [OF inv, of ?k ?P t] b P obtain y d' where
      u: "update_affinity ?k ?P (freed_binding t) d = Inr (Some y, d')" by blast
    have inv': "thread_inv d'" by (rule update_inv [OF inv u quiet_updates(4)])
    have f: "freed_binding t b \<in> set (td_affinities d')" "tb_key (freed_binding t b) = ?k"
      using update_row [OF inv b u] b(2) by (simp_all add: freed_binding_def)
    have "release_operation t' c d' = Inl ThreadAffinityBusy"
      using release_cases [OF inv', of c t']
    proof (elim disjE bexE conjE)
      fix r assume r: "r \<in> set (td_affinities d')" "tb_key r = ?k" "tb_operation r = Some (oc_operation c)"
      have "r = freed_binding t b" by (rule one_binding [OF inv' r(1) f(1)]) (simp add: r f)
      with r(3) show ?thesis by (simp add: freed_binding_def)
    qed
    with rel [OF u] True show ?thesis by simp
  next
    case False
    with update_freed [OF inv, of ?k ?P t] one P
    have "update_affinity ?k ?P (freed_binding t) d = Inr (None, d)" by blast
    from rel [OF this] False show ?thesis by simp
  qed
qed

theorem older_operation_is_superseded_witness:
  "\<exists>d'. release_superseded 60 ctx ''dev1'' prompt_a 50 (with_threads [claimed_binding 30 ''dev1'' ''o1'' row_a] [])
    = Inr (True, d')"
proof -
  let ?c = "\<lparr>oc_key = ctx, oc_operation = ''o1'', oc_instance = ''dev1'', oc_digest = prompt_a, oc_started = 30\<rparr>"
  let ?d = "with_threads [claimed_binding 30 ''dev1'' ''o1'' row_a] []"
  have "read_binding (oc_key ?c) ?d = Inr (Some (claimed_binding 30 ''dev1'' ''o1'' row_a))"
    "exact ''dev1'' = Inr ''dev1''" "authorized ?d (oc_key ?c) ''dev1''"
    "prompt_digest (tb_digest (claimed_binding 30 ''dev1'' ''o1'' row_a)) = Inr (tb_digest (claimed_binding 30 ''dev1'' ''o1'' row_a))"
    by code_simp+
  with older_operation_is_superseded [OF sample_bound(1) sample_busy, of ?c "claimed_binding 30 ''dev1'' ''o1'' row_a" 30 "''dev1''" 60 50 60]
  show ?thesis by (auto simp: claimed_binding_def row_a_def new_binding_def)
qed

end
