(* ===== verification/Guardrails.thy ===== *)
theory Guardrails
  imports PackageResolver
begin

text \<open>
  \<open>behavioral_guardrails.py\<close>: a configuration with roles or flows is only released when its policy
  lists the required phrases, its prompt texts contain them, and each of three scenarios expects the
  action that the rules demand. \<open>str.casefold\<close> is written out for characters below 256, except that
  the micro sign, whose image lies above, is left alone; no required phrase contains either.
\<close>

section \<open>Values\<close>

definition required_scenarios :: "string list" where
  "required_scenarios = [''simple'', ''ambiguous'', ''over-engineered'']"

definition required_phrases :: "string list" where
  "required_phrases = [''do not over-engineer'', ''prefer the smallest reliable solution'',
     ''mature existing tools'', ''fewest necessary handoffs'',
     ''ask the sponsor when material intent is ambiguous'']"

definition policy_fields :: "string list" where
  "policy_fields = [''schema_version'', ''policy_id'', ''prompt_requirements'', ''scenarios'']"

definition scenario_fields :: "string list" where
  "scenario_fields = [''id'', ''description'', ''facts'', ''expected_action'']"

definition fact_fields :: "string list" where
  "fact_fields = [''material_ambiguity'', ''mature_reuse_available'', ''avoidable_custom_components'',
     ''necessary_handoffs'', ''proposed_handoffs'']"

record scenario_result =
  sc_id :: string
  sc_expected :: string
  sc_observed :: string

record guardrail_evaluation =
  ge_applicable :: bool
  ge_policy :: "string option"
  ge_scenarios :: "scenario_result list"

definition same_fields :: "(string \<times> json) list \<Rightarrow> string list \<Rightarrow> bool" where
  "same_fields m fs = (set (map fst m) = set fs)"

definition object_of :: "json \<Rightarrow> (string \<times> json) list res" where
  "object_of v = of_row BehavioralGuardrailError (as_obj v)"

fun non_negative_integer :: "json \<Rightarrow> int res" where
  "non_negative_integer (JInt n) = (if n < 0 then Inl BehavioralGuardrailError else Inr n)"
| "non_negative_integer _ = Inl BehavioralGuardrailError"

fun boolean_of :: "json \<Rightarrow> bool res" where
  "boolean_of (JBool b) = Inr b"
| "boolean_of _ = Inl BehavioralGuardrailError"

section \<open>The rules\<close>

definition demanded_action :: "bool \<Rightarrow> int \<Rightarrow> int \<Rightarrow> int \<Rightarrow> string" where
  "demanded_action ambiguous custom necessary proposed = (if ambiguous then ''ask_sponsor''
     else if 0 < custom \<or> necessary < proposed then ''simplify'' else ''proceed'')"

definition decide_scenario_action :: "(string \<times> json) list \<Rightarrow> string res" where
  "decide_scenario_action facts =
     bindR (ensure (same_fields facts fact_fields) BehavioralGuardrailError) (\<lambda>_.
     bindR (boolean_of (get facts ''material_ambiguity'')) (\<lambda>ambiguous.
     bindR (boolean_of (get facts ''mature_reuse_available'')) (\<lambda>reuse.
     bindR (non_negative_integer (get facts ''avoidable_custom_components'')) (\<lambda>custom.
     bindR (non_negative_integer (get facts ''necessary_handoffs'')) (\<lambda>necessary.
     bindR (non_negative_integer (get facts ''proposed_handoffs'')) (\<lambda>proposed.
     bindR (ensure (necessary \<le> proposed) BehavioralGuardrailError) (\<lambda>_.
     bindR (ensure (\<not> (0 < custom \<and> \<not> reuse)) BehavioralGuardrailError) (\<lambda>_.
     Inr (demanded_action ambiguous custom necessary proposed)))))))))"

section \<open>Texts\<close>

definition casefold_char :: "char \<Rightarrow> string" where
  "casefold_char c = (let n = (of_char c :: nat) in
     if 65 \<le> n \<and> n \<le> 90 \<or> 192 \<le> n \<and> n \<le> 222 \<and> n \<noteq> 215 then [char_of (n + 32)]
     else if n = 223 then ''ss'' else [c])"

lemma casefold_char_code [code]: "casefold_char (Char b0 b1 b2 b3 b4 b5 b6 b7) =
    (if b6 \<and> \<not> b5 \<and> (if b7 then \<not> (b4 \<and> b2 \<and> b1 \<and> b0) else upper_char (Char b0 b1 b2 b3 b4 b5 b6 b7))
     then [Char b0 b1 b2 b3 b4 True b6 b7]
     else if b7 \<and> b6 \<and> \<not> b5 \<and> b3 then ''ss'' else [Char b0 b1 b2 b3 b4 b5 b6 b7])"
  by (cases b7; cases b6; cases b5; cases b4; cases b3; cases b2; cases b1; cases b0;
      simp add: casefold_char_def upper_char_def Let_def char_of_def bit_0)

definition casefold :: "string \<Rightarrow> string" where
  "casefold s = concat (map casefold_char s)"

text \<open>\<open>str.split()\<close>, with the word being read in reverse.\<close>

fun split_words :: "string \<Rightarrow> string \<Rightarrow> string list" where
  "split_words w [] = (if w = [] then [] else [rev w])"
| "split_words w (c # cs) = (if py_space c then (if w = [] then split_words [] cs else rev w # split_words [] cs)
     else split_words (c # w) cs)"

fun join_words :: "string list \<Rightarrow> string" where
  "join_words [] = []"
| "join_words [w] = w"
| "join_words (w # ws) = w @ '' '' @ join_words ws"

fun begins :: "string \<Rightarrow> string \<Rightarrow> bool" where
  "begins [] s = True"
| "begins (a # p) [] = False"
| "begins (a # p) (c # cs) = (a = c \<and> begins p cs)"

fun contains :: "string \<Rightarrow> string \<Rightarrow> bool" where
  "contains p [] = (p = [])"
| "contains p (c # cs) = (begins p (c # cs) \<or> contains p cs)"

definition effective_text :: "text_section list \<Rightarrow> string" where
  "effective_text ss = join_words (map (\<lambda>s. join_words (split_words [] (casefold (ts_text s)))) ss)"

section \<open>The evaluation\<close>

definition requirements_ok :: "json \<Rightarrow> bool" where
  "requirements_ok v = (case as_list v of None \<Rightarrow> False
     | Some vs \<Rightarrow> (case strings_of v of None \<Rightarrow> False
        | Some items \<Rightarrow> list_all (\<lambda>s. strip s \<noteq> []) items \<and> distinct items
            \<and> set items = set required_phrases))"

text \<open>\<open>expected not in {...}\<close> hashes the value, which a list or an object does not allow.\<close>

definition expected_action :: "json \<Rightarrow> string res" where
  "expected_action v = (case v of
     JStr a \<Rightarrow> if a \<in> set [''proceed'', ''ask_sponsor'', ''simplify''] then Inr a else Inl BehavioralGuardrailError
   | JList _ \<Rightarrow> Inl TypeError | JObj _ \<Rightarrow> Inl TypeError
   | _ \<Rightarrow> Inl BehavioralGuardrailError)"

definition check_scenario :: "json \<Rightarrow> scenario_result res" where
  "check_scenario v = bindR (object_of v) (\<lambda>m.
     bindR (ensure (same_fields m scenario_fields) BehavioralGuardrailError) (\<lambda>_.
     bindR (of_row BehavioralGuardrailError (as_str (get m ''id''))) (\<lambda>i.
     bindR (of_row BehavioralGuardrailError (as_str (get m ''description''))) (\<lambda>descr.
     bindR (ensure (strip descr \<noteq> []) BehavioralGuardrailError) (\<lambda>_.
     bindR (expected_action (get m ''expected_action'')) (\<lambda>expected.
     bindR (object_of (get m ''facts'')) (\<lambda>facts.
     bindR (decide_scenario_action facts) (\<lambda>observed.
     bindR (ensure (observed = expected) BehavioralGuardrailError) (\<lambda>_.
     Inr \<lparr>sc_id = i, sc_expected = expected, sc_observed = observed\<rparr>)))))))))"

definition check_policy :: "text_section list \<Rightarrow> (string \<times> json) list \<Rightarrow> guardrail_evaluation res" where
  "check_policy sections policy =
     bindR (ensure (same_fields policy policy_fields) BehavioralGuardrailError) (\<lambda>_.
     bindR (ensure (eq_int (get policy ''schema_version'') 1
         \<and> get policy ''policy_id'' = JStr ''simplicity-and-ambiguity'') BehavioralGuardrailError) (\<lambda>_.
     bindR (ensure (requirements_ok (get policy ''prompt_requirements'')) BehavioralGuardrailError) (\<lambda>_.
     bindR (ensure (list_all (\<lambda>p. contains p (effective_text sections)) required_phrases)
         BehavioralGuardrailError) (\<lambda>_.
     bindR (of_row BehavioralGuardrailError (as_list (get policy ''scenarios''))) (\<lambda>scenarios.
     bindR (mapR check_scenario scenarios) (\<lambda>results.
     bindR (ensure (set (map sc_id results) = set required_scenarios \<and> length results = 3)
         BehavioralGuardrailError) (\<lambda>_.
     Inr \<lparr>ge_applicable = True, ge_policy = Some ''simplicity-and-ambiguity'', ge_scenarios = results\<rparr>)))))))"

definition evaluate_behavioral_guardrails :: "resolved_configuration \<Rightarrow> guardrail_evaluation res" where
  "evaluate_behavioral_guardrails c = (let settings = rc_settings c in
     if map_of settings ''role'' = None \<and> map_of settings ''flow'' = None
     then Inr \<lparr>ge_applicable = False, ge_policy = None, ge_scenarios = []\<rparr>
     else bindR (of_row BehavioralGuardrailError (map_of settings ''behavioral_guardrails'')) (\<lambda>v.
       bindR (object_of v) (check_policy (rc_text_sections c))))"

section \<open>Properties\<close>

lemma decide_scenario_action_Inr:
  assumes "decide_scenario_action facts = Inr a"
  shows "\<exists>ambiguous reuse custom necessary proposed.
     get facts ''material_ambiguity'' = JBool ambiguous \<and> get facts ''mature_reuse_available'' = JBool reuse
   \<and> get facts ''avoidable_custom_components'' = JInt custom \<and> get facts ''necessary_handoffs'' = JInt necessary
   \<and> get facts ''proposed_handoffs'' = JInt proposed \<and> 0 \<le> custom \<and> 0 \<le> necessary \<and> necessary \<le> proposed
   \<and> (0 < custom \<longrightarrow> reuse) \<and> a = demanded_action ambiguous custom necessary proposed"
proof -
  have b: "\<And>v b. boolean_of v = Inr b \<longleftrightarrow> v = JBool b"
    by (case_tac v) auto
  have n: "\<And>v n. non_negative_integer v = Inr n \<longleftrightarrow> v = JInt n \<and> 0 \<le> n"
    by (case_tac v) auto
  from assms show ?thesis
    by (auto simp: decide_scenario_action_def monad_simps b n)
qed

lemma check_scenario_Inr:
  assumes "check_scenario v = Inr x"
  shows "\<exists>m facts. v = JObj m \<and> get m ''id'' = JStr (sc_id x) \<and> get m ''expected_action'' = JStr (sc_expected x)
    \<and> sc_observed x = sc_expected x \<and> get m ''facts'' = JObj facts \<and> decide_scenario_action facts = Inr (sc_expected x)"
proof -
  have e: "\<And>v a. expected_action v = Inr a \<Longrightarrow> v = JStr a"
    by (auto simp: expected_action_def split: json.splits if_splits)
  from assms show ?thesis by (auto simp: check_scenario_def object_of_def monad_simps dest: e)
qed

lemma check_policy_Inr:
  assumes "check_policy sections policy = Inr ev"
  shows "\<exists>scenarios. get policy ''scenarios'' = JList scenarios \<and> mapR check_scenario scenarios = Inr (ge_scenarios ev)
    \<and> ge_applicable ev \<and> (\<forall>p\<in>set required_phrases. contains p (effective_text sections))
    \<and> set (map sc_id (ge_scenarios ev)) = set required_scenarios \<and> length (ge_scenarios ev) = 3"
  using assms by (auto simp: check_policy_def monad_simps list_all_iff)

text \<open>A list as expected action is not reported as an error of the policy.\<close>

lemma list_action_is_a_type_error: "expected_action (JList l) = Inl TypeError"
  by (simp add: expected_action_def)

text \<open>C39. A role or flow is only released with complete guardrails: when the evaluation succeeds, the
  prompt texts taken together contain every required phrase, the policy has just the three required
  scenarios, and each expects what the rules demand of its facts: to ask the sponsor exactly when
  intent is ambiguous, and to proceed only with nothing that could be left out.\<close>

theorem guardrails_are_complete:
  assumes "evaluate_behavioral_guardrails c = Inr ev"
    and "map_of (rc_settings c) ''role'' \<noteq> None \<or> map_of (rc_settings c) ''flow'' \<noteq> None"
  shows "(\<forall>p\<in>set required_phrases. contains p (effective_text (rc_text_sections c)))
    \<and> (\<exists>policy scenarios. get (rc_settings c) ''behavioral_guardrails'' = JObj policy
       \<and> get policy ''scenarios'' = JList scenarios \<and> length scenarios = 3
       \<and> set (map (\<lambda>s. get s ''id'') (List.map_filter as_obj scenarios)) = JStr ` set required_scenarios
       \<and> (\<forall>s\<in>set scenarios. \<exists>m facts a ambiguous custom necessary proposed. s = JObj m
           \<and> get m ''facts'' = JObj facts \<and> get m ''expected_action'' = JStr a
           \<and> get facts ''material_ambiguity'' = JBool ambiguous \<and> (a = ''ask_sponsor'' \<longleftrightarrow> ambiguous)
           \<and> get facts ''avoidable_custom_components'' = JInt custom
           \<and> get facts ''necessary_handoffs'' = JInt necessary \<and> get facts ''proposed_handoffs'' = JInt proposed
           \<and> (a = ''proceed'' \<longleftrightarrow> \<not> ambiguous \<and> custom = 0 \<and> proposed = necessary)))"
proof -
  from assms obtain policy where p: "get (rc_settings c) ''behavioral_guardrails'' = JObj policy"
    and c: "check_policy (rc_text_sections c) policy = Inr ev"
    by (auto simp: evaluate_behavioral_guardrails_def object_of_def Let_def get_def get_or_def monad_simps)
  obtain scenarios where s: "get policy ''scenarios'' = JList scenarios"
    and m: "list_all2 (\<lambda>s x. check_scenario s = Inr x) scenarios (ge_scenarios ev)"
    and ph: "\<forall>p\<in>set required_phrases. contains p (effective_text (rc_text_sections c))"
    and ids: "set (map sc_id (ge_scenarios ev)) = set required_scenarios" "length (ge_scenarios ev) = 3"
    using check_policy_Inr [OF c] by (auto simp: mapR_Inr_iff)
  have left: "\<exists>y. P x y" if "list_all2 P xs ys" "x \<in> set xs" for P :: "json \<Rightarrow> scenario_result \<Rightarrow> bool" and xs ys x
    using that by (induction rule: list_all2_induct) auto
  have "map (\<lambda>s. get s ''id'') (List.map_filter as_obj xs) = map (JStr \<circ> sc_id) ys"
    if "list_all2 (\<lambda>s x. check_scenario s = Inr x) xs ys" for xs ys
    using that by (induction rule: list_all2_induct) (auto simp: List.map_filter_simps dest!: check_scenario_Inr)
  from this [OF m] have "set (map (\<lambda>s. get s ''id'') (List.map_filter as_obj scenarios)) = JStr ` set required_scenarios"
    using ids(1) by (metis image_comp list.set_map)
  moreover have "\<exists>m facts a ambiguous custom necessary proposed. v = JObj m
      \<and> get m ''facts'' = JObj facts \<and> get m ''expected_action'' = JStr a
      \<and> get facts ''material_ambiguity'' = JBool ambiguous \<and> (a = ''ask_sponsor'' \<longleftrightarrow> ambiguous)
      \<and> get facts ''avoidable_custom_components'' = JInt custom
      \<and> get facts ''necessary_handoffs'' = JInt necessary \<and> get facts ''proposed_handoffs'' = JInt proposed
      \<and> (a = ''proceed'' \<longleftrightarrow> \<not> ambiguous \<and> custom = 0 \<and> proposed = necessary)" if v: "v \<in> set scenarios" for v
  proof -
    from left [OF m v] obtain x where "check_scenario v = Inr x" by blast
    then obtain m' facts where m': "v = JObj m'" "get m' ''expected_action'' = JStr (sc_expected x)"
      "get m' ''facts'' = JObj facts" "decide_scenario_action facts = Inr (sc_expected x)"
      by (blast dest: check_scenario_Inr)
    obtain am cu ne pr where f: "get facts ''material_ambiguity'' = JBool am"
      "get facts ''avoidable_custom_components'' = JInt cu" "get facts ''necessary_handoffs'' = JInt ne"
      "get facts ''proposed_handoffs'' = JInt pr" "0 \<le> cu" "ne \<le> pr" "sc_expected x = demanded_action am cu ne pr"
      using decide_scenario_action_Inr [OF m'(4)] by blast
    from f(5-7) have "(sc_expected x = ''ask_sponsor'' \<longleftrightarrow> am)
        \<and> (sc_expected x = ''proceed'' \<longleftrightarrow> \<not> am \<and> cu = 0 \<and> pr = ne)"
      by (auto simp: demanded_action_def)
    with m'(1-3) f(1-4) show ?thesis
      by (intro exI [of _ m'] exI [of _ facts] exI [of _ "sc_expected x"] exI [of _ am] exI [of _ cu]
          exI [of _ ne] exI [of _ pr]) simp
  qed
  moreover have "length scenarios = 3" using m ids(2) by (simp add: list_all2_lengthD)
  ultimately show ?thesis using p s ph by blast
qed

definition sample_scenario :: "string \<Rightarrow> string \<Rightarrow> bool \<Rightarrow> int \<Rightarrow> json" where
  "sample_scenario i a ambiguous custom = JObj [(''id'', JStr i), (''description'', JStr ''d''),
     (''facts'', JObj [(''material_ambiguity'', JBool ambiguous), (''mature_reuse_available'', JBool True),
        (''avoidable_custom_components'', JInt custom), (''necessary_handoffs'', JInt 1),
        (''proposed_handoffs'', JInt 1)]), (''expected_action'', JStr a)]"

definition sample_configuration :: resolved_configuration where
  "sample_configuration = \<lparr>rc_digest = [], rc_packages = [],
     rc_settings = [(''role'', JObj []), (''behavioral_guardrails'', JObj [(''schema_version'', JInt 1),
       (''policy_id'', JStr ''simplicity-and-ambiguity''),
       (''prompt_requirements'', JList (map JStr required_phrases)),
       (''scenarios'', JList [sample_scenario ''simple'' ''proceed'' False 0,
          sample_scenario ''ambiguous'' ''ask_sponsor'' True 1,
          sample_scenario ''over-engineered'' ''simplify'' False 2])])],
     rc_text_sections = map (\<lambda>p. \<lparr>ts_package = [], ts_path = [], ts_text = p\<rparr>) required_phrases,
     rc_provenance = []\<rparr>"

lemma sample_guardrails: "\<exists>ev. evaluate_behavioral_guardrails sample_configuration = Inr ev"
proof -
  have "case evaluate_behavioral_guardrails sample_configuration of Inl e \<Rightarrow> False | Inr ev \<Rightarrow> True"
    by code_simp
  then show ?thesis by (auto split: sum.splits)
qed

theorem guardrails_are_complete_witness:
  "\<exists>policy. get (rc_settings sample_configuration) ''behavioral_guardrails'' = JObj policy
     \<and> (\<forall>p\<in>set required_phrases. contains p (effective_text (rc_text_sections sample_configuration)))"
proof -
  obtain ev where ev: "evaluate_behavioral_guardrails sample_configuration = Inr ev"
    using sample_guardrails by blast
  have "map_of (rc_settings sample_configuration) ''role'' \<noteq> None \<or> map_of (rc_settings sample_configuration) ''flow'' \<noteq> None"
    by (simp add: sample_configuration_def)
  from guardrails_are_complete [OF ev this] show ?thesis by blast
qed

end
