(* ===== verification/Spec2Isabelle.thy ===== *)
theory Spec2Isabelle
  imports QueueProperties LifecycleProperties FlowDefinitionProperties FlowProperties RecoveryProperties
    GovernanceProperties SponsorProperties PackageProperties
    ThreadProperties Guardrails
begin

text \<open>
  The control plane of the V5 runtime of agentic-mesh (\<open>src/src/agentic_mesh_v5\<close>).

  \<^bold>\<open>The program.\<close> A project's work items are done by roles, each with a queue and running
  instances. All durable state is in one Postgres database; every component is a class whose
  methods run short transactions over its tables. Work is put into queues (\<open>routing.py\<close>), taken
  under leases (\<open>queues.py\<close>), and passed on by handoffs that the receiver must accept
  (\<open>handoffs.py\<close>). The life of a work item with its gates and approvals is \<open>lifecycle.py\<close>, its way
  through the states of a configured flow \<open>flow_engine.py\<close> over \<open>flow_definition.py\<close>, with the
  evidence for the obligations of a state recorded by \<open>governance.py\<close>, or for the gates reserved for
  the project's sponsors by \<open>sponsor_approvals.py\<close>. Work that fails goes through
  the retry chain of \<open>reliability.py\<close>, whose last link is an independent supervisor,
  \<open>recovery_supervisor.py\<close>. Every change is appended to the journal with its outgoing messages
  (\<open>events.py\<close>), in the transaction that makes it. Flows and roles are read from configuration
  packages, which \<open>package_resolver.py\<close> resolves and \<open>behavioral_guardrails.py\<close> examines before a
  release. The worker of a role does its turns in a thread of the provider, one for each context of
  work item, role and conversation, as \<open>thread_affinity.py\<close> assigns them.

  \<^bold>\<open>Theories.\<close>
  \<^item> \<open>Prelude\<close>: exceptions, sequencing, tables, identifiers, and the two interfaces the state
    machines share: \<open>invariant_system\<close> (a step relation that keeps an invariant) and
    \<open>keyed_requests\<close> (requests with an idempotency key). \<open>PyJson\<close>: JSON values and \<open>json.dumps\<close>.
    \<open>Secrets\<close>: the content filter of \<open>progress.py\<close>. \<open>Store\<close>: the rows of all tables and the record
    \<open>db\<close> of the whole database.
  \<^item> \<open>Queues\<close>, \<open>Routing\<close>, \<open>Handoffs\<close>: the three modules of these names, one definition per method
    or transaction, named as there. \<open>Coordination\<close>, \<open>ItemLife\<close>, \<open>Requests\<close>: their transactions as
    one system, its invariants, the abstract life of a queue item that they implement, the
    idempotency of routing and offering. \<open>QueueProperties\<close>: what follows for a caller.
  \<^item> \<open>Events\<close>, \<open>Lifecycle\<close>, \<open>SponsorApprovals\<close>, \<open>LifecycleSystem\<close>, \<open>LifecycleProperties\<close>: journal,
    outbox and dispatcher; work items, gates, approvals, the gates of a flow that sponsors decide;
    invariants and consequences.
  \<^item> \<open>FlowDefinition\<close> and \<open>FlowDefinitionProperties\<close>: parsing and validation of flows, the search for
    unreachable states with its termination, route choice. \<open>FlowEngine\<close>, \<open>FlowSystem\<close>,
    \<open>FlowRequests\<close>, \<open>FlowSamples\<close>, \<open>FlowProperties\<close>: the engine transaction by transaction, the
    abstract machine \<open>flow_move\<close> a run follows, replay of operations.
  \<^item> \<open>Governance\<close>, \<open>GateSystem\<close>, \<open>GovernanceSystem\<close>, \<open>GovernanceProperties\<close>, \<open>SponsorProperties\<close>:
    verified artifacts, consultations and gate decisions; together with lifecycle, sponsors and flow
    engine, what stands behind a state that is left; what the decision of a sponsor does.
  \<^item> \<open>Reliability\<close>, \<open>Supervisor\<close>, \<open>RecoverySystem\<close>, \<open>RecoverySamples\<close>, \<open>RecoveryProperties\<close>: incidents,
    attempts and recovery requests; claiming, reporting and reconciling recoveries; the chain
    \<open>chain_move\<close> every incident follows, one move labelled with its attempt per transaction.
  \<^item> \<open>PackageResolver\<close>, \<open>PackageSearch\<close>, \<open>PackageProperties\<close>: loading and merging of configuration
    packages from a disk and a decoder that may raise; the dependency search, by the interface \<open>package_source\<close>, with its termination and
    the order of what it finds; what holds of a resolved configuration.
  \<^item> \<open>Guardrails\<close>: the policy a resolved configuration with roles or flows must contain.
  \<^item> \<open>ThreadAffinity\<close>, \<open>ThreadSystem\<close>, \<open>ThreadProperties\<close>: bindings of contexts to threads, claims of
    operations, reseeds, the coordinator's run; the single writes its transactions consist of, their
    invariant and the life of a binding; what holds for a caller.
  \<^item> \<open>Samples\<close>: a project with two roles, on which the properties are instantiated.

  \<^bold>\<open>Conventions.\<close> A method maps arguments and database to \<open>exn + result \<times> database\<close>; an exception is
  its class, every \<open>except\<close> clause lets the classes pass that it does not name, and a transaction that raises leaves the database as it was. Transactions are atomic
  and follow one another; a method of several transactions appears in the step relations as its
  transactions, with arbitrary arguments, so crashes and other processes in between are among
  the runs. What a transaction of a component that is not modelled may do to the tables of a
  system is the step \<open>other\<close> of its step relation. The clock readings of a transaction are
  parameters, one for each statement that reads the clock where a later statement stores what an earlier one
  compared (a report reads it three times, see \<open>supervisor_report_tx\<close>), else one for the transaction; times
  are microseconds; generated ids are parameters; so is SHA-256, \<open>sha\<close>, and
  the predicate \<open>locked\<close> for the rows that \<open>SKIP LOCKED\<close> passes over. Text is compared by code
  points, as in the \<open>C\<close> collation; characters are below 256. UNIQUE, CHECK and FOREIGN KEY
  constraints a statement can violate are checks of that statement. Integers are unbounded except
  where a column can overflow on input that the code lets through.

  \<^bold>\<open>Lemmas.\<close> Each system has an invariant (\<open>coord_inv\<close>, \<open>work_inv\<close>, \<open>flow_inv\<close>, \<open>governance_inv\<close>,
  \<open>recovery_inv\<close>, \<open>thread_inv\<close>) kept by every step, by one lemma per transaction over a description of what its
  statements do (the lemmas named \<open>..._Inr\<close>); relations \<open>keeps_...\<close> say what a step preserves of a
  row and are carried over whole runs by \<open>runs_rel\<close> of \<open>invariant_system\<close>. The interpretations of
  \<open>keyed_requests\<close> give the replay properties.

  \<^bold>\<open>Bounds.\<close> No fuel is used: the resolver's search, a partial function, is proved to return; the
  search of \<open>explore\<close> ends because each step visits a state or shortens the worklist; \<open>expire_runs\<close> and \<open>apply_results\<close> follow the list that a query returned.

  \<^bold>\<open>Not modelled.\<close> Messages of exceptions; audit records, which are only written; the triggers of the
  maintenance pause; gaps of identity columns after a rollback; connection failures; the SQL
  \<open>CHECK\<close>s that digests are 64 hexadecimal digits. \<open>CommandRecoveryLauncher\<close> runs a subprocess: the
  launcher is a parameter. The document store is a service: \<open>stat\<close> is a parameter. The
  provider of threads and the pool of its engines are parameters too, and what happens to the thread
  tables during a run's calls is assumed to be steps of the system.
  The limit of Python on the depth of a recursion in the resolver itself, which a chain of about a thousand
  packages meets (\<open>json.loads\<close> may raise for it), and texts with lone surrogates, for which the digest
  of a configuration cannot be encoded. Outside this
  library are the HTTP API and command line, the clients of Azure DevOps, Teams, Codex and git,
  deployment and migrations, which are input and output around the stores, and for now the
  components listed as not modelled in the manifest (usage, continuation, shared memory, warm engines, fleet scaling, imports).
\<close>

end
